(* ===== verification/Bitar_Prelude.thy ===== *)
theory Bitar_Prelude
  imports Main "HOL-Library.Word"
begin

text \<open>
  The vocabulary every component shares: the machine integers of the C++ code, the
  status values of the library's functions, the faults that end a C++ execution
  outside the language's defined behaviour, and the generic lemmas on lists, division
  and words that the component theories use.

  A function of the library that returns \<open>arrow::Status\<close> is modelled with result type
  \<open>unit result\<close>, one that returns \<open>arrow::Result<T>\<close> with \<open>'t result\<close>. An
  unsuccessful status is \<open>Inl (Status code message)\<close>, where \<open>message\<close> is the literal
  text of the source up to its first formatted value. \<open>Inl (Fault f)\<close> is no value of
  the C++ program: it marks the executions in which the code dereferences a null
  pointer, divides by zero, overflows a signed integer, leaves an array or fails an
  \<open>ARROW_CHECK\<close>, so that the absence of such executions can be stated and proved.
\<close>

unbundle bit_operations_syntax

subsection \<open>Machine integers and pointers\<close>

type_synonym u8 = "8 word"
type_synonym u16 = "16 word"
type_synonym u32 = "32 word"
type_synonym u64 = "64 word"

text \<open>Addresses of bytes; \<open>0\<close> is the null pointer.\<close>

type_synonym addr = nat

abbreviation (input) nullptr :: addr where
  "nullptr \<equiv> 0"

lemma unat_u8_less: "unat (w :: u8) < 256"
  using unsigned_less [of w] by simp

lemma unat_u16_less: "unat (w :: u16) < 65536"
  using unsigned_less [of w] by simp

lemma unat_u32_less: "unat (w :: u32) < 4294967296"
  using unsigned_less [of w] by simp

lemma unat_exp: "j < LENGTH('a) \<Longrightarrow> unat (2 ^ j :: 'a::len word) = 2 ^ j"
  using unat_of_nat [of "2 ^ j", where 'a = 'a] by simp

lemma and_exp_eq_0_iff_bit: "(2 ^ k :: 'a::len word) AND w = 0 \<longleftrightarrow> \<not> (k < LENGTH('a) \<and> bit w k)"
proof -
  have "bit (2 ^ k AND w) i \<longleftrightarrow> i = k \<and> k < LENGTH('a) \<and> bit w k" for i
    by (auto simp: bit_and_iff bit_exp_iff)
  then show ?thesis
    by (metis bit_0_eq bot_apply bot_bool_def bit_eqI)
qed

lemma bit_top_iff:
  fixes w :: "'a::len word"
  assumes "unat w < 2 ^ Suc k"
  shows "bit w k \<longleftrightarrow> 2 ^ k \<le> unat w"
proof -
  have "bit w k \<longleftrightarrow> odd (unat w div 2 ^ k)"
    by (metis bit_iff_odd bit_unsigned_iff possible_bit_nat)
  moreover have "unat w div 2 ^ k < 2"
    using assms by (simp add: less_mult_imp_div_less mult.commute)
  then have "odd (unat w div 2 ^ k) \<longleftrightarrow> unat w div 2 ^ k = 1"
    by (auto simp: less_2_cases_iff)
  moreover have "unat w div 2 ^ k = 0 \<longleftrightarrow> unat w < 2 ^ k"
    by (simp add: div_eq_0_iff)
  then have "unat w div 2 ^ k = 1 \<longleftrightarrow> 2 ^ k \<le> unat w"
    using \<open>unat w div 2 ^ k < 2\<close> by linarith
  ultimately show ?thesis by simp
qed

lemma drop_bit_1_exp: "Suc k < LENGTH('a::len) \<Longrightarrow> drop_bit (Suc 0) (2 ^ Suc k :: 'a word) = 2 ^ k"
  by (rule bit_eqI) (auto simp: bit_drop_bit_eq bit_exp_iff simp del: power_Suc)

text \<open>The values a C++ \<open>int\<close> (32 bits, two's complement) can represent.\<close>

definition int32_ok :: "int \<Rightarrow> bool" where
  "int32_ok i \<longleftrightarrow> - (2 ^ 31) \<le> i \<and> i < 2 ^ 31"

subsection \<open>Status codes, statuses and faults\<close>

datatype status_code =
    SC_OK
  | OutOfMemory
  | Invalid
  | IOError
  | CapacityError
  | Cancelled
  | UnknownError
  | NotImplemented

datatype fault =
    NullDereference
  | DivisionByZero
  | SignedOverflow
  | FloatConversion
  | OutOfBounds
  | CheckFailed
  | Panic string
  | UncaughtException string

datatype error = Status status_code string | Fault fault

type_synonym 'a result = "error + 'a"

abbreviation OK :: "unit result" where
  "OK \<equiv> Inr ()"

fun is_fault :: "'a result \<Rightarrow> bool" where
  "is_fault (Inl (Fault f)) = True"
| "is_fault _ = False"

fun is_ok :: "'a result \<Rightarrow> bool" where
  "is_ok (Inr v) = True"
| "is_ok (Inl e) = False"

lemma is_ok_iff: "is_ok r \<longleftrightarrow> (\<exists>v. r = Inr v)"
  by (cases r) auto

subsection \<open>Code that may return early\<close>

text \<open>
  A piece of code over a state: it ends with a value, or early with an error; the
  state it has reached is kept either way. \<open>seq m f\<close> runs \<open>m\<close> and then \<open>f\<close> on its value,
  unless \<open>m\<close> returned early.
\<close>

type_synonym ('s, 'a) code = "'s \<Rightarrow> 'a result \<times> 's"

definition return :: "'a \<Rightarrow> ('s, 'a) code" where
  "return x = (\<lambda>s. (Inr x, s))"

definition throw :: "error \<Rightarrow> ('s, 'a) code" where
  "throw e = (\<lambda>s. (Inl e, s))"

definition seq :: "('s, 'a) code \<Rightarrow> ('a \<Rightarrow> ('s, 'b) code) \<Rightarrow> ('s, 'b) code" where
  "seq m f = (\<lambda>s. case m s of (Inl e, s) \<Rightarrow> (Inl e, s) | (Inr x, s) \<Rightarrow> f x s)"

definition get :: "('s \<Rightarrow> 'a) \<Rightarrow> ('s, 'a) code" where
  "get f = (\<lambda>s. (Inr (f s), s))"

definition modify :: "('s \<Rightarrow> 's) \<Rightarrow> ('s, unit) code" where
  "modify f = (\<lambda>s. (OK, f s))"

definition guard :: "bool \<Rightarrow> fault \<Rightarrow> ('s, unit) code" where
  "guard b f = (if b then return () else throw (Fault f))"

text \<open>Following a pointer that may be null, and reading an array at an index.\<close>

definition deref :: "'a option \<Rightarrow> ('s, 'a) code" where
  "deref p = (case p of None \<Rightarrow> throw (Fault NullDereference) | Some x \<Rightarrow> return x)"

definition array_at :: "'a list \<Rightarrow> nat \<Rightarrow> ('s, 'a) code" where
  "array_at xs i = (if i < length xs then return (xs ! i) else throw (Fault OutOfBounds))"

text \<open>Overwriting the elements of an array from an index on.\<close>

definition overwrite :: "'a list \<Rightarrow> nat \<Rightarrow> 'a list \<Rightarrow> 'a list" where
  "overwrite xs i ys = take i xs @ ys @ drop (i + length ys) xs"

lemma code_simps [simp]:
  "return x s = (Inr x, s)"
  "throw e s = (Inl e, s)"
  "get f s = (Inr (f s), s)"
  "modify g s = (OK, g s)"
  "guard True ft = return ()" "guard False ft = throw (Fault ft)"
  "deref None = throw (Fault NullDereference)" "deref (Some y) = return y"
  by (simp_all add: return_def throw_def get_def modify_def guard_def deref_def)

lemma seq_eq:
  "m s = (Inr x, t) \<Longrightarrow> seq m f s = f x t"
  "m s = (Inl e, t) \<Longrightarrow> seq m f s = (Inl e, t)"
  by (simp_all add: seq_def)

lemma seq_simps [simp]:
  "seq (return x) f = f x"
  "seq (throw e) f' = throw e"
  "seq (get g) h s = h (g s) s"
  "seq (modify k) j s = j () (k s)"
  by (simp_all add: seq_def return_def throw_def get_def modify_def)

lemma seq_assoc: "seq (seq m f) g = seq m (\<lambda>x. seq (f x) g)"
  by (auto simp: seq_def split: prod.splits sum.splits)

lemma seq_Inr:
  "seq m f s = (Inr y, u) \<longleftrightarrow> (\<exists>x t. m s = (Inr x, t) \<and> f x t = (Inr y, u))"
  by (auto simp: seq_def split: prod.splits sum.splits)

lemma seq_Inl:
  "seq m f s = (Inl e, u) \<longleftrightarrow> m s = (Inl e, u) \<or> (\<exists>x t. m s = (Inr x, t) \<and> f x t = (Inl e, u))"
  by (auto simp: seq_def split: prod.splits sum.splits)

lemma array_at_in [simp]: "i < length xs \<Longrightarrow> array_at xs i = return (xs ! i)"
  by (simp add: array_at_def)

text \<open>Code with loops that may not end, where \<open>None\<close> stands for never ending.\<close>

type_synonym ('s, 'a) pcode = "'s \<Rightarrow> ('a result \<times> 's) option"

definition total :: "('s, 'a) code \<Rightarrow> ('s, 'a) pcode" where
  "total m = (\<lambda>s. Some (m s))"

definition pseq :: "('s, 'a) pcode \<Rightarrow> ('a \<Rightarrow> ('s, 'b) pcode) \<Rightarrow> ('s, 'b) pcode" where
  "pseq m f = (\<lambda>s. case m s of None \<Rightarrow> None
     | Some (Inl e, s) \<Rightarrow> Some (Inl e, s) | Some (Inr x, s) \<Rightarrow> f x s)"

lemma total_simps [simp]: "total m s = Some (m s)"
  by (simp add: total_def)

lemma pseq_eq:
  "m s = Some (Inr x, t) \<Longrightarrow> pseq m f s = f x t"
  "m s = Some (Inl e, t) \<Longrightarrow> pseq m f s = Some (Inl e, t)"
  by (simp_all add: pseq_def)

lemma pseq_total_seq: "pseq (total m) (\<lambda>x. total (f x)) = total (seq m f)"
  by (auto simp: pseq_def seq_def total_def fun_eq_iff split: prod.splits sum.splits)

lemma pseq_Inr:
  "pseq m f s = Some (Inr y, u) \<longleftrightarrow> (\<exists>x t. m s = Some (Inr x, t) \<and> f x t = Some (Inr y, u))"
  by (auto simp: pseq_def split: option.splits prod.splits sum.splits)

lemma length_overwrite [simp]: "i + length ys \<le> length xs \<Longrightarrow> length (overwrite xs i ys) = length xs"
  by (simp add: overwrite_def)

lemma nth_overwrite:
  "i + length ys \<le> length xs \<Longrightarrow> k < length xs \<Longrightarrow> overwrite xs i ys ! k =
     (if i \<le> k \<and> k < i + length ys then ys ! (k - i) else xs ! k)"
  by (auto simp: overwrite_def nth_append min_def)

subsection \<open>Weakest preconditions\<close>

text \<open>
  \<open>wp m Q E s\<close>: run from \<open>s\<close>, the code \<open>m\<close> ends with a value and a state that satisfy \<open>Q\<close>, or
  early with an error and a state that satisfy \<open>E\<close>. \<open>pwp\<close> says the same of code that may
  not end, of the executions that do.
\<close>

definition wp :: "('s, 'a) code \<Rightarrow> ('a \<Rightarrow> 's \<Rightarrow> bool) \<Rightarrow> (error \<Rightarrow> 's \<Rightarrow> bool) \<Rightarrow> 's \<Rightarrow> bool" where
  "wp m Q E s = (case m s of (Inl e, t) \<Rightarrow> E e t | (Inr x, t) \<Rightarrow> Q x t)"

definition pwp :: "('s, 'a) pcode \<Rightarrow> ('a \<Rightarrow> 's \<Rightarrow> bool) \<Rightarrow> (error \<Rightarrow> 's \<Rightarrow> bool) \<Rightarrow> 's \<Rightarrow> bool" where
  "pwp m Q E s = (case m s of None \<Rightarrow> True | Some (Inl e, t) \<Rightarrow> E e t | Some (Inr x, t) \<Rightarrow> Q x t)"

lemma wp_simps [simp]:
  "wp (seq m f) Q E s = wp m (\<lambda>x. wp (f x) Q E) E s"
  "wp (return a) Q0 E = Q0 a"
  "wp (throw e) Q1 E = E e"
  "wp (get g) Q2 E s = Q2 (g s) s"
  "wp (modify h) Q3 E s = Q3 () (h s)"
  "wp (guard b ft) Q3 E s = ((b \<longrightarrow> Q3 () s) \<and> (\<not> b \<longrightarrow> E (Fault ft) s))"
  "wp (deref p) Q4 E s = ((\<forall>y. p = Some y \<longrightarrow> Q4 y s) \<and> (p = None \<longrightarrow> E (Fault NullDereference) s))"
  "wp (array_at xs i) Q5 E s =
     ((i < length xs \<longrightarrow> Q5 (xs ! i) s) \<and> (length xs \<le> i \<longrightarrow> E (Fault OutOfBounds) s))"
  by (auto simp: fun_eq_iff wp_def seq_def guard_def deref_def array_at_def
      split: prod.splits sum.splits option.splits)

lemma Pair_code [simp]:
  "wp (Pair (Inr a)) Q0 E = Q0 a" "wp (Pair (Inl e)) Q1 E = E e"
  "seq (Pair (Inr x)) f = f x" "seq (Pair (Inl e)) h = Pair (Inl e)"
  by (auto simp: fun_eq_iff wp_def seq_def)

lemma wp_mono:
  "wp m Q E s \<Longrightarrow> (\<And>x t. Q x t \<Longrightarrow> Q' x t) \<Longrightarrow> (\<And>e t. E e t \<Longrightarrow> E' e t) \<Longrightarrow> wp m Q' E' s"
  by (auto simp: wp_def split: prod.splits sum.splits)

lemma wp_conj: "wp m Q E s \<Longrightarrow> wp m Q' E' s \<Longrightarrow> wp m (\<lambda>x t. Q x t \<and> Q' x t) (\<lambda>e t. E e t \<and> E' e t) s"
  by (auto simp: wp_def split: prod.splits sum.splits)

lemma wp_eq:
  "m s = (Inr x, t) \<Longrightarrow> wp m Q E s = Q x t" "m s = (Inl e, t) \<Longrightarrow> wp m Q E s = E e t"
  by (simp_all add: wp_def)

lemma wp_Inr: "wp m Q E s \<Longrightarrow> m s = (Inr x, t) \<Longrightarrow> Q x t"
  by (simp add: wp_def)

lemma wp_Inl: "wp m Q E s \<Longrightarrow> m s = (Inl e, t) \<Longrightarrow> E e t"
  by (simp add: wp_def)

lemma pwp_simps [simp]:
  "pwp (pseq m f) Q E s = pwp m (\<lambda>x. pwp (f x) Q E) E s"
  "pwp (total k) Q0 E = wp k Q0 E"
  by (auto simp: fun_eq_iff pwp_def wp_def pseq_def split: option.splits prod.splits sum.splits)

text \<open>\<open>twp\<close> besides says that the code ends.\<close>

definition twp :: "('s, 'a) pcode \<Rightarrow> ('a \<Rightarrow> 's \<Rightarrow> bool) \<Rightarrow> (error \<Rightarrow> 's \<Rightarrow> bool) \<Rightarrow> 's \<Rightarrow> bool" where
  "twp m Q E s = (m s \<noteq> None \<and> pwp m Q E s)"

lemma twp_simps [simp]:
  "twp (pseq m f) Q E s = twp m (\<lambda>x. twp (f x) Q E) E s"
  "twp (total k) Q0 E = wp k Q0 E"
  by (auto simp: fun_eq_iff twp_def pwp_def wp_def pseq_def split: option.splits prod.splits sum.splits)

lemma twp_mono:
  "twp m Q E s \<Longrightarrow> (\<And>x t. Q x t \<Longrightarrow> Q' x t) \<Longrightarrow> (\<And>e t. E e t \<Longrightarrow> E' e t) \<Longrightarrow> twp m Q' E' s"
  by (auto simp: twp_def pwp_def split: option.splits prod.splits sum.splits)

lemma twp_eq:
  "m s = Some (Inr x, t) \<Longrightarrow> twp m Q E s = Q x t" "m s = Some (Inl e, t) \<Longrightarrow> twp m Q E s = E e t"
  by (simp_all add: twp_def pwp_def)

lemma twp_pwp: "twp m Q E s \<Longrightarrow> pwp m Q E s"
  by (simp add: twp_def)

lemma twp_cases:
  assumes "twp m Q E s"
  obtains (ok) x t where "m s = Some (Inr x, t)" "Q x t"
  | (fail) e t where "m s = Some (Inl e, t)" "E e t"
  using assms by (auto simp: twp_def pwp_def split: option.splits prod.splits sum.splits)

lemma pwp_mono:
  "pwp m Q E s \<Longrightarrow> (\<And>x t. Q x t \<Longrightarrow> Q' x t) \<Longrightarrow> (\<And>e t. E e t \<Longrightarrow> E' e t) \<Longrightarrow> pwp m Q' E' s"
  by (auto simp: pwp_def split: option.splits prod.splits sum.splits)

lemma pwp_eta: "pwp (\<lambda>s. m s) Q E s = pwp m Q E s"
  by (rule refl)

lemma pwp_Inr: "pwp m Q E s \<Longrightarrow> m s = Some (Inr x, t) \<Longrightarrow> Q x t"
  by (simp add: pwp_def)

lemma pwp_Inl: "pwp m Q E s \<Longrightarrow> m s = Some (Inl e, t) \<Longrightarrow> E e t"
  by (simp add: pwp_def)

subsection \<open>Collections of facts\<close>

named_theorems frame_simps \<open>what an operation leaves unchanged\<close>
named_theorems inv_intros \<open>operations that preserve a component's invariant\<close>

subsection \<open>Rounding division up\<close>

definition ceil_div :: "nat \<Rightarrow> nat \<Rightarrow> nat" where
  "ceil_div n d = (n + d - 1) div d"

lemma ceil_div_0 [simp]: "0 < d \<Longrightarrow> ceil_div 0 d = 0"
  by (simp add: ceil_div_def)

lemma ceil_div_le_iff:
  assumes "0 < d"
  shows "ceil_div n d \<le> k \<longleftrightarrow> n \<le> k * d"
proof -
  have "ceil_div n d \<le> k \<longleftrightarrow> (n + d - 1) div d < Suc k"
    by (simp add: ceil_div_def less_Suc_eq_le)
  also have "\<dots> \<longleftrightarrow> n + d - 1 < Suc k * d"
    using assms by (simp add: div_less_iff_less_mult)
  also have "\<dots> \<longleftrightarrow> n \<le> k * d"
    using assms by auto
  finally show ?thesis .
qed

lemma ceil_div_mult_ge:
  assumes "0 < d"
  shows "n \<le> ceil_div n d * d"
  using ceil_div_le_iff [OF assms, of n "ceil_div n d"] by simp

lemma ceil_div_pos: "0 < d \<Longrightarrow> 0 < n \<Longrightarrow> 0 < ceil_div n d"
  using ceil_div_le_iff [of d n 0] by simp

lemma less_ceil_div_iff: "0 < d \<Longrightarrow> k < ceil_div n d \<longleftrightarrow> k * d < n"
  using ceil_div_le_iff [of d n k] by linarith

end
