(* ===== verification/Bitar_Dpdk.thy ===== *)
theory Bitar_Dpdk
  imports Bitar_Prelude
begin

text \<open>
  The boundary with DPDK, Arrow and the hardware. Nothing behind it is part of the
  repository, so nothing behind it is defined here: the objects of DPDK that the code
  reads and writes (memzones, mbufs, compression operations) are records of the fields
  the code touches, and every DPDK function the code calls is a field of the parameter
  record \<open>dpdk\<close>, which all definitions of the model take as an argument \<open>P\<close>.

  What DPDK documents about these functions and the code relies on is stated by the
  predicates \<open>memzone_laws\<close> and \<open>malloc_laws\<close> here, and by the laws on mbufs,
  operations and queue pairs further down. They refer to the part of DPDK's own state
  that its documentation talks about (which memzones, blocks, mbufs and operations are
  allocated, which operations a queue pair holds) through the fields whose names begin
  with \<open>live_\<close> or \<open>inflight\<close>; the code's own definitions never read these.
\<close>

subsection \<open>Objects of DPDK\<close>

text \<open>
  A \<open>const rte_memzone *\<close> is modelled by the descriptor it points to, which DPDK does
  not change while the zone is reserved.
\<close>

record memzone =
  mz_addr :: addr
  mz_iova :: addr
  mz_len :: nat

definition zone_bytes :: "memzone \<Rightarrow> addr set" where
  "zone_bytes z = {mz_addr z ..< mz_addr z + mz_len z}"

type_synonym mbuf_ptr = nat
type_synonym op_ptr = nat
type_synonym shinfo_ptr = nat
type_synonym pool_ptr = nat
type_synonym xform_ptr = nat

record mbuf =
  buf_addr :: addr
  buf_len :: nat
  data_off :: nat
  data_len :: nat
  pkt_len :: nat
  next_seg :: "mbuf_ptr option"
  shinfo :: "shinfo_ptr option"

datatype rte_comp_op_status =
    RTE_COMP_OP_STATUS_SUCCESS
  | RTE_COMP_OP_STATUS_NOT_PROCESSED
  | RTE_COMP_OP_STATUS_INVALID_ARGS
  | RTE_COMP_OP_STATUS_ERROR
  | RTE_COMP_OP_STATUS_INVALID_STATE
  | RTE_COMP_OP_STATUS_OUT_OF_SPACE_TERMINATED
  | RTE_COMP_OP_STATUS_OUT_OF_SPACE_RECOVERABLE

datatype rte_comp_flush_flag = RTE_COMP_FLUSH_NONE | RTE_COMP_FLUSH_FINAL

record comp_op =
  m_src :: "mbuf_ptr option"
  m_dst :: "mbuf_ptr option"
  src_offset :: nat
  src_length :: nat
  dst_offset :: nat
  flush_flag :: rte_comp_flush_flag
  input_chksum :: nat
  private_xform :: "xform_ptr option"
  op_status :: rte_comp_op_status
  produced :: nat

text \<open>
  The machine as the code sees it: memory, the mbufs and operations in DPDK's pools,
  and whatever else DPDK and the device keep.
\<close>

record 'w machine =
  bytes :: "addr \<Rightarrow> u8"
  mbufs :: "mbuf_ptr \<Rightarrow> mbuf"
  ops :: "op_ptr \<Rightarrow> comp_op"
  hidden :: 'w

subsection \<open>The memory functions of DPDK\<close>

record 'w dpdk_memory =
  NDEBUG :: bool
    \<comment> \<open>whether the library is compiled with \<open>NDEBUG\<close>\<close>
  zero_size_area :: addr
    \<comment> \<open>the address of the static \<open>zero_size_area\<close> of \<open>memory_pool.cc\<close>\<close>
  rte_memzone_reserve_aligned :: "nat \<Rightarrow> nat \<Rightarrow> 'w machine \<Rightarrow> memzone option \<times> 'w machine"
    \<comment> \<open>length and alignment; the name is a time stamp, the flags are constant\<close>
  rte_memzone_free :: "memzone \<Rightarrow> 'w machine \<Rightarrow> 'w machine"
  rte_malloc :: "nat \<Rightarrow> nat \<Rightarrow> 'w machine \<Rightarrow> addr \<times> 'w machine"
  rte_realloc :: "addr \<Rightarrow> nat \<Rightarrow> nat \<Rightarrow> 'w machine \<Rightarrow> addr \<times> 'w machine"
  rte_free :: "addr \<Rightarrow> 'w machine \<Rightarrow> 'w machine"
  rte_memcpy :: "addr \<Rightarrow> addr \<Rightarrow> nat \<Rightarrow> 'w machine \<Rightarrow> 'w machine"
  live_zones :: "'w \<Rightarrow> memzone set"
    \<comment> \<open>not read by the code: the memzones that are reserved\<close>
  live_mallocs :: "'w \<Rightarrow> addr \<rightharpoonup> nat"
    \<comment> \<open>not read by the code: the blocks of \<open>rte_malloc\<close> with their sizes\<close>

text \<open>Two machines that differ at most in the bytes of \<open>A\<close> and in DPDK's own state.\<close>

definition same_outside :: "addr set \<Rightarrow> 'w machine \<Rightarrow> 'w machine \<Rightarrow> bool" where
  "same_outside A m m' \<longleftrightarrow>
     mbufs m' = mbufs m \<and> ops m' = ops m \<and> (\<forall>a. a \<notin> A \<longrightarrow> bytes m' a = bytes m a)"

lemma same_outside_refl [simp]: "same_outside A m m"
  by (simp add: same_outside_def)

text \<open>
  Reserving a memzone returns a zone of at least the asked length that overlaps no
  reserved zone and no object of the program, or fails and reserves nothing; freeing
  a zone ends its reservation. Copying between areas that do not overlap copies.
\<close>

definition memzone_laws :: "('w, 'p) dpdk_memory_scheme \<Rightarrow> bool" where
  "memzone_laws P \<longleftrightarrow>
     (\<forall>n al m z m'. 0 < n \<longrightarrow> rte_memzone_reserve_aligned P n al m = (Some z, m') \<longrightarrow>
        live_zones P (hidden m') = insert z (live_zones P (hidden m)) \<and>
        n \<le> mz_len z \<and> 0 < mz_addr z \<and> zero_size_area P \<notin> zone_bytes z \<and>
        (\<forall>y \<in> live_zones P (hidden m). zone_bytes y \<inter> zone_bytes z = {}) \<and>
        same_outside (zone_bytes z) m m') \<and>
     (\<forall>n al m m'. rte_memzone_reserve_aligned P n al m = (None, m') \<longrightarrow>
        live_zones P (hidden m') = live_zones P (hidden m) \<and> same_outside {} m m') \<and>
     (\<forall>z m. live_zones P (hidden (rte_memzone_free P z m)) = live_zones P (hidden m) - {z} \<and>
        same_outside (zone_bytes z) m (rte_memzone_free P z m))"

lemma memzone_reserve_some:
  assumes "memzone_laws P" "0 < n" "rte_memzone_reserve_aligned P n al m = (Some z, m')"
  shows "live_zones P (hidden m') = insert z (live_zones P (hidden m))"
    and "n \<le> mz_len z" and "0 < mz_addr z" and "zero_size_area P \<notin> zone_bytes z"
    and "\<And>y. y \<in> live_zones P (hidden m) \<Longrightarrow> zone_bytes y \<inter> zone_bytes z = {}"
    and "same_outside (zone_bytes z) m m'"
  using assms(1) [unfolded memzone_laws_def, THEN conjunct1, rule_format, OF assms(2,3)] by auto

lemma memzone_reserve_none:
  assumes "memzone_laws P" "rte_memzone_reserve_aligned P n al m = (None, m')"
  shows "live_zones P (hidden m') = live_zones P (hidden m)" and "same_outside {} m m'"
  using assms(1) [unfolded memzone_laws_def, THEN conjunct2, THEN conjunct1, rule_format, OF assms(2)]
  by auto

lemma memzone_free_laws:
  assumes "memzone_laws P"
  shows "live_zones P (hidden (rte_memzone_free P z m)) = live_zones P (hidden m) - {z}"
    and "same_outside (zone_bytes z) m (rte_memzone_free P z m)"
  using assms [unfolded memzone_laws_def, THEN conjunct2, THEN conjunct2, rule_format, of z m] by auto

definition memcpy_laws :: "('w, 'p) dpdk_memory_scheme \<Rightarrow> bool" where
  "memcpy_laws P \<longleftrightarrow>
     (\<forall>d s n m. {d ..< d + n} \<inter> {s ..< s + n} = {} \<longrightarrow>
        rte_memcpy P d s n m =
          m\<lparr>bytes := (\<lambda>a. if d \<le> a \<and> a < d + n then bytes m (s + (a - d)) else bytes m a)\<rparr>)"

text \<open>
  The block allocator: a new block overlaps no other block; a failed call leaves all
  blocks; a reallocation keeps the contents up to the smaller of both sizes.
\<close>

definition block_bytes :: "addr \<Rightarrow> nat \<Rightarrow> addr set" where
  "block_bytes a n = {a ..< a + n}"

definition disjoint_from :: "addr set \<Rightarrow> (addr \<rightharpoonup> nat) \<Rightarrow> bool" where
  "disjoint_from A bl \<longleftrightarrow> (\<forall>a n. bl a = Some n \<longrightarrow> block_bytes a n \<inter> A = {})"

definition malloc_laws :: "('w, 'p) dpdk_memory_scheme \<Rightarrow> bool" where
  "malloc_laws P \<longleftrightarrow>
     (\<forall>n al m a m'. 0 < n \<longrightarrow> rte_malloc P n al m = (a, m') \<longrightarrow> a \<noteq> nullptr \<longrightarrow>
        (\<exists>c \<ge> n. live_mallocs P (hidden m') = (live_mallocs P (hidden m))(a \<mapsto> c) \<and>
           disjoint_from (block_bytes a c) (live_mallocs P (hidden m)) \<and>
           zero_size_area P \<notin> block_bytes a c \<and>
           same_outside (block_bytes a c) m m')) \<and>
     (\<forall>n al m m'. rte_malloc P n al m = (nullptr, m') \<longrightarrow>
        live_mallocs P (hidden m') = live_mallocs P (hidden m) \<and> same_outside {} m m') \<and>
     (\<forall>p k n al m a m'. 0 < n \<longrightarrow> live_mallocs P (hidden m) p = Some k \<longrightarrow>
        rte_realloc P p n al m = (a, m') \<longrightarrow> a \<noteq> nullptr \<longrightarrow>
        (\<exists>c \<ge> n. live_mallocs P (hidden m') = ((live_mallocs P (hidden m))(p := None))(a \<mapsto> c) \<and>
           disjoint_from (block_bytes a c) ((live_mallocs P (hidden m))(p := None)) \<and>
           zero_size_area P \<notin> block_bytes a c \<and>
           (\<forall>i < min k n. bytes m' (a + i) = bytes m (p + i)) \<and>
           same_outside (block_bytes p k \<union> block_bytes a c) m m')) \<and>
     (\<forall>p n al m m'. rte_realloc P p n al m = (nullptr, m') \<longrightarrow>
        live_mallocs P (hidden m') = live_mallocs P (hidden m) \<and> same_outside {} m m') \<and>
     (\<forall>p k m. live_mallocs P (hidden m) p = Some k \<longrightarrow>
        live_mallocs P (hidden (rte_free P p m)) = (live_mallocs P (hidden m))(p := None) \<and>
        same_outside (block_bytes p k) m (rte_free P p m))"

lemma malloc_some:
  assumes "malloc_laws P" "0 < n" "rte_malloc P n al m = (a, m')" "a \<noteq> nullptr"
  shows "\<exists>c \<ge> n. live_mallocs P (hidden m') = (live_mallocs P (hidden m))(a \<mapsto> c) \<and>
           disjoint_from (block_bytes a c) (live_mallocs P (hidden m)) \<and>
           zero_size_area P \<notin> block_bytes a c \<and> same_outside (block_bytes a c) m m'"
  using assms(1) [unfolded malloc_laws_def, THEN conjunct1, rule_format, OF assms(2-4)] .

lemma malloc_none:
  assumes "malloc_laws P" "rte_malloc P n al m = (nullptr, m')"
  shows "live_mallocs P (hidden m') = live_mallocs P (hidden m) \<and> same_outside {} m m'"
  using assms(1) [unfolded malloc_laws_def, THEN conjunct2, THEN conjunct1, rule_format, OF assms(2)] .

lemma realloc_some:
  assumes "malloc_laws P" "0 < n" "live_mallocs P (hidden m) p = Some k"
    "rte_realloc P p n al m = (a, m')" "a \<noteq> nullptr"
  shows "\<exists>c \<ge> n. live_mallocs P (hidden m') = ((live_mallocs P (hidden m))(p := None))(a \<mapsto> c) \<and>
           disjoint_from (block_bytes a c) ((live_mallocs P (hidden m))(p := None)) \<and>
           zero_size_area P \<notin> block_bytes a c \<and>
           (\<forall>i < min k n. bytes m' (a + i) = bytes m (p + i)) \<and>
           same_outside (block_bytes p k \<union> block_bytes a c) m m'"
  using assms(1) [unfolded malloc_laws_def, THEN conjunct2, THEN conjunct2, THEN conjunct1,
      rule_format, OF assms(2-5)] .

lemma realloc_none:
  assumes "malloc_laws P" "rte_realloc P p n al m = (nullptr, m')"
  shows "live_mallocs P (hidden m') = live_mallocs P (hidden m) \<and> same_outside {} m m'"
  using assms(1) [unfolded malloc_laws_def, THEN conjunct2, THEN conjunct2, THEN conjunct2,
      THEN conjunct1, rule_format, OF assms(2)] .

lemma rte_free_block:
  assumes "malloc_laws P" "live_mallocs P (hidden m) p = Some k"
  shows "live_mallocs P (hidden (rte_free P p m)) = (live_mallocs P (hidden m))(p := None) \<and>
    same_outside (block_bytes p k) m (rte_free P p m)"
  using assms(1) [unfolded malloc_laws_def, THEN conjunct2, THEN conjunct2, THEN conjunct2,
      THEN conjunct2, rule_format, OF assms(2)] .

end
