(* ===== verification/Bitar_Sim.thy ===== *)
theory Bitar_Sim
  imports Bitar_Dpdk
begin

text \<open>
  A small stand-in for DPDK. It is no model of DPDK and no part of the model of the
  program: it shows that the laws of \<open>Bitar_Dpdk\<close> can hold together, and the witnesses
  of the properties evaluate the program's definitions on it. It hands out addresses
  above everything handed out so far: memzones from 72 on, after the static area at 64,
  and blocks from \<open>2 ^ 40\<close> on.
\<close>

record sim =
  sim_zones :: "memzone list"
  sim_mallocs :: "(addr \<times> nat) list"

definition sim_zero_area :: addr where
  "sim_zero_area = 64"

fun zones_top :: "memzone list \<Rightarrow> addr" where
  "zones_top [] = 72"
| "zones_top (z # zs) = max (mz_addr z + mz_len z) (zones_top zs)"

fun blocks_top :: "(addr \<times> nat) list \<Rightarrow> addr" where
  "blocks_top [] = 2 ^ 40"
| "blocks_top ((a, n) # bs) = max (Suc (a + n)) (blocks_top bs)"

definition sim_reserve :: "nat \<Rightarrow> nat \<Rightarrow> 'a sim_scheme machine \<Rightarrow> memzone option \<times> 'a sim_scheme machine" where
  "sim_reserve n al m =
     (let zs = sim_zones (hidden m); a = zones_top zs;
          z = \<lparr>mz_addr = a, mz_iova = a, mz_len = n\<rparr>
      in (Some z, m\<lparr>hidden := (hidden m)\<lparr>sim_zones := z # zs\<rparr>\<rparr>))"

definition sim_free_zone :: "memzone \<Rightarrow> 'a sim_scheme machine \<Rightarrow> 'a sim_scheme machine" where
  "sim_free_zone z m =
     m\<lparr>hidden := (hidden m)\<lparr>sim_zones := filter (\<lambda>y. y \<noteq> z) (sim_zones (hidden m))\<rparr>\<rparr>"

definition sim_memcpy :: "addr \<Rightarrow> addr \<Rightarrow> nat \<Rightarrow> 'a sim_scheme machine \<Rightarrow> 'a sim_scheme machine" where
  "sim_memcpy d s n m =
     m\<lparr>bytes := (\<lambda>a. if d \<le> a \<and> a < d + n then bytes m (s + (a - d)) else bytes m a)\<rparr>"

definition sim_malloc :: "nat \<Rightarrow> nat \<Rightarrow> 'a sim_scheme machine \<Rightarrow> addr \<times> 'a sim_scheme machine" where
  "sim_malloc n al m =
     (let bs = sim_mallocs (hidden m); a = blocks_top bs
      in (a, m\<lparr>hidden := (hidden m)\<lparr>sim_mallocs := (a, n) # bs\<rparr>\<rparr>))"

definition sim_free :: "addr \<Rightarrow> 'a sim_scheme machine \<Rightarrow> 'a sim_scheme machine" where
  "sim_free p m =
     m\<lparr>hidden := (hidden m)\<lparr>sim_mallocs := filter (\<lambda>(a, n). a \<noteq> p) (sim_mallocs (hidden m))\<rparr>\<rparr>"

definition sim_realloc :: "addr \<Rightarrow> nat \<Rightarrow> nat \<Rightarrow> 'a sim_scheme machine \<Rightarrow> addr \<times> 'a sim_scheme machine" where
  "sim_realloc p n al m =
     (let bs = sim_mallocs (hidden m); a = blocks_top bs;
          k = (case map_of bs p of None \<Rightarrow> 0 | Some k \<Rightarrow> k);
          bs' = (a, n) # filter (\<lambda>(b, l). b \<noteq> p) bs
      in (a, (sim_memcpy a p (min k n) m)\<lparr>hidden := (hidden m)\<lparr>sim_mallocs := bs'\<rparr>\<rparr>))"

definition sim_memory :: "bool \<Rightarrow> 'a sim_scheme dpdk_memory" where
  "sim_memory ndebug =
     \<lparr>NDEBUG = ndebug,
      zero_size_area = sim_zero_area,
      rte_memzone_reserve_aligned = sim_reserve,
      rte_memzone_free = sim_free_zone,
      rte_malloc = sim_malloc,
      rte_realloc = sim_realloc,
      rte_free = sim_free,
      rte_memcpy = sim_memcpy,
      live_zones = (\<lambda>h. set (sim_zones h)),
      live_mallocs = (\<lambda>h. map_of (sim_mallocs h))\<rparr>"

lemma zones_top_above: "z \<in> set zs \<Longrightarrow> mz_addr z + mz_len z \<le> zones_top zs"
  by (induction zs) auto

lemma zones_top_pos: "72 \<le> zones_top zs"
  by (induction zs) auto

lemma blocks_top_above: "map_of bs a = Some n \<Longrightarrow> a + n < blocks_top bs"
  by (induction bs rule: blocks_top.induct) (auto split: if_splits)

lemma blocks_top_pos: "2 ^ 40 \<le> blocks_top bs"
  by (induction bs rule: blocks_top.induct) auto

lemma map_of_filter_key: "map_of (filter (\<lambda>(b, l). b \<noteq> p) bs) = (map_of bs)(p := None)"
  by (induction bs) (auto simp: fun_eq_iff)

lemma sim_memzone_laws: "memzone_laws (sim_memory nd)"
proof -
  have apart: "zone_bytes y \<inter> {zones_top zs ..< zones_top zs + n} = {}" if "y \<in> set zs" for y zs n
    using zones_top_above [OF that] by (auto simp: zone_bytes_def)
  have pos: "0 < zones_top zs" "\<not> zones_top zs \<le> 64" for zs
    using zones_top_pos [of zs] by auto
  show ?thesis
    unfolding memzone_laws_def
    using apart
    by (auto simp: sim_memory_def sim_reserve_def sim_free_zone_def Let_def same_outside_def
        zone_bytes_def sim_zero_area_def pos split: if_splits)
qed

lemma sim_memcpy_laws: "memcpy_laws (sim_memory nd)"
  by (simp add: memcpy_laws_def sim_memory_def sim_memcpy_def)

lemma sim_malloc_laws: "malloc_laws (sim_memory nd)"
proof -
  have apart: "disjoint_from (block_bytes (blocks_top bs) n) (map_of bs)" for bs n
    using blocks_top_above [of bs] by (force simp: disjoint_from_def block_bytes_def)
  then have apart': "disjoint_from (block_bytes (blocks_top bs) n) ((map_of bs)(p := None))" for bs n p
    by (auto simp: disjoint_from_def)
  have pos: "0 < blocks_top bs" "blocks_top bs \<noteq> 0" "\<not> blocks_top bs \<le> 64" for bs
    using blocks_top_pos [of bs] by auto
  note defs = sim_memory_def sim_malloc_def sim_realloc_def sim_free_def sim_memcpy_def Let_def
    same_outside_def sim_zero_area_def map_of_filter_key
  have realloc: "\<exists>c \<ge> n. live_mallocs (sim_memory nd) (hidden m') =
        ((live_mallocs (sim_memory nd) (hidden m))(p := None))(a \<mapsto> c) \<and>
      disjoint_from (block_bytes a c) ((live_mallocs (sim_memory nd) (hidden m))(p := None)) \<and>
      zero_size_area (sim_memory nd) \<notin> block_bytes a c \<and>
      (\<forall>i < min k n. bytes m' (a + i) = bytes m (p + i)) \<and>
      same_outside (block_bytes p k \<union> block_bytes a c) m m'"
    if "live_mallocs (sim_memory nd) (hidden m) p = Some k"
      "rte_realloc (sim_memory nd) p n al m = (a, m')" for n p k al m a m'
    using that pos apart' by (intro exI [of _ n]) (auto simp: defs block_bytes_def)
  have malloc: "\<exists>c \<ge> n. live_mallocs (sim_memory nd) (hidden m') =
        (live_mallocs (sim_memory nd) (hidden m))(a \<mapsto> c) \<and>
      disjoint_from (block_bytes a c) (live_mallocs (sim_memory nd) (hidden m)) \<and>
      zero_size_area (sim_memory nd) \<notin> block_bytes a c \<and> same_outside (block_bytes a c) m m'"
    if "rte_malloc (sim_memory nd) n al m = (a, m')" for n al m a m'
    using that pos apart by (intro exI [of _ n]) (auto simp: defs block_bytes_def)
  show ?thesis
    unfolding malloc_laws_def
  proof (intro conjI allI impI)
    fix n al m a m' assume "rte_malloc (sim_memory nd) n al m = (a, m')"
    then show "\<exists>c \<ge> n. live_mallocs (sim_memory nd) (hidden m') =
        (live_mallocs (sim_memory nd) (hidden m))(a \<mapsto> c) \<and>
      disjoint_from (block_bytes a c) (live_mallocs (sim_memory nd) (hidden m)) \<and>
      zero_size_area (sim_memory nd) \<notin> block_bytes a c \<and> same_outside (block_bytes a c) m m'"
      by (rule malloc)
  next
    fix p k n al m a m'
    assume "live_mallocs (sim_memory nd) (hidden m) p = Some k"
      "rte_realloc (sim_memory nd) p n al m = (a, m')"
    then show "\<exists>c \<ge> n. live_mallocs (sim_memory nd) (hidden m') =
        ((live_mallocs (sim_memory nd) (hidden m))(p := None))(a \<mapsto> c) \<and>
      disjoint_from (block_bytes a c) ((live_mallocs (sim_memory nd) (hidden m))(p := None)) \<and>
      zero_size_area (sim_memory nd) \<notin> block_bytes a c \<and>
      (\<forall>i < min k n. bytes m' (a + i) = bytes m (p + i)) \<and>
      same_outside (block_bytes p k \<union> block_bytes a c) m m'"
      by (rule realloc)
  qed (auto simp: defs pos)
qed

end
