(* ===== verification/Bitar_Memory_Pool.thy ===== *)
theory Bitar_Memory_Pool
  imports Bitar_Sim
begin

text \<open>
  \<open>src/include/memory_pool.h\<close> and \<open>src/memory_pool.cc\<close>: the tracker of reserved
  memzones, the two allocators \<open>RtemallocAllocator\<close> and \<open>RtememzoneAllocator\<close>, and
  the pool \<open>BaseMemoryPoolImpl\<close>, a template over the allocator. The template parameter
  is a record of the allocator's static functions; what the pool relies on is the locale
  \<open>byte_allocator\<close>, of which both allocators are interpretations.

  Pointers to pointers (\<open>std::uint8_t** out\<close>) are passed in by value and returned.
  Arrow's \<open>MemoryPoolStats\<close> is not part of the repository; each pool keeps the list of
  the calls the code makes to its \<open>UpdateAllocatedBytes\<close>, latest first.
\<close>

subsection \<open>The process-wide state\<close>

datatype MemoryPoolBackend = System | Jemalloc | Mimalloc | Rtemalloc | Rtememzone

text \<open>
  \<open>allocated_memzones\<close> is the map of the singleton \<open>RtememzoneAllocatorTracker\<close>;
  \<open>pool_stats\<close> the member \<open>stats_\<close> of the static pool of each backend;
  \<open>num_maybe_not_ok\<close> the static counter of \<open>GetErrorCount\<close> in \<open>device.cc\<close>.
\<close>

record 'w world =
  mach :: "'w machine"
  allocated_memzones :: "addr \<rightharpoonup> memzone"
  pool_stats :: "MemoryPoolBackend \<Rightarrow> (int \<times> bool) list"
  num_maybe_not_ok :: u32

definition write_byte :: "addr \<Rightarrow> u8 \<Rightarrow> 'w world \<Rightarrow> 'w world" where
  "write_byte a v w = w\<lparr>mach := (mach w)\<lparr>bytes := (bytes (mach w))(a := v)\<rparr>\<rparr>"

definition UpdateAllocatedBytes :: "MemoryPoolBackend \<Rightarrow> int \<Rightarrow> bool \<Rightarrow> 'w world \<Rightarrow> 'w world" where
  "UpdateAllocatedBytes b diff is_free w =
     w\<lparr>pool_stats := (pool_stats w)(b := (diff, is_free) # pool_stats w b)\<rparr>"

text \<open>The allocated bytes the statistics report: the sum of all updates.\<close>

definition bytes_allocated :: "MemoryPoolBackend \<Rightarrow> 'w world \<Rightarrow> int" where
  "bytes_allocated b w = sum_list (map fst (pool_stats w b))"

subsection \<open>RtememzoneAllocatorTracker\<close>

definition tracker_Of :: "addr \<Rightarrow> 'w world \<Rightarrow> memzone option" where
  "tracker_Of addr w = allocated_memzones w addr"

definition tracker_count :: "'w world \<Rightarrow> nat" where
  "tracker_count w = card (dom (allocated_memzones w))"

text \<open>\<open>std::unordered_map::emplace\<close> keeps an entry that is already there.\<close>

definition tracker_Emplace :: "addr \<Rightarrow> memzone \<Rightarrow> 'w world \<Rightarrow> 'w world" where
  "tracker_Emplace addr z w =
     (case allocated_memzones w addr of
        None \<Rightarrow> w\<lparr>allocated_memzones := (allocated_memzones w)(addr \<mapsto> z)\<rparr>
      | Some _ \<Rightarrow> w)"

definition tracker_Release :: "('w, 'p) dpdk_memory_scheme \<Rightarrow> addr \<Rightarrow> 'w world \<Rightarrow> 'w world" where
  "tracker_Release P addr w =
     (case allocated_memzones w addr of
        None \<Rightarrow> w
      | Some z \<Rightarrow> w\<lparr>mach := rte_memzone_free P z (mach w),
                    allocated_memzones := (allocated_memzones w)(addr := None)\<rparr>)"

subsection \<open>RtemallocAllocator\<close>

definition malloc_AllocateAligned ::
  "('w, 'p) dpdk_memory_scheme \<Rightarrow> int \<Rightarrow> int \<Rightarrow> addr \<Rightarrow> 'w world \<Rightarrow> unit result \<times> addr \<times> 'w world" where
  "malloc_AllocateAligned P sz alignment out w =
     (if sz = 0 then (OK, zero_size_area P, w)
      else (case rte_malloc P (nat (sz mod 2 ^ 64)) (nat (alignment mod 2 ^ 32)) (mach w) of
              (out, m) \<Rightarrow>
                (if out = nullptr then Inl (Status OutOfMemory ''malloc of size '') else OK,
                 out, w\<lparr>mach := m\<rparr>)))"

definition malloc_DeallocateAligned ::
  "('w, 'p) dpdk_memory_scheme \<Rightarrow> addr \<Rightarrow> int \<Rightarrow> int \<Rightarrow> 'w world \<Rightarrow> unit result \<times> 'w world" where
  "malloc_DeallocateAligned P ptr sz alignment w =
     (if ptr = zero_size_area P
      then (if \<not> NDEBUG P \<and> sz \<noteq> 0 then Inl (Fault CheckFailed) else OK, w)
      else (OK, w\<lparr>mach := rte_free P ptr (mach w)\<rparr>))"

definition malloc_ReallocateAligned ::
  "('w, 'p) dpdk_memory_scheme \<Rightarrow> int \<Rightarrow> int \<Rightarrow> int \<Rightarrow> addr \<Rightarrow> 'w world \<Rightarrow> unit result \<times> addr \<times> 'w world" where
  "malloc_ReallocateAligned P old_size new_size alignment ptr w =
     (let previous_ptr = ptr in
      if previous_ptr = zero_size_area P then
        (if \<not> NDEBUG P \<and> old_size \<noteq> 0 then (Inl (Fault CheckFailed), ptr, w)
         else malloc_AllocateAligned P new_size alignment ptr w)
      else if new_size = 0 then
        (case malloc_DeallocateAligned P previous_ptr old_size alignment w of
           (Inl e, w) \<Rightarrow> (Inl e, ptr, w)
         | (Inr _, w) \<Rightarrow> (OK, zero_size_area P, w))
      else
        (case rte_realloc P ptr (nat (new_size mod 2 ^ 64)) (nat (alignment mod 2 ^ 32)) (mach w) of
           (ptr, m) \<Rightarrow>
             if ptr = nullptr
             then (Inl (Status OutOfMemory ''realloc of size ''), previous_ptr, w\<lparr>mach := m\<rparr>)
             else (OK, ptr, w\<lparr>mach := m\<rparr>)))"

subsection \<open>RtememzoneAllocator\<close>

definition memzone_AllocateAligned ::
  "('w, 'p) dpdk_memory_scheme \<Rightarrow> int \<Rightarrow> int \<Rightarrow> addr \<Rightarrow> 'w world \<Rightarrow> unit result \<times> addr \<times> 'w world" where
  "memzone_AllocateAligned P sz alignment out w =
     (if sz = 0 then (OK, zero_size_area P, w)
      else (case rte_memzone_reserve_aligned P (nat (sz mod 2 ^ 64))
                   (nat (alignment mod 2 ^ 32)) (mach w) of
              (None, m) \<Rightarrow>
                (Inl (Status OutOfMemory ''Reserving memzone of ''), out, w\<lparr>mach := m\<rparr>)
            | (Some z, m) \<Rightarrow> (OK, mz_addr z, tracker_Emplace (mz_addr z) z (w\<lparr>mach := m\<rparr>))))"

definition memzone_DeallocateAligned ::
  "('w, 'p) dpdk_memory_scheme \<Rightarrow> addr \<Rightarrow> int \<Rightarrow> int \<Rightarrow> 'w world \<Rightarrow> unit result \<times> 'w world" where
  "memzone_DeallocateAligned P ptr sz alignment w =
     (if ptr = zero_size_area P
      then (if \<not> NDEBUG P \<and> sz \<noteq> 0 then Inl (Fault CheckFailed) else OK, w)
      else (OK, tracker_Release P ptr w))"

definition memzone_ReallocateAligned ::
  "('w, 'p) dpdk_memory_scheme \<Rightarrow> int \<Rightarrow> int \<Rightarrow> int \<Rightarrow> addr \<Rightarrow> 'w world \<Rightarrow> unit result \<times> addr \<times> 'w world" where
  "memzone_ReallocateAligned P old_size new_size alignment ptr w =
     (let previous_ptr = ptr in
      if previous_ptr = zero_size_area P then
        (if \<not> NDEBUG P \<and> old_size \<noteq> 0 then (Inl (Fault CheckFailed), ptr, w)
         else memzone_AllocateAligned P new_size alignment ptr w)
      else if new_size = 0 then
        (case memzone_DeallocateAligned P previous_ptr old_size alignment w of
           (Inl e, w) \<Rightarrow> (Inl e, ptr, w)
         | (Inr _, w) \<Rightarrow> (OK, zero_size_area P, w))
      else
        (case memzone_AllocateAligned P new_size alignment nullptr w of
           (Inl e, out, w) \<Rightarrow> (Inl e, ptr, w)
         | (Inr _, out, w) \<Rightarrow>
             if \<not> NDEBUG P \<and> out = nullptr then (Inl (Fault CheckFailed), ptr, w)
             else
               (let w = w\<lparr>mach := rte_memcpy P out ptr (nat (min new_size old_size mod 2 ^ 64)) (mach w)\<rparr>;
                    w = tracker_Release P ptr w
                in (OK, out, w))))"

subsection \<open>BaseMemoryPoolImpl\<close>

text \<open>The template parameter \<open>Allocator\<close>, with the pool it is instantiated for.\<close>

record 'w allocator =
  AllocateAligned :: "int \<Rightarrow> int \<Rightarrow> addr \<Rightarrow> 'w world \<Rightarrow> unit result \<times> addr \<times> 'w world"
  ReallocateAligned :: "int \<Rightarrow> int \<Rightarrow> int \<Rightarrow> addr \<Rightarrow> 'w world \<Rightarrow> unit result \<times> addr \<times> 'w world"
  DeallocateAligned :: "addr \<Rightarrow> int \<Rightarrow> int \<Rightarrow> 'w world \<Rightarrow> unit result \<times> 'w world"
  backend :: MemoryPoolBackend

definition RtemallocMemoryPool :: "('w, 'p) dpdk_memory_scheme \<Rightarrow> 'w allocator" where
  "RtemallocMemoryPool P =
     \<lparr>AllocateAligned = malloc_AllocateAligned P,
      ReallocateAligned = malloc_ReallocateAligned P,
      DeallocateAligned = malloc_DeallocateAligned P,
      backend = Rtemalloc\<rparr>"

definition RtememzoneMemoryPool :: "('w, 'p) dpdk_memory_scheme \<Rightarrow> 'w allocator" where
  "RtememzoneMemoryPool P =
     \<lparr>AllocateAligned = memzone_AllocateAligned P,
      ReallocateAligned = memzone_ReallocateAligned P,
      DeallocateAligned = memzone_DeallocateAligned P,
      backend = Rtememzone\<rparr>"

definition kAllocPoison :: u8 where "kAllocPoison = 0xBC"
definition kReallocPoison :: u8 where "kReallocPoison = 0xBD"
definition kDeallocPoison :: u8 where "kDeallocPoison = 0xBE"

definition pool_Allocate ::
  "bool \<Rightarrow> 'w allocator \<Rightarrow> int \<Rightarrow> int \<Rightarrow> addr \<Rightarrow> 'w world \<Rightarrow> unit result \<times> addr \<times> 'w world" where
  "pool_Allocate ndebug A sz alignment out w =
     (if sz < 0 then (Inl (Status Invalid ''negative malloc size''), out, w)
      else if 2 ^ 64 - 1 \<le> sz then
        (Inl (Status OutOfMemory ''malloc size overflows size_t''), out, w)
      else
        (case AllocateAligned A sz alignment out w of
           (Inl e, out, w) \<Rightarrow> (Inl e, out, w)
         | (Inr _, out, w) \<Rightarrow>
             if \<not> ndebug \<and> 0 < sz \<and> out = nullptr then (Inl (Fault CheckFailed), out, w)
             else
               (let w = (if \<not> ndebug \<and> 0 < sz
                         then write_byte (out + nat (sz - 1)) kAllocPoison
                                (write_byte out kAllocPoison w)
                         else w)
                in (OK, out, UpdateAllocatedBytes (backend A) sz False w))))"

definition pool_Reallocate ::
  "bool \<Rightarrow> 'w allocator \<Rightarrow> int \<Rightarrow> int \<Rightarrow> int \<Rightarrow> addr \<Rightarrow> 'w world \<Rightarrow> unit result \<times> addr \<times> 'w world" where
  "pool_Reallocate ndebug A old_size new_size alignment ptr w =
     (if new_size < 0 then (Inl (Status Invalid ''negative realloc size''), ptr, w)
      else if 2 ^ 64 - 1 \<le> new_size then
        (Inl (Status OutOfMemory ''realloc overflows size_t''), ptr, w)
      else
        (case ReallocateAligned A old_size new_size alignment ptr w of
           (Inl e, ptr, w) \<Rightarrow> (Inl e, ptr, w)
         | (Inr _, ptr, w) \<Rightarrow>
             if \<not> ndebug \<and> old_size < new_size \<and> ptr = nullptr
             then (Inl (Fault CheckFailed), ptr, w)
             else
               (let w = (if \<not> ndebug \<and> old_size < new_size
                         then write_byte (nat (int ptr + new_size - 1)) kReallocPoison
                                (write_byte (nat (int ptr + old_size)) kReallocPoison w)
                         else w)
                in (OK, ptr, UpdateAllocatedBytes (backend A) (new_size - old_size) False w))))"

definition pool_Free ::
  "bool \<Rightarrow> 'w allocator \<Rightarrow> addr \<Rightarrow> int \<Rightarrow> int \<Rightarrow> 'w world \<Rightarrow> unit result \<times> 'w world" where
  "pool_Free ndebug A buffer sz alignment w =
     (if \<not> ndebug \<and> 0 < sz \<and> buffer = nullptr then (Inl (Fault CheckFailed), w)
      else
        (let w = (if \<not> ndebug \<and> 0 < sz
                  then write_byte (buffer + nat (sz - 1)) kDeallocPoison
                         (write_byte buffer kDeallocPoison w)
                  else w)
         in case DeallocateAligned A buffer sz alignment w of
              (Inl e, w) \<Rightarrow> (Inl e, w)
            | (Inr _, w) \<Rightarrow> (OK, UpdateAllocatedBytes (backend A) (- sz) True w)))"

subsection \<open>GetMemoryPool\<close>

text \<open>
  The pools a backend can stand for: Arrow's own pools, which exist when Arrow is built
  with them, and the two static pools of the library.
\<close>

datatype memory_pool =
    arrow_system_memory_pool
  | arrow_jemalloc_memory_pool
  | arrow_mimalloc_memory_pool
  | rtemalloc_pool
  | rtememzone_pool

definition GetMemoryPool :: "bool \<Rightarrow> bool \<Rightarrow> MemoryPoolBackend \<Rightarrow> memory_pool result" where
  "GetMemoryPool ARROW_JEMALLOC ARROW_MIMALLOC b =
     (case b of
        System \<Rightarrow> Inr arrow_system_memory_pool
      | Jemalloc \<Rightarrow>
          if ARROW_JEMALLOC then Inr arrow_jemalloc_memory_pool
          else Inl (Fault (Panic ''Internal error: unimplemented memory pool Jemalloc''))
      | Mimalloc \<Rightarrow>
          if ARROW_MIMALLOC then Inr arrow_mimalloc_memory_pool
          else Inl (Fault (Panic ''Internal error: unimplemented memory pool Mimalloc''))
      | Rtemalloc \<Rightarrow> Inr rtemalloc_pool
      | Rtememzone \<Rightarrow> Inr rtememzone_pool)"

subsection \<open>What the pool relies on\<close>

lemma write_byte_simps [frame_simps, simp]:
  "allocated_memzones (write_byte a v w) = allocated_memzones w"
  "pool_stats (write_byte a v w) = pool_stats w"
  "num_maybe_not_ok (write_byte a v w) = num_maybe_not_ok w"
  "hidden (mach (write_byte a v w)) = hidden (mach w)"
  "mbufs (mach (write_byte a v w)) = mbufs (mach w)"
  "ops (mach (write_byte a v w)) = ops (mach w)"
  "bytes (mach (write_byte a v w)) = (bytes (mach w))(a := v)"
  by (simp_all add: write_byte_def)

lemma UpdateAllocatedBytes_simps [frame_simps, simp]:
  "allocated_memzones (UpdateAllocatedBytes b d f w) = allocated_memzones w"
  "mach (UpdateAllocatedBytes b d f w) = mach w"
  "num_maybe_not_ok (UpdateAllocatedBytes b d f w) = num_maybe_not_ok w"
  by (simp_all add: UpdateAllocatedBytes_def)

lemma bytes_allocated_update [simp]:
  "bytes_allocated b (UpdateAllocatedBytes b' d f w) =
     bytes_allocated b w + (if b = b' then d else 0)"
  by (simp add: bytes_allocated_def UpdateAllocatedBytes_def)

lemma bytes_allocated_write_byte [simp]:
  "bytes_allocated b (write_byte a v w) = bytes_allocated b w"
  by (simp add: bytes_allocated_def)

text \<open>Two worlds in which the same bytes are stored at every block of \<open>bl\<close>.\<close>

definition same_blocks :: "(addr \<rightharpoonup> nat) \<Rightarrow> 'w world \<Rightarrow> 'w world \<Rightarrow> bool" where
  "same_blocks bl w w' \<longleftrightarrow>
     (\<forall>a n i. bl a = Some n \<longrightarrow> i < n \<longrightarrow> bytes (mach w') (a + i) = bytes (mach w) (a + i))"

lemma same_blocks_refl [simp]: "same_blocks bl w w"
  by (simp add: same_blocks_def)

lemma same_blocks_trans: "same_blocks bl w w' \<Longrightarrow> same_blocks bl w' w'' \<Longrightarrow> same_blocks bl w w''"
  by (simp add: same_blocks_def)

lemma same_blocks_if_same_outside:
  assumes "same_outside A (mach w) (mach w')" "disjoint_from A bl"
  shows "same_blocks bl w w'"
  using assms unfolding same_blocks_def same_outside_def disjoint_from_def block_bytes_def
  by (metis add_less_cancel_left atLeastLessThan_iff disjoint_iff le_add1)

lemma same_blocks_write_byte:
  assumes "disjoint_from A bl" "a \<in> A"
  shows "same_blocks bl w (write_byte a v w)"
  using assms unfolding same_blocks_def disjoint_from_def block_bytes_def
  by (auto simp: write_byte_def) (metis add_less_cancel_left atLeastLessThan_iff disjoint_iff le_add1)

lemma same_blocks_stats [simp]:
  "same_blocks bl w (UpdateAllocatedBytes b d f w') = same_blocks bl w w'"
  by (simp add: same_blocks_def)

lemma bytes_allocated_cong: "pool_stats w' = pool_stats w \<Longrightarrow> bytes_allocated b w' = bytes_allocated b w"
  by (simp add: bytes_allocated_def)

text \<open>
  What \<open>BaseMemoryPoolImpl\<close> relies on. \<open>blocks\<close> are the allocated blocks with their
  capacities, \<open>ok\<close> the invariant the allocator keeps.
\<close>

locale byte_allocator =
  fixes A :: "'w allocator"
    and zero :: addr
    and ok :: "'w world \<Rightarrow> bool"
    and blocks :: "'w world \<Rightarrow> addr \<rightharpoonup> nat"
  assumes ok_write [simp]: "ok (write_byte a v w) = ok w"
    and ok_stats [simp]: "ok (UpdateAllocatedBytes b d f w) = ok w"
    and blocks_write [simp]: "blocks (write_byte a v w) = blocks w"
    and blocks_stats [simp]: "blocks (UpdateAllocatedBytes b d f w) = blocks w"
    and block_start: "ok w \<Longrightarrow> blocks w a = Some k \<Longrightarrow> a \<noteq> nullptr \<and> a \<noteq> zero \<and> 0 < k"
    and blocks_apart: "ok w \<Longrightarrow> blocks w a = Some k \<Longrightarrow>
      disjoint_from (block_bytes a k) ((blocks w)(a := None))"
    and alloc_zero: "AllocateAligned A 0 al out w = (OK, zero, w)"
    and alloc_ok: "ok w \<Longrightarrow> 0 < n \<Longrightarrow> n < 2 ^ 63 \<Longrightarrow>
      AllocateAligned A n al out w = (Inr u, a, w') \<Longrightarrow>
      ok w' \<and> blocks w a = None \<and> pool_stats w' = pool_stats w \<and> same_blocks (blocks w) w w' \<and>
      (\<exists>c. nat n \<le> c \<and> blocks w' = (blocks w)(a \<mapsto> c))"
    and alloc_fail: "ok w \<Longrightarrow> 0 < n \<Longrightarrow> n < 2 ^ 63 \<Longrightarrow>
      AllocateAligned A n al out w = (Inl e, a, w') \<Longrightarrow>
      ok w' \<and> blocks w' = blocks w \<and> pool_stats w' = pool_stats w \<and> same_blocks (blocks w) w w' \<and>
      (\<exists>m. e = Status OutOfMemory m)"
    and dealloc_zero: "DeallocateAligned A zero 0 al w = (OK, w)"
    and dealloc_block: "ok w \<Longrightarrow> blocks w p = Some k \<Longrightarrow>
      \<exists>w'. DeallocateAligned A p n al w = (OK, w') \<and> ok w' \<and> blocks w' = (blocks w)(p := None) \<and>
           pool_stats w' = pool_stats w \<and> same_blocks ((blocks w)(p := None)) w w'"
    and realloc_from_zero: "ReallocateAligned A 0 n al zero w = AllocateAligned A n al zero w"
    and realloc_to_zero: "ok w \<Longrightarrow> blocks w p = Some k \<Longrightarrow>
      ReallocateAligned A n 0 al p w = (OK, zero, snd (DeallocateAligned A p n al w))"
    and realloc_ok: "ok w \<Longrightarrow> blocks w p = Some k \<Longrightarrow> 0 < old \<Longrightarrow> nat old \<le> k \<Longrightarrow> 0 < n \<Longrightarrow> n < 2 ^ 63 \<Longrightarrow>
      ReallocateAligned A old n al p w = (Inr u, a, w') \<Longrightarrow>
      ok w' \<and> pool_stats w' = pool_stats w \<and> same_blocks ((blocks w)(p := None)) w w' \<and>
      (\<forall>i < nat (min old n). bytes (mach w') (a + i) = bytes (mach w) (p + i)) \<and>
      (\<exists>c. nat n \<le> c \<and> ((blocks w)(p := None)) a = None \<and>
         blocks w' = ((blocks w)(p := None))(a \<mapsto> c))"
    and realloc_fail: "ok w \<Longrightarrow> blocks w p = Some k \<Longrightarrow> 0 < old \<Longrightarrow> nat old \<le> k \<Longrightarrow> 0 < n \<Longrightarrow> n < 2 ^ 63 \<Longrightarrow>
      ReallocateAligned A old n al p w = (Inl e, a, w') \<Longrightarrow>
      a = p \<and> ok w' \<and> blocks w' = blocks w \<and> pool_stats w' = pool_stats w \<and>
      same_blocks (blocks w) w w' \<and> (\<exists>m. e = Status OutOfMemory m)"
begin

end

subsection \<open>RtememzoneAllocator implements the interface\<close>

definition mz_blocks :: "'w world \<Rightarrow> addr \<rightharpoonup> nat" where
  "mz_blocks w = map_option mz_len \<circ> allocated_memzones w"

text \<open>
  Every tracked zone is reserved, is filed under its own address, is not empty, and
  overlaps neither another tracked zone nor the static area.
\<close>

definition mz_ok :: "('w, 'p) dpdk_memory_scheme \<Rightarrow> 'w world \<Rightarrow> bool" where
  "mz_ok P w \<longleftrightarrow> memzone_laws P \<and> memcpy_laws P \<and>
     (\<forall>a z. allocated_memzones w a = Some z \<longrightarrow>
        mz_addr z = a \<and> 0 < a \<and> 0 < mz_len z \<and> z \<in> live_zones P (hidden (mach w)) \<and>
        zero_size_area P \<notin> zone_bytes z) \<and>
     (\<forall>a z b y. allocated_memzones w a = Some z \<longrightarrow> allocated_memzones w b = Some y \<longrightarrow>
        a \<noteq> b \<longrightarrow> zone_bytes z \<inter> zone_bytes y = {})"

lemma zone_bytes_block: "zone_bytes z = block_bytes (mz_addr z) (mz_len z)"
  by (simp add: zone_bytes_def block_bytes_def)

lemma mz_ok_tracked:
  assumes "mz_ok P w" "allocated_memzones w a = Some z"
  shows "mz_addr z = a" "0 < a" "0 < mz_len z" "z \<in> live_zones P (hidden (mach w))"
    "zero_size_area P \<notin> zone_bytes z"
  using assms by (auto simp: mz_ok_def)

lemma mz_ok_disjoint:
  assumes "mz_ok P w" "allocated_memzones w a = Some z" "allocated_memzones w b = Some y" "a \<noteq> b"
  shows "zone_bytes z \<inter> zone_bytes y = {}"
  using assms unfolding mz_ok_def by blast

lemma mz_ok_apart:
  assumes "mz_ok P w" "allocated_memzones w a = Some z"
  shows "disjoint_from (zone_bytes z) ((mz_blocks w)(a := None))"
proof -
  have "block_bytes b (mz_len y) \<inter> zone_bytes z = {}"
    if "allocated_memzones w b = Some y" "b \<noteq> a" for b y
    using mz_ok_disjoint [OF assms(1) that(1) assms(2) that(2)] mz_ok_tracked(1) [OF assms(1) that(1)]
    by (simp add: zone_bytes_block)
  then show ?thesis by (auto simp: disjoint_from_def mz_blocks_def)
qed

lemma mz_reserve_ok:
  assumes "mz_ok P w" "0 < n" "rte_memzone_reserve_aligned P n al (mach w) = (Some z, m)"
  defines "w' \<equiv> tracker_Emplace (mz_addr z) z (w\<lparr>mach := m\<rparr>)"
  shows "allocated_memzones w (mz_addr z) = None"
    and "mz_ok P w'"
    and "allocated_memzones w' = (allocated_memzones w)(mz_addr z \<mapsto> z)"
    and "n \<le> mz_len z"
    and "same_outside (zone_bytes z) (mach w) (mach w')"
    and "disjoint_from (zone_bytes z) (mz_blocks w)"
    and "pool_stats w' = pool_stats w"
proof -
  have laws: "memzone_laws P" using assms(1) by (simp add: mz_ok_def)
  have L: "live_zones P (hidden m) = insert z (live_zones P (hidden (mach w)))"
    "n \<le> mz_len z" "0 < mz_addr z" "zero_size_area P \<notin> zone_bytes z"
    "\<And>y. y \<in> live_zones P (hidden (mach w)) \<Longrightarrow> zone_bytes y \<inter> zone_bytes z = {}"
    "same_outside (zone_bytes z) (mach w) m"
    using memzone_reserve_some [OF laws assms(2,3)] by auto
  have apart: "zone_bytes y \<inter> zone_bytes z = {}" if "allocated_memzones w a = Some y" for a y
    using L(5) mz_ok_tracked(4) [OF assms(1) that] by blast
  show none: "allocated_memzones w (mz_addr z) = None"
  proof (rule ccontr)
    assume "allocated_memzones w (mz_addr z) \<noteq> None"
    then obtain y where y: "allocated_memzones w (mz_addr z) = Some y" by blast
    from mz_ok_tracked [OF assms(1) y] L(2) assms(2) have "mz_addr z \<in> zone_bytes y \<inter> zone_bytes z"
      by (auto simp: zone_bytes_def)
    with apart [OF y] show False by blast
  qed
  show tr: "allocated_memzones w' = (allocated_memzones w)(mz_addr z \<mapsto> z)"
    using none by (simp add: w'_def tracker_Emplace_def)
  have mw': "mach w' = m" using none by (simp add: w'_def tracker_Emplace_def)
  show "mz_ok P w'"
    unfolding mz_ok_def
  proof (intro conjI allI impI)
    show "memzone_laws P" "memcpy_laws P" using assms(1) by (simp_all add: mz_ok_def)
  next
    fix a y assume "allocated_memzones w' a = Some y"
    then have "a = mz_addr z \<and> y = z \<or> allocated_memzones w a = Some y"
      by (simp add: tr split: if_splits)
    then show "mz_addr y = a" "0 < a" "0 < mz_len y" "y \<in> live_zones P (hidden (mach w'))"
      "zero_size_area P \<notin> zone_bytes y"
      using L(1-4) assms(2) mz_ok_tracked [OF assms(1), of a y] by (auto simp: mw')
  next
    fix a y b x
    assume y: "allocated_memzones w' a = Some y" and x: "allocated_memzones w' b = Some x"
      and ab: "a \<noteq> b"
    show "zone_bytes y \<inter> zone_bytes x = {}"
    proof (cases "a = mz_addr z \<or> b = mz_addr z")
      case True
      then show ?thesis using x y ab apart [of b x] apart [of a y]
        by (elim disjE) (simp_all add: tr Int_commute)
    next
      case False
      then show ?thesis using x y ab mz_ok_disjoint [OF assms(1)] by (simp add: tr)
    qed
  qed
  show "n \<le> mz_len z" by (rule L(2))
  show "same_outside (zone_bytes z) (mach w) (mach w')" using L(6) mw' by simp
  show "disjoint_from (zone_bytes z) (mz_blocks w)"
    using apart mz_ok_tracked(1) [OF assms(1)]
    by (auto simp: disjoint_from_def mz_blocks_def zone_bytes_block)
  show "pool_stats w' = pool_stats w" using none by (simp add: w'_def tracker_Emplace_def)
qed

lemma mz_reserve_fail:
  assumes "mz_ok P w" "rte_memzone_reserve_aligned P n al (mach w) = (None, m)"
  shows "mz_ok P (w\<lparr>mach := m\<rparr>)" and "same_outside {} (mach w) m"
proof -
  have "memzone_laws P" using assms(1) by (simp add: mz_ok_def)
  then have "live_zones P (hidden m) = live_zones P (hidden (mach w)) \<and> same_outside {} (mach w) m"
    using memzone_reserve_none [OF _ assms(2)] by blast
  then show "mz_ok P (w\<lparr>mach := m\<rparr>)" "same_outside {} (mach w) m"
    using assms(1) by (auto simp: mz_ok_def)
qed

lemma tracker_Release_ok:
  assumes "mz_ok P w" "allocated_memzones w a = Some z"
  shows "mz_ok P (tracker_Release P a w)"
    and "allocated_memzones (tracker_Release P a w) = (allocated_memzones w)(a := None)"
    and "same_outside (zone_bytes z) (mach w) (mach (tracker_Release P a w))"
    and "pool_stats (tracker_Release P a w) = pool_stats w"
proof -
  have F: "live_zones P (hidden (rte_memzone_free P z (mach w))) = live_zones P (hidden (mach w)) - {z}"
    "same_outside (zone_bytes z) (mach w) (rte_memzone_free P z (mach w))"
    using assms(1) memzone_free_laws by (auto simp: mz_ok_def)
  show "allocated_memzones (tracker_Release P a w) = (allocated_memzones w)(a := None)"
    using assms(2) by (simp add: tracker_Release_def)
  show "same_outside (zone_bytes z) (mach w) (mach (tracker_Release P a w))"
    using assms(2) F(2) by (simp add: tracker_Release_def)
  show "pool_stats (tracker_Release P a w) = pool_stats w"
    using assms(2) by (simp add: tracker_Release_def)
  have "y \<noteq> z" if "allocated_memzones w b = Some y" "b \<noteq> a" for b y
    using mz_ok_tracked(1) [OF assms(1)] that assms(2) by metis
  then show "mz_ok P (tracker_Release P a w)"
    using assms F(1) by (auto simp: mz_ok_def tracker_Release_def split: if_splits)
qed


lemma mz_ok_frame [simp]:
  "mz_ok P (write_byte a v w) = mz_ok P w"
  "mz_ok P (UpdateAllocatedBytes b d f w) = mz_ok P w"
  "mz_blocks (write_byte a v w) = mz_blocks w"
  "mz_blocks (UpdateAllocatedBytes b d f w) = mz_blocks w"
  by (simp_all add: mz_ok_def mz_blocks_def)

lemma mz_blocks_upd: "allocated_memzones w' = (allocated_memzones w)(a := q) \<Longrightarrow>
    mz_blocks w' = (mz_blocks w)(a := map_option mz_len q)"
  by (auto simp: mz_blocks_def)

lemma nat_mod_int64:
  "0 \<le> n \<Longrightarrow> n < 2 ^ 63 \<Longrightarrow> nat (n mod 2 ^ 64) = nat n"
  by simp

lemma memzone_AllocateAligned_ok:
  assumes "mz_ok P w" "0 < n" "n < 2 ^ 63" "memzone_AllocateAligned P n al out w = (Inr u, a, w')"
  shows "mz_ok P w' \<and> mz_blocks w a = None \<and> pool_stats w' = pool_stats w \<and>
    same_blocks (mz_blocks w) w w' \<and> (\<exists>c. nat n \<le> c \<and> mz_blocks w' = (mz_blocks w)(a \<mapsto> c))"
proof -
  from assms(2-4) obtain z m where
    r: "rte_memzone_reserve_aligned P (nat n) (nat (al mod 2 ^ 32)) (mach w) = (Some z, m)" and
    a: "a = mz_addr z" and w': "w' = tracker_Emplace (mz_addr z) z (w\<lparr>mach := m\<rparr>)"
    by (auto simp: memzone_AllocateAligned_def split: prod.splits option.splits)
  have n: "0 < nat n" using assms(2) by simp
  note R = mz_reserve_ok [OF assms(1) n r, folded w' a]
  have "mz_blocks w' = (mz_blocks w)(a \<mapsto> mz_len z)"
    using mz_blocks_upd [OF R(3)] by simp
  with R show ?thesis
    using same_blocks_if_same_outside by (auto simp: mz_blocks_def)
qed

lemma memzone_AllocateAligned_fail:
  assumes "mz_ok P w" "0 < n" "n < 2 ^ 63" "memzone_AllocateAligned P n al out w = (Inl e, a, w')"
  shows "a = out \<and> mz_ok P w' \<and> mz_blocks w' = mz_blocks w \<and> pool_stats w' = pool_stats w \<and>
    same_blocks (mz_blocks w) w w' \<and> (\<exists>m. e = Status OutOfMemory m)"
proof -
  from assms(2-4) obtain m where
    r: "rte_memzone_reserve_aligned P (nat n) (nat (al mod 2 ^ 32)) (mach w) = (None, m)" and
    w': "w' = w\<lparr>mach := m\<rparr>" and e: "a = out" "\<exists>m. e = Status OutOfMemory m"
    by (auto simp: memzone_AllocateAligned_def split: prod.splits option.splits)
  show ?thesis
    using mz_reserve_fail [OF assms(1) r] e
    by (auto simp: w' mz_blocks_def same_blocks_def same_outside_def)
qed

lemma memzone_DeallocateAligned_block:
  assumes "mz_ok P w" "mz_blocks w p = Some k"
  shows "\<exists>w'. memzone_DeallocateAligned P p n al w = (OK, w') \<and> w' = tracker_Release P p w \<and>
    mz_ok P w' \<and> mz_blocks w' = (mz_blocks w)(p := None) \<and> pool_stats w' = pool_stats w \<and>
    same_blocks ((mz_blocks w)(p := None)) w w'"
proof -
  from assms(2) obtain z where z: "allocated_memzones w p = Some z" by (auto simp: mz_blocks_def)
  have "p \<noteq> zero_size_area P"
    using mz_ok_tracked [OF assms(1) z] by (auto simp: zone_bytes_def)
  note R = tracker_Release_ok [OF assms(1) z]
  have "same_blocks ((mz_blocks w)(p := None)) w (tracker_Release P p w)"
    by (rule same_blocks_if_same_outside [OF R(3) mz_ok_apart [OF assms(1) z]])
  then show ?thesis
    using R mz_blocks_upd [OF R(2)] \<open>p \<noteq> zero_size_area P\<close>
    by (simp add: memzone_DeallocateAligned_def)
qed

lemma mz_blocks_start:
  assumes "mz_ok P w" "mz_blocks w a = Some k"
  shows "a \<noteq> nullptr \<and> a \<noteq> zero_size_area P \<and> 0 < k"
proof -
  from assms(2) obtain z where z: "allocated_memzones w a = Some z" "k = mz_len z"
    by (auto simp: mz_blocks_def)
  from mz_ok_tracked [OF assms(1) z(1)] z(2) show ?thesis
    by (auto simp: zone_bytes_def)
qed

lemma mz_blocks_apart:
  assumes "mz_ok P w" "mz_blocks w a = Some k"
  shows "disjoint_from (block_bytes a k) ((mz_blocks w)(a := None))"
proof -
  from assms(2) obtain z where z: "allocated_memzones w a = Some z" "k = mz_len z"
    by (auto simp: mz_blocks_def)
  then show ?thesis
    using mz_ok_apart [OF assms(1) z(1)] mz_ok_tracked(1) [OF assms(1) z(1)]
    by (simp add: zone_bytes_block)
qed

lemma disjoint_from_apart:
  assumes "disjoint_from A bl" "bl p = Some k"
  shows "block_bytes p k \<inter> A = {}"
  using assms by (auto simp: disjoint_from_def)

lemma memcpy_disjoint:
  assumes "memcpy_laws P" "{d ..< d + n} \<inter> {s ..< s + n} = {}"
  shows "rte_memcpy P d s n m =
    m\<lparr>bytes := (\<lambda>a. if d \<le> a \<and> a < d + n then bytes m (s + (a - d)) else bytes m a)\<rparr>"
  using assms by (simp add: memcpy_laws_def)

text \<open>The copy into a new zone and the release of the old one.\<close>

lemma memzone_move:
  assumes ok: "mz_ok P w" and p: "mz_blocks w p = Some k" and old: "0 < old" "nat old \<le> k"
    and n: "0 < n" "n < 2 ^ 63"
    and al: "memzone_AllocateAligned P n al nullptr w = (Inr u, a, w1)"
  defines "w2 \<equiv> w1\<lparr>mach := rte_memcpy P a p (nat (min n old)) (mach w1)\<rparr>"
  defines "w' \<equiv> tracker_Release P p w2"
  shows "mz_ok P w' \<and> pool_stats w' = pool_stats w \<and> same_blocks ((mz_blocks w)(p := None)) w w' \<and>
      (\<forall>i < nat (min old n). bytes (mach w') (a + i) = bytes (mach w) (p + i)) \<and>
      (\<exists>c. nat n \<le> c \<and> ((mz_blocks w)(p := None)) a = None \<and>
         mz_blocks w' = ((mz_blocks w)(p := None))(a \<mapsto> c))"
proof -
  obtain c where A: "mz_ok P w1" "mz_blocks w a = None" "pool_stats w1 = pool_stats w"
    "same_blocks (mz_blocks w) w w1" "nat n \<le> c" "mz_blocks w1 = (mz_blocks w)(a \<mapsto> c)"
    using memzone_AllocateAligned_ok [OF ok n al] by blast
  have pa: "p \<noteq> a" using A(2) p by auto
  have p1: "mz_blocks w1 p = Some k" and a1: "mz_blocks w1 a = Some c"
    using A(6) p pa by simp_all
  have ap: "block_bytes a c \<inter> block_bytes p k = {}"
    using disjoint_from_apart [OF mz_blocks_apart [OF A(1) p1], of a c] a1 pa by simp
  let ?k = "nat (min n old)"
  have "{a ..< a + ?k} \<subseteq> block_bytes a c" "{p ..< p + ?k} \<subseteq> block_bytes p k"
    using A(5) old(2) by (auto simp: block_bytes_def)
  then have "{a ..< a + ?k} \<inter> {p ..< p + ?k} = {}" using ap by blast
  with A(1) have cp: "rte_memcpy P a p ?k (mach w1) = (mach w1)\<lparr>bytes :=
      (\<lambda>x. if a \<le> x \<and> x < a + ?k then bytes (mach w1) (p + (x - a)) else bytes (mach w1) x)\<rparr>"
    by (intro memcpy_disjoint) (simp_all add: mz_ok_def)
  have ok2: "mz_ok P w2" using A(1) by (simp add: w2_def cp mz_ok_def)
  have bl2: "mz_blocks w2 = mz_blocks w1" by (simp add: w2_def mz_blocks_def)
  have p2: "mz_blocks w2 p = Some k" using p1 bl2 by simp
  obtain w3 where R: "w3 = w'" "mz_ok P w'" "mz_blocks w' = (mz_blocks w2)(p := None)"
    "pool_stats w' = pool_stats w2" "same_blocks ((mz_blocks w2)(p := None)) w2 w'"
    using memzone_DeallocateAligned_block [OF ok2 p2] by (auto simp: w'_def)
  have copied: "bytes (mach w') (a + i) = bytes (mach w) (p + i)" if "i < nat (min old n)" for i
  proof -
    have i: "i < ?k" "i < c" "i < k" using that A(5) old(2) by auto
    have "bytes (mach w') (a + i) = bytes (mach w2) (a + i)"
      using R(5) bl2 A(6) pa i(2) by (auto simp: same_blocks_def)
    also have "\<dots> = bytes (mach w1) (p + i)" using i(1) by (simp add: w2_def cp)
    also have "\<dots> = bytes (mach w) (p + i)"
      using A(4) p i(3) by (auto simp: same_blocks_def)
    finally show ?thesis .
  qed
  have "same_blocks ((mz_blocks w)(p := None)) w w'"
    unfolding same_blocks_def
  proof (intro allI impI)
    fix b l i assume b: "((mz_blocks w)(p := None)) b = Some l" and i: "i < l"
    then have bp: "b \<noteq> p" "mz_blocks w b = Some l" by (auto split: if_splits)
    then have ba: "b \<noteq> a" and b1: "mz_blocks w1 b = Some l" using A(2,6) by auto
    have "block_bytes b l \<inter> block_bytes a c = {}"
      using disjoint_from_apart [OF mz_blocks_apart [OF A(1) a1], of b l] b1 ba by simp
    moreover have "b + i \<in> block_bytes b l" using i by (simp add: block_bytes_def)
    ultimately have nin: "\<not> (a \<le> b + i \<and> b + i < a + ?k)"
      using A(5) by (auto simp: block_bytes_def)
    have "bytes (mach w') (b + i) = bytes (mach w2) (b + i)"
      using R(5) bl2 b1 bp(1) i by (auto simp: same_blocks_def)
    also have "\<dots> = bytes (mach w1) (b + i)" using nin by (auto simp: w2_def cp)
    also have "\<dots> = bytes (mach w) (b + i)" using A(4) bp(2) i by (auto simp: same_blocks_def)
    finally show "bytes (mach w') (b + i) = bytes (mach w) (b + i)" .
  qed
  moreover have "mz_blocks w' = ((mz_blocks w)(p := None))(a \<mapsto> c)"
    using R(3) bl2 A(6) pa by (auto simp: fun_upd_twist)
  moreover have "((mz_blocks w)(p := None)) a = None" using A(2) by simp
  moreover have "pool_stats w' = pool_stats w" using R(4) A(3) by (simp add: w2_def)
  ultimately show ?thesis using R(2) copied A(5) by blast
qed

lemma memzone_ReallocateAligned_eq:
  assumes "mz_ok P w" "mz_blocks w p = Some k" "0 < n" "n < 2 ^ 63" "0 < old"
  shows "memzone_ReallocateAligned P old n al p w =
    (case memzone_AllocateAligned P n al nullptr w of
       (Inl e, out, w1) \<Rightarrow> (Inl e, p, w1)
     | (Inr u, out, w1) \<Rightarrow>
         (OK, out, tracker_Release P p
            (w1\<lparr>mach := rte_memcpy P out p (nat (min n old)) (mach w1)\<rparr>)))"
proof -
  have "min n old mod 2 ^ 64 = min n old" using assms(3-5) by simp
  moreover have "out \<noteq> nullptr" if out: "memzone_AllocateAligned P n al nullptr w = (Inr u, out, w1)"
    for u out w1
  proof -
    obtain c where "mz_ok P w1" "mz_blocks w1 out = Some c"
      using memzone_AllocateAligned_ok [OF assms(1,3,4) out] by auto
    then show ?thesis using mz_blocks_start by blast
  qed
  ultimately show ?thesis
    using assms(3) mz_blocks_start [OF assms(1,2)]
    by (auto simp: memzone_ReallocateAligned_def Let_def split: prod.splits sum.splits)
qed

lemma memzone_ReallocateAligned_ok:
  assumes "mz_ok P w" "mz_blocks w p = Some k" "0 < old" "nat old \<le> k" "0 < n" "n < 2 ^ 63"
    and "memzone_ReallocateAligned P old n al p w = (Inr u, a, w')"
  shows "mz_ok P w' \<and> pool_stats w' = pool_stats w \<and> same_blocks ((mz_blocks w)(p := None)) w w' \<and>
      (\<forall>i < nat (min old n). bytes (mach w') (a + i) = bytes (mach w) (p + i)) \<and>
      (\<exists>c. nat n \<le> c \<and> ((mz_blocks w)(p := None)) a = None \<and>
         mz_blocks w' = ((mz_blocks w)(p := None))(a \<mapsto> c))"
proof -
  obtain v w1 where "memzone_AllocateAligned P n al nullptr w = (Inr v, a, w1)"
    and "w' = tracker_Release P p (w1\<lparr>mach := rte_memcpy P a p (nat (min n old)) (mach w1)\<rparr>)"
    using assms(7) unfolding memzone_ReallocateAligned_eq [OF assms(1,2,5,6,3)]
    by (simp split: prod.splits sum.splits)
  then show ?thesis using memzone_move [OF assms(1-6), of al v a w1] by simp
qed

lemma memzone_ReallocateAligned_fail:
  assumes "mz_ok P w" "mz_blocks w p = Some k" "0 < old" "nat old \<le> k" "0 < n" "n < 2 ^ 63"
    and "memzone_ReallocateAligned P old n al p w = (Inl e, a, w')"
  shows "a = p \<and> mz_ok P w' \<and> mz_blocks w' = mz_blocks w \<and> pool_stats w' = pool_stats w \<and>
      same_blocks (mz_blocks w) w w' \<and> (\<exists>m. e = Status OutOfMemory m)"
proof -
  obtain out where "memzone_AllocateAligned P n al nullptr w = (Inl e, out, w')" and "a = p"
    using assms(7) unfolding memzone_ReallocateAligned_eq [OF assms(1,2,5,6,3)]
    by (simp split: prod.splits sum.splits)
  then show ?thesis using memzone_AllocateAligned_fail [OF assms(1,5,6)] by blast
qed

lemma RtememzoneMemoryPool_sel [simp]:
  "AllocateAligned (RtememzoneMemoryPool P) = memzone_AllocateAligned P"
  "ReallocateAligned (RtememzoneMemoryPool P) = memzone_ReallocateAligned P"
  "DeallocateAligned (RtememzoneMemoryPool P) = memzone_DeallocateAligned P"
  "backend (RtememzoneMemoryPool P) = Rtememzone"
  by (simp_all add: RtememzoneMemoryPool_def)

lemma memzone_ReallocateAligned_to_zero:
  assumes "mz_ok P w" "mz_blocks w p = Some k"
  shows "memzone_ReallocateAligned P n 0 al p w =
    (OK, zero_size_area P, snd (memzone_DeallocateAligned P p n al w))"
  using memzone_DeallocateAligned_block [OF assms, of n al] mz_blocks_start [OF assms]
  by (auto simp: memzone_ReallocateAligned_def)

interpretation memzone: byte_allocator "RtememzoneMemoryPool P" "zero_size_area P" "mz_ok P" mz_blocks
  for P :: "('w, 'p) dpdk_memory_scheme"
proof (unfold_locales, unfold RtememzoneMemoryPool_sel)
qed (simp; fail
   | (rule mz_blocks_start mz_blocks_apart memzone_AllocateAligned_ok
        memzone_ReallocateAligned_to_zero memzone_ReallocateAligned_ok
        memzone_ReallocateAligned_fail; assumption)
   | (drule (3) memzone_AllocateAligned_fail, blast)
   | (drule (1) memzone_DeallocateAligned_block, blast)
   | (simp add: memzone_AllocateAligned_def memzone_DeallocateAligned_def
        memzone_ReallocateAligned_def; fail))+

subsection \<open>RtemallocAllocator implements the interface\<close>

definition malloc_blocks :: "('w, 'p) dpdk_memory_scheme \<Rightarrow> 'w world \<Rightarrow> addr \<rightharpoonup> nat" where
  "malloc_blocks P w = live_mallocs P (hidden (mach w))"

definition malloc_ok :: "('w, 'p) dpdk_memory_scheme \<Rightarrow> 'w world \<Rightarrow> bool" where
  "malloc_ok P w \<longleftrightarrow> malloc_laws P \<and>
     (\<forall>a k. malloc_blocks P w a = Some k \<longrightarrow>
        a \<noteq> nullptr \<and> 0 < k \<and> zero_size_area P \<notin> block_bytes a k \<and>
        disjoint_from (block_bytes a k) ((malloc_blocks P w)(a := None)))"

lemma malloc_ok_frame [simp]:
  "malloc_ok P (write_byte a v w) = malloc_ok P w"
  "malloc_ok P (UpdateAllocatedBytes b d f w) = malloc_ok P w"
  "malloc_blocks P (write_byte a v w) = malloc_blocks P w"
  "malloc_blocks P (UpdateAllocatedBytes b d f w) = malloc_blocks P w"
  by (simp_all add: malloc_ok_def malloc_blocks_def)

lemma malloc_ok_block:
  assumes "malloc_ok P w" "malloc_blocks P w a = Some k"
  shows "a \<noteq> nullptr" "0 < k" "zero_size_area P \<notin> block_bytes a k" "a \<noteq> zero_size_area P"
    "disjoint_from (block_bytes a k) ((malloc_blocks P w)(a := None))"
proof -
  show k: "a \<noteq> nullptr" "0 < k" "zero_size_area P \<notin> block_bytes a k"
    "disjoint_from (block_bytes a k) ((malloc_blocks P w)(a := None))"
    using assms by (auto simp: malloc_ok_def)
  then show "a \<noteq> zero_size_area P" by (auto simp: block_bytes_def)
qed

lemma block_fresh:
  assumes "disjoint_from (block_bytes a c) bl" "0 < c" "\<And>k. bl a = Some k \<Longrightarrow> 0 < k"
  shows "bl a = None"
proof (rule ccontr)
  assume "bl a \<noteq> None"
  then obtain k where "bl a = Some k" by blast
  with assms have "a \<in> block_bytes a k \<inter> block_bytes a c" by (auto simp: block_bytes_def)
  with assms(1) \<open>bl a = Some k\<close> show False by (auto simp: disjoint_from_def)
qed

text \<open>Adding a block that overlaps no other keeps the invariant.\<close>

lemma malloc_ok_add:
  assumes ok: "malloc_ok P w" and bl: "\<And>b. bl b = None \<or> bl b = malloc_blocks P w b"
    and new: "malloc_blocks P w' = bl(a \<mapsto> c)" "disjoint_from (block_bytes a c) bl"
      "zero_size_area P \<notin> block_bytes a c" "0 < c" "a \<noteq> nullptr"
  shows "malloc_ok P w'"
  unfolding malloc_ok_def
proof (intro conjI allI impI)
  show "malloc_laws P" using ok by (simp add: malloc_ok_def)
next
  fix b k assume b: "malloc_blocks P w' b = Some k"
  then have "b = a \<and> k = c \<or> malloc_blocks P w b = Some k"
    using new(1) bl [of b] by (auto split: if_splits)
  then show "b \<noteq> nullptr" "0 < k" "zero_size_area P \<notin> block_bytes b k"
    using malloc_ok_block [OF ok, of b k] new by auto
  show "disjoint_from (block_bytes b k) ((malloc_blocks P w')(b := None))"
  proof (cases "b = a")
    case True
    then show ?thesis using b new(1,2) by (auto simp: disjoint_from_def split: if_splits)
  next
    case False
    then have bk: "bl b = Some k" and wb: "malloc_blocks P w b = Some k"
      using b new(1) bl [of b] by (auto split: if_splits)
    have "block_bytes x l \<inter> block_bytes b k = {}" if "(bl(a \<mapsto> c)) x = Some l" "x \<noteq> b" for x l
    proof (cases "x = a")
      case True
      then show ?thesis using that(1) new(2) bk by (auto simp: disjoint_from_def)
    next
      case False
      then have "malloc_blocks P w x = Some l" using that(1) bl [of x] by auto
      then show ?thesis using malloc_ok_block(5) [OF ok wb] that(2)
        by (auto simp: disjoint_from_def)
    qed
    then show ?thesis by (auto simp: disjoint_from_def new(1))
  qed
qed

lemma malloc_AllocateAligned_ok:
  assumes "malloc_ok P w" "0 < n" "n < 2 ^ 63" "malloc_AllocateAligned P n al out w = (Inr u, a, w')"
  shows "malloc_ok P w' \<and> malloc_blocks P w a = None \<and> pool_stats w' = pool_stats w \<and>
    same_blocks (malloc_blocks P w) w w' \<and>
    (\<exists>c. nat n \<le> c \<and> malloc_blocks P w' = (malloc_blocks P w)(a \<mapsto> c))"
proof -
  from assms(2-4) obtain m where
    r: "rte_malloc P (nat n) (nat (al mod 2 ^ 32)) (mach w) = (a, m)" and
    a: "a \<noteq> nullptr" and w': "w' = w\<lparr>mach := m\<rparr>"
    by (auto simp: malloc_AllocateAligned_def split: prod.splits if_splits)
  have laws: "malloc_laws P" and n: "0 < nat n" using assms(1,2) by (simp_all add: malloc_ok_def)
  obtain c where c: "nat n \<le> c" "malloc_blocks P w' = (malloc_blocks P w)(a \<mapsto> c)"
    "disjoint_from (block_bytes a c) (malloc_blocks P w)" "zero_size_area P \<notin> block_bytes a c"
    "same_outside (block_bytes a c) (mach w) (mach w')"
    using malloc_some [OF laws n r a] by (auto simp: malloc_blocks_def w')
  have c0: "0 < c" using c(1) n by simp
  have "malloc_ok P w'" by (rule malloc_ok_add [OF assms(1) _ c(2-4) c0 a]) simp
  moreover have "malloc_blocks P w a = None"
    using block_fresh [OF c(3) c0] malloc_ok_block(2) [OF assms(1)] by blast
  ultimately show ?thesis
    using c same_blocks_if_same_outside [OF c(5,3)] by (auto simp: w')
qed

lemma malloc_ok_same:
  assumes "malloc_ok P w" "live_mallocs P (hidden m) = live_mallocs P (hidden (mach w))"
  shows "malloc_ok P (w\<lparr>mach := m\<rparr>)" "malloc_blocks P (w\<lparr>mach := m\<rparr>) = malloc_blocks P w"
  using assms by (simp_all add: malloc_ok_def malloc_blocks_def)

lemma same_blocks_unchanged: "same_outside {} (mach w) m \<Longrightarrow> same_blocks bl w (w\<lparr>mach := m\<rparr>)"
  by (simp add: same_outside_def same_blocks_def)

lemma malloc_AllocateAligned_fail:
  assumes "malloc_ok P w" "0 < n" "n < 2 ^ 63" "malloc_AllocateAligned P n al out w = (Inl e, a, w')"
  shows "malloc_ok P w' \<and> malloc_blocks P w' = malloc_blocks P w \<and> pool_stats w' = pool_stats w \<and>
    same_blocks (malloc_blocks P w) w w' \<and> (\<exists>m. e = Status OutOfMemory m)"
proof -
  from assms(2-4) obtain m where
    r: "rte_malloc P (nat n) (nat (al mod 2 ^ 32)) (mach w) = (nullptr, m)" and
    w': "w' = w\<lparr>mach := m\<rparr>" "\<exists>m. e = Status OutOfMemory m"
    by (auto simp: malloc_AllocateAligned_def split: prod.splits if_splits)
  have "malloc_laws P" using assms(1) by (simp add: malloc_ok_def)
  then show ?thesis
    using malloc_none [OF _ r] malloc_ok_same [OF assms(1)] w' by (simp add: same_blocks_unchanged)
qed

lemma malloc_DeallocateAligned_block:
  assumes "malloc_ok P w" "malloc_blocks P w p = Some k"
  shows "\<exists>w'. malloc_DeallocateAligned P p n al w = (OK, w') \<and>
    malloc_ok P w' \<and> malloc_blocks P w' = (malloc_blocks P w)(p := None) \<and>
    pool_stats w' = pool_stats w \<and> same_blocks ((malloc_blocks P w)(p := None)) w w'"
proof -
  let ?w = "w\<lparr>mach := rte_free P p (mach w)\<rparr>"
  have laws: "malloc_laws P" using assms(1) by (simp add: malloc_ok_def)
  note F = rte_free_block [OF laws assms(2) [unfolded malloc_blocks_def]]
  have bl: "malloc_blocks P ?w = (malloc_blocks P w)(p := None)" using F by (simp add: malloc_blocks_def)
  have "malloc_ok P ?w"
    using assms(1) unfolding malloc_ok_def bl by (auto simp: disjoint_from_def split: if_splits)
  moreover have "same_blocks ((malloc_blocks P w)(p := None)) w ?w"
    using same_blocks_if_same_outside [of "block_bytes p k" w ?w] F malloc_ok_block(5) [OF assms] by simp
  ultimately show ?thesis
    using malloc_ok_block(4) [OF assms] bl by (simp add: malloc_DeallocateAligned_def)
qed

lemma malloc_ReallocateAligned_eq:
  assumes "malloc_ok P w" "malloc_blocks P w p = Some k" "0 < n" "n < 2 ^ 63"
  shows "malloc_ReallocateAligned P old n al p w =
    (case rte_realloc P p (nat n) (nat (al mod 2 ^ 32)) (mach w) of (a, m) \<Rightarrow>
       if a = nullptr then (Inl (Status OutOfMemory ''realloc of size ''), p, w\<lparr>mach := m\<rparr>)
       else (OK, a, w\<lparr>mach := m\<rparr>))"
  using assms(3,4) malloc_ok_block(4) [OF assms(1,2)]
  by (simp add: malloc_ReallocateAligned_def Let_def split: prod.splits)

lemma malloc_ReallocateAligned_ok:
  assumes "malloc_ok P w" "malloc_blocks P w p = Some k" "0 < old" "nat old \<le> k" "0 < n" "n < 2 ^ 63"
    and "malloc_ReallocateAligned P old n al p w = (Inr u, a, w')"
  shows "malloc_ok P w' \<and> pool_stats w' = pool_stats w \<and>
      same_blocks ((malloc_blocks P w)(p := None)) w w' \<and>
      (\<forall>i < nat (min old n). bytes (mach w') (a + i) = bytes (mach w) (p + i)) \<and>
      (\<exists>c. nat n \<le> c \<and> ((malloc_blocks P w)(p := None)) a = None \<and>
         malloc_blocks P w' = ((malloc_blocks P w)(p := None))(a \<mapsto> c))"
proof -
  obtain m where r: "rte_realloc P p (nat n) (nat (al mod 2 ^ 32)) (mach w) = (a, m)"
    and a: "a \<noteq> nullptr" and w': "w' = w\<lparr>mach := m\<rparr>"
    using assms(7) unfolding malloc_ReallocateAligned_eq [OF assms(1,2,5,6)]
    by (auto split: prod.splits if_splits)
  have laws: "malloc_laws P" and n: "0 < nat n" using assms(1,5) by (simp_all add: malloc_ok_def)
  let ?bl = "(malloc_blocks P w)(p := None)"
  obtain c where c: "nat n \<le> c" "malloc_blocks P w' = ?bl(a \<mapsto> c)"
    "disjoint_from (block_bytes a c) ?bl" "zero_size_area P \<notin> block_bytes a c"
    "\<forall>i < min k (nat n). bytes m (a + i) = bytes (mach w) (p + i)"
    "same_outside (block_bytes p k \<union> block_bytes a c) (mach w) (mach w')"
    using realloc_some [OF laws n assms(2) [unfolded malloc_blocks_def] r a]
    by (auto simp: malloc_blocks_def w')
  have c0: "0 < c" using c(1) n by simp
  have "malloc_ok P w'" by (rule malloc_ok_add [OF assms(1) _ c(2-4) c0 a]) simp
  moreover have "?bl a = None"
    by (rule block_fresh [OF c(3) c0]) (use malloc_ok_block(2) [OF assms(1)] in \<open>auto split: if_splits\<close>)
  moreover have "same_blocks ?bl w w'"
  proof (rule same_blocks_if_same_outside [OF c(6)])
    show "disjoint_from (block_bytes p k \<union> block_bytes a c) ?bl"
      using malloc_ok_block(5) [OF assms(1,2)] c(3) unfolding disjoint_from_def by blast
  qed
  moreover have "i < min k (nat n)" if "i < nat (min old n)" for i using that assms(4) by linarith
  ultimately show ?thesis using c(1,2,5) by (auto simp: w')
qed

lemma malloc_ReallocateAligned_fail:
  assumes "malloc_ok P w" "malloc_blocks P w p = Some k" "0 < old" "nat old \<le> k" "0 < n" "n < 2 ^ 63"
    and "malloc_ReallocateAligned P old n al p w = (Inl e, a, w')"
  shows "a = p \<and> malloc_ok P w' \<and> malloc_blocks P w' = malloc_blocks P w \<and>
      pool_stats w' = pool_stats w \<and> same_blocks (malloc_blocks P w) w w' \<and>
      (\<exists>m. e = Status OutOfMemory m)"
proof -
  obtain m where r: "rte_realloc P p (nat n) (nat (al mod 2 ^ 32)) (mach w) = (nullptr, m)"
    and w': "a = p" "w' = w\<lparr>mach := m\<rparr>" "\<exists>m. e = Status OutOfMemory m"
    using assms(7) unfolding malloc_ReallocateAligned_eq [OF assms(1,2,5,6)]
    by (auto split: prod.splits if_splits)
  have "malloc_laws P" using assms(1) by (simp add: malloc_ok_def)
  then show ?thesis
    using realloc_none [OF _ r] malloc_ok_same [OF assms(1)] w' by (simp add: same_blocks_unchanged)
qed

lemma RtemallocMemoryPool_sel [simp]:
  "AllocateAligned (RtemallocMemoryPool P) = malloc_AllocateAligned P"
  "ReallocateAligned (RtemallocMemoryPool P) = malloc_ReallocateAligned P"
  "DeallocateAligned (RtemallocMemoryPool P) = malloc_DeallocateAligned P"
  "backend (RtemallocMemoryPool P) = Rtemalloc"
  by (simp_all add: RtemallocMemoryPool_def)

lemma malloc_ReallocateAligned_to_zero:
  assumes "malloc_ok P w" "malloc_blocks P w p = Some k"
  shows "malloc_ReallocateAligned P n 0 al p w =
    (OK, zero_size_area P, snd (malloc_DeallocateAligned P p n al w))"
  using malloc_DeallocateAligned_block [OF assms, of n al] malloc_ok_block(4) [OF assms]
  by (auto simp: malloc_ReallocateAligned_def)

lemma malloc_blocks_start:
  assumes "malloc_ok P w" "malloc_blocks P w a = Some k"
  shows "a \<noteq> nullptr \<and> a \<noteq> zero_size_area P \<and> 0 < k"
  using malloc_ok_block [OF assms] by blast

interpretation malloc: byte_allocator "RtemallocMemoryPool P" "zero_size_area P" "malloc_ok P"
    "malloc_blocks P"
  for P :: "('w, 'p) dpdk_memory_scheme"
proof (unfold_locales, unfold RtemallocMemoryPool_sel)
qed (simp; fail
   | (rule malloc_blocks_start malloc_ok_block(5) malloc_AllocateAligned_ok
        malloc_AllocateAligned_fail malloc_ReallocateAligned_to_zero
        malloc_ReallocateAligned_ok malloc_ReallocateAligned_fail
        malloc_DeallocateAligned_block; assumption)
   | (simp add: malloc_AllocateAligned_def malloc_DeallocateAligned_def
        malloc_ReallocateAligned_def; fail))+

subsection \<open>The pool over any allocator\<close>

context byte_allocator begin

lemma same_blocks_poison:
  assumes "ok w" "blocks w a = Some c" "x \<in> block_bytes a c"
  shows "same_blocks ((blocks w)(a := None)) w (write_byte x v w)"
  using same_blocks_write_byte [OF blocks_apart [OF assms(1,2)] assms(3)] .

lemma same_blocks_poison2:
  assumes "ok w" "blocks w a = Some c" "x \<in> block_bytes a c" "y \<in> block_bytes a c"
  shows "same_blocks ((blocks w)(a := None)) w (write_byte y v (write_byte x v w))"
  using same_blocks_poison [OF assms(1-3), of v]
    same_blocks_poison [of "write_byte x v w" a c y v] assms
  by (auto intro: same_blocks_trans)

lemma allocate_zero:
  "pool_Allocate nd A 0 al out w = (OK, zero, UpdateAllocatedBytes (backend A) 0 False w)"
  by (simp add: pool_Allocate_def alloc_zero)

text \<open>A new block, its ends poisoned or not, and the update of the statistics.\<close>

lemma new_block:
  fixes q :: bool and x :: u8
  assumes "ok w" "0 < n" "n < 2 ^ 63" and al: "AllocateAligned A n al out w = (Inr v, a, w1)"
  defines "w' \<equiv> UpdateAllocatedBytes (backend A) n False
    (if q then write_byte (a + nat (n - 1)) x (write_byte a x w1) else w1)"
  shows "ok w'" and "blocks w a = None"
    and "\<exists>c. nat n \<le> c \<and> blocks w' = (blocks w)(a \<mapsto> c)"
    and "bytes_allocated b w' = bytes_allocated b w + (if b = backend A then n else 0)"
    and "same_blocks (blocks w) w w'"
proof -
  obtain c where c: "ok w1" "blocks w a = None" "pool_stats w1 = pool_stats w"
    "same_blocks (blocks w) w w1" "nat n \<le> c" "blocks w1 = (blocks w)(a \<mapsto> c)"
    using alloc_ok [OF assms(1-3) al] by blast
  show "ok w'" "blocks w a = None" "\<exists>c. nat n \<le> c \<and> blocks w' = (blocks w)(a \<mapsto> c)"
    using c by (auto simp: w'_def)
  show "bytes_allocated b w' = bytes_allocated b w + (if b = backend A then n else 0)"
    using bytes_allocated_cong [OF c(3)] by (simp add: w'_def)
  have a1: "blocks w1 a = Some c" and r: "(blocks w1)(a := None) = blocks w"
    using c(2,6) by auto
  have "a \<in> block_bytes a c" "a + nat (n - 1) \<in> block_bytes a c"
    using c(5) assms(2) by (auto simp: block_bytes_def)
  then have "same_blocks (blocks w) w1
      (if q then write_byte (a + nat (n - 1)) x (write_byte a x w1) else w1)"
    using same_blocks_poison2 [OF c(1) a1] by (simp add: r)
  with c(4) show "same_blocks (blocks w) w w'"
    unfolding w'_def same_blocks_stats by (rule same_blocks_trans)
qed

lemma allocate_ok:
  assumes "ok w" "0 < n" "n < 2 ^ 63" "pool_Allocate nd A n al out w = (Inr u, a, w')"
  shows "ok w'" and "blocks w a = None"
    and "\<exists>c. nat n \<le> c \<and> blocks w' = (blocks w)(a \<mapsto> c)"
    and "bytes_allocated b w' = bytes_allocated b w + (if b = backend A then n else 0)"
    and "same_blocks (blocks w) w w'"
proof -
  obtain v w1 where al: "AllocateAligned A n al out w = (Inr v, a, w1)" and
    w': "w' = UpdateAllocatedBytes (backend A) n False
      (if \<not> nd then write_byte (a + nat (n - 1)) kAllocPoison (write_byte a kAllocPoison w1) else w1)"
    using assms(2-4) by (auto simp: pool_Allocate_def Let_def split: prod.splits sum.splits if_splits)
  show "ok w'" "blocks w a = None" "\<exists>c. nat n \<le> c \<and> blocks w' = (blocks w)(a \<mapsto> c)"
    "bytes_allocated b w' = bytes_allocated b w + (if b = backend A then n else 0)"
    "same_blocks (blocks w) w w'"
    unfolding w' using new_block [OF assms(1-3) al] by blast+
qed

lemma allocate_fail:
  assumes "ok w" "n < 2 ^ 63" "pool_Allocate nd A n al out w = (Inl e, a, w')"
  shows "ok w'" and "blocks w' = blocks w" and "bytes_allocated b w' = bytes_allocated b w"
    and "same_blocks (blocks w) w w'"
    and "n < 0 \<and> (\<exists>m. e = Status Invalid m) \<or> 0 < n \<and> (\<exists>m. e = Status OutOfMemory m)"
proof -
  consider "n < 0" "w' = w" "\<exists>m. e = Status Invalid m"
    | "0 < n" "AllocateAligned A n al out w = (Inl e, a, w')"
    | v w1 where "0 < n" "AllocateAligned A n al out w = (Inr v, a, w1)" "a = nullptr"
    using assms(2,3) allocate_zero [of nd al out w]
    by (cases "n = 0") (auto simp: pool_Allocate_def Let_def split: prod.splits sum.splits if_splits)
  then have "ok w' \<and> blocks w' = blocks w \<and> bytes_allocated b w' = bytes_allocated b w \<and>
    same_blocks (blocks w) w w' \<and>
    (n < 0 \<and> (\<exists>m. e = Status Invalid m) \<or> 0 < n \<and> (\<exists>m. e = Status OutOfMemory m))"
  proof cases
    case 1
    then show ?thesis using assms(1) by simp
  next
    case 2
    then show ?thesis using alloc_fail [OF assms(1) 2(1) assms(2) 2(2)] by (auto simp: bytes_allocated_def)
  next
    case (3 v w1)
    obtain c where "ok w1" "blocks w1 a = Some c"
      using alloc_ok [OF assms(1) 3(1) assms(2) 3(2)] by auto
    then show ?thesis using block_start 3(3) by blast
  qed
  then show "ok w'" "blocks w' = blocks w" "bytes_allocated b w' = bytes_allocated b w"
    "same_blocks (blocks w) w w'"
    "n < 0 \<and> (\<exists>m. e = Status Invalid m) \<or> 0 < n \<and> (\<exists>m. e = Status OutOfMemory m)" by auto
qed

lemma free_zero: "pool_Free nd A zero 0 al w = (OK, UpdateAllocatedBytes (backend A) 0 True w)"
  by (simp add: pool_Free_def dealloc_zero)

lemma free_block:
  assumes "ok w" "blocks w p = Some c" "0 < n" "nat n \<le> c"
  shows "\<exists>w'. pool_Free nd A p n al w = (OK, w') \<and> ok w' \<and> blocks w' = (blocks w)(p := None) \<and>
    bytes_allocated b w' = bytes_allocated b w - (if b = backend A then n else 0) \<and>
    same_blocks ((blocks w)(p := None)) w w'"
proof -
  define w1 where "w1 = (if nd then w
    else write_byte (p + nat (n - 1)) kDeallocPoison (write_byte p kDeallocPoison w))"
  have w1: "ok w1" "blocks w1 = blocks w" "bytes_allocated b w1 = bytes_allocated b w"
    using assms(1) by (simp_all add: w1_def bytes_allocated_def)
  have in_p: "p \<in> block_bytes p c" "p + nat (n - 1) \<in> block_bytes p c"
    using assms(3,4) by (auto simp: block_bytes_def)
  have "same_blocks ((blocks w)(p := None)) w w1"
    using same_blocks_poison2 [OF assms(1,2) in_p] by (simp add: w1_def)
  moreover obtain w2 where "DeallocateAligned A p n al w1 = (OK, w2)" "ok w2"
    "blocks w2 = (blocks w)(p := None)" "pool_stats w2 = pool_stats w1"
    "same_blocks ((blocks w)(p := None)) w1 w2"
    using dealloc_block [OF w1(1), of p c n al] assms(2) w1(2) by auto
  moreover have "p \<noteq> nullptr" using block_start [OF assms(1,2)] by simp
  moreover have "pool_Free nd A p n al w =
      (case DeallocateAligned A p n al w1 of (Inl e, w) \<Rightarrow> (Inl e, w)
       | (Inr _, w) \<Rightarrow> (OK, UpdateAllocatedBytes (backend A) (- n) True w))"
    using \<open>p \<noteq> nullptr\<close> assms(3) by (simp add: pool_Free_def w1_def)
  ultimately show ?thesis
    using w1(3) bytes_allocated_cong [of _ w1 b] by (auto intro: same_blocks_trans)
qed

lemma reallocate_from_zero_ok:
  assumes "ok w" "0 < n" "n < 2 ^ 63" "pool_Reallocate nd A 0 n al zero w = (Inr u, a, w')"
  shows "ok w'" and "blocks w a = None"
    and "\<exists>c. nat n \<le> c \<and> blocks w' = (blocks w)(a \<mapsto> c)"
    and "bytes_allocated b w' = bytes_allocated b w + (if b = backend A then n else 0)"
    and "same_blocks (blocks w) w w'"
proof -
  have "nat (int a + n - 1) = a + nat (n - 1)"
    using assms(2) by linarith
  then obtain v w1 where al: "AllocateAligned A n al zero w = (Inr v, a, w1)" and
    w': "w' = UpdateAllocatedBytes (backend A) n False
      (if \<not> nd then write_byte (a + nat (n - 1)) kReallocPoison (write_byte a kReallocPoison w1) else w1)"
    using assms(2-4)
    by (auto simp: pool_Reallocate_def realloc_from_zero Let_def split: prod.splits sum.splits if_splits)
  show "ok w'" "blocks w a = None" "\<exists>c. nat n \<le> c \<and> blocks w' = (blocks w)(a \<mapsto> c)"
    "bytes_allocated b w' = bytes_allocated b w + (if b = backend A then n else 0)"
    "same_blocks (blocks w) w w'"
    unfolding w' using new_block [OF assms(1-3) al] by blast+
qed

lemma reallocate_from_zero_to_zero:
  "pool_Reallocate nd A 0 0 al zero w = (OK, zero, UpdateAllocatedBytes (backend A) 0 False w)"
  by (simp add: pool_Reallocate_def realloc_from_zero alloc_zero)

lemma reallocate_from_zero_fail:
  assumes "ok w" "n < 2 ^ 63" "pool_Reallocate nd A 0 n al zero w = (Inl e, a, w')"
  shows "ok w'" and "blocks w' = blocks w" and "bytes_allocated b w' = bytes_allocated b w"
proof -
  consider "n < 0" "w' = w" | "0 < n" "AllocateAligned A n al zero w = (Inl e, a, w')"
    | v w1 where "0 < n" "AllocateAligned A n al zero w = (Inr v, a, w1)" "a = nullptr"
    using assms(2,3) reallocate_from_zero_to_zero [of nd al w]
    by (cases "n = 0") (auto simp: pool_Reallocate_def realloc_from_zero Let_def
        split: prod.splits sum.splits if_splits)
  then have "ok w' \<and> blocks w' = blocks w \<and> bytes_allocated b w' = bytes_allocated b w"
  proof cases
    case 1
    then show ?thesis using assms(1) by simp
  next
    case 2
    then show ?thesis using alloc_fail [OF assms(1) 2(1) assms(2) 2(2)] bytes_allocated_cong by blast
  next
    case (3 v w1)
    obtain c where "ok w1" "blocks w1 a = Some c"
      using alloc_ok [OF assms(1) 3(1) assms(2) 3(2)] by auto
    then show ?thesis using block_start 3(3) by blast
  qed
  then show "ok w'" "blocks w' = blocks w" "bytes_allocated b w' = bytes_allocated b w" by auto
qed

lemma reallocate_to_zero:
  assumes "ok w" "blocks w p = Some c" "0 < old" "nat old \<le> c"
  shows "\<exists>w'. pool_Reallocate nd A old 0 al p w = (OK, zero, w') \<and> ok w' \<and>
    blocks w' = (blocks w)(p := None) \<and>
    bytes_allocated b w' = bytes_allocated b w - (if b = backend A then old else 0) \<and>
    same_blocks ((blocks w)(p := None)) w w'"
proof -
  obtain w1 where "DeallocateAligned A p old al w = (OK, w1)" "ok w1"
    "blocks w1 = (blocks w)(p := None)" "pool_stats w1 = pool_stats w"
    "same_blocks ((blocks w)(p := None)) w w1"
    using dealloc_block [OF assms(1,2)] by blast
  then show ?thesis
    using realloc_to_zero [OF assms(1,2), of old al] assms(3) bytes_allocated_cong [of w1 w b]
    by (auto simp: pool_Reallocate_def)
qed

lemma reallocate_ok:
  assumes "ok w" "blocks w p = Some k" "0 < old" "nat old \<le> k" "0 < n" "n < 2 ^ 63"
    and "pool_Reallocate nd A old n al p w = (Inr u, a, w')"
  shows "ok w'" and "((blocks w)(p := None)) a = None"
    and "\<exists>c. nat n \<le> c \<and> blocks w' = ((blocks w)(p := None))(a \<mapsto> c)"
    and "bytes_allocated b w' = bytes_allocated b w + (if b = backend A then n - old else 0)"
    and "same_blocks ((blocks w)(p := None)) w w'"
    and "i < nat (min old n) \<Longrightarrow> bytes (mach w') (a + i) = bytes (mach w) (p + i)"
proof -
  obtain v w1 where al: "ReallocateAligned A old n al p w = (Inr v, a, w1)" and
    w': "w' = UpdateAllocatedBytes (backend A) (n - old) False
          (if \<not> nd \<and> old < n then write_byte (nat (int a + n - 1)) kReallocPoison
             (write_byte (nat (int a + old)) kReallocPoison w1) else w1)"
    using assms(5-7) by (auto simp: pool_Reallocate_def Let_def split: prod.splits sum.splits if_splits)
  let ?bl = "(blocks w)(p := None)"
  obtain c where c: "ok w1" "pool_stats w1 = pool_stats w" "same_blocks ?bl w w1"
    "\<And>i. i < nat (min old n) \<Longrightarrow> bytes (mach w1) (a + i) = bytes (mach w) (p + i)"
    "nat n \<le> c" "?bl a = None" "blocks w1 = ?bl(a \<mapsto> c)"
    using realloc_ok [OF assms(1-6) al] by blast
  show "ok w'" "?bl a = None" "\<exists>c. nat n \<le> c \<and> blocks w' = ?bl(a \<mapsto> c)"
    using c w' by auto
  show "bytes_allocated b w' = bytes_allocated b w + (if b = backend A then n - old else 0)"
    using c(2) w' by (simp add: bytes_allocated_def UpdateAllocatedBytes_def)
  have a1: "blocks w1 a = Some c" and r: "(blocks w1)(a := None) = ?bl"
    using c(6,7) by (simp, metis fun_upd_triv fun_upd_upd)
  have "nat (int a + old) \<in> block_bytes a c" "nat (int a + n - 1) \<in> block_bytes a c"
    if "old < n" using c(5) assms(3) that by (auto simp: block_bytes_def)
  then have "same_blocks ?bl w1 (if \<not> nd \<and> old < n then
      write_byte (nat (int a + n - 1)) kReallocPoison
        (write_byte (nat (int a + old)) kReallocPoison w1) else w1)"
    using same_blocks_poison2 [OF c(1) a1] by (simp add: r)
  with c(3) show "same_blocks ?bl w w'"
    unfolding w' same_blocks_stats by (rule same_blocks_trans)
  show "bytes (mach w') (a + i) = bytes (mach w) (p + i)" if i: "i < nat (min old n)"
  proof -
    have "a + i \<noteq> nat (int a + old)" "a + i \<noteq> nat (int a + n - 1)" if "old < n"
      using i that assms(3) by linarith+
    then show ?thesis using c(4) [OF i] by (simp add: w')
  qed
qed

lemma reallocate_fail:
  assumes "ok w" "blocks w p = Some k" "0 < old" "nat old \<le> k" "n < 2 ^ 63"
    and "pool_Reallocate nd A old n al p w = (Inl e, a, w')"
  shows "a = p" and "ok w'" and "blocks w' = blocks w"
    and "bytes_allocated b w' = bytes_allocated b w" and "same_blocks (blocks w) w w'"
    and "n < 0 \<and> (\<exists>m. e = Status Invalid m) \<or> 0 < n \<and> (\<exists>m. e = Status OutOfMemory m)"
proof -
  have n0: "n \<noteq> 0"
    using reallocate_to_zero [OF assms(1-4), of nd al] assms(6) by auto
  consider "n < 0" "a = p" "w' = w" "\<exists>m. e = Status Invalid m"
    | "0 < n" "ReallocateAligned A old n al p w = (Inl e, a, w')"
    | v w1 where "0 < n" "ReallocateAligned A old n al p w = (Inr v, a, w1)" "a = nullptr"
    using assms(5,6) n0
    by (cases "n < 0") (auto simp: pool_Reallocate_def Let_def split: prod.splits sum.splits if_splits)
  then have "a = p \<and> ok w' \<and> blocks w' = blocks w \<and> bytes_allocated b w' = bytes_allocated b w \<and>
    same_blocks (blocks w) w w' \<and>
    (n < 0 \<and> (\<exists>m. e = Status Invalid m) \<or> 0 < n \<and> (\<exists>m. e = Status OutOfMemory m))"
  proof cases
    case 1
    then show ?thesis using assms(1) by simp
  next
    case 2
    then show ?thesis using realloc_fail [OF assms(1-4) 2(1) assms(5) 2(2)]
      by (auto simp: bytes_allocated_def)
  next
    case (3 v w1)
    obtain c where "ok w1" "blocks w1 a = Some c"
      using realloc_ok [OF assms(1-4) 3(1) assms(5) 3(2)] by auto
    then show ?thesis using block_start 3(3) by blast
  qed
  then show "a = p" "ok w'" "blocks w' = blocks w" "bytes_allocated b w' = bytes_allocated b w"
    "same_blocks (blocks w) w w'"
    "n < 0 \<and> (\<exists>m. e = Status Invalid m) \<or> 0 < n \<and> (\<exists>m. e = Status OutOfMemory m)" by auto
qed

end


subsection \<open>Any sequence of calls keeps the books\<close>

text \<open>
  A client of a pool: \<open>L\<close> records the sizes of the areas it holds, apart from areas of
  size 0, which all share the static area. It may ask for any size, reallocates and
  frees what it holds with the size it recorded, and goes on after a failure.
\<close>

definition holds :: "addr \<Rightarrow> (addr \<rightharpoonup> int) \<Rightarrow> addr \<Rightarrow> int \<Rightarrow> bool" where
  "holds zero L p n \<longleftrightarrow> (if n = 0 then p = zero else L p = Some n)"

definition gain :: "addr \<Rightarrow> int \<Rightarrow> (addr \<rightharpoonup> int) \<Rightarrow> (addr \<rightharpoonup> int)" where
  "gain a n L = (if n = 0 then L else L(a \<mapsto> n))"

definition lose :: "addr \<Rightarrow> int \<Rightarrow> (addr \<rightharpoonup> int) \<Rightarrow> (addr \<rightharpoonup> int)" where
  "lose p n L = (if n = 0 then L else L(p := None))"

inductive pool_step ::
  "bool \<Rightarrow> 'w allocator \<Rightarrow> addr \<Rightarrow> (addr \<rightharpoonup> int) \<times> 'w world \<Rightarrow> (addr \<rightharpoonup> int) \<times> 'w world \<Rightarrow> bool"
  for nd A zero where
  allocated: "n < 2 ^ 63 \<Longrightarrow> pool_Allocate nd A n al out w = (Inr u, a, w') \<Longrightarrow>
    pool_step nd A zero (L, w) (gain a n L, w')"
| not_allocated: "n < 2 ^ 63 \<Longrightarrow> pool_Allocate nd A n al out w = (Inl e, a, w') \<Longrightarrow>
    pool_step nd A zero (L, w) (L, w')"
| reallocated: "n < 2 ^ 63 \<Longrightarrow> holds zero L p old \<Longrightarrow>
    pool_Reallocate nd A old n al p w = (Inr u, a, w') \<Longrightarrow>
    pool_step nd A zero (L, w) (gain a n (lose p old L), w')"
| not_reallocated: "n < 2 ^ 63 \<Longrightarrow> holds zero L p old \<Longrightarrow>
    pool_Reallocate nd A old n al p w = (Inl e, a, w') \<Longrightarrow>
    pool_step nd A zero (L, w) (L, w')"
| freed: "holds zero L p n \<Longrightarrow> pool_Free nd A p n al w = (r, w') \<Longrightarrow>
    pool_step nd A zero (L, w) (lose p n L, w')"

definition ledger_sum :: "(addr \<rightharpoonup> int) \<Rightarrow> int" where
  "ledger_sum L = (\<Sum>a \<in> dom L. the (L a))"

lemma ledger_sum_gain: "finite (dom L) \<Longrightarrow> L a = None \<Longrightarrow> ledger_sum (L(a \<mapsto> n)) = ledger_sum L + n"
  by (simp add: ledger_sum_def domIff add.commute sum.insert cong: sum.cong)
     (rule sum.cong; auto simp: domIff)

lemma ledger_sum_lose:
  assumes "finite (dom L)" "L a = Some n"
  shows "ledger_sum (L(a := None)) = ledger_sum L - n"
  using ledger_sum_gain [of "L(a := None)" a n] assms by (simp add: fun_upd_idem)

definition accounts ::
  "('w world \<Rightarrow> bool) \<Rightarrow> ('w world \<Rightarrow> addr \<rightharpoonup> nat) \<Rightarrow> MemoryPoolBackend \<Rightarrow> 'w world \<Rightarrow>
   (addr \<rightharpoonup> int) \<times> 'w world \<Rightarrow> bool" where
  "accounts ok blocks b w0 = (\<lambda>(L, w). ok w \<and> finite (dom L) \<and>
     (\<forall>a n. L a = Some n \<longrightarrow> 0 < n \<and> blocks w0 a = None \<and> (\<exists>c. blocks w a = Some c \<and> nat n \<le> c)) \<and>
     (\<forall>a. blocks w a = None \<longleftrightarrow> blocks w0 a = None \<and> L a = None) \<and>
     bytes_allocated b w = bytes_allocated b w0 + ledger_sum L)"

context byte_allocator begin

abbreviation books :: "'w world \<Rightarrow> (addr \<rightharpoonup> int) \<times> 'w world \<Rightarrow> bool" where
  "books \<equiv> accounts ok blocks (backend A)"

lemma booksD:
  assumes "books w0 (L, w)" "L p = Some n"
  shows "\<exists>c. blocks w p = Some c \<and> nat n \<le> c \<and> 0 < n \<and> blocks w0 p = None"
  using assms by (auto simp: accounts_def)

lemma books_gain:
  assumes "books w0 (L, w)" "ok w'" "blocks w a = None" "nat n \<le> c" "0 < n"
    "blocks w' = (blocks w)(a \<mapsto> c)"
    "bytes_allocated (backend A) w' = bytes_allocated (backend A) w + n"
  shows "books w0 (L(a \<mapsto> n), w')"
proof -
  have "L a = None" "blocks w0 a = None" using assms(1,3) by (auto simp: accounts_def)
  then show ?thesis using assms ledger_sum_gain [of L a n] by (auto simp: accounts_def)
qed

lemma books_lose:
  assumes "books w0 (L, w)" "L p = Some n" "ok w'" "blocks w' = (blocks w)(p := None)"
    "bytes_allocated (backend A) w' = bytes_allocated (backend A) w - n"
  shows "books w0 (L(p := None), w')"
  using assms ledger_sum_lose [of L p n] by (auto simp: accounts_def split: if_splits)

lemma books_same:
  assumes "books w0 (L, w)" "ok w'" "blocks w' = blocks w"
    "bytes_allocated (backend A) w' = bytes_allocated (backend A) w"
  shows "books w0 (L, w')"
  using assms by (simp add: accounts_def)

lemma books_allocated:
  assumes "books w0 (L, w)" "n < 2 ^ 63" "pool_Allocate nd A n al out w = (Inr u, a, w')"
  shows "books w0 (gain a n L, w')"
proof (cases "n = 0")
  case True
  then show ?thesis using assms allocate_zero
    by (auto simp: gain_def intro!: books_same [OF assms(1)]) (simp add: accounts_def)
next
  case False
  then have n: "0 < n" using assms(3) by (auto simp: pool_Allocate_def split: if_splits)
  have "ok w" using assms(1) by (simp add: accounts_def)
  note R = allocate_ok [OF this n assms(2,3)]
  obtain c where "nat n \<le> c" "blocks w' = (blocks w)(a \<mapsto> c)" using R(3) by blast
  then show ?thesis using books_gain [OF assms(1) R(1,2)] R(4) n False by (simp add: gain_def)
qed

lemma books_reallocated_zero:
  assumes "books w0 (L, w)" "n < 2 ^ 63" "pool_Reallocate nd A 0 n al zero w = (Inr u, a, w')"
  shows "books w0 (gain a n L, w')"
proof (cases "n = 0")
  case True
  then show ?thesis using assms reallocate_from_zero_to_zero
    by (auto simp: gain_def intro!: books_same [OF assms(1)]) (simp add: accounts_def)
next
  case False
  then have n: "0 < n" using assms(3) by (auto simp: pool_Reallocate_def split: if_splits)
  have "ok w" using assms(1) by (simp add: accounts_def)
  note R = reallocate_from_zero_ok [OF this n assms(2,3)]
  obtain c where "nat n \<le> c" "blocks w' = (blocks w)(a \<mapsto> c)" using R(3) by blast
  then show ?thesis using books_gain [OF assms(1) R(1,2)] R(4) n False by (simp add: gain_def)
qed

lemma books_reallocated:
  assumes "books w0 (L, w)" "n < 2 ^ 63" "L p = Some old"
    "pool_Reallocate nd A old n al p w = (Inr u, a, w')"
  shows "books w0 (gain a n (L(p := None)), w')"
proof -
  obtain c where c: "blocks w p = Some c" "nat old \<le> c" "0 < old" "blocks w0 p = None"
    using booksD [OF assms(1,3)] by blast
  have ok: "ok w" using assms(1) by (simp add: accounts_def)
  have "0 \<le> n" using assms(4) by (auto simp: pool_Reallocate_def split: if_splits)
  then consider "n = 0" | "0 < n" by linarith
  then show ?thesis
  proof cases
    case 1
    then show ?thesis
      using reallocate_to_zero [OF ok c(1,3,2), of nd al "backend A"] assms(4)
        books_lose [OF assms(1,3)] by (auto simp: gain_def)
  next
    case 2
    note R = reallocate_ok [OF ok c(1,3,2) 2 assms(2,4)]
    obtain k where k: "nat n \<le> k" "blocks w' = ((blocks w)(p := None))(a \<mapsto> k)" using R(3) by blast
    have "bytes_allocated (backend A) w' = bytes_allocated (backend A) w - old + n"
      using R(4) by simp
    moreover have "(L(p := None)) a = None" "blocks w0 a = None"
      using assms(1) R(2) c(4) by (auto simp: accounts_def split: if_splits)
    ultimately show ?thesis
      using 2 k R(1) assms(1,3) c(4) ledger_sum_lose [of L p old] ledger_sum_gain [of "L(p := None)" a n]
      by (auto simp: accounts_def gain_def split: if_splits)
  qed
qed

lemma books_step:
  assumes "pool_step nd A zero s s'" "books w0 s"
  shows "books w0 s'"
  using assms
proof cases
  case (allocated n al out w u a w' L)
  then show ?thesis using books_allocated assms(2) by blast
next
  case (not_allocated n al out w e a w' L)
  moreover have "ok w" using not_allocated(1) assms(2) by (simp add: accounts_def)
  ultimately show ?thesis
    using allocate_fail [of w n nd al out e a w'] assms(2) by (auto intro: books_same)
next
  case (reallocated n L p old al w u a w')
  then show ?thesis
    using books_reallocated [of w0 L w n p old] books_reallocated_zero [of w0 L w n] assms(2)
    by (auto simp: holds_def lose_def split: if_splits)
next
  case (not_reallocated n L p old al w e a w')
  have ok: "ok w" using not_reallocated(1) assms(2) by (simp add: accounts_def)
  show ?thesis
  proof (cases "old = 0")
    case True
    then show ?thesis
      using not_reallocated reallocate_from_zero_fail [of w n nd al e a w'] ok assms(2)
      by (auto simp: holds_def intro: books_same)
  next
    case False
    then have "L p = Some old" using not_reallocated(4) by (simp add: holds_def)
    then obtain c where "blocks w p = Some c" "nat old \<le> c" "0 < old"
      using booksD [of w0 L w p old] assms(2) not_reallocated(1) by auto
    then show ?thesis
      using reallocate_fail [of w p c old n nd al e a w'] not_reallocated ok assms(2)
      by (auto intro: books_same)
  qed
next
  case (freed L p n al w r w')
  have ok: "ok w" using freed(1) assms(2) by (simp add: accounts_def)
  show ?thesis
  proof (cases "n = 0")
    case True
    then show ?thesis using freed free_zero [of nd al w] ok assms(2)
      by (auto simp: holds_def lose_def intro: books_same)
  next
    case False
    then have Lp: "L p = Some n" using freed(3) by (simp add: holds_def)
    then obtain c where c: "blocks w p = Some c" "nat n \<le> c" "0 < n"
      using booksD [of w0 L w p n] assms(2) freed(1) by auto
    then show ?thesis
      using free_block [OF ok c(1,3,2), of nd al "backend A"] freed assms(2)
        books_lose [of w0 L w p n w'] Lp False by (auto simp: lose_def)
  qed
qed

lemma books_run:
  assumes "(pool_step nd A zero)\<^sup>*\<^sup>* (Map.empty, w0) s" "ok w0"
  shows "books w0 s"
  using assms(1)
proof (induction rule: rtranclp_induct)
  case base
  then show ?case using assms(2) by (simp add: accounts_def ledger_sum_def)
next
  case (step s s')
  then show ?case using books_step by blast
qed

end

subsection \<open>Properties of the two pools\<close>

lemma mz_ok_start:
  assumes "memzone_laws P" "memcpy_laws P" "allocated_memzones w = Map.empty"
  shows "mz_ok P w" "mz_blocks w = Map.empty"
  using assms by (auto simp: mz_ok_def mz_blocks_def)


definition sim_start :: "sim world" where
  "sim_start =
     \<lparr>mach = \<lparr>bytes = (\<lambda>_. 0), mbufs = (\<lambda>_. undefined), ops = (\<lambda>_. undefined),
              hidden = \<lparr>sim_zones = [], sim_mallocs = []\<rparr>\<rparr>,
      allocated_memzones = Map.empty, pool_stats = (\<lambda>_. []), num_maybe_not_ok = 0\<rparr>"


text \<open>
  C13. The same for the pool over \<open>rte_malloc\<close>: the reported bytes are those the client
  holds, and the blocks of \<open>rte_malloc\<close> are those that were there at the start and
  those the client holds.
\<close>

theorem rtemalloc_pool_accounts:
  assumes "malloc_ok P w0"
    and "(pool_step nd (RtemallocMemoryPool P) (zero_size_area P))\<^sup>*\<^sup>* (Map.empty, w0) (L, w)"
  shows "bytes_allocated Rtemalloc w = bytes_allocated Rtemalloc w0 + ledger_sum L \<and>
    dom (malloc_blocks P w) = dom (malloc_blocks P w0) \<union> dom L \<and>
    (\<forall>a n. L a = Some n \<longrightarrow> 0 < n \<and> malloc_blocks P w0 a = None \<and>
       (\<exists>c. malloc_blocks P w a = Some c \<and> nat n \<le> c))"
proof -
  have B: "accounts (malloc_ok P) (malloc_blocks P) Rtemalloc w0 (L, w)"
    using malloc.books_run [OF assms(2,1)] by simp
  have "malloc_blocks P w a = None \<longleftrightarrow> malloc_blocks P w0 a = None \<and> L a = None" for a
    using B by (simp add: accounts_def)
  then have "dom (malloc_blocks P w) = dom (malloc_blocks P w0) \<union> dom L" by (auto simp: dom_def)
  then show ?thesis using B by (auto simp: accounts_def)
qed

theorem rtemalloc_pool_accounts_witness:
  "\<exists>w. (pool_step True (RtemallocMemoryPool (sim_memory True)) 64)\<^sup>*\<^sup>*
         (Map.empty, sim_start) ([2 ^ 40 \<mapsto> 8], w) \<and>
     bytes_allocated Rtemalloc w = 8 \<and> dom (malloc_blocks (sim_memory True) w) = {2 ^ 40}"
proof -
  let ?P = "sim_memory True :: sim dpdk_memory"
  let ?r = "pool_Allocate True (RtemallocMemoryPool ?P) 8 64 0 sim_start"
  have r: "?r = (Inr (), 2 ^ 40, snd (snd ?r))"
    by (simp add: pool_Allocate_def malloc_AllocateAligned_def sim_memory_def sim_malloc_def
        sim_start_def Let_def)
  have "pool_step True (RtemallocMemoryPool ?P) 64 (Map.empty, sim_start)
      (gain (2 ^ 40) 8 Map.empty, snd (snd ?r))"
    using r by (intro pool_step.allocated) auto
  then have run: "(pool_step True (RtemallocMemoryPool ?P) 64)\<^sup>*\<^sup>*
      (Map.empty, sim_start) ([2 ^ 40 \<mapsto> 8], snd (snd ?r))"
    by (simp add: gain_def)
  moreover have "zero_size_area ?P = 64" by (simp add: sim_memory_def sim_zero_area_def)
  moreover have "malloc_blocks ?P sim_start = Map.empty"
    by (simp add: malloc_blocks_def sim_memory_def sim_start_def)
  moreover from this have "malloc_ok ?P sim_start"
    using sim_malloc_laws by (simp add: malloc_ok_def)
  ultimately show ?thesis
    using rtemalloc_pool_accounts [of ?P sim_start True]
    by (intro exI [of _ "snd (snd ?r)"])
       (simp add: sim_start_def bytes_allocated_def ledger_sum_def)
qed

text \<open>
  C14. Reallocating an area of the memzone pool keeps its contents up to the smaller of
  both sizes, in debug builds, which poison the ends of what was added, too; the new area
  is tracked and large enough, the old one is released unless it is the new one. When no
  zone can be reserved, the caller keeps its pointer, its bytes and its zone.
\<close>

theorem rtememzone_pool_reallocates:
  assumes "mz_ok P w" "tracker_Of p w = Some z" "0 < old" "nat old \<le> mz_len z" "0 < n" "n < 2 ^ 63"
  shows "case pool_Reallocate nd (RtememzoneMemoryPool P) old n al p w of
      (Inr _, a, w') \<Rightarrow>
        (\<forall>i < nat (min old n). bytes (mach w') (a + i) = bytes (mach w) (p + i)) \<and>
        (\<exists>z'. tracker_Of a w' = Some z' \<and> nat n \<le> mz_len z') \<and>
        (a \<noteq> p \<longrightarrow> tracker_Of p w' = None) \<and>
        bytes_allocated Rtememzone w' = bytes_allocated Rtememzone w + n - old
    | (Inl e, a, w') \<Rightarrow>
        (\<exists>m. e = Status OutOfMemory m) \<and> a = p \<and>
        (\<forall>i < nat old. bytes (mach w') (p + i) = bytes (mach w) (p + i)) \<and>
        (\<exists>z'. tracker_Of p w' = Some z' \<and> nat old \<le> mz_len z') \<and>
        bytes_allocated Rtememzone w' = bytes_allocated Rtememzone w"
proof -
  have p: "mz_blocks w p = Some (mz_len z)"
    using assms(2) by (simp add: mz_blocks_def tracker_Of_def)
  obtain r a w' where run: "pool_Reallocate nd (RtememzoneMemoryPool P) old n al p w = (r, a, w')"
    by (cases "pool_Reallocate nd (RtememzoneMemoryPool P) old n al p w")
  show ?thesis
  proof (cases r)
    case (Inl e)
    note R = memzone.reallocate_fail [OF assms(1) p assms(3,4,6) run [unfolded Inl]]
    have "mz_blocks w' p = Some (mz_len z)" using p R(3) by simp
    then have "\<exists>z'. tracker_Of p w' = Some z' \<and> nat old \<le> mz_len z'"
      using assms(4) by (auto simp: mz_blocks_def tracker_Of_def)
    then show ?thesis using run Inl R p assms(4,5) by (auto simp: same_blocks_def)
  next
    case (Inr u)
    note R = memzone.reallocate_ok [OF assms(1) p assms(3,4,5,6) run [unfolded Inr]]
    obtain c where c: "nat n \<le> c" "mz_blocks w' = ((mz_blocks w)(p := None))(a \<mapsto> c)"
      using R(3) by blast
    have "mz_blocks w' a = Some c" "a \<noteq> p \<longrightarrow> mz_blocks w' p = None" using c(2) by auto
    then have "\<exists>z'. tracker_Of a w' = Some z' \<and> nat n \<le> mz_len z'" "a \<noteq> p \<longrightarrow> tracker_Of p w' = None"
      using c(1) by (auto simp: mz_blocks_def tracker_Of_def)
    then show ?thesis using run Inr R(4) [of Rtememzone] R(6) by simp
  qed
qed

theorem rtememzone_pool_reallocates_witness:
  "let w = snd (snd (pool_Allocate False (RtememzoneMemoryPool (sim_memory False)) 100 64 0 sim_start));
       r = pool_Reallocate False (RtememzoneMemoryPool (sim_memory False)) 100 300 64 72 w
   in fst r = OK \<and> bytes (mach (snd (snd r))) (fst (snd r)) = kAllocPoison"
proof -
  let ?A = "RtememzoneMemoryPool (sim_memory False)"
  define w where "w = snd (snd (pool_Allocate False ?A 100 64 0 sim_start))"
  have w: "tracker_Of 72 w = Some \<lparr>mz_addr = 72, mz_iova = 72, mz_len = 100\<rparr>"
    "bytes (mach w) 72 = kAllocPoison"
    by (simp_all add: w_def pool_Allocate_def memzone_AllocateAligned_def sim_memory_def
        sim_reserve_def sim_start_def Let_def tracker_Of_def tracker_Emplace_def)
  have ok: "mz_ok (sim_memory False) w"
  proof -
    have "mz_ok (sim_memory False) sim_start"
      by (rule mz_ok_start [OF sim_memzone_laws sim_memcpy_laws]) (simp add: sim_start_def)
    moreover have "pool_Allocate False ?A 100 64 0 sim_start = (Inr (), 72, w)"
      by (simp add: w_def pool_Allocate_def memzone_AllocateAligned_def sim_memory_def
          sim_reserve_def sim_start_def Let_def)
    ultimately show ?thesis
      using memzone.allocate_ok(1) [of "sim_memory False" sim_start 100 False 64 0 "()" 72 w] by simp
  qed
  have "fst (pool_Reallocate False ?A 100 300 64 72 w) = OK"
    by (simp add: w_def pool_Reallocate_def pool_Allocate_def memzone_ReallocateAligned_def
        memzone_AllocateAligned_def sim_memory_def sim_reserve_def sim_start_def
        sim_zero_area_def Let_def tracker_Emplace_def)
  then show ?thesis
    using rtememzone_pool_reallocates [OF ok w(1), of 100 300 False 64] w(2)
    by (auto simp: w_def [symmetric] Let_def split: prod.splits dest!: spec [of _ "0::nat"])
qed

end
