(* ===== verification/Bitar_Config.thy ===== *)
theory Bitar_Config
  imports Bitar_Prelude
begin

text \<open>
  \<open>src/include/config.h\<close> and \<open>src/config.cc\<close>: the configuration of a compress device.
  The record holds the private members of \<open>Configuration\<close> and the one of
  \<open>BlueFieldConfiguration\<close>, with \<open>config_type\<close> for the dynamic class, which is what
  \<open>type_name()\<close> answers. The constructor and the setter of the decompressed segment
  size both run \<open>UpdateCompressedSegSize\<close>, whose loop is the interesting part: it
  ends on the leading bit of twice the segment size, and never ends for size 0.
\<close>

subsection \<open>Constants of the build\<close>

text \<open>
  DPDK's build configuration (\<open>rte_config.h\<close>, \<open>rte_build_config.h\<close>) is not part of
  the repository; the constants the code reads from it are the fields of a parameter.
\<close>

record rte_config =
  RTE_PKTMBUF_HEADROOM :: nat
  RTE_MAX_MEMZONE :: u16
  RTE_MAX_LCORE :: nat
  RTE_MEMPOOL_CACHE_MAX_SIZE :: nat
  RTE_COMPRESS_MAX_DEVS :: nat

text \<open>DPDK's default build, at which the witnesses of this development are evaluated.\<close>

definition dpdk_default_config :: rte_config where
  "dpdk_default_config =
     \<lparr>RTE_PKTMBUF_HEADROOM = 128, RTE_MAX_MEMZONE = 2560, RTE_MAX_LCORE = 128,
      RTE_MEMPOOL_CACHE_MAX_SIZE = 512, RTE_COMPRESS_MAX_DEVS = 64\<rparr>"

text \<open>
  \<open>kExpanseRatio\<close> is the \<open>double\<close> nearest to \<open>1.1\<close>, that is
  \<open>kExpanseRatio_num / 2 ^ 51\<close>. A product or quotient with it that the code converts
  to an integer is truncated; the model truncates the exact product or quotient.
\<close>

definition kExpanseRatio_num :: nat where
  "kExpanseRatio_num = 2476979795053773"

definition kExpanseRatio_den :: nat where
  "kExpanseRatio_den = 2 ^ 51"

definition kMaxMbufDataSize :: "rte_config \<Rightarrow> nat" where
  "kMaxMbufDataSize rc = 65535 - RTE_PKTMBUF_HEADROOM rc"

definition kMinSegSize :: nat where
  "kMinSegSize = 8"

definition kMaxSegSize :: "rte_config \<Rightarrow> nat" where
  "kMaxSegSize rc = (kMaxMbufDataSize rc * kExpanseRatio_den) div kExpanseRatio_num"

definition kDefaultSegSize :: u16 where
  "kDefaultSegSize = 2048"

subsection \<open>The configuration record\<close>

datatype rte_comp_huffman =
    RTE_COMP_HUFFMAN_DEFAULT
  | RTE_COMP_HUFFMAN_FIXED
  | RTE_COMP_HUFFMAN_DYNAMIC

datatype rte_comp_checksum_type =
    RTE_COMP_CHECKSUM_NONE
  | RTE_COMP_CHECKSUM_CRC32
  | RTE_COMP_CHECKSUM_ADLER32
  | RTE_COMP_CHECKSUM_CRC32_ADLER32

record configuration =
  config_type :: string
  burst_size :: u16
  max_sgl_segs :: u16
  decompressed_seg_size :: u16
  compressed_seg_size :: u16
  window_size :: u8
  huffman_enc :: rte_comp_huffman
  max_preallocate_memzones :: u16
  checksum_type :: rte_comp_checksum_type

definition kBlueFieldConfigurationTypeName :: string where
  "kBlueFieldConfigurationTypeName = ''bluefield''"

subsection \<open>Choosing the compressed segment size\<close>

text \<open>The loop of \<open>UpdateCompressedSegSize\<close>; \<open>None\<close> is the loop that never ends.\<close>

partial_function (option) seg_size_loop :: "u32 \<Rightarrow> u32 \<Rightarrow> u32 option" where
  "seg_size_loop num lower_bound =
     (if num AND lower_bound = 0
      then seg_size_loop (drop_bit 1 num) lower_bound
      else Some num)"

declare seg_size_loop.simps [code]

text \<open>
  The \<open>double\<close> branch converts to \<open>uint16_t\<close>; C++ leaves the conversion undefined
  when the truncated value does not fit.
\<close>

definition UpdateCompressedSegSize :: "configuration \<Rightarrow> configuration result option" where
  "UpdateCompressedSegSize c =
     (let lower_bound = push_bit 1 (ucast (decompressed_seg_size c)) :: u32
      in case seg_size_loop 65536 lower_bound of
           None \<Rightarrow> None
         | Some num \<Rightarrow>
             if drop_bit 1 (65536 :: u32) < num
             then (let scaled = (unat (decompressed_seg_size c) * kExpanseRatio_num)
                                  div kExpanseRatio_den
                   in if 65535 < scaled then Some (Inl (Fault FloatConversion))
                      else Some (Inr (c\<lparr>compressed_seg_size := word_of_nat scaled\<rparr>)))
             else Some (Inr (c\<lparr>compressed_seg_size := ucast num\<rparr>)))"

definition set_decompressed_seg_size :: "u16 \<Rightarrow> configuration \<Rightarrow> configuration result option" where
  "set_decompressed_seg_size n c =
     UpdateCompressedSegSize (c\<lparr>decompressed_seg_size := n\<rparr>)"

definition set_burst_size :: "u16 \<Rightarrow> configuration \<Rightarrow> configuration" where
  "set_burst_size n c = c\<lparr>burst_size := n\<rparr>"

definition set_max_sgl_segs :: "u16 \<Rightarrow> configuration \<Rightarrow> configuration" where
  "set_max_sgl_segs n c = c\<lparr>max_sgl_segs := n\<rparr>"

definition set_window_size :: "u8 \<Rightarrow> configuration \<Rightarrow> configuration" where
  "set_window_size n c = c\<lparr>window_size := n\<rparr>"

definition set_huffman_enc :: "rte_comp_huffman \<Rightarrow> configuration \<Rightarrow> configuration" where
  "set_huffman_enc h c = c\<lparr>huffman_enc := h\<rparr>"

definition set_max_preallocate_memzones :: "u16 \<Rightarrow> configuration \<Rightarrow> configuration" where
  "set_max_preallocate_memzones n c = c\<lparr>max_preallocate_memzones := n\<rparr>"

definition set_checksum_type :: "rte_comp_checksum_type \<Rightarrow> configuration \<Rightarrow> configuration" where
  "set_checksum_type k c = c\<lparr>checksum_type := k\<rparr>"

text \<open>
  The member initialisers, and the default constructor of \<open>BlueFieldConfiguration\<close>,
  which \<open>Defaults()\<close> returns.
\<close>

definition initial_configuration :: "rte_config \<Rightarrow> configuration" where
  "initial_configuration rc =
     \<lparr>config_type = kBlueFieldConfigurationTypeName,
      burst_size = 32,
      max_sgl_segs = 1,
      decompressed_seg_size = kDefaultSegSize,
      compressed_seg_size = 0,
      window_size = 0,
      huffman_enc = RTE_COMP_HUFFMAN_DYNAMIC,
      max_preallocate_memzones = RTE_MAX_MEMZONE rc,
      checksum_type = RTE_COMP_CHECKSUM_NONE\<rparr>"

definition Defaults :: "rte_config \<Rightarrow> configuration result option" where
  "Defaults rc = UpdateCompressedSegSize (initial_configuration rc)"

subsection \<open>Transforms handed to the driver\<close>

datatype rte_comp_xform =
    Compress_xform rte_comp_huffman nat u8 rte_comp_checksum_type
      \<comment> \<open>DEFLATE: Huffman encoding, level, window size, checksum, no hash\<close>
  | Decompress_xform rte_comp_checksum_type u8
      \<comment> \<open>DEFLATE: checksum, window size, no hash\<close>

definition compress_xform :: "configuration \<Rightarrow> rte_comp_xform" where
  "compress_xform c =
     Compress_xform (huffman_enc c) 1 (window_size c) (checksum_type c)"

definition decompress_xform :: "configuration \<Rightarrow> rte_comp_xform" where
  "decompress_xform c = Decompress_xform (checksum_type c) (window_size c)"

subsection \<open>Properties of the segment sizes\<close>

lemma seg_size_loop_leading_bit:
  assumes "k < 32" "lb \<noteq> 0" "unat lb < 2 ^ Suc k"
  shows "\<exists>j \<le> k. seg_size_loop (2 ^ k) lb = Some (2 ^ j) \<and>
                 2 ^ j \<le> unat lb \<and> unat lb < 2 ^ Suc j"
  using assms
proof (induction k)
  case 0
  then have "unat lb = 1"
    by (simp add: unat_eq_0 less_2_cases_iff)
  then have "bit lb 0" using 0 bit_top_iff [of lb 0] by simp
  then show ?case using \<open>unat lb = 1\<close>
    by (subst seg_size_loop.simps) (auto simp: and_exp_eq_0_iff_bit [of 0, simplified])
next
  case (Suc k)
  show ?case
  proof (cases "2 ^ Suc k \<le> unat lb")
    case True
    then have "bit lb (Suc k)" using Suc.prems bit_top_iff by blast
    with True Suc.prems show ?thesis
      by (intro exI [of _ "Suc k"], subst seg_size_loop.simps)
         (simp add: and_exp_eq_0_iff_bit del: power_Suc)
  next
    case False
    then have "\<not> bit lb (Suc k)" using Suc.prems bit_top_iff by blast
    then have "seg_size_loop (2 ^ Suc k) lb = seg_size_loop (2 ^ k) lb"
      using Suc.prems
      by (subst seg_size_loop.simps)
         (simp add: and_exp_eq_0_iff_bit drop_bit_1_exp del: power_Suc)
    with Suc False show ?thesis by (auto simp del: power_Suc intro: le_SucI)
  qed
qed


lemma unat_lower_bound: "unat (push_bit 1 (ucast (d :: u16)) :: u32) = 2 * unat d"
proof -
  have "unat d < 65536" using unsigned_less [of d] by simp
  then show ?thesis
    by (simp add: push_bit_eq_mult unat_word_ariths unsigned_ucast_eq take_bit_eq_mod)
qed

lemma kExpanseRatio_scale:
  assumes "d \<le> 65535"
  shows "(d * kExpanseRatio_num) div kExpanseRatio_den = (11 * d) div 10"
proof -
  let ?q = "(11 * d) div 10" and ?r = "(11 * d) mod 10"
  have d: "11 * d = 10 * ?q + ?r" by simp
  have "10 * (d * kExpanseRatio_num) = 10 * (?q * kExpanseRatio_den) + (?r * kExpanseRatio_den + 2 * d)"
  proof -
    have "10 * (d * kExpanseRatio_num) = d * (10 * kExpanseRatio_num)" by simp
    also have "10 * kExpanseRatio_num = 11 * kExpanseRatio_den + 2"
      by (simp add: kExpanseRatio_num_def kExpanseRatio_den_def)
    also have "d * (11 * kExpanseRatio_den + 2) = (11 * d) * kExpanseRatio_den + 2 * d"
      by (simp add: algebra_simps)
    also have "(11 * d) * kExpanseRatio_den = (10 * ?q + ?r) * kExpanseRatio_den"
      by (subst d) (rule refl)
    finally show ?thesis by (simp only: add_mult_distrib mult.assoc add.assoc)
  qed
  moreover have "?r * kExpanseRatio_den + 2 * d < 10 * kExpanseRatio_den"
    using assms mod_less_divisor [of 10 "11 * d"] by (simp add: kExpanseRatio_den_def)
  ultimately have "d * kExpanseRatio_num < Suc ?q * kExpanseRatio_den"
    "?q * kExpanseRatio_den \<le> d * kExpanseRatio_num" by auto
  then show ?thesis
    by (intro div_nat_eqI) (simp_all add: mult.commute)
qed

lemma seg_size_loop_start:
  assumes "d \<noteq> 0"
  obtains j where "j \<le> 16" "seg_size_loop 65536 (push_bit 1 (ucast (d :: u16))) = Some (2 ^ j)"
    "2 ^ j \<le> 2 * unat d" "2 * unat d < 2 ^ Suc j"
proof -
  have lt: "2 * unat d < 2 ^ Suc 16" using unsigned_less [of d] by simp
  have nz: "push_bit 1 (ucast d) \<noteq> (0 :: u32)"
    using assms unat_lower_bound [of d] by (metis mult_eq_0_iff unat_0 unat_eq_0 zero_neq_numeral)
  have "\<exists>j \<le> 16. seg_size_loop (2 ^ 16) (push_bit 1 (ucast d)) = Some (2 ^ j) \<and>
      2 ^ j \<le> 2 * unat d \<and> 2 * unat d < 2 ^ Suc j"
    using seg_size_loop_leading_bit [OF _ nz, of 16] lt unfolding unat_lower_bound by simp
  then show ?thesis using that by auto
qed

lemma UpdateCompressedSegSize_small:
  assumes "decompressed_seg_size c \<noteq> 0" "unat (decompressed_seg_size c) < 32768"
  obtains j where "UpdateCompressedSegSize c = Some (Inr (c\<lparr>compressed_seg_size := 2 ^ j\<rparr>))"
    "j \<le> 15" "2 ^ j \<le> 2 * unat (decompressed_seg_size c)" "unat (decompressed_seg_size c) < 2 ^ j"
proof -
  let ?d = "decompressed_seg_size c"
  obtain j where j: "j \<le> 16" "seg_size_loop 65536 (push_bit 1 (ucast ?d)) = Some (2 ^ j)"
    "2 ^ j \<le> 2 * unat ?d" "2 * unat ?d < 2 ^ Suc j"
    using seg_size_loop_start [OF assms(1)] .
  have "(2::nat) ^ j < 2 ^ 16" using j(3) assms(2) by simp
  then have "j < 16" by (rule nat_power_less_imp_less [rotated]) simp
  then have j15: "j \<le> 15" by simp
  have "\<not> drop_bit 1 (65536 :: u32) < 2 ^ j"
  proof -
    have "unat (2 ^ j :: u32) = 2 ^ j" using j15 by (simp add: unat_exp)
    moreover have "(2::nat) ^ j \<le> 2 ^ 15" using j15 by (rule power_increasing) simp
    ultimately show ?thesis by (simp add: word_less_nat_alt)
  qed
  moreover have "ucast (2 ^ j :: u32) = (2 ^ j :: u16)" using j15
    by (rule_tac bit_eqI) (auto simp: bit_ucast_iff bit_exp_iff)
  ultimately show ?thesis
    using that [of j] j j15 by (simp add: UpdateCompressedSegSize_def Let_def)
qed

lemma UpdateCompressedSegSize_large:
  assumes "32768 \<le> unat (decompressed_seg_size c)"
  shows "UpdateCompressedSegSize c =
    Some (if 59578 < unat (decompressed_seg_size c) then Inl (Fault FloatConversion)
          else Inr (c\<lparr>compressed_seg_size :=
                       word_of_nat (11 * unat (decompressed_seg_size c) div 10)\<rparr>))"
proof -
  let ?d = "decompressed_seg_size c"
  have nz: "?d \<noteq> 0" using assms by auto
  obtain j where j: "j \<le> 16" "seg_size_loop 65536 (push_bit 1 (ucast ?d)) = Some (2 ^ j)"
    "2 ^ j \<le> 2 * unat ?d" "2 * unat ?d < 2 ^ Suc j"
    using seg_size_loop_start [OF nz] .
  have "(2::nat) ^ 16 < 2 ^ Suc j" using assms j(4) by simp
  then have "16 < Suc j" by (rule nat_power_less_imp_less [rotated]) simp
  then have "j = 16" using j(1) by simp
  moreover have "unat ?d \<le> 65535" using unat_u16_less [of ?d] by simp
  moreover have "65536 \<le> 11 * unat ?d div 10 \<longleftrightarrow> 655360 \<le> 11 * unat ?d"
    by (simp add: less_eq_div_iff_mult_less_eq)
  then have "65535 < 11 * unat ?d div 10 \<longleftrightarrow> 59578 < unat ?d"
  proof -
    have "65535 < n \<longleftrightarrow> 65536 \<le> n" for n :: nat by auto
    moreover have "655360 \<le> 11 * n \<longleftrightarrow> 59578 < n" for n :: nat by auto
    ultimately show ?thesis using \<open>(65536 \<le> _) = _\<close> by blast
  qed
  ultimately show ?thesis
    using j(2) by (simp add: UpdateCompressedSegSize_def Let_def kExpanseRatio_scale)
qed

lemma word_of_nat_11_10:
  assumes "n \<le> 59578"
  shows "unat (word_of_nat (11 * n div 10) :: u16) = 11 * n div 10"
proof -
  have "11 * n div 10 < 65536" using assms by (simp add: div_less_iff_less_mult)
  then show ?thesis by (simp add: unat_of_nat)
qed



text \<open>
  C16. For a decompressed segment size below \<open>2 ^ 15\<close>, the compressed segment size is the
  least power of two greater than it, as the comment in \<open>config.h\<close> asks.
\<close>

theorem compressed_seg_size_least_power:
  assumes "n \<noteq> 0" "unat n < 32768"
  shows "\<exists>j \<le> 15. set_decompressed_seg_size n c =
                   Some (Inr (c\<lparr>decompressed_seg_size := n, compressed_seg_size := 2 ^ j\<rparr>))
               \<and> unat n < 2 ^ j \<and> (\<forall>i. unat n < 2 ^ i \<longrightarrow> j \<le> i)"
proof -
  obtain j where j: "set_decompressed_seg_size n c =
      Some (Inr (c\<lparr>decompressed_seg_size := n, compressed_seg_size := 2 ^ j\<rparr>))"
    "j \<le> 15" "2 ^ j \<le> 2 * unat n" "unat n < 2 ^ j"
    using UpdateCompressedSegSize_small [of "c\<lparr>decompressed_seg_size := n\<rparr>"] assms
    by (auto simp: set_decompressed_seg_size_def)
  have "j \<le> i" if "unat n < 2 ^ i" for i
  proof -
    have "(2::nat) ^ j < 2 ^ Suc i" using that j(3) by simp
    then have "j < Suc i" by (rule nat_power_less_imp_less [rotated]) simp
    then show ?thesis by simp
  qed
  with j show ?thesis by blast
qed

theorem compressed_seg_size_least_power_witness:
  "\<exists>j \<le> 15. set_decompressed_seg_size 2048 (initial_configuration dpdk_default_config) =
       Some (Inr (initial_configuration dpdk_default_config
         \<lparr>decompressed_seg_size := 2048, compressed_seg_size := 2 ^ j\<rparr>))
     \<and> unat (2048 :: u16) < 2 ^ j \<and> (\<forall>i. unat (2048 :: u16) < 2 ^ i \<longrightarrow> j \<le> i)"
  by (rule compressed_seg_size_least_power) simp_all

text \<open>
  C17. For every decompressed segment size that \<open>ValidateConfiguration\<close> accepts, the
  compressed segment is larger than the decompressed one, so that incompressible data
  fits, and still fits in an mbuf.
\<close>

theorem compressed_seg_size_capacity:
  assumes "RTE_PKTMBUF_HEADROOM rc \<le> 32767"
    and "kMinSegSize \<le> unat n" "unat n \<le> kMaxSegSize rc"
  shows "\<exists>c'. set_decompressed_seg_size n c = Some (Inr c')
             \<and> decompressed_seg_size c' = n
             \<and> unat n < unat (compressed_seg_size c')
             \<and> unat (compressed_seg_size c') \<le> kMaxMbufDataSize rc"
proof -
  have nz: "n \<noteq> 0" using assms(2) by (auto simp: kMinSegSize_def)
  have "unat n * kExpanseRatio_num \<le> kMaxMbufDataSize rc * kExpanseRatio_den"
    using assms(3) by (simp add: kMaxSegSize_def kExpanseRatio_num_def less_eq_div_iff_mult_less_eq)
  then have "unat n * kExpanseRatio_num div kExpanseRatio_den \<le> kMaxMbufDataSize rc"
    by (metis div_le_mono kExpanseRatio_den_def nonzero_mult_div_cancel_right power_not_zero zero_neq_numeral)
  then have scaled: "11 * unat n div 10 \<le> kMaxMbufDataSize rc"
    using kExpanseRatio_scale [of "unat n"] unat_u16_less [of n] by simp
  show ?thesis
  proof (cases "unat n < 32768")
    case True
    then obtain j where j: "set_decompressed_seg_size n c =
        Some (Inr (c\<lparr>decompressed_seg_size := n, compressed_seg_size := 2 ^ j\<rparr>))"
      "j \<le> 15" "unat n < 2 ^ j"
      using compressed_seg_size_least_power nz by blast
    moreover have "(2::nat) ^ j \<le> 2 ^ 15" using j(2) by (rule power_increasing) simp
    ultimately show ?thesis using assms(1) by (simp add: unat_exp kMaxMbufDataSize_def)
  next
    case False
    have "65536 > 11 * unat n div 10" using scaled by (simp add: kMaxMbufDataSize_def)
    then have le: "unat n \<le> 59578" by (simp add: div_less_iff_less_mult)
    have "unat n < 11 * unat n div 10" using False by linarith
    with False le scaled show ?thesis
      using UpdateCompressedSegSize_large [of "c\<lparr>decompressed_seg_size := n\<rparr>"]
      by (auto simp: set_decompressed_seg_size_def word_of_nat_11_10)
  qed
qed

theorem compressed_seg_size_capacity_witness:
  "\<exists>c'. set_decompressed_seg_size 59460 (initial_configuration dpdk_default_config) = Some (Inr c')
      \<and> decompressed_seg_size c' = 59460
      \<and> unat (59460 :: u16) < unat (compressed_seg_size c')
      \<and> unat (compressed_seg_size c') \<le> kMaxMbufDataSize dpdk_default_config"
  by (rule compressed_seg_size_capacity)
     (simp_all add: dpdk_default_config_def kMinSegSize_def kMaxSegSize_def kMaxMbufDataSize_def
        kExpanseRatio_num_def kExpanseRatio_den_def)

end
