(* ===== verification/Bitar_Device_Memory.thy ===== *)
theory Bitar_Device_Memory
  imports Bitar_Memory_Pool Bitar_Config
begin

text \<open>
  Class \<open>DeviceMemory\<close> of \<open>src/include/memory.h\<close> and \<open>src/memory.cc\<close>: the memzones a device
  keeps for compressed output, a stack of free ones and the set of those taken. A
  \<open>const rte_memzone *\<close> that may be null is a \<open>memzone option\<close>. The member
  \<open>configuration_\<close> is a reference to the device's own pointer, so the operations take the
  device's current configuration \<open>c\<close>. Each operation runs under the mutex of the object
  and is one step here. The set is a list in the order of its iteration, which C++ leaves
  open; no property depends on it.
\<close>

subsection \<open>State and operations\<close>

type_synonym memzone_ptr = "memzone option"

record device_memory =
  dm_device_id :: u8
  memzone_pool :: "memzone_ptr list"
  occupied_memzones :: "memzone_ptr list"
  num_preallocated_memzones :: u16

definition kMinPreallocateMemzones :: nat where
  "kMinPreallocateMemzones = 20"

definition new_DeviceMemory :: "u8 \<Rightarrow> device_memory" where
  "new_DeviceMemory device_id =
     \<lparr>dm_device_id = device_id, memzone_pool = [], occupied_memzones = [],
      num_preallocated_memzones = 0\<rparr>"

text \<open>Arrow's \<open>MemoryPool\<close> passes its default alignment on to the pool.\<close>

definition kDefaultBufferAlignment :: int where
  "kDefaultBufferAlignment = 64"

definition AllocateOne ::
  "('w, 'p) dpdk_memory_scheme \<Rightarrow> u16 \<Rightarrow> 'w world \<Rightarrow> memzone_ptr result \<times> 'w world" where
  "AllocateOne P sz w =
     (case pool_Allocate (NDEBUG P) (RtememzoneMemoryPool P) (uint sz) kDefaultBufferAlignment
             nullptr w of
        (Inl e, addr, w) \<Rightarrow> (Inl e, w)
      | (Inr _, addr, w) \<Rightarrow> (Inr (tracker_Of addr w), w))"

text \<open>The loop of \<open>Preallocate\<close>; it returns early with an error or leaves with the pool filled.\<close>

function preallocate_loop ::
  "('w, 'p) dpdk_memory_scheme \<Rightarrow> configuration \<Rightarrow> device_memory \<Rightarrow> 'w world \<Rightarrow>
   unit result \<times> device_memory \<times> 'w world" where
  "preallocate_loop P c d w =
     (if length (memzone_pool d) < unat (max_preallocate_memzones c) then
        (case AllocateOne P (compressed_seg_size c) w of
           (Inr z, w) \<Rightarrow> preallocate_loop P c (d\<lparr>memzone_pool := z # memzone_pool d\<rparr>) w
         | (Inl e, w) \<Rightarrow>
             (case e of
                Status OutOfMemory _ \<Rightarrow>
                  (if length (memzone_pool d) < kMinPreallocateMemzones
                   then (Inl (Status OutOfMemory ''Cannot allocate at least ''), d, w)
                   else (OK, d, w))
              | _ \<Rightarrow> (Inl e, d, w)))
      else (OK, d, w))"
  by pat_completeness auto
termination
  by (relation "measure (\<lambda>(P, c, d, w). unat (max_preallocate_memzones c) - length (memzone_pool d))") auto

text \<open>The last log line multiplies two \<open>uint16_t\<close> as \<open>int\<close>.\<close>

definition dm_Preallocate ::
  "('w, 'p) dpdk_memory_scheme \<Rightarrow> configuration \<Rightarrow> device_memory \<Rightarrow> 'w world \<Rightarrow>
   unit result \<times> device_memory \<times> 'w world" where
  "dm_Preallocate P c d w =
     (case preallocate_loop P c d w of
        (Inl e, d, w) \<Rightarrow> (Inl e, d, w)
      | (Inr _, d, w) \<Rightarrow>
          (let n = word_of_nat (length (memzone_pool d)) :: u16;
               d = d\<lparr>num_preallocated_memzones := n\<rparr>
           in if int32_ok (uint n * uint (decompressed_seg_size c)) then (OK, d, w)
              else (Inl (Fault SignedOverflow), d, w)))"

text \<open>Inserting into and erasing from the \<open>unordered_set\<close>.\<close>

definition set_insert :: "'a \<Rightarrow> 'a list \<Rightarrow> 'a list" where
  "set_insert x xs = (if x \<in> set xs then xs else x # xs)"

text \<open>
  \<open>Take\<close>. The condition of the warning divides by the burst size; the warning itself has no
  effect on the state.
\<close>

definition Take ::
  "('w, 'p) dpdk_memory_scheme \<Rightarrow> configuration \<Rightarrow> device_memory \<Rightarrow> 'w world \<Rightarrow>
   memzone_ptr result \<times> device_memory \<times> 'w world" where
  "Take P c d w =
     (case memzone_pool d of
        z # pool \<Rightarrow>
          (Inr z, d\<lparr>memzone_pool := pool,
                    occupied_memzones := set_insert z (occupied_memzones d)\<rparr>, w)
      | [] \<Rightarrow>
          if burst_size c = 0 then (Inl (Fault DivisionByZero), d, w)
          else
            (case AllocateOne P (compressed_seg_size c) w of
               (Inl (Fault f), w) \<Rightarrow> (Inl (Fault f), d, w)
             | (Inl _, w) \<Rightarrow> (Inr None, d, w)
             | (Inr z, w) \<Rightarrow>
                 (Inr z, d\<lparr>occupied_memzones := set_insert z (occupied_memzones d)\<rparr>, w)))"

definition Put :: "addr \<Rightarrow> device_memory \<Rightarrow> 'w world \<Rightarrow> nat \<times> device_memory \<times> 'w world" where
  "Put addr d w =
     (case tracker_Of addr w of
        None \<Rightarrow> (0, d, w)
      | Some z \<Rightarrow>
          if Some z \<notin> set (occupied_memzones d) then (0, d, w)
          else (1, d\<lparr>occupied_memzones := filter (\<lambda>y. y \<noteq> Some z) (occupied_memzones d),
                     memzone_pool := Some z # memzone_pool d\<rparr>, w))"

text \<open>
  The destructor frees the stack from the top and then the set; a null memzone would be
  dereferenced.
\<close>

fun free_memzones ::
  "('w, 'p) dpdk_memory_scheme \<Rightarrow> configuration \<Rightarrow> memzone_ptr list \<Rightarrow> 'w world \<Rightarrow>
   unit result \<times> 'w world" where
  "free_memzones P c [] w = (OK, w)"
| "free_memzones P c (None # zs) w = (Inl (Fault NullDereference), w)"
| "free_memzones P c (Some z # zs) w =
     (case pool_Free (NDEBUG P) (RtememzoneMemoryPool P) (mz_addr z)
             (uint (compressed_seg_size c)) kDefaultBufferAlignment w of
        (Inl e, w) \<Rightarrow> (Inl e, w)
      | (Inr _, w) \<Rightarrow> free_memzones P c zs w)"

definition destroy_DeviceMemory ::
  "('w, 'p) dpdk_memory_scheme \<Rightarrow> configuration \<Rightarrow> device_memory \<Rightarrow> 'w world \<Rightarrow>
   unit result \<times> 'w world" where
  "destroy_DeviceMemory P c d w =
     (case free_memzones P c (memzone_pool d) w of
        (Inl e, w) \<Rightarrow> (Inl e, w)
      | (Inr _, w) \<Rightarrow> free_memzones P c (occupied_memzones d) w)"

subsection \<open>Reserving and freeing one zone\<close>

lemma uint_u16:
  fixes sz :: u16
  shows "uint sz < 2 ^ 63" "nat (uint sz) = unat sz" "0 < sz \<Longrightarrow> 0 < uint sz"
proof -
  have n: "uint sz = int (unat sz)" by (rule uint_nat)
  have "uint sz < 2 ^ LENGTH(16)" by (rule unsigned_less)
  then show "uint sz < 2 ^ 63" by simp
  show "nat (uint sz) = unat sz" unfolding n by (rule nat_int)
  show "0 < sz \<Longrightarrow> 0 < uint sz" by (simp add: word_less_def)
qed

lemma write_byte_tracker [simp]: "allocated_memzones (write_byte a v w) = allocated_memzones w"
  by (simp add: write_byte_def)

lemma AllocateOne_reserved:
  assumes "mz_ok P w" "0 < sz" "AllocateOne P sz w = (Inr p, w')"
  obtains z m al where "p = Some z" "mz_ok P w'" "allocated_memzones w (mz_addr z) = None"
    "allocated_memzones w' = (allocated_memzones w)(mz_addr z \<mapsto> z)" "unat sz \<le> mz_len z"
    "bytes_allocated Rtememzone w' = bytes_allocated Rtememzone w + uint sz"
    "rte_memzone_reserve_aligned P (unat sz) al (mach w) = (Some z, m)"
proof -
  have sz: "0 < uint sz" "uint sz < 2 ^ 63" "nat (uint sz) = unat sz" "uint sz \<noteq> 0"
    using uint_u16 [of sz] assms(2) by auto
  from assms(3) obtain a where
    al: "pool_Allocate (NDEBUG P) (RtememzoneMemoryPool P) (uint sz) kDefaultBufferAlignment
           nullptr w = (Inr (), a, w')" and p: "p = tracker_Of a w'"
    by (auto simp: AllocateOne_def split: prod.splits sum.splits)
  note R = memzone.allocate_ok [OF assms(1) sz(1,2) al]
  from al sz obtain m z where
    r: "rte_memzone_reserve_aligned P (unat sz) (nat (kDefaultBufferAlignment mod 2 ^ 32)) (mach w)
          = (Some z, m)" and a: "a = mz_addr z" and
    tr: "allocated_memzones w' = allocated_memzones (tracker_Emplace (mz_addr z) z (w\<lparr>mach := m\<rparr>))"
    by (auto simp: pool_Allocate_def memzone_AllocateAligned_def Let_def
        split: prod.splits option.splits if_splits sum.splits)
  have "0 < unat sz" using sz by linarith
  note Z = mz_reserve_ok [OF assms(1) this r]
  show ?thesis
  proof (rule that [OF _ _ _ _ _ _ r])
    show "p = Some z" using p tr Z(3) a by (simp add: tracker_Of_def)
    show "mz_ok P w'" by (rule R(1))
    show "allocated_memzones w (mz_addr z) = None" by (rule Z(1))
    show "allocated_memzones w' = (allocated_memzones w)(mz_addr z \<mapsto> z)" using tr Z(3) by simp
    show "unat sz \<le> mz_len z" by (rule Z(4))
    show "bytes_allocated Rtememzone w' = bytes_allocated Rtememzone w + uint sz"
      using R(4) [of Rtememzone] by simp
  qed
qed

lemma AllocateOne_ok:
  assumes "mz_ok P w" "0 < sz" "AllocateOne P sz w = (Inr p, w')"
  obtains z where "p = Some z" "mz_ok P w'" "allocated_memzones w (mz_addr z) = None"
    "allocated_memzones w' = (allocated_memzones w)(mz_addr z \<mapsto> z)" "unat sz \<le> mz_len z"
    "bytes_allocated Rtememzone w' = bytes_allocated Rtememzone w + uint sz"
  by (rule AllocateOne_reserved [OF assms]) (rule that)

lemma AllocateOne_fail:
  assumes "mz_ok P w" "AllocateOne P sz w = (Inl e, w')"
  shows "mz_ok P w'" "\<exists>m. e = Status OutOfMemory m"
    "bytes_allocated b w' = bytes_allocated b w"
    "allocated_memzones w' = allocated_memzones w"
proof -
  have sz: "uint sz < 2 ^ 63" by (rule uint_u16)
  from assms(2) obtain a where
    al: "pool_Allocate (NDEBUG P) (RtememzoneMemoryPool P) (uint sz) kDefaultBufferAlignment
           nullptr w = (Inl e, a, w')"
    by (auto simp: AllocateOne_def split: prod.splits sum.splits)
  note R = memzone.allocate_fail [OF assms(1) sz al]
  show "mz_ok P w'" "bytes_allocated b w' = bytes_allocated b w" by (rule R(1), rule R(3))
  show "\<exists>m. e = Status OutOfMemory m" using R(5) by simp
  show "allocated_memzones w' = allocated_memzones w"
  proof (cases "memzone_AllocateAligned P (uint sz) kDefaultBufferAlignment nullptr w")
    case (fields r b v)
    show ?thesis
    proof (cases r)
      case (Inl e')
      then have "rte_memzone_reserve_aligned P (nat (uint sz mod 2 ^ 64))
          (nat (kDefaultBufferAlignment mod 2 ^ 32)) (mach w) = (None, mach w') \<and> w' = v \<and>
          v = w\<lparr>mach := mach v\<rparr>"
        using fields al sz
        by (auto simp: pool_Allocate_def memzone_AllocateAligned_def split: prod.splits option.splits if_splits)
      then show ?thesis by (metis world.select_convs(2) world.surjective world.update_convs(1))
    next
      case (Inr u)
      have "0 < uint sz" using R(5) by simp
      from memzone_AllocateAligned_ok [OF assms(1) this sz fields [unfolded Inr]]
      have "mz_ok P v" "\<exists>c. mz_blocks v b = Some c" by auto
      then have "b \<noteq> nullptr" using mz_blocks_start by blast
      then show ?thesis using fields al Inr by (simp add: pool_Allocate_def split: if_splits)
    qed
  qed
qed

lemma Free_zone:
  assumes "mz_ok P w" "tracker_Of (mz_addr z) w = Some z" "0 < sz" "unat sz \<le> mz_len z"
  obtains w' where
    "pool_Free nd (RtememzoneMemoryPool P) (mz_addr z) (uint sz) al w = (OK, w')"
    "mz_ok P w'" "allocated_memzones w' = (allocated_memzones w)(mz_addr z := None)"
    "bytes_allocated Rtememzone w' = bytes_allocated Rtememzone w - uint sz"
proof -
  have sz: "0 < uint sz" "nat (uint sz) \<le> mz_len z"
    using assms(3,4) by (simp_all add: word_less_def)
  have b: "mz_blocks w (mz_addr z) = Some (mz_len z)"
    using assms(2) by (simp add: mz_blocks_def tracker_Of_def)
  obtain w' where w': "pool_Free nd (RtememzoneMemoryPool P) (mz_addr z) (uint sz) al w = (OK, w')"
    "mz_ok P w'" "bytes_allocated Rtememzone w' = bytes_allocated Rtememzone w - uint sz"
    using memzone.free_block [OF assms(1) b sz(1,2), of nd al Rtememzone] by auto
  have z: "allocated_memzones w (mz_addr z) = Some z" using assms(2) by (simp add: tracker_Of_def)
  have "mz_addr z \<noteq> zero_size_area P" using mz_ok_tracked [OF assms(1) z] by (auto simp: zone_bytes_def)
  then have "allocated_memzones w' = (allocated_memzones w)(mz_addr z := None)"
    using w'(1) sz(1) z
    by (auto simp: pool_Free_def memzone_DeallocateAligned_def Let_def tracker_Release_def
        write_byte_def split: if_splits)
  then show ?thesis using that w' by blast
qed

subsection \<open>The invariant of a device memory\<close>

text \<open>
  The zones of the pool and of the occupied set are tracked, large enough and listed
  once; the zones taken and not yet put back are those of the occupied set.
\<close>

definition own_zone ::
  "configuration \<Rightarrow> 'w world \<Rightarrow> memzone_ptr \<Rightarrow> bool" where
  "own_zone c w p \<longleftrightarrow>
     (\<exists>z. p = Some z \<and> tracker_Of (mz_addr z) w = Some z \<and>
          unat (compressed_seg_size c) \<le> mz_len z)"

definition dm_all :: "device_memory \<Rightarrow> memzone_ptr list" where
  "dm_all d = memzone_pool d @ occupied_memzones d"

definition dm_ok ::
  "('w, 'p) dpdk_memory_scheme \<Rightarrow> configuration \<Rightarrow> device_memory \<times> 'w world \<Rightarrow> bool" where
  "dm_ok P c = (\<lambda>(d, w). mz_ok P w \<and> burst_size c \<noteq> 0 \<and> 0 < compressed_seg_size c \<and>
     distinct (dm_all d) \<and> (\<forall>p \<in> set (dm_all d). own_zone c w p))"

definition dm_held :: "device_memory \<times> 'w world \<Rightarrow> memzone set" where
  "dm_held = (\<lambda>(d, w). {z. Some z \<in> set (occupied_memzones d)})"

lemma own_zone_grow:
  assumes "own_zone c w p" "allocated_memzones w (mz_addr z) = None"
    "allocated_memzones w' = (allocated_memzones w)(mz_addr z \<mapsto> z)"
  shows "own_zone c w' p" "p \<noteq> Some z"
  using assms by (auto simp: own_zone_def tracker_Of_def)

lemma own_zone_cong:
  "allocated_memzones w' = allocated_memzones w \<Longrightarrow> own_zone c w' p = own_zone c w p"
  by (simp add: own_zone_def tracker_Of_def)

text \<open>
  What a device memory has to give back: everything tracked beside what was tracked in
  \<open>w0\<close>, with the bytes reported for it.
\<close>

definition dm_books ::
  "configuration \<Rightarrow> 'w world \<Rightarrow> device_memory \<Rightarrow> 'w world \<Rightarrow> bool" where
  "dm_books c w0 d w \<longleftrightarrow>
     (\<forall>z. Some z \<in> set (dm_all d) \<longrightarrow> allocated_memzones w0 (mz_addr z) = None) \<and>
     (\<forall>a. (\<forall>z. Some z \<in> set (dm_all d) \<longrightarrow> mz_addr z \<noteq> a) \<longrightarrow>
        allocated_memzones w a = allocated_memzones w0 a) \<and>
     bytes_allocated Rtememzone w = bytes_allocated Rtememzone w0 +
       int (length (dm_all d)) * uint (compressed_seg_size c)"

text \<open>A new zone joins the zones of the device.\<close>

lemma dm_grow:
  assumes "dm_ok P c (d, w)" "AllocateOne P (compressed_seg_size c) w = (Inr p, w')"
    and "set (dm_all d') = insert p (set (dm_all d))" "length (dm_all d') = Suc (length (dm_all d))"
  shows "dm_ok P c (d', w')" and "p \<notin> set (dm_all d)"
    and "\<exists>z. p = Some z \<and> allocated_memzones w (mz_addr z) = None \<and>
      allocated_memzones w' = (allocated_memzones w)(mz_addr z \<mapsto> z)"
    and "dm_books c w0 d w \<Longrightarrow> dm_books c w0 d' w'"
proof -
  from assms(1) have D: "mz_ok P w" "burst_size c \<noteq> 0" "0 < compressed_seg_size c"
    "distinct (dm_all d)" "\<forall>p \<in> set (dm_all d). own_zone c w p" by (simp_all add: dm_ok_def)
  obtain z where z: "p = Some z" "mz_ok P w'" "allocated_memzones w (mz_addr z) = None"
    "allocated_memzones w' = (allocated_memzones w)(mz_addr z \<mapsto> z)"
    "unat (compressed_seg_size c) \<le> mz_len z"
    "bytes_allocated Rtememzone w' = bytes_allocated Rtememzone w + uint (compressed_seg_size c)"
    using AllocateOne_ok [OF D(1,3) assms(2)] by blast
  have new: "own_zone c w' p" using z by (simp add: own_zone_def tracker_Of_def)
  have old: "own_zone c w' q \<and> q \<noteq> Some z" if "q \<in> set (dm_all d)" for q
    using that D(5) own_zone_grow [OF _ z(3,4)] by blast
  show fresh: "p \<notin> set (dm_all d)" using old z(1) by blast
  have "card (set (dm_all d')) = length (dm_all d')"
    using assms(3,4) fresh distinct_card [OF D(4)] by simp
  then have "distinct (dm_all d')" by (rule card_distinct)
  then show "dm_ok P c (d', w')" using D z(2) new old assms(3) by (auto simp: dm_ok_def)
  show "\<exists>z. p = Some z \<and> allocated_memzones w (mz_addr z) = None \<and>
      allocated_memzones w' = (allocated_memzones w)(mz_addr z \<mapsto> z)" using z by blast
  assume B: "dm_books c w0 d w"
  have "allocated_memzones w0 (mz_addr z) = None"
  proof -
    have "mz_addr y \<noteq> mz_addr z" if "Some y \<in> set (dm_all d)" for y
      using that D(5) z(3) by (auto simp: own_zone_def tracker_Of_def)
    then show ?thesis using B z(3) by (metis dm_books_def)
  qed
  then have one: "allocated_memzones w0 (mz_addr y) = None" if "Some y \<in> set (dm_all d')" for y
    using that B assms(3) z(1) unfolding dm_books_def by (metis insert_iff option.inject)
  have "allocated_memzones w' a = allocated_memzones w0 a"
    if "\<forall>y. Some y \<in> set (dm_all d') \<longrightarrow> mz_addr y \<noteq> a" for a
  proof -
    have "mz_addr z \<noteq> a" using that assms(3) z(1) by simp
    moreover have "allocated_memzones w a = allocated_memzones w0 a"
      using that B assms(3) unfolding dm_books_def by (metis insertI2)
    ultimately show ?thesis by (simp add: z(4))
  qed
  moreover have "int (length (dm_all d')) * uint (compressed_seg_size c) =
      uint (compressed_seg_size c) + int (length (dm_all d)) * uint (compressed_seg_size c)"
    unfolding assms(4) by (simp only: of_nat_Suc distrib_right mult_1)
  then have "bytes_allocated Rtememzone w' = bytes_allocated Rtememzone w0 +
      int (length (dm_all d')) * uint (compressed_seg_size c)"
    using B [unfolded dm_books_def, THEN conjunct2, THEN conjunct2] z(6) by (simp only: ac_simps)
  ultimately show "dm_books c w0 d' w'" using one unfolding dm_books_def by blast
qed

text \<open>Moving zones between pool and occupied set changes nothing the books see.\<close>

lemma dm_move:
  assumes "set (dm_all d') = set (dm_all d)" "length (dm_all d') = length (dm_all d)"
  shows "dm_ok P c (d, w) \<Longrightarrow> dm_ok P c (d', w)" and "dm_books c w0 d w \<Longrightarrow> dm_books c w0 d' w"
proof -
  show "dm_books c w0 d w \<Longrightarrow> dm_books c w0 d' w" by (simp add: dm_books_def assms)
  assume ok: "dm_ok P c (d, w)"
  then have "distinct (dm_all d)" by (simp add: dm_ok_def)
  then have "distinct (dm_all d')"
    using distinct_card [of "dm_all d"] assms by (intro card_distinct) simp
  then show "dm_ok P c (d', w)" using ok assms(1) by (simp add: dm_ok_def)
qed

lemma dm_same:
  assumes "mz_ok P w'" "allocated_memzones w' = allocated_memzones w"
  shows "dm_ok P c (d, w) \<Longrightarrow> dm_ok P c (d, w')"
    and "bytes_allocated Rtememzone w' = bytes_allocated Rtememzone w \<Longrightarrow>
      dm_books c w0 d w \<Longrightarrow> dm_books c w0 d w'"
  using assms by (simp_all add: dm_ok_def dm_books_def own_zone_cong [OF assms(2)])

subsection \<open>Preallocate\<close>

declare preallocate_loop.simps [simp del]

lemma preallocate_loop_ok:
  assumes "preallocate_loop P c d w = (r, d', w')" "dm_ok P c (d, w)" "dm_books c w0 d w"
    and "length (memzone_pool d) \<le> unat (max_preallocate_memzones c)"
  shows "dm_ok P c (d', w') \<and> dm_books c w0 d' w' \<and>
    occupied_memzones d' = occupied_memzones d \<and>
    length (memzone_pool d') \<le> unat (max_preallocate_memzones c) \<and>
    (case r of
       Inr _ \<Rightarrow> length (memzone_pool d') = unat (max_preallocate_memzones c) \<or>
                kMinPreallocateMemzones \<le> length (memzone_pool d')
     | Inl e \<Rightarrow> length (memzone_pool d') < kMinPreallocateMemzones \<and>
         (\<exists>m. e = Status OutOfMemory m))"
  using assms
proof (induction P c d w rule: preallocate_loop.induct)
  case (1 P c d w)
  show ?case
  proof (cases "length (memzone_pool d) < unat (max_preallocate_memzones c)")
    case False
    then show ?thesis using 1(2-5) by (subst (asm) preallocate_loop.simps) auto
  next
    case True
    show ?thesis
    proof (cases "AllocateOne P (compressed_seg_size c) w")
      case (Pair q v)
      show ?thesis
      proof (cases q)
        case (Inl e)
        have "mz_ok P w" using 1(3) by (simp add: dm_ok_def)
        note F = AllocateOne_fail [OF this Pair [unfolded Inl]]
        from F(2) obtain m where "e = Status OutOfMemory m" by blast
        then have "w' = v \<and> d' = d \<and>
            (if length (memzone_pool d) < kMinPreallocateMemzones
             then r = Inl (Status OutOfMemory ''Cannot allocate at least '') else r = OK)"
          using 1(2) True Pair Inl by (subst (asm) preallocate_loop.simps) (simp split: if_splits)
        then show ?thesis
          using dm_same [OF F(1,4)] F(3) 1(3-5) by (auto split: if_splits)
      next
        case (Inr z)
        let ?d = "d\<lparr>memzone_pool := z # memzone_pool d\<rparr>"
        have step: "preallocate_loop P c ?d v = (r, d', w')"
          using 1(2) True Pair Inr by (subst (asm) preallocate_loop.simps) simp
        have "set (dm_all ?d) = insert z (set (dm_all d))"
          "length (dm_all ?d) = Suc (length (dm_all d))" by (simp_all add: dm_all_def)
        from dm_grow [OF 1(3) Pair [unfolded Inr] this] 1(4)
        have "dm_ok P c (?d, v)" "dm_books c w0 ?d v" by blast+
        moreover have "length (memzone_pool ?d) \<le> unat (max_preallocate_memzones c)"
          using True by simp
        moreover have "occupied_memzones ?d = occupied_memzones d" by simp
        ultimately show ?thesis
          using 1(1) [OF True Pair [symmetric] Inr step] by simp
      qed
    qed
  qed
qed

subsection \<open>Take and Put\<close>

lemma Take_pool:
  assumes "dm_ok P c (d, w)" "memzone_pool d = p # ps"
  shows "\<exists>z. p = Some z \<and> z \<notin> dm_held (d, w) \<and> Take P c d w =
    (Inr (Some z), d\<lparr>memzone_pool := ps, occupied_memzones := Some z # occupied_memzones d\<rparr>, w)"
proof -
  from assms have "own_zone c w p" "p \<notin> set (occupied_memzones d)"
    by (auto simp: dm_ok_def dm_all_def)
  then show ?thesis using assms(2)
    by (auto simp: own_zone_def Take_def set_insert_def dm_held_def)
qed

lemma Take_ok:
  assumes "dm_ok P c (d, w)" "Take P c d w = (r, d', w')"
  shows "dm_ok P c (d', w')" and "dm_books c w0 d w \<Longrightarrow> dm_books c w0 d' w'"
    and "r = Inr None \<and> occupied_memzones d' = occupied_memzones d \<and>
        memzone_pool d' = [] \<and> memzone_pool d = [] \<or>
      (\<exists>z. r = Inr (Some z) \<and> z \<notin> dm_held (d, w) \<and> own_zone c w' (Some z) \<and>
         occupied_memzones d' = Some z # occupied_memzones d \<and>
         (memzone_pool d = Some z # memzone_pool d' \<or>
          memzone_pool d = [] \<and> memzone_pool d' = [] \<and> allocated_memzones w (mz_addr z) = None))"
proof -
  from assms(1) have D: "mz_ok P w" "burst_size c \<noteq> 0" by (simp_all add: dm_ok_def)
  have "dm_ok P c (d', w') \<and> (dm_books c w0 d w \<longrightarrow> dm_books c w0 d' w') \<and>
     (r = Inr None \<and> occupied_memzones d' = occupied_memzones d \<and>
        memzone_pool d' = [] \<and> memzone_pool d = [] \<or>
      (\<exists>z. r = Inr (Some z) \<and> z \<notin> dm_held (d, w) \<and> own_zone c w' (Some z) \<and>
         occupied_memzones d' = Some z # occupied_memzones d \<and>
         (memzone_pool d = Some z # memzone_pool d' \<or>
          memzone_pool d = [] \<and> memzone_pool d' = [] \<and> allocated_memzones w (mz_addr z) = None)))"
  proof (cases "memzone_pool d")
    case (Cons p ps)
    obtain z where z: "p = Some z" "z \<notin> dm_held (d, w)" and r: "r = Inr (Some z)" "w' = w" and
      d': "d' = d\<lparr>memzone_pool := ps, occupied_memzones := Some z # occupied_memzones d\<rparr>"
      using Take_pool [OF assms(1) Cons] assms(2) by auto
    have "set (dm_all d') = set (dm_all d)" "length (dm_all d') = length (dm_all d)"
      using Cons by (auto simp: d' dm_all_def z(1))
    from dm_move [OF this] assms(1)
    have "dm_ok P c (d', w)" "dm_books c w0 d w \<longrightarrow> dm_books c w0 d' w" by blast+
    moreover have "own_zone c w (Some z)"
      using assms(1) Cons z(1) by (simp add: dm_ok_def dm_all_def)
    ultimately show ?thesis using z r Cons by (simp add: d')
  next
    case Nil
    show ?thesis
    proof (cases "AllocateOne P (compressed_seg_size c) w")
      case (Pair q v)
      show ?thesis
      proof (cases q)
        case (Inl e)
        note F = AllocateOne_fail [OF D(1) Pair [unfolded Inl]]
        from F(2) obtain m where "e = Status OutOfMemory m" by blast
        then have "r = Inr None \<and> d' = d \<and> w' = v"
          using assms(2) Nil Pair Inl D(2) by (simp add: Take_def)
        then show ?thesis using dm_same [OF F(1,4)] F(3) assms(1) Nil by simp
      next
        case (Inr p)
        have eq: "r = Inr p" "w' = v"
          "d' = d\<lparr>occupied_memzones := set_insert p (occupied_memzones d)\<rparr>"
          using assms(2) Nil Pair Inr D(2) by (simp_all add: Take_def)
        let ?d = "d\<lparr>occupied_memzones := p # occupied_memzones d\<rparr>"
        have "set (dm_all ?d) = insert p (set (dm_all d))"
          "length (dm_all ?d) = Suc (length (dm_all d))" by (simp_all add: dm_all_def)
        note G = dm_grow [OF assms(1) Pair [unfolded Inr] this]
        have "p \<notin> set (occupied_memzones d)" using G(2) by (simp add: dm_all_def)
        then have d': "d' = ?d" by (simp add: eq(3) set_insert_def)
        obtain z where z: "p = Some z" "allocated_memzones w (mz_addr z) = None" using G(3) by blast
        have "own_zone c v p" using G(1) by (simp add: dm_ok_def dm_all_def)
        then show ?thesis
          using G z Nil \<open>p \<notin> set (occupied_memzones d)\<close> by (simp add: eq(1,2) d' dm_held_def)
      qed
    qed
  qed
  then show "dm_ok P c (d', w')" "dm_books c w0 d w \<Longrightarrow> dm_books c w0 d' w'"
    "r = Inr None \<and> occupied_memzones d' = occupied_memzones d \<and>
        memzone_pool d' = [] \<and> memzone_pool d = [] \<or>
      (\<exists>z. r = Inr (Some z) \<and> z \<notin> dm_held (d, w) \<and> own_zone c w' (Some z) \<and>
         occupied_memzones d' = Some z # occupied_memzones d \<and>
         (memzone_pool d = Some z # memzone_pool d' \<or>
          memzone_pool d = [] \<and> memzone_pool d' = [] \<and> allocated_memzones w (mz_addr z) = None))"
    by blast+
qed

lemma Put_held:
  assumes "dm_ok P c (d, w)" "z \<in> dm_held (d, w)"
  obtains d' where "Put (mz_addr z) d w = (1, d', w)" "dm_ok P c (d', w)"
    "\<And>w0. dm_books c w0 d w \<Longrightarrow> dm_books c w0 d' w" "dm_held (d', w) = dm_held (d, w) - {z}"
    "memzone_pool d' = Some z # memzone_pool d"
proof -
  define d' where "d' = d\<lparr>occupied_memzones := filter (\<lambda>y. y \<noteq> Some z) (occupied_memzones d),
                          memzone_pool := Some z # memzone_pool d\<rparr>"
  from assms(2) have z: "Some z \<in> set (occupied_memzones d)" by (simp add: dm_held_def)
  then have tr: "tracker_Of (mz_addr z) w = Some z" and dist: "distinct (occupied_memzones d)"
    using assms(1) by (auto simp: dm_ok_def dm_all_def own_zone_def)
  have put: "Put (mz_addr z) d w = (1, d', w)" using tr z by (simp add: Put_def d'_def)
  have "filter (\<lambda>y. y \<noteq> Some z) (occupied_memzones d) = remove1 (Some z) (occupied_memzones d)"
    using distinct_remove1_removeAll [OF dist] by (simp add: removeAll_filter_not_eq eq_commute)
  then have "length (dm_all d') = length (dm_all d)" "set (dm_all d') = set (dm_all d)"
    using z dist
    by (auto simp: d'_def dm_all_def length_remove1 dest: length_pos_if_in_set split: if_splits)
  from dm_move [OF this(2,1)] assms(1)
  have "dm_ok P c (d', w)" "\<And>w0. dm_books c w0 d w \<Longrightarrow> dm_books c w0 d' w" by blast+
  moreover have "dm_held (d', w) = dm_held (d, w) - {z}" by (auto simp: dm_held_def d'_def)
  ultimately show ?thesis using that put by (simp add: d'_def)
qed

lemma Put_other:
  assumes "dm_ok P c (d, w)" "\<forall>z \<in> dm_held (d, w). mz_addr z \<noteq> a"
  shows "Put a d w = (0, d, w)"
proof (cases "tracker_Of a w")
  case (Some z)
  then have "mz_addr z = a" using assms(1) mz_ok_tracked(1) by (auto simp: dm_ok_def tracker_Of_def)
  then show ?thesis using assms(2) Some by (auto simp: Put_def dm_held_def)
qed (simp add: Put_def)

lemma dm_held_apart:
  assumes "dm_ok P c (d, w)" "z \<in> dm_held (d, w)" "y \<in> dm_held (d, w)" "z \<noteq> y"
  shows "zone_bytes z \<inter> zone_bytes y = {}"
proof -
  have tr: "allocated_memzones w (mz_addr z) = Some z" "allocated_memzones w (mz_addr y) = Some y"
    using assms(1-3) by (auto simp: dm_ok_def dm_held_def dm_all_def own_zone_def tracker_Of_def)
  have "mz_ok P w" using assms(1) by (simp add: dm_ok_def)
  moreover have "mz_addr z \<noteq> mz_addr y" using tr assms(4) by auto
  ultimately show ?thesis using mz_ok_disjoint [OF _ tr] by blast
qed

subsection \<open>The interface of a source of memzones\<close>

text \<open>
  What the queue pairs of a device rely on when they take zones for compressed output
  and put them back. \<open>held s\<close> are the zones out with the clients.
\<close>

locale memzone_source =
  fixes take :: "'s \<Rightarrow> memzone_ptr result \<times> 's"
    and put :: "addr \<Rightarrow> 's \<Rightarrow> nat \<times> 's"
    and ok :: "'s \<Rightarrow> bool"
    and held :: "'s \<Rightarrow> memzone set"
    and seg :: nat
  assumes take_zone: "ok s \<Longrightarrow> take s = (Inr (Some z), s') \<Longrightarrow>
      ok s' \<and> z \<notin> held s \<and> held s' = insert z (held s)"
    and take_none: "ok s \<Longrightarrow> take s = (Inr None, s') \<Longrightarrow> ok s' \<and> held s' = held s"
    and take_defined: "ok s \<Longrightarrow> \<exists>p s'. take s = (Inr p, s')"
    and put_held: "ok s \<Longrightarrow> z \<in> held s \<Longrightarrow>
      \<exists>s'. put (mz_addr z) s = (1, s') \<and> ok s' \<and> held s' = held s - {z}"
    and put_other: "ok s \<Longrightarrow> \<forall>z \<in> held s. mz_addr z \<noteq> a \<Longrightarrow> put a s = (0, s)"
    and held_size: "ok s \<Longrightarrow> z \<in> held s \<Longrightarrow> seg \<le> mz_len z \<and> 0 < mz_len z"
    and held_apart: "ok s \<Longrightarrow> z \<in> held s \<Longrightarrow> y \<in> held s \<Longrightarrow> z \<noteq> y \<Longrightarrow>
      zone_bytes z \<inter> zone_bytes y = {}"
    and held_finite: "ok s \<Longrightarrow> finite (held s)"

text \<open>Putting back a sequence of addresses, and counting what was put back.\<close>

fun put_all :: "(addr \<Rightarrow> 's \<Rightarrow> nat \<times> 's) \<Rightarrow> addr list \<Rightarrow> 's \<Rightarrow> nat \<times> 's" where
  "put_all put [] s = (0, s)"
| "put_all put (a # as) s =
     (case put a s of (n, s) \<Rightarrow> (case put_all put as s of (m, s) \<Rightarrow> (n + m, s)))"

text \<open>
  Several clients, identified by numbers, use one source: a step is one call. A client
  puts back a zone it holds, or an address that is of no zone out with any client.
\<close>

inductive source_step ::
  "('s \<Rightarrow> memzone_ptr result \<times> 's) \<Rightarrow> (addr \<Rightarrow> 's \<Rightarrow> nat \<times> 's) \<Rightarrow>
   (nat \<Rightarrow> memzone set) \<times> 's \<Rightarrow> (nat \<Rightarrow> memzone set) \<times> 's \<Rightarrow> bool" for take put where
  took: "take s = (Inr (Some z), s') \<Longrightarrow>
    source_step take put (h, s) (h(i := insert z (h i)), s')"
| took_none: "take s = (Inr None, s') \<Longrightarrow> source_step take put (h, s) (h, s')"
| put_back: "z \<in> h i \<Longrightarrow> put (mz_addr z) s = (n, s') \<Longrightarrow>
    source_step take put (h, s) (h(i := h i - {z}), s')"
| put_stray: "\<forall>j. \<forall>z \<in> h j. mz_addr z \<noteq> a \<Longrightarrow> put a s = (n, s') \<Longrightarrow>
    source_step take put (h, s) (h, s')"

definition exclusive :: "(nat \<Rightarrow> memzone set) \<Rightarrow> memzone set \<Rightarrow> bool" where
  "exclusive h H \<longleftrightarrow> (\<Union>i. h i) = H \<and> (\<forall>i j. i \<noteq> j \<longrightarrow> h i \<inter> h j = {})"

context memzone_source begin

lemma held_addr:
  assumes "ok s" "z \<in> held s" "y \<in> held s" "mz_addr z = mz_addr y"
  shows "z = y"
  using held_apart [OF assms(1-3)] held_size [OF assms(1)] assms
  by (fastforce simp: zone_bytes_def)

lemma put_all_ok:
  assumes "ok s"
  shows "\<exists>s'. put_all put as s = (card {z \<in> held s. mz_addr z \<in> set as}, s') \<and> ok s' \<and>
    held s' = {z \<in> held s. mz_addr z \<notin> set as}"
  using assms
proof (induction as arbitrary: s)
  case (Cons a as)
  show ?case
  proof (cases "\<exists>z \<in> held s. mz_addr z = a")
    case False
    then have "put a s = (0, s)" using put_other Cons.prems by blast
    moreover have "{z \<in> held s. mz_addr z \<in> set (a # as)} = {z \<in> held s. mz_addr z \<in> set as}"
      "{z \<in> held s. mz_addr z \<notin> set (a # as)} = {z \<in> held s. mz_addr z \<notin> set as}"
      using False by auto
    ultimately show ?thesis using Cons by auto
  next
    case True
    then obtain z where z: "z \<in> held s" "mz_addr z = a" by blast
    obtain s1 where s1: "put a s = (1, s1)" "ok s1" "held s1 = held s - {z}"
      using put_held [OF Cons.prems z(1)] z(2) by blast
    have only: "y = z" if "y \<in> held s" "mz_addr y = a" for y
      using held_addr [OF Cons.prems that(1) z(1)] that(2) z(2) by simp
    have iff: "y \<in> held s \<and> mz_addr y \<in> set (a # as) \<longleftrightarrow>
        y = z \<or> y \<in> held s1 \<and> mz_addr y \<in> set as"
      "y \<in> held s1 \<and> mz_addr y \<notin> set as \<longleftrightarrow> y \<in> held s \<and> mz_addr y \<notin> set (a # as)" for y
      using only [of y] z s1(3) by (cases "y = z"; force)+
    have split: "{y \<in> held s. mz_addr y \<in> set (a # as)} =
        insert z {y \<in> held s1. mz_addr y \<in> set as}"
      unfolding iff(1) by blast
    have rest: "{y \<in> held s1. mz_addr y \<notin> set as} = {y \<in> held s. mz_addr y \<notin> set (a # as)}"
      unfolding iff(2) by blast
    have "card {y \<in> held s. mz_addr y \<in> set (a # as)} = Suc (card {y \<in> held s1. mz_addr y \<in> set as})"
      unfolding split using held_finite [OF s1(2)] s1(3) by simp
    moreover obtain s' where "put_all put as s1 = (card {y \<in> held s1. mz_addr y \<in> set as}, s')"
      "ok s'" "held s' = {y \<in> held s1. mz_addr y \<notin> set as}"
      using Cons.IH [OF s1(2)] by blast
    ultimately show ?thesis unfolding rest using s1(1) by simp
  qed
qed simp

lemma exclusive_step:
  assumes "source_step take put hs hs'" "ok (snd hs)" "exclusive (fst hs) (held (snd hs))"
  shows "ok (snd hs') \<and> exclusive (fst hs') (held (snd hs'))"
  using assms
proof cases
  case (took s z s' h i)
  then have T: "ok s'" "z \<notin> held s" "held s' = insert z (held s)" using take_zone assms(2) by auto
  have "exclusive (h(i := insert z (h i))) (insert z (held s))"
    using assms(3) took T(2) unfolding exclusive_def by (auto split: if_splits)
  then show ?thesis using T took by simp
next
  case (took_none s s' h)
  then show ?thesis using take_none assms(2,3) by auto
next
  case (put_back z h i s n s')
  have z: "z \<in> held s" using assms(3) put_back by (auto simp: exclusive_def)
  have "ok s" using assms(2) put_back(1) by simp
  then have "n = 1" "ok s'" "held s' = held s - {z}" using put_held [OF _ z] put_back(4) by auto
  moreover have "exclusive (h(i := h i - {z})) (held s - {z})"
    using assms(3) put_back unfolding exclusive_def by (auto split: if_splits)
  ultimately show ?thesis using put_back by simp
next
  case (put_stray h a s n s')
  then have "held s = (\<Union>j. h j)" using assms(3) by (simp add: exclusive_def)
  then have "\<forall>z \<in> held s. mz_addr z \<noteq> a" using put_stray(3) by simp
  then show ?thesis using put_other [of s a] assms(2,3) put_stray by simp
qed

lemma exclusive_run:
  assumes "(source_step take put)\<^sup>*\<^sup>* hs hs'" "ok (snd hs)" "exclusive (fst hs) (held (snd hs))"
  shows "ok (snd hs') \<and> exclusive (fst hs') (held (snd hs'))"
  using assms by (induction rule: rtranclp_induct) (auto dest: exclusive_step)

end

subsection \<open>A device memory is a source of memzones\<close>

definition dm_take ::
  "('w, 'p) dpdk_memory_scheme \<Rightarrow> configuration \<Rightarrow> device_memory \<times> 'w world \<Rightarrow>
   memzone_ptr result \<times> device_memory \<times> 'w world" where
  "dm_take P c = (\<lambda>(d, w). Take P c d w)"

definition dm_put ::
  "addr \<Rightarrow> device_memory \<times> 'w world \<Rightarrow> nat \<times> device_memory \<times> 'w world" where
  "dm_put a = (\<lambda>(d, w). Put a d w)"

lemma dm_own_held:
  assumes "dm_ok P c (d, w)" "z \<in> dm_held (d, w)"
  shows "tracker_Of (mz_addr z) w = Some z" "unat (compressed_seg_size c) \<le> mz_len z"
    "Some z \<notin> set (memzone_pool d)"
  using assms by (auto simp: dm_ok_def dm_held_def dm_all_def own_zone_def)

text \<open>The free list gets shorter by one, and \<open>Take\<close> returns nothing only when it is empty.\<close>

lemma dm_take_pool:
  assumes "dm_ok P c (d, w)" "Take P c d w = (Inr p, d', w')"
  shows "length (memzone_pool d') = length (memzone_pool d) - 1" "p = None \<Longrightarrow> memzone_pool d = []"
    "memzone_pool d \<noteq> [] \<Longrightarrow> set (dm_all d') = set (dm_all d)"
  using Take_ok(3) [OF assms] by (auto simp: dm_all_def)

lemma dm_take_zone:
  assumes "dm_ok P c (d, w)" "Take P c d w = (Inr (Some z), d', w')"
  shows "dm_ok P c (d', w')" "z \<notin> dm_held (d, w)"
    "dm_held (d', w') = insert z (dm_held (d, w))"
proof -
  have "z \<notin> dm_held (d, w) \<and> occupied_memzones d' = Some z # occupied_memzones d"
    using Take_ok(3) [OF assms] by blast
  then show "z \<notin> dm_held (d, w)" "dm_held (d', w') = insert z (dm_held (d, w))"
    by (auto simp: dm_held_def)
qed (rule Take_ok(1) [OF assms])

lemma dm_take_none:
  assumes "dm_ok P c (d, w)" "Take P c d w = (Inr None, d', w')"
  shows "dm_ok P c (d', w')" "dm_held (d', w') = dm_held (d, w)"
proof -
  have "occupied_memzones d' = occupied_memzones d"
    using Take_ok(3) [OF assms] by blast
  then show "dm_held (d', w') = dm_held (d, w)" by (simp add: dm_held_def)
qed (rule Take_ok(1) [OF assms])

lemma dm_take_defined:
  assumes "dm_ok P c (d, w)"
  shows "\<exists>p s'. Take P c d w = (Inr p, s')"
proof (cases "Take P c d w")
  case (fields r d' w')
  then show ?thesis using Take_ok(3) [OF assms fields] by blast
qed

lemma finite_dm_held: "finite (dm_held (d, w))"
proof -
  have "dm_held (d, w) = Some -` set (occupied_memzones d)" by (auto simp: dm_held_def)
  then show ?thesis by (simp add: finite_vimageI)
qed

lemma dm_held_size:
  assumes "dm_ok P c (d, w)" "z \<in> dm_held (d, w)"
  shows "unat (compressed_seg_size c) \<le> mz_len z \<and> 0 < mz_len z"
proof
  show le: "unat (compressed_seg_size c) \<le> mz_len z" by (rule dm_own_held(2) [OF assms])
  have "0 < compressed_seg_size c" using assms(1) by (simp add: dm_ok_def)
  then have "0 < unat (compressed_seg_size c)" by (simp add: word_less_nat_alt)
  then show "0 < mz_len z" using le by (rule less_le_trans)
qed

interpretation dm: memzone_source "dm_take P c" dm_put "dm_ok P c" dm_held
  "unat (compressed_seg_size c)"
  for P :: "('w, 'p) dpdk_memory_scheme" and c
proof (unfold_locales, goal_cases)
  case (1 s z s')
  obtain d w d' w' where s: "s = (d, w)" "s' = (d', w')" by (cases s, cases s')
  have t: "Take P c d w = (Inr (Some z), d', w')" using 1(2) by (simp add: s dm_take_def)
  show ?case unfolding s using dm_take_zone [OF 1(1) [unfolded s] t] by blast
next
  case (2 s s')
  obtain d w d' w' where s: "s = (d, w)" "s' = (d', w')" by (cases s, cases s')
  have t: "Take P c d w = (Inr None, d', w')" using 2(2) by (simp add: s dm_take_def)
  show ?case unfolding s using dm_take_none [OF 2(1) [unfolded s] t] by blast
next
  case (3 s)
  obtain d w where s: "s = (d, w)" by (cases s)
  show ?case unfolding s dm_take_def prod.case by (rule dm_take_defined [OF 3 [unfolded s]])
next
  case (4 s z)
  obtain d w where s: "s = (d, w)" by (cases s)
  obtain d' where "Put (mz_addr z) d w = (1, d', w)" "dm_ok P c (d', w)"
    "\<And>w0. dm_books c w0 d w \<Longrightarrow> dm_books c w0 d' w" "dm_held (d', w) = dm_held (d, w) - {z}"
    "memzone_pool d' = Some z # memzone_pool d"
    by (rule Put_held [OF 4 [unfolded s]]) (rule that)
  then show ?case unfolding s dm_put_def prod.case by blast
next
  case (5 s a)
  obtain d w where s: "s = (d, w)" by (cases s)
  show ?case unfolding s dm_put_def prod.case by (rule Put_other [OF 5 [unfolded s]])
next
  case (6 s z)
  obtain d w where s: "s = (d, w)" by (cases s)
  show ?case by (rule dm_held_size [OF 6 [unfolded s]])
next
  case (7 s z y)
  obtain d w where s: "s = (d, w)" by (cases s)
  show ?case by (rule dm_held_apart [OF 7 [unfolded s]])
next
  case (8 s)
  then show ?case by (cases s) (simp add: finite_dm_held)
qed

lemma dm_step_books:
  assumes "source_step (dm_take P c) dm_put hs hs'"
    and "dm_ok P c (snd hs)" "exclusive (fst hs) (dm_held (snd hs))"
    and "dm_books c w0 (fst (snd hs)) (snd (snd hs))"
  shows "dm_books c w0 (fst (snd hs')) (snd (snd hs'))"
  using assms
proof cases
  case (took s z s' h i)
  obtain d w d' w' where s: "s = (d, w)" "s' = (d', w')" by (cases s, cases s')
  show ?thesis using Take_ok(2) [of P c d w "Inr (Some z)" d' w'] assms(2,4) took s
    by (simp add: dm_take_def)
next
  case (took_none s s' h)
  obtain d w d' w' where s: "s = (d, w)" "s' = (d', w')" by (cases s, cases s')
  show ?thesis using Take_ok(2) [of P c d w "Inr None" d' w'] assms(2,4) took_none s
    by (simp add: dm_take_def)
next
  case (put_back z h i s n s')
  obtain d w where s: "s = (d, w)" by (cases s)
  have ok: "dm_ok P c (d, w)" "dm_books c w0 d w" using assms(2,4) put_back s by simp_all
  have z: "z \<in> dm_held (d, w)" using assms(3) put_back s by (auto simp: exclusive_def)
  obtain d' where d': "Put (mz_addr z) d w = (1, d', w)" "dm_books c w0 d' w"
    by (rule Put_held [OF ok(1) z]) (rule that, assumption, insert ok(2), blast)
  then have "s' = (d', w)" using put_back(4) s by (simp add: dm_put_def)
  then show ?thesis using d'(2) put_back(2) by simp
next
  case (put_stray h a s n s')
  obtain d w where s: "s = (d, w)" by (cases s)
  have "dm_held (d, w) = (\<Union>j. h j)" using assms(3) put_stray s by (simp add: exclusive_def)
  then have "\<forall>z \<in> dm_held (d, w). mz_addr z \<noteq> a" using put_stray(3) by simp
  moreover have "dm_ok P c (d, w)" "dm_books c w0 d w" using assms(2,4) put_stray s by simp_all
  ultimately have "Put a d w = (0, d, w)" using Put_other by blast
  then have "s' = (d, w)" using put_stray(4) s by (simp add: dm_put_def)
  then show ?thesis using \<open>dm_books c w0 d w\<close> put_stray(2) by simp
qed

lemma dm_run:
  assumes "(source_step (dm_take P c) dm_put)\<^sup>*\<^sup>* (h, d, w) (h', d', w')"
    and "dm_ok P c (d, w)" "exclusive h (dm_held (d, w))" "dm_books c w0 d w"
  shows "dm_ok P c (d', w') \<and> exclusive h' (dm_held (d', w')) \<and> dm_books c w0 d' w'"
proof -
  have "dm_ok P c (snd hs') \<and> exclusive (fst hs') (dm_held (snd hs')) \<and>
      dm_books c w0 (fst (snd hs')) (snd (snd hs'))"
    if "(source_step (dm_take P c) dm_put)\<^sup>*\<^sup>* (h, d, w) hs'" for hs'
    using that
  proof (induction rule: rtranclp_induct)
    case base
    then show ?case using assms(2-4) by simp
  next
    case (step hs hs')
    then show ?case using dm.exclusive_step [OF step(2)] dm_step_books [OF step(2)] by blast
  qed
  from this [OF assms(1)] show ?thesis by simp
qed

subsection \<open>The destructor\<close>

lemma free_memzones_ok:
  assumes "mz_ok P w" "0 < compressed_seg_size c" "distinct zs" "\<forall>p \<in> set zs. own_zone c w p"
  obtains w' where "free_memzones P c zs w = (OK, w')" "mz_ok P w'"
    "\<And>a. allocated_memzones w' a =
       (if \<exists>z. Some z \<in> set zs \<and> mz_addr z = a then None else allocated_memzones w a)"
    "bytes_allocated Rtememzone w' =
       bytes_allocated Rtememzone w - int (length zs) * uint (compressed_seg_size c)"
  using assms
proof (induction zs arbitrary: w thesis)
  case Nil
  then show ?case by simp
next
  case (Cons p zs)
  obtain z where z: "p = Some z" "tracker_Of (mz_addr z) w = Some z"
    "unat (compressed_seg_size c) \<le> mz_len z" using Cons.prems(5) by (auto simp: own_zone_def)
  obtain w1 where w1:
    "pool_Free (NDEBUG P) (RtememzoneMemoryPool P) (mz_addr z)
       (uint (compressed_seg_size c)) kDefaultBufferAlignment w = (OK, w1)"
    "mz_ok P w1" "allocated_memzones w1 = (allocated_memzones w)(mz_addr z := None)"
    "bytes_allocated Rtememzone w1 = bytes_allocated Rtememzone w - uint (compressed_seg_size c)"
    using Free_zone [OF Cons.prems(2) z(2) Cons.prems(3) z(3)] by blast
  have "own_zone c w1 q" if q: "q \<in> set zs" for q
  proof -
    obtain y where y: "q = Some y" "tracker_Of (mz_addr y) w = Some y"
      "unat (compressed_seg_size c) \<le> mz_len y"
      using bspec [OF Cons.prems(5), of q] q unfolding own_zone_def by auto
    have "y \<noteq> z" using Cons.prems(4) q y(1) z(1) by auto
    then have "mz_addr y \<noteq> mz_addr z" using y(2) z(2) by auto
    then show ?thesis using y w1(3) by (simp add: own_zone_def tracker_Of_def)
  qed
  then obtain w2 where w2: "free_memzones P c zs w1 = (OK, w2)" "mz_ok P w2"
    "\<And>a. allocated_memzones w2 a =
       (if \<exists>z. Some z \<in> set zs \<and> mz_addr z = a then None else allocated_memzones w1 a)"
    "bytes_allocated Rtememzone w2 =
       bytes_allocated Rtememzone w1 - int (length zs) * uint (compressed_seg_size c)"
    using Cons.IH [OF _ w1(2) Cons.prems(3)] Cons.prems(4) by auto
  have eq: "free_memzones P c (p # zs) w = (OK, w2)" using z(1) w1(1) w2(1) by simp
  show ?case
  proof (rule Cons.prems(1) [OF eq w2(2)])
    show "allocated_memzones w2 a = (if \<exists>z. Some z \<in> set (p # zs) \<and> mz_addr z = a then None
        else allocated_memzones w a)" for a
      using w2(3) [of a] w1(3) z(1) by auto
    show "bytes_allocated Rtememzone w2 =
       bytes_allocated Rtememzone w - int (length (p # zs)) * uint (compressed_seg_size c)"
      using w2(4) w1(4) by (simp add: distrib_right)
  qed
qed

lemma free_memzones_append:
  "free_memzones P c (xs @ ys) w =
     (case free_memzones P c xs w of
        (Inl e, w) \<Rightarrow> (Inl e, w) | (Inr _, w) \<Rightarrow> free_memzones P c ys w)"
  by (induction P c xs w rule: free_memzones.induct) (auto split: prod.splits sum.splits)

lemma destroy_DeviceMemory_ok:
  assumes "dm_ok P c (d, w)" "dm_books c w0 d w"
  obtains w' where "destroy_DeviceMemory P c d w = (OK, w')" "mz_ok P w'"
    "allocated_memzones w' = allocated_memzones w0"
    "bytes_allocated Rtememzone w' = bytes_allocated Rtememzone w0"
proof -
  have eq: "destroy_DeviceMemory P c d w = free_memzones P c (dm_all d) w"
    by (simp add: destroy_DeviceMemory_def dm_all_def free_memzones_append)
  from assms(1) have D: "mz_ok P w" "0 < compressed_seg_size c" "distinct (dm_all d)"
    "\<forall>p \<in> set (dm_all d). own_zone c w p" by (simp_all add: dm_ok_def)
  obtain w' where w': "free_memzones P c (dm_all d) w = (OK, w')" "mz_ok P w'"
    "\<And>a. allocated_memzones w' a =
       (if \<exists>z. Some z \<in> set (dm_all d) \<and> mz_addr z = a then None else allocated_memzones w a)"
    "bytes_allocated Rtememzone w' =
       bytes_allocated Rtememzone w - int (length (dm_all d)) * uint (compressed_seg_size c)"
    using free_memzones_ok [OF D] by blast
  have "allocated_memzones w' a = allocated_memzones w0 a" for a
  proof (cases "\<exists>z. Some z \<in> set (dm_all d) \<and> mz_addr z = a")
    case True
    then have "allocated_memzones w' a = None" unfolding w'(3) by (rule if_P)
    moreover have "allocated_memzones w0 a = None" using True assms(2) by (auto simp: dm_books_def)
    ultimately show ?thesis by simp
  next
    case False
    then have "allocated_memzones w' a = allocated_memzones w a" unfolding w'(3) by (rule if_not_P)
    moreover have "allocated_memzones w a = allocated_memzones w0 a"
      using False assms(2) unfolding dm_books_def by blast
    ultimately show ?thesis by simp
  qed
  then have "allocated_memzones w' = allocated_memzones w0" by blast
  moreover have "bytes_allocated Rtememzone w' = bytes_allocated Rtememzone w0"
    using assms(2) w'(4) by (simp add: dm_books_def)
  ultimately show ?thesis using that w'(1,2) eq by simp
qed

subsection \<open>Properties\<close>

lemma dm_start:
  assumes "mz_ok P w" "burst_size c \<noteq> 0" "0 < compressed_seg_size c"
  shows "dm_ok P c (new_DeviceMemory i, w)" "dm_books c w (new_DeviceMemory i) w"
  using assms by (simp_all add: dm_ok_def dm_books_def dm_all_def new_DeviceMemory_def)

lemma dm_Preallocate_ok:
  assumes "dm_Preallocate P c (new_DeviceMemory i) w0 = (r, d, w)"
    and "mz_ok P w0" "burst_size c \<noteq> 0" "0 < compressed_seg_size c"
  shows "dm_ok P c (d, w)" "dm_books c w0 d w" "occupied_memzones d = []"
    and "length (memzone_pool d) \<le> unat (max_preallocate_memzones c)"
    and "r = OK \<Longrightarrow> length (memzone_pool d) = unat (num_preallocated_memzones d)"
    and "is_ok r \<Longrightarrow> kMinPreallocateMemzones \<le> unat (max_preallocate_memzones c) \<Longrightarrow>
      kMinPreallocateMemzones \<le> length (memzone_pool d)"
    and "\<not> is_ok r \<Longrightarrow>
      int32_ok (uint (max_preallocate_memzones c) * uint (decompressed_seg_size c)) \<Longrightarrow>
      length (memzone_pool d) < kMinPreallocateMemzones \<and> (\<exists>m. r = Inl (Status OutOfMemory m))"
proof -
  obtain r1 d1 w1 where l: "preallocate_loop P c (new_DeviceMemory i) w0 = (r1, d1, w1)"
    by (cases "preallocate_loop P c (new_DeviceMemory i) w0")
  have "length (memzone_pool (new_DeviceMemory i)) \<le> unat (max_preallocate_memzones c)"
    by (simp add: new_DeviceMemory_def)
  note L = preallocate_loop_ok [OF l dm_start [OF assms(2-4)] this]
  have le: "length (memzone_pool d1) \<le> unat (max_preallocate_memzones c)" using L by blast
  then have small: "unat (word_of_nat (length (memzone_pool d1)) :: u16) = length (memzone_pool d1)"
    using unat_u16_less [of "max_preallocate_memzones c"]
    by (simp add: unat_of_nat take_bit_nat_eq_self)
  have all: "dm_all (d1\<lparr>num_preallocated_memzones := k\<rparr>) = dm_all d1" for k
    by (simp add: dm_all_def)
  have eq: "w = w1" "d = (if is_ok r1
      then d1\<lparr>num_preallocated_memzones := word_of_nat (length (memzone_pool d1))\<rparr> else d1)"
    using assms(1) l by (auto simp: dm_Preallocate_def Let_def split: sum.splits if_splits)
  show "dm_ok P c (d, w)" "dm_books c w0 d w"
    using L by (simp_all add: eq dm_ok_def dm_books_def all)
  show "occupied_memzones d = []" using L by (simp add: eq new_DeviceMemory_def)
  show "length (memzone_pool d) \<le> unat (max_preallocate_memzones c)" using le by (simp add: eq)
  have ok: "is_ok r \<Longrightarrow> is_ok r1"
    using assms(1) l by (auto simp: dm_Preallocate_def split: sum.splits)
  show "r = OK \<Longrightarrow> length (memzone_pool d) = unat (num_preallocated_memzones d)"
    using ok by (simp add: eq small)
  show "is_ok r \<Longrightarrow> kMinPreallocateMemzones \<le> unat (max_preallocate_memzones c) \<Longrightarrow>
      kMinPreallocateMemzones \<le> length (memzone_pool d)"
    using ok L by (auto simp: eq is_ok_iff)
  show "length (memzone_pool d) < kMinPreallocateMemzones \<and> (\<exists>m. r = Inl (Status OutOfMemory m))"
    if bad: "\<not> is_ok r"
      "int32_ok (uint (max_preallocate_memzones c) * uint (decompressed_seg_size c))"
  proof (cases r1)
    case (Inl e)
    then have "r = Inl e" using assms(1) l by (simp add: dm_Preallocate_def)
    then show ?thesis using L Inl by (simp add: eq)
  next
    case (Inr u)
    let ?n = "word_of_nat (length (memzone_pool d1)) :: u16"
    have "?n \<le> max_preallocate_memzones c" using small le by (simp add: word_le_nat_alt)
    then have "uint ?n * uint (decompressed_seg_size c) \<le>
        uint (max_preallocate_memzones c) * uint (decompressed_seg_size c)"
      by (intro mult_right_mono) (simp_all add: word_le_def)
    then have "int32_ok (uint ?n * uint (decompressed_seg_size c))"
      using bad(2) by (auto simp: int32_ok_def intro: order_trans [OF _ mult_nonneg_nonneg])
    then have "r = OK" using assms(1) l Inr by (simp add: dm_Preallocate_def Let_def)
    then show ?thesis using bad(1) by simp
  qed
qed


text \<open>
  C18. Whatever the queue pairs of a device do with a device memory that has been
  preallocated, taking zones and putting them back in any order, a zone is never out
  with two of them: the zones held are pairwise disjoint memory, large enough for a
  compressed segment, and none of them is in the pool of free ones.
\<close>

theorem memzones_exclusive:
  assumes "mz_ok P w0" "burst_size c \<noteq> 0" "0 < compressed_seg_size c"
    and "dm_Preallocate P c (new_DeviceMemory i) w0 = (r, d, w)"
    and "(source_step (dm_take P c) dm_put)\<^sup>*\<^sup>* (\<lambda>_. {}, d, w) (h, d', w')"
    and "z \<in> h j" "y \<in> h k"
  shows "(j \<noteq> k \<longrightarrow> z \<noteq> y) \<and> (z \<noteq> y \<longrightarrow> zone_bytes z \<inter> zone_bytes y = {}) \<and>
    unat (compressed_seg_size c) \<le> mz_len z \<and> tracker_Of (mz_addr z) w' = Some z \<and>
    Some z \<in> set (occupied_memzones d') \<and> Some z \<notin> set (memzone_pool d')"
proof -
  note A = dm_Preallocate_ok [OF assms(4,1-3)]
  have "exclusive (\<lambda>_. {}) (dm_held (d, w))"
    using A(3) by (simp add: exclusive_def dm_held_def)
  from dm_run [OF assms(5) A(1) this A(2)]
  have R: "dm_ok P c (d', w')" "exclusive h (dm_held (d', w'))" by blast+
  have zy: "z \<in> dm_held (d', w')" "y \<in> dm_held (d', w')"
    using R(2) assms(6,7) by (auto simp: exclusive_def)
  have "j \<noteq> k \<longrightarrow> z \<noteq> y" using R(2) assms(6,7) unfolding exclusive_def by blast
  moreover have "Some z \<in> set (occupied_memzones d')" using zy(1) by (simp add: dm_held_def)
  ultimately show ?thesis
    using dm_own_held [OF R(1) zy(1)] dm_held_apart [OF R(1) zy] by blast
qed

text \<open>
  C20. A device memory gives back all it reserved: whether \<open>Preallocate\<close> succeeds or fails,
  and whatever is taken and put back afterwards, zones still out with a queue pair
  included, its destructor returns without error, and then the tracker and the bytes
  reported by the pool are what they were before.
\<close>

theorem device_memory_gives_back:
  assumes "mz_ok P w0" "burst_size c \<noteq> 0" "0 < compressed_seg_size c"
    and "dm_Preallocate P c (new_DeviceMemory i) w0 = (r, d, w)"
    and "(source_step (dm_take P c) dm_put)\<^sup>*\<^sup>* (\<lambda>_. {}, d, w) (h, d', w')"
  shows "\<exists>w''. destroy_DeviceMemory P c d' w' = (OK, w'') \<and>
    allocated_memzones w'' = allocated_memzones w0 \<and>
    bytes_allocated Rtememzone w'' = bytes_allocated Rtememzone w0"
proof -
  note A = dm_Preallocate_ok [OF assms(4,1-3)]
  have "exclusive (\<lambda>_. {}) (dm_held (d, w))"
    using A(3) by (simp add: exclusive_def dm_held_def)
  from dm_run [OF assms(5) A(1) this A(2)]
  show ?thesis using destroy_DeviceMemory_ok by blast
qed

text \<open>
  C21. \<open>Put\<close> answers 1 exactly for the address of a zone that is taken, and then the next
  \<open>Take\<close> hands out that very zone; otherwise it answers 0 and changes nothing.
\<close>

theorem Put_then_Take:
  assumes "dm_ok P c (d, w)"
  shows "case Put a d w of (n, d', w') \<Rightarrow> w' = w \<and>
    (if \<exists>z. Some z \<in> set (occupied_memzones d) \<and> mz_addr z = a
     then n = 1 \<and> Some (the (tracker_Of a w)) \<notin> set (occupied_memzones d') \<and>
          fst (Take P c d' w) = Inr (tracker_Of a w)
     else n = 0 \<and> d' = d)"
proof (cases "\<exists>z. Some z \<in> set (occupied_memzones d) \<and> mz_addr z = a")
  case False
  then have "Put a d w = (0, d, w)" using Put_other [OF assms, of a] by (auto simp: dm_held_def)
  then show ?thesis using False by simp
next
  case True
  then obtain z where z: "z \<in> dm_held (d, w)" "mz_addr z = a" by (auto simp: dm_held_def)
  obtain d' where d': "Put (mz_addr z) d w = (1, d', w)" "dm_ok P c (d', w)"
    "\<And>w0. dm_books c w0 d w \<Longrightarrow> dm_books c w0 d' w" "dm_held (d', w) = dm_held (d, w) - {z}"
    "memzone_pool d' = Some z # memzone_pool d"
    by (rule Put_held [OF assms z(1)]) (rule that)
  have "fst (Take P c d' w) = Inr (Some z)" using Take_pool [OF d'(2,5)] by auto
  moreover have "tracker_Of a w = Some z" using dm_own_held(1) [OF assms z(1)] z(2) by simp
  moreover have "Some z \<notin> set (occupied_memzones d')" using d'(4) by (auto simp: dm_held_def)
  ultimately show ?thesis using True d'(1) z(2) by simp
qed

subsection \<open>Witnesses\<close>

definition sim_configuration :: configuration where
  "sim_configuration = (initial_configuration dpdk_default_config)
     \<lparr>compressed_seg_size := 4096, max_preallocate_memzones := 20\<rparr>"

lemma sim_configuration_sel [simp]:
  "burst_size sim_configuration = 32" "max_sgl_segs sim_configuration = 1"
  "decompressed_seg_size sim_configuration = 2048" "compressed_seg_size sim_configuration = 4096"
  "max_preallocate_memzones sim_configuration = 20"
  by (simp_all add: sim_configuration_def initial_configuration_def kDefaultSegSize_def)

text \<open>Libraries that reserve memzones as the stand-in does.\<close>

definition reserves_as_sim :: "('a sim_scheme, 'p) dpdk_memory_scheme \<Rightarrow> bool" where
  "reserves_as_sim P \<longleftrightarrow> NDEBUG P \<and> rte_memzone_reserve_aligned P = sim_reserve"

lemma reserves_as_sim_memory: "reserves_as_sim (sim_memory True)"
  by (simp add: reserves_as_sim_def sim_memory_def)

lemma sim_AllocateOne:
  assumes "reserves_as_sim P" "0 < sz"
  obtains p w' where "AllocateOne P sz w = (Inr p, w')"
proof -
  have "uint sz \<noteq> 0" "0 \<le> uint sz" "uint sz < 2 ^ 63"
    using assms(2) uint_u16 [of sz] by auto
  then have "\<exists>p w'. AllocateOne P sz w = (Inr p, w')"
    using assms(1)
    by (simp add: AllocateOne_def pool_Allocate_def memzone_AllocateAligned_def reserves_as_sim_def
        sim_reserve_def Let_def tracker_Emplace_def UpdateAllocatedBytes_def split: option.split)
  then show ?thesis using that by blast
qed

lemma sim_preallocate_loop:
  assumes "reserves_as_sim P" "0 < compressed_seg_size c" "max_preallocate_memzones c = 20"
  shows "\<exists>d' w'. preallocate_loop P c d w = (OK, d', w')"
proof (induction "20 - length (memzone_pool d)" arbitrary: d w)
  case 0
  then show ?case using assms(3) by (subst preallocate_loop.simps) simp
next
  case (Suc n)
  obtain p w' where a: "AllocateOne P (compressed_seg_size c) w = (Inr p, w')"
    by (rule sim_AllocateOne [OF assms(1,2)])
  have "\<exists>d' w''. preallocate_loop P c (d\<lparr>memzone_pool := p # memzone_pool d\<rparr>) w' = (OK, d', w'')"
    by (rule Suc.hyps(1)) (use Suc.hyps(2) in simp_all)
  then show ?case using a Suc.hyps(2) assms(3) by (subst preallocate_loop.simps) simp
qed

lemma sim_start_ok: "mz_ok (sim_memory nd) sim_start"
  by (rule mz_ok_start [OF sim_memzone_laws sim_memcpy_laws]) (simp add: sim_start_def)

lemma sim_dm_Preallocate:
  assumes "reserves_as_sim P" "mz_ok P w0"
    and c: "burst_size c \<noteq> 0" "0 < compressed_seg_size c" "max_preallocate_memzones c = 20"
  obtains d w where "dm_Preallocate P c (new_DeviceMemory i) w0 = (OK, d, w)"
proof -
  obtain r d w where p: "dm_Preallocate P c (new_DeviceMemory i) w0 = (r, d, w)"
    by (cases "dm_Preallocate P c (new_DeviceMemory i) w0")
  have "\<exists>d' w'. preallocate_loop P c (new_DeviceMemory i) w0 = (OK, d', w')"
    by (rule sim_preallocate_loop [OF assms(1) c(2,3)])
  moreover have "length (memzone_pool d) \<le> 20"
    using dm_Preallocate_ok(4) [OF p assms(2) c(1,2)] c(3) by simp
  moreover have "int32_ok (uint (word_of_nat n :: u16) * uint (decompressed_seg_size c))" if "n \<le> 20" for n
  proof -
    have n: "uint (word_of_nat n :: u16) = int n" using that by (simp add: unsigned_of_nat take_bit_nat_eq_self)
    have "int n * uint (decompressed_seg_size c) \<le> 20 * 65536"
      using that uint_bounded [of "decompressed_seg_size c"] by (intro mult_mono) simp_all
    moreover have "0 \<le> int n * uint (decompressed_seg_size c)" by (intro mult_nonneg_nonneg) simp_all
    moreover have "0 \<le> x \<Longrightarrow> x \<le> 20 * 65536 \<Longrightarrow> int32_ok x" for x by (simp add: int32_ok_def)
    ultimately show ?thesis unfolding n by blast
  qed
  ultimately have "r = OK" using p dm_Preallocate_ok(7) [OF p assms(2) c(1,2)] c(3)
    by (cases r) (auto simp: dm_Preallocate_def Let_def split: if_splits)
  then show ?thesis using that p by simp
qed

lemma sim_Preallocate:
  obtains d w where
    "dm_Preallocate (sim_memory True) sim_configuration (new_DeviceMemory 0) sim_start = (OK, d, w)"
  by (rule sim_dm_Preallocate [OF reserves_as_sim_memory sim_start_ok, of sim_configuration 0])
    simp_all


lemma sim_took:
  assumes "dm_Preallocate (sim_memory True) sim_configuration (new_DeviceMemory 0) sim_start = (OK, d, w)"
  shows "\<exists>z d'. (source_step (dm_take (sim_memory True) sim_configuration) dm_put)\<^sup>*\<^sup>*
     (\<lambda>_. {}, d, w) ((\<lambda>_. {})(7 := {z}), d', w)"
proof -
  have c: "burst_size sim_configuration \<noteq> 0" "0 < compressed_seg_size sim_configuration" by simp_all
  note A = dm_Preallocate_ok [OF assms sim_start_ok c]
  obtain p ps where ps: "memzone_pool d = p # ps"
    using A(6) by (cases "memzone_pool d") (simp_all add: kMinPreallocateMemzones_def)
  obtain z d' where "Take (sim_memory True) sim_configuration d w = (Inr (Some z), d', w)"
    using Take_pool [OF A(1) ps] by blast
  then have "source_step (dm_take (sim_memory True) sim_configuration) dm_put
      (\<lambda>_. {}, d, w) ((\<lambda>_. {})(7 := insert z {}), d', w)"
    by (intro source_step.took) (simp add: dm_take_def)
  then show ?thesis by blast
qed

theorem memzones_exclusive_witness:
  "\<exists>d w z d'.
     dm_Preallocate (sim_memory True) sim_configuration (new_DeviceMemory 0) sim_start = (OK, d, w) \<and>
     (source_step (dm_take (sim_memory True) sim_configuration) dm_put)\<^sup>*\<^sup>*
       (\<lambda>_. {}, d, w) ((\<lambda>_. {})(7 := {z}), d', w) \<and>
     4096 \<le> mz_len z \<and> Some z \<notin> set (memzone_pool d')"
proof -
  obtain d w where p:
    "dm_Preallocate (sim_memory True) sim_configuration (new_DeviceMemory 0) sim_start = (OK, d, w)"
    by (rule sim_Preallocate)
  obtain z d' where run: "(source_step (dm_take (sim_memory True) sim_configuration) dm_put)\<^sup>*\<^sup>*
      (\<lambda>_. {}, d, w) ((\<lambda>_. {})(7 := {z}), d', w)" using sim_took [OF p] by blast
  have "4096 \<le> mz_len z \<and> Some z \<notin> set (memzone_pool d')"
    using memzones_exclusive [OF sim_start_ok _ _ p run, of z 7 z 7] by simp
  then show ?thesis using p run by blast
qed

theorem device_memory_gives_back_witness:
  "\<exists>d w z d' w''.
     dm_Preallocate (sim_memory True) sim_configuration (new_DeviceMemory 0) sim_start = (OK, d, w) \<and>
     (source_step (dm_take (sim_memory True) sim_configuration) dm_put)\<^sup>*\<^sup>*
       (\<lambda>_. {}, d, w) ((\<lambda>_. {})(7 := {z}), d', w) \<and>
     destroy_DeviceMemory (sim_memory True) sim_configuration d' w = (OK, w'') \<and>
     bytes_allocated Rtememzone w'' = 0"
proof -
  obtain d w where p:
    "dm_Preallocate (sim_memory True) sim_configuration (new_DeviceMemory 0) sim_start = (OK, d, w)"
    by (rule sim_Preallocate)
  obtain z d' where run: "(source_step (dm_take (sim_memory True) sim_configuration) dm_put)\<^sup>*\<^sup>*
      (\<lambda>_. {}, d, w) ((\<lambda>_. {})(7 := {z}), d', w)" using sim_took [OF p] by blast
  obtain w'' where "destroy_DeviceMemory (sim_memory True) sim_configuration d' w = (OK, w'')"
    "bytes_allocated Rtememzone w'' = 0"
    using device_memory_gives_back [OF sim_start_ok _ _ p run]
    by (auto simp: sim_start_def bytes_allocated_def)
  then show ?thesis using p run by blast
qed

theorem Put_then_Take_witness:
  "\<exists>d w z d' d''.
     dm_Preallocate (sim_memory True) sim_configuration (new_DeviceMemory 0) sim_start = (OK, d, w) \<and>
     Take (sim_memory True) sim_configuration d w = (Inr (Some z), d', w) \<and>
     Put (mz_addr z) d' w = (1, d'', w)"
proof -
  obtain d w where p:
    "dm_Preallocate (sim_memory True) sim_configuration (new_DeviceMemory 0) sim_start = (OK, d, w)"
    by (rule sim_Preallocate)
  have c: "burst_size sim_configuration \<noteq> 0" "0 < compressed_seg_size sim_configuration" by simp_all
  note A = dm_Preallocate_ok [OF p sim_start_ok c]
  obtain q ps where ps: "memzone_pool d = q # ps"
    using A(6) by (cases "memzone_pool d") (simp_all add: kMinPreallocateMemzones_def)
  obtain z d' where t: "Take (sim_memory True) sim_configuration d w = (Inr (Some z), d', w)"
    "Some z \<in> set (occupied_memzones d')"
    using Take_pool [OF A(1) ps] by auto
  obtain n d'' w' where u: "Put (mz_addr z) d' w = (n, d'', w')"
    by (cases "Put (mz_addr z) d' w")
  have "\<exists>y. Some y \<in> set (occupied_memzones d') \<and> mz_addr y = mz_addr z" using t(2) by blast
  then have "n = 1 \<and> w' = w"
    using Put_then_Take [OF Take_ok(1) [OF A(1) t(1)], of "mz_addr z"]
    unfolding u prod.case by (simp only: if_True)
  then show ?thesis using p t(1) u by blast
qed

end
