(* ===== verification/Bitar_Util.thy ===== *)
theory Bitar_Util
  imports Bitar_Config
begin

text \<open>
  \<open>src/include/util.h\<close> and \<open>src/util.cc\<close>: reading a file, the search for the next enabled
  lcore, and the encoding of Arrow status codes as negative integers that the memory layer
  and its macros use. The table of lcores and the file system belong to DPDK's EAL and
  to the operating system; they are parameters.
\<close>

subsection \<open>The lcores of the process\<close>

record lcore_env =
  rte_lcore_is_enabled :: "u32 \<Rightarrow> bool"
  rte_get_main_lcore :: u32
  rte_lcore_count :: u32

definition skipped_lcore :: "lcore_env \<Rightarrow> int \<Rightarrow> u32 \<Rightarrow> bool" where
  "skipped_lcore env skip_main i \<longleftrightarrow>
     \<not> rte_lcore_is_enabled env i \<or> skip_main \<noteq> 0 \<and> i = rte_get_main_lcore env"

text \<open>The loop of \<open>GetNextLcore\<close>; \<open>None\<close> is the loop that never ends.\<close>

partial_function (option) next_lcore_loop ::
  "rte_config \<Rightarrow> lcore_env \<Rightarrow> int \<Rightarrow> int \<Rightarrow> u32 \<Rightarrow> u32 option" where
  "next_lcore_loop rc env skip_main wrap start_id =
     (if unat start_id < RTE_MAX_LCORE rc then
        (if skipped_lcore env skip_main start_id then
           next_lcore_loop rc env skip_main wrap
             (if wrap \<noteq> 0 then (start_id + 1) mod word_of_nat (RTE_MAX_LCORE rc)
              else start_id + 1)
         else Some start_id)
      else Some start_id)"

declare next_lcore_loop.simps [code]

definition GetNextLcore ::
  "rte_config \<Rightarrow> lcore_env \<Rightarrow> u32 \<Rightarrow> int \<Rightarrow> int \<Rightarrow> u32 option" where
  "GetNextLcore rc env start_id skip_main wrap =
     next_lcore_loop rc env skip_main wrap
       (if wrap \<noteq> 0 then start_id mod word_of_nat (RTE_MAX_LCORE rc) else start_id)"

subsection \<open>Files\<close>

text \<open>
  What \<open>std::ifstream\<close> finds under a path: \<open>None\<close> when the stream cannot be opened, else
  the characters up to the end of the file.
\<close>

type_synonym files = "string \<Rightarrow> string option"

definition ReadFileContent :: "files \<Rightarrow> string \<Rightarrow> string result" where
  "ReadFileContent fs path =
     (case fs path of
        None \<Rightarrow> Inl (Status IOError (''Unable to open file of path '' @ path))
      | Some content \<Rightarrow> Inr content)"

subsection \<open>Status codes as integers\<close>

text \<open>
  The memory layer returns the integer of an \<open>arrow::StatusCode\<close>, negated. Which integer
  Arrow gives to a code is not part of the repository: the two conversions are
  parameters. The code relies on Arrow's documentation that \<open>OK\<close> is 0 and that the codes
  are distinct and not negative.
\<close>

record status_encoding =
  StatusCode_int :: "status_code \<Rightarrow> int"
  StatusCode_of :: "int \<Rightarrow> status_code"

definition status_encoding_laws :: "status_encoding \<Rightarrow> bool" where
  "status_encoding_laws e \<longleftrightarrow>
     (\<forall>c. StatusCode_of e (StatusCode_int e c) = c) \<and> StatusCode_int e SC_OK = 0 \<and>
     (\<forall>c. 0 \<le> StatusCode_int e c)"

text \<open>
  \<open>ARROW_RETURN_NEGATIVE_NOT_STATUS_OK\<close>: the integer an assembler returns early for a
  status code that is not \<open>OK\<close>; \<open>ARROW_ASSIGN_OR_RAISE_NEGATIVE_ELSE\<close>: the assignment
  of a non-negative integer, or the status made of a negative one.
\<close>

definition RETURN_NEGATIVE_NOT_STATUS_OK :: "status_encoding \<Rightarrow> status_code \<Rightarrow> int option" where
  "RETURN_NEGATIVE_NOT_STATUS_OK e code =
     (if code \<noteq> SC_OK then Some (- StatusCode_int e code) else None)"

definition ASSIGN_OR_RAISE_NEGATIVE :: "status_encoding \<Rightarrow> int \<Rightarrow> string \<Rightarrow> int result" where
  "ASSIGN_OR_RAISE_NEGATIVE e rexpr msg =
     (let lhs = rexpr in
      if lhs < 0 then Inl (Status (StatusCode_of e (- lhs)) msg) else Inr lhs)"

definition RETURN_NOT_STATUS_OK :: "status_code \<Rightarrow> string \<Rightarrow> error option" where
  "RETURN_NOT_STATUS_OK code msg = (if code \<noteq> SC_OK then Some (Status code msg) else None)"

lemma StatusCode_int_pos:
  assumes "status_encoding_laws e" "c \<noteq> SC_OK"
  shows "0 < StatusCode_int e c"
proof -
  have "StatusCode_int e c \<noteq> StatusCode_int e SC_OK"
    using assms unfolding status_encoding_laws_def by metis
  then show ?thesis
    using assms(1) unfolding status_encoding_laws_def by (metis order_le_less)
qed

subsection \<open>The search for the next lcore\<close>

lemma next_lcore_loop_here:
  "\<not> skipped_lcore env skip_main i \<Longrightarrow> next_lcore_loop rc env skip_main wrap i = Some i"
  by (subst next_lcore_loop.simps) simp

lemma next_lcore_loop_end:
  "RTE_MAX_LCORE rc \<le> unat i \<Longrightarrow> next_lcore_loop rc env skip_main wrap i = Some i"
  by (subst next_lcore_loop.simps) simp

lemma unat_Suc_u32: "unat (i :: u32) < n \<Longrightarrow> n < 2 ^ 32 \<Longrightarrow> unat (i + 1) = Suc (unat i)"
  by (simp add: unat_word_ariths)

text \<open>Without wrapping, the search walks up to the first lcore that is not skipped.\<close>

lemma next_lcore_loop_up:
  assumes "RTE_MAX_LCORE rc < 2 ^ 32"
  shows "\<exists>r. next_lcore_loop rc env skip_main 0 i = Some r \<and> i \<le> r \<and>
     (\<forall>j. i \<le> j \<and> j < r \<longrightarrow> unat j < RTE_MAX_LCORE rc \<and> skipped_lcore env skip_main j) \<and>
     (unat r < RTE_MAX_LCORE rc \<longrightarrow> \<not> skipped_lcore env skip_main r)"
proof (induction "RTE_MAX_LCORE rc - unat i" arbitrary: i)
  case 0
  then show ?case by (auto simp: next_lcore_loop_end)
next
  case (Suc n)
  show ?case
  proof (cases "skipped_lcore env skip_main i")
    case False
    then show ?thesis by (auto simp: next_lcore_loop_here)
  next
    case True
    have lt: "unat i < RTE_MAX_LCORE rc" using Suc.hyps(2) by linarith
    then have up: "unat (i + 1) = Suc (unat i)" using assms by (rule unat_Suc_u32)
    then have above: "\<And>j. i \<le> j \<longleftrightarrow> j = i \<or> i + 1 \<le> j"
      by (auto simp: word_le_nat_alt word_unat_eq_iff)
    have eq: "next_lcore_loop rc env skip_main 0 i = next_lcore_loop rc env skip_main 0 (i + 1)"
      using True lt by (subst next_lcore_loop.simps) simp
    have "n = RTE_MAX_LCORE rc - unat (i + 1)" using Suc.hyps(2) up by simp
    from Suc.hyps(1) [OF this] show ?thesis
      using True lt unfolding eq above by (metis order.refl)
  qed
qed

text \<open>With wrapping, the search goes round the table; what it returns is not skipped.\<close>

abbreviation round_lcore :: "rte_config \<Rightarrow> u32 \<Rightarrow> nat \<Rightarrow> u32" where
  "round_lcore rc i d \<equiv> word_of_nat ((unat i + d) mod RTE_MAX_LCORE rc)"

lemma unat_round_lcore:
  assumes "0 < RTE_MAX_LCORE rc" "RTE_MAX_LCORE rc < 2 ^ 32"
  shows "unat (round_lcore rc i d) = (unat i + d) mod RTE_MAX_LCORE rc"
proof -
  have "(unat i + d) mod RTE_MAX_LCORE rc < 2 ^ 32"
    using mod_less_divisor [OF assms(1), of "unat i + d"] assms(2) by simp
  then show ?thesis by (simp add: unat_of_nat take_bit_nat_eq_self del: mod_less_divisor)
qed

lemma round_lcore_less:
  assumes "0 < RTE_MAX_LCORE rc" "RTE_MAX_LCORE rc < 2 ^ 32"
  shows "unat (round_lcore rc i d) < RTE_MAX_LCORE rc"
  unfolding unat_round_lcore [OF assms] using assms(1) by (rule mod_less_divisor)

lemma mod_lcore:
  assumes "RTE_MAX_LCORE rc < 2 ^ 32"
  shows "i mod word_of_nat (RTE_MAX_LCORE rc) = round_lcore rc i 0"
proof -
  have "unat (word_of_nat (RTE_MAX_LCORE rc) :: u32) = RTE_MAX_LCORE rc"
    using assms by (simp add: unat_of_nat take_bit_nat_eq_self)
  then have "unat (i mod word_of_nat (RTE_MAX_LCORE rc)) = unat i mod RTE_MAX_LCORE rc"
    by (simp add: unat_mod_distrib)
  then show ?thesis using of_nat_unat [of "i mod word_of_nat (RTE_MAX_LCORE rc)", where 'a = "32 word"] by (simp add: word_unat_eq_iff unat_of_nat)
qed

lemma next_lcore_loop_round:
  assumes M: "0 < RTE_MAX_LCORE rc" "RTE_MAX_LCORE rc < 2 ^ 32" and "wrap \<noteq> 0"
    and "\<forall>k<d. skipped_lcore env skip_main (round_lcore rc i k)"
  shows "next_lcore_loop rc env skip_main wrap (round_lcore rc i 0) =
    next_lcore_loop rc env skip_main wrap (round_lcore rc i d)"
  using assms(4)
proof (induction d)
  case (Suc d)
  let ?j = "round_lcore rc i d"
  have lt: "unat ?j < RTE_MAX_LCORE rc" by (rule round_lcore_less [OF M])
  have "(?j + 1) mod word_of_nat (RTE_MAX_LCORE rc) = round_lcore rc i (Suc d)"
    using unat_Suc_u32 [OF lt M(2)] unat_round_lcore [OF M, of i d]
    by (simp add: mod_lcore [OF M(2)] mod_Suc_eq)
  then have "next_lcore_loop rc env skip_main wrap ?j =
    next_lcore_loop rc env skip_main wrap (round_lcore rc i (Suc d))"
    using Suc.prems lt assms(3)
    by (subst next_lcore_loop.simps) simp
  then show ?case using Suc by simp
qed simp

text \<open>The first lcore that is not skipped going round the table, at distance \<open>d\<close>.\<close>

definition first_round ::
  "rte_config \<Rightarrow> lcore_env \<Rightarrow> int \<Rightarrow> u32 \<Rightarrow> nat \<Rightarrow> u32 \<Rightarrow> bool" where
  "first_round rc env skip_main i d r \<longleftrightarrow>
     r = round_lcore rc i d \<and> \<not> skipped_lcore env skip_main r \<and>
     (\<forall>k<d. skipped_lcore env skip_main (round_lcore rc i k))"

lemma round_lcore_step:
  assumes "0 < RTE_MAX_LCORE rc" "RTE_MAX_LCORE rc < 2 ^ 32" "unat i < RTE_MAX_LCORE rc"
  shows "round_lcore rc (round_lcore rc (i + 1) 0) d = round_lcore rc i (Suc d)"
  using unat_round_lcore [OF assms(1,2), of "i + 1" 0] unat_Suc_u32 [OF assms(3,2)]
  by (simp add: mod_add_left_eq)

lemma first_round_step:
  assumes "0 < RTE_MAX_LCORE rc" "RTE_MAX_LCORE rc < 2 ^ 32" "unat i < RTE_MAX_LCORE rc"
    and "skipped_lcore env skip_main i"
    and "first_round rc env skip_main (round_lcore rc (i + 1) 0) d r"
  shows "first_round rc env skip_main i (Suc d) r"
proof -
  have "skipped_lcore env skip_main (round_lcore rc i k)" if "k < Suc d" for k
    using that assms(4,5) round_lcore_step [OF assms(1-3)]
    by (cases k) (simp_all add: first_round_def assms(3))
  then show ?thesis
    using assms(5) round_lcore_step [OF assms(1-3)] unfolding first_round_def by metis
qed

lemma next_lcore_loop_returns:
  assumes "next_lcore_loop rc env skip_main wrap i = Some r"
    and "0 < RTE_MAX_LCORE rc" "RTE_MAX_LCORE rc < 2 ^ 32" "wrap \<noteq> 0" "unat i < RTE_MAX_LCORE rc"
  shows "\<exists>d. first_round rc env skip_main i d r"
proof -
  have "0 < RTE_MAX_LCORE rc \<longrightarrow> RTE_MAX_LCORE rc < 2 ^ 32 \<longrightarrow> wrap \<noteq> 0 \<longrightarrow>
    unat i < RTE_MAX_LCORE rc \<longrightarrow> (\<exists>d. first_round rc env skip_main i d r)"
    using assms(1)
  proof (rule next_lcore_loop.raw_induct [rotated], intro impI)
    fix loop and rc :: rte_config and env skip_main and wrap :: int and i r
    assume IH: "\<And>rc env skip_main wrap i r. loop rc env skip_main wrap i = Some r \<Longrightarrow>
        0 < RTE_MAX_LCORE rc \<longrightarrow> RTE_MAX_LCORE rc < 2 ^ 32 \<longrightarrow> wrap \<noteq> 0 \<longrightarrow>
        unat i < RTE_MAX_LCORE rc \<longrightarrow> (\<exists>d. first_round rc env skip_main i d r)"
      and M: "0 < RTE_MAX_LCORE rc" "RTE_MAX_LCORE rc < 2 ^ 32"
      and wrap: "wrap \<noteq> 0" and i: "unat i < RTE_MAX_LCORE rc"
      and body: "(if unat i < RTE_MAX_LCORE rc then
          (if skipped_lcore env skip_main i then
             loop rc env skip_main wrap
               (if wrap \<noteq> 0 then (i + 1) mod word_of_nat (RTE_MAX_LCORE rc) else i + 1)
           else Some i)
        else Some i) = Some r"
    show "\<exists>d. first_round rc env skip_main i d r"
    proof (cases "skipped_lcore env skip_main i")
      case True
      have "unat (round_lcore rc (i + 1) 0) < RTE_MAX_LCORE rc"
        by (rule round_lcore_less [OF M])
      moreover have "loop rc env skip_main wrap (round_lcore rc (i + 1) 0) = Some r"
        using body i wrap True mod_lcore [OF M(2), of "i + 1"] by simp
      ultimately obtain d where "first_round rc env skip_main (round_lcore rc (i + 1) 0) d r"
        using IH M wrap by blast
      then show ?thesis using first_round_step [OF M i True] by blast
    next
      case False
      then show ?thesis using body i
        by (intro exI [of _ 0]) (simp add: first_round_def)
    qed
  qed
  then show ?thesis using assms(2-5) by blast
qed

text \<open>
  C22. Without wrapping, \<open>GetNextLcore\<close> returns: the first lcore from \<open>start_id\<close> on that is
  enabled (and not the main lcore, when that is to be skipped), or the first value that
  is no lcore any more when there is none.
\<close>

theorem GetNextLcore_first:
  assumes "RTE_MAX_LCORE rc < 2 ^ 32"
  shows "GetNextLcore rc env start_id skip_main 0 = Some r \<longleftrightarrow>
     start_id \<le> r \<and> (unat r < RTE_MAX_LCORE rc \<longrightarrow> \<not> skipped_lcore env skip_main r) \<and>
     (\<forall>j. start_id \<le> j \<and> j < r \<longrightarrow>
        unat j < RTE_MAX_LCORE rc \<and> skipped_lcore env skip_main j)"
    (is "?g = _ \<longleftrightarrow> ?ok r")
proof -
  obtain q where q: "?g = Some q" "?ok q"
    using next_lcore_loop_up [OF assms, of env skip_main start_id]
    by (auto simp: GetNextLcore_def)
  have "\<not> a < b" if "?ok a" "?ok b" for a b using that by blast
  then have "r = q" if "?ok r" using that q(2) by (metis linorder_neqE)
  then show ?thesis using q by (metis option.inject)
qed

theorem GetNextLcore_first_witness:
  "GetNextLcore dpdk_default_config
     \<lparr>rte_lcore_is_enabled = (\<lambda>i. i \<in> {0, 2, 5}), rte_get_main_lcore = 0, rte_lcore_count = 3\<rparr>
     1 1 0 = Some 2"
proof -
  have "j = 1" if "1 \<le> j" "j < 2" for j :: u32
  proof -
    have "unat j = 1" using that by (simp add: word_le_nat_alt word_less_nat_alt)
    then show ?thesis by (simp add: word_unat_eq_iff)
  qed
  then have one: "1 \<le> j \<and> j < 2 \<longleftrightarrow> j = 1" for j :: u32 by auto
  show ?thesis
    by (intro GetNextLcore_first [THEN iffD2])
       (simp_all add: dpdk_default_config_def skipped_lcore_def one)
qed

text \<open>
  C23. With wrapping, \<open>GetNextLcore\<close> returns exactly when some lcore of the table is eligible,
  and then it is the first one met going round the table from \<open>start_id\<close>; when none is,
  the search never ends.
\<close>

theorem GetNextLcore_wraps:
  assumes "0 < RTE_MAX_LCORE rc" "RTE_MAX_LCORE rc < 2 ^ 32" "wrap \<noteq> 0"
  shows "GetNextLcore rc env start_id skip_main wrap = Some r \<longleftrightarrow>
     (\<exists>d. r = word_of_nat ((unat start_id + d) mod RTE_MAX_LCORE rc) \<and>
          \<not> skipped_lcore env skip_main r \<and>
          (\<forall>k<d. skipped_lcore env skip_main
             (word_of_nat ((unat start_id + k) mod RTE_MAX_LCORE rc))))"
    (is "?g = _ \<longleftrightarrow> (\<exists>d. ?first d r)")
proof -
  have lt: "unat (round_lcore rc start_id 0) < RTE_MAX_LCORE rc"
    by (rule round_lcore_less [OF assms(1,2)])
  have start: "?g = next_lcore_loop rc env skip_main wrap (round_lcore rc start_id 0)"
    using assms(3) by (simp add: GetNextLcore_def mod_lcore [OF assms(2)])
  have same: "round_lcore rc (round_lcore rc start_id 0) d = round_lcore rc start_id d" for d
    using unat_round_lcore [OF assms(1,2), of start_id 0] by (simp add: mod_add_left_eq)
  have "\<exists>d. first_round rc env skip_main (round_lcore rc start_id 0) d r" if "?g = Some r"
    using next_lcore_loop_returns [OF _ assms lt] that start by simp
  moreover have "?g = Some r" if "?first d r" for d
    using that start next_lcore_loop_round [OF assms, of d env skip_main start_id]
      next_lcore_loop_here [of env skip_main r rc wrap] by metis
  ultimately show ?thesis unfolding first_round_def same by blast
qed

theorem GetNextLcore_wraps_witness:
  "GetNextLcore dpdk_default_config
     \<lparr>rte_lcore_is_enabled = (\<lambda>i. i \<in> {0, 2, 5}), rte_get_main_lcore = 0, rte_lcore_count = 3\<rparr>
     127 1 1 = Some 2"
proof -
  have "{..<3::nat} = {0, 1, 2}" by auto
  then have "(\<forall>k<3. P k) \<longleftrightarrow> P 0 \<and> P 1 \<and> P 2" for P :: "nat \<Rightarrow> bool"
    by (metis (full_types) insert_iff lessThan_iff empty_iff)
  then show ?thesis
    by (intro GetNextLcore_wraps [THEN iffD2] exI [of _ 3])
       (simp_all add: dpdk_default_config_def skipped_lcore_def)
qed

text \<open>
  C24. An early return of a status code from the memory layer as a negative integer is
  turned back by the caller into a status of the same code, and \<open>OK\<close> is the only code
  that does not return early.
\<close>

theorem status_code_roundtrip:
  assumes "status_encoding_laws e"
  shows "case RETURN_NEGATIVE_NOT_STATUS_OK e code of
      None \<Rightarrow> code = SC_OK
    | Some i \<Rightarrow> code \<noteq> SC_OK \<and> ASSIGN_OR_RAISE_NEGATIVE e i msg = Inl (Status code msg)"
proof (cases "code = SC_OK")
  case False
  then show ?thesis using StatusCode_int_pos [OF assms False] assms
    by (simp add: RETURN_NEGATIVE_NOT_STATUS_OK_def ASSIGN_OR_RAISE_NEGATIVE_def
        status_encoding_laws_def)
qed (simp add: RETURN_NEGATIVE_NOT_STATUS_OK_def)

text \<open>An encoding with the documented behaviour.\<close>

fun sim_StatusCode_int :: "status_code \<Rightarrow> int" where
  "sim_StatusCode_int SC_OK = 0"
| "sim_StatusCode_int OutOfMemory = 1"
| "sim_StatusCode_int Invalid = 2"
| "sim_StatusCode_int IOError = 3"
| "sim_StatusCode_int CapacityError = 4"
| "sim_StatusCode_int Cancelled = 5"
| "sim_StatusCode_int UnknownError = 6"
| "sim_StatusCode_int NotImplemented = 7"

definition sim_StatusCode_of :: "int \<Rightarrow> status_code" where
  "sim_StatusCode_of i =
     [SC_OK, OutOfMemory, Invalid, IOError, CapacityError, Cancelled, UnknownError, NotImplemented]
       ! nat i"

definition sim_status_encoding :: status_encoding where
  "sim_status_encoding =
     \<lparr>StatusCode_int = sim_StatusCode_int, StatusCode_of = sim_StatusCode_of\<rparr>"

lemma sim_status_encoding_laws: "status_encoding_laws sim_status_encoding"
proof -
  have "sim_StatusCode_of (sim_StatusCode_int c) = c \<and> 0 \<le> sim_StatusCode_int c" for c
    by (cases c) (simp_all add: sim_StatusCode_of_def)
  then show ?thesis by (simp add: status_encoding_laws_def sim_status_encoding_def)
qed

theorem status_code_roundtrip_witness:
  "ASSIGN_OR_RAISE_NEGATIVE sim_status_encoding (- 4) ''chain'' =
     Inl (Status CapacityError ''chain'')"
  using status_code_roundtrip [OF sim_status_encoding_laws, of CapacityError "''chain''"]
  by (simp add: RETURN_NEGATIVE_NOT_STATUS_OK_def sim_status_encoding_def)

end
