(* ===== verification/Bitar_Compressdev.thy ===== *)
theory Bitar_Compressdev
  imports Bitar_Dpdk Bitar_Util
begin

text \<open>
  The part of DPDK below the queue pairs and the device: packet buffers (mbufs),
  compression operations, memory pools and the compressdev API. As in \<open>Bitar_Dpdk\<close>, every
  function is a field of the parameter record, and what its documentation promises is a
  predicate on that record. A pointer that may be null is an \<open>option\<close>.
\<close>

subsection \<open>The functions the code calls\<close>

record rte_compressdev_stats =
  enqueue_err_count :: u64
  dequeue_err_count :: u64

record rte_param_log2_range =
  range_min :: u8
  range_max :: u8
  range_increment :: u8

record rte_compressdev_capability =
  ff_oop_sgl_in_sgl_out :: bool
  ff_huffman_fixed :: bool
  ff_huffman_dynamic :: bool
  cap_window_size :: rte_param_log2_range

record 'w dpdk = "'w dpdk_memory" +
  status_codes :: status_encoding
  rte_mem_virt2iova :: "addr \<Rightarrow> addr"
  rte_pktmbuf_chain :: "mbuf_ptr \<Rightarrow> mbuf_ptr \<Rightarrow> 'w machine \<Rightarrow> int \<times> 'w machine"
  rte_pktmbuf_attach_extbuf ::
    "mbuf_ptr \<Rightarrow> addr \<Rightarrow> addr \<Rightarrow> u16 \<Rightarrow> shinfo_ptr \<Rightarrow> 'w machine \<Rightarrow> 'w machine"
  rte_mbuf_ext_refcnt_update :: "shinfo_ptr \<Rightarrow> int \<Rightarrow> 'w machine \<Rightarrow> 'w machine"
  rte_mbuf_ext_refcnt_set :: "shinfo_ptr \<Rightarrow> int \<Rightarrow> 'w machine \<Rightarrow> 'w machine"
  rte_pktmbuf_append :: "mbuf_ptr \<Rightarrow> u16 \<Rightarrow> 'w machine \<Rightarrow> addr option \<times> 'w machine"
  rte_pktmbuf_free :: "mbuf_ptr option \<Rightarrow> 'w machine \<Rightarrow> 'w machine"
  rte_pktmbuf_free_seg :: "mbuf_ptr \<Rightarrow> 'w machine \<Rightarrow> 'w machine"
  rte_pktmbuf_alloc_bulk :: "pool_ptr \<Rightarrow> nat \<Rightarrow> 'w machine \<Rightarrow> mbuf_ptr list option \<times> 'w machine"
    \<comment> \<open>the mbufs written to the caller's array, or \<open>None\<close> for a negative return value\<close>
  rte_comp_op_bulk_alloc :: "pool_ptr \<Rightarrow> nat \<Rightarrow> 'w machine \<Rightarrow> op_ptr list option \<times> 'w machine"
    \<comment> \<open>the operations written to the caller's array, or \<open>None\<close> for the return value 0\<close>
  rte_comp_op_free :: "op_ptr \<Rightarrow> 'w machine \<Rightarrow> 'w machine"
  rte_pktmbuf_pool_create :: "u32 \<Rightarrow> u32 \<Rightarrow> int \<Rightarrow> 'w machine \<Rightarrow> pool_ptr option \<times> 'w machine"
    \<comment> \<open>number of mbufs, cache size, socket; the name is the device and queue pair number\<close>
  rte_comp_op_pool_create :: "u32 \<Rightarrow> u32 \<Rightarrow> int \<Rightarrow> 'w machine \<Rightarrow> pool_ptr option \<times> 'w machine"
  rte_zmalloc_socket :: "nat \<Rightarrow> int \<Rightarrow> 'w machine \<Rightarrow> addr option \<times> 'w machine"
  sizeof_shared_info :: nat
    \<comment> \<open>the size of \<open>rte_mbuf_ext_shared_info\<close>\<close>
  rte_compressdev_private_xform_create ::
    "u8 \<Rightarrow> rte_comp_xform \<Rightarrow> 'w machine \<Rightarrow> (int \<times> xform_ptr option) \<times> 'w machine"
  rte_compressdev_socket_id :: "u8 \<Rightarrow> int"
  rte_compressdev_max_nb_queue_pairs :: "u8 \<Rightarrow> u16"
    \<comment> \<open>the field of \<open>rte_compressdev_info_get\<close>\<close>
  rte_compressdev_capability_get :: "u8 \<Rightarrow> rte_compressdev_capability option"
    \<comment> \<open>for \<open>RTE_COMP_ALGO_DEFLATE\<close>\<close>
  rte_compressdev_configure :: "u8 \<Rightarrow> int \<Rightarrow> u16 \<Rightarrow> 'w machine \<Rightarrow> int \<times> 'w machine"
  rte_compressdev_queue_pair_setup :: "u8 \<Rightarrow> u16 \<Rightarrow> nat \<Rightarrow> int \<Rightarrow> 'w machine \<Rightarrow> int \<times> 'w machine"
  rte_compressdev_start :: "u8 \<Rightarrow> 'w machine \<Rightarrow> int \<times> 'w machine"
  rte_compressdev_stop :: "u8 \<Rightarrow> 'w machine \<Rightarrow> 'w machine"
  rte_compressdev_close :: "u8 \<Rightarrow> 'w machine \<Rightarrow> 'w machine"
  rte_compressdev_stats_get :: "u8 \<Rightarrow> 'w machine \<Rightarrow> rte_compressdev_stats"
  rte_compressdev_enqueue_burst ::
    "u8 \<Rightarrow> u16 \<Rightarrow> op_ptr option list \<Rightarrow> 'w machine \<Rightarrow> u16 \<times> 'w machine"
  rte_compressdev_dequeue_burst ::
    "u8 \<Rightarrow> u16 \<Rightarrow> u16 \<Rightarrow> 'w machine \<Rightarrow> op_ptr list \<times> 'w machine"
    \<comment> \<open>the operations written to the caller's array; their number is the return value\<close>
  live_mbufs :: "'w \<Rightarrow> mbuf_ptr set"
    \<comment> \<open>not read by the code: the mbufs allocated from the pools\<close>
  live_ops :: "'w \<Rightarrow> op_ptr set"
    \<comment> \<open>not read by the code: the operations allocated from the pools\<close>
  inflight :: "'w \<Rightarrow> u8 \<Rightarrow> u16 \<Rightarrow> op_ptr list"
    \<comment> \<open>not read by the code: the operations a queue pair holds, oldest first\<close>
  xforms :: "'w \<Rightarrow> xform_ptr \<Rightarrow> rte_comp_xform option"
    \<comment> \<open>not read by the code: the transforms private transforms were made from\<close>
  codec :: "rte_comp_xform \<Rightarrow> u8 list \<Rightarrow> u8 list"
    \<comment> \<open>not read by the code: what the device makes of the bytes it is given\<close>

subsection \<open>What stays the same\<close>

text \<open>
  Two machines between which DPDK's documentation promises no change of what is
  reserved, allocated or enqueued; with the exceptions named.
\<close>

definition same_memory :: "('w, 'p) dpdk_scheme \<Rightarrow> 'w machine \<Rightarrow> 'w machine \<Rightarrow> bool" where
  "same_memory P m m' \<longleftrightarrow>
     bytes m' = bytes m \<and> live_zones P (hidden m') = live_zones P (hidden m) \<and>
     live_mallocs P (hidden m') = live_mallocs P (hidden m) \<and>
     xforms P (hidden m') = xforms P (hidden m)"

definition same_objects :: "('w, 'p) dpdk_scheme \<Rightarrow> 'w machine \<Rightarrow> 'w machine \<Rightarrow> bool" where
  "same_objects P m m' \<longleftrightarrow> same_memory P m m' \<and>
     live_mbufs P (hidden m') = live_mbufs P (hidden m) \<and>
     live_ops P (hidden m') = live_ops P (hidden m) \<and>
     inflight P (hidden m') = inflight P (hidden m)"

text \<open>The segments of a chain of mbufs.\<close>

fun chained :: "'w machine \<Rightarrow> mbuf_ptr option \<Rightarrow> mbuf_ptr list \<Rightarrow> bool" where
  "chained m p [] \<longleftrightarrow> p = None"
| "chained m p (b # bs) \<longleftrightarrow> p = Some b \<and> chained m (next_seg (mbufs m b)) bs"

lemma chained_unique: "chained m p bs \<Longrightarrow> chained m p bs' \<Longrightarrow> bs = bs'"
  by (induction bs arbitrary: p bs') (case_tac bs'; auto)+

lemma chained_cong:
  "(\<And>b. b \<in> set bs \<Longrightarrow> next_seg (mbufs m' b) = next_seg (mbufs m b)) \<Longrightarrow>
   chained m' p bs = chained m p bs"
  by (induction bs arbitrary: p) auto

subsection \<open>What the documentation promises\<close>

text \<open>
  Allocation in bulk gives distinct objects that were free, reset to their initial
  state, or gives nothing; freeing gives back the segment, the chain or the operation.
\<close>

definition fresh_mbuf :: "mbuf \<Rightarrow> bool" where
  "fresh_mbuf b \<longleftrightarrow> next_seg b = None \<and> data_len b = 0 \<and> pkt_len b = 0"

definition fresh_op :: "comp_op \<Rightarrow> bool" where
  "fresh_op j \<longleftrightarrow> m_src j = None \<and> m_dst j = None"

definition alloc_laws :: "('w, 'p) dpdk_scheme \<Rightarrow> bool" where
  "alloc_laws P \<longleftrightarrow>
     (\<forall>pool n m bs m'. rte_pktmbuf_alloc_bulk P pool n m = (Some bs, m') \<longrightarrow>
        length bs = n \<and> distinct bs \<and> set bs \<inter> live_mbufs P (hidden m) = {} \<and>
        live_mbufs P (hidden m') = live_mbufs P (hidden m) \<union> set bs \<and>
        (\<forall>b \<in> set bs. fresh_mbuf (mbufs m' b)) \<and>
        (\<forall>b. b \<notin> set bs \<longrightarrow> mbufs m' b = mbufs m b) \<and>
        ops m' = ops m \<and> live_ops P (hidden m') = live_ops P (hidden m) \<and>
        inflight P (hidden m') = inflight P (hidden m) \<and> same_memory P m m') \<and>
     (\<forall>pool n m m'. rte_pktmbuf_alloc_bulk P pool n m = (None, m') \<longrightarrow>
        mbufs m' = mbufs m \<and> ops m' = ops m \<and> same_objects P m m') \<and>
     (\<forall>pool n m js m'. rte_comp_op_bulk_alloc P pool n m = (Some js, m') \<longrightarrow>
        length js = n \<and> distinct js \<and> set js \<inter> live_ops P (hidden m) = {} \<and>
        live_ops P (hidden m') = live_ops P (hidden m) \<union> set js \<and>
        (\<forall>j \<in> set js. fresh_op (ops m' j)) \<and>
        (\<forall>j. j \<notin> set js \<longrightarrow> ops m' j = ops m j) \<and>
        mbufs m' = mbufs m \<and> live_mbufs P (hidden m') = live_mbufs P (hidden m) \<and>
        inflight P (hidden m') = inflight P (hidden m) \<and> same_memory P m m') \<and>
     (\<forall>pool n m m'. rte_comp_op_bulk_alloc P pool n m = (None, m') \<longrightarrow>
        mbufs m' = mbufs m \<and> ops m' = ops m \<and> same_objects P m m')"

definition free_laws :: "('w, 'p) dpdk_scheme \<Rightarrow> bool" where
  "free_laws P \<longleftrightarrow>
     (\<forall>b m. let m' = rte_pktmbuf_free_seg P b m in
        live_mbufs P (hidden m') = live_mbufs P (hidden m) - {b} \<and>
        (\<forall>a. a \<noteq> b \<longrightarrow> mbufs m' a = mbufs m a) \<and> ops m' = ops m \<and>
        live_ops P (hidden m') = live_ops P (hidden m) \<and>
        inflight P (hidden m') = inflight P (hidden m) \<and> same_memory P m m') \<and>
     (\<forall>p bs m. chained m p bs \<longrightarrow> (let m' = rte_pktmbuf_free P p m in
        live_mbufs P (hidden m') = live_mbufs P (hidden m) - set bs \<and>
        (\<forall>a. a \<notin> set bs \<longrightarrow> mbufs m' a = mbufs m a) \<and> ops m' = ops m \<and>
        live_ops P (hidden m') = live_ops P (hidden m) \<and>
        inflight P (hidden m') = inflight P (hidden m) \<and> same_memory P m m')) \<and>
     (\<forall>j m. let m' = rte_comp_op_free P j m in
        live_ops P (hidden m') = live_ops P (hidden m) - {j} \<and>
        (\<forall>i. i \<noteq> j \<longrightarrow> ops m' i = ops m i) \<and> mbufs m' = mbufs m \<and>
        live_mbufs P (hidden m') = live_mbufs P (hidden m) \<and>
        inflight P (hidden m') = inflight P (hidden m) \<and> same_memory P m m')"

text \<open>
  Attaching an external buffer makes the mbuf an empty one over that buffer; appending
  to an mbuf of one segment takes room at its end, if there is enough; chaining puts one
  chain behind the other and adds up the packet lengths, or fails and does nothing.
\<close>

definition mbuf_laws :: "('w, 'p) dpdk_scheme \<Rightarrow> bool" where
  "mbuf_laws P \<longleftrightarrow>
     (\<forall>b a iova len sh m. let m' = rte_pktmbuf_attach_extbuf P b a iova len sh m in
        mbufs m' = (mbufs m)(b := (mbufs m b)\<lparr>buf_addr := a, buf_len := unat len, data_off := 0,
          data_len := 0, shinfo := Some sh\<rparr>) \<and> ops m' = ops m \<and> same_objects P m m') \<and>
     (\<forall>sh k m. let m' = rte_mbuf_ext_refcnt_update P sh k m in
        mbufs m' = mbufs m \<and> ops m' = ops m \<and> same_objects P m m') \<and>
     (\<forall>b len m p m'. next_seg (mbufs m b) = None \<longrightarrow> rte_pktmbuf_append P b len m = (p, m') \<longrightarrow>
        ops m' = ops m \<and> same_objects P m m' \<and>
        (if data_off (mbufs m b) + data_len (mbufs m b) + unat len \<le> buf_len (mbufs m b)
         then p \<noteq> None \<and> mbufs m' = (mbufs m)(b := (mbufs m b)
                \<lparr>data_len := data_len (mbufs m b) + unat len,
                 pkt_len := pkt_len (mbufs m b) + unat len\<rparr>)
         else p = None \<and> mbufs m' = mbufs m)) \<and>
     (\<forall>h bs t ts m r m'. chained m (Some h) bs \<longrightarrow> chained m (Some t) ts \<longrightarrow>
        distinct (bs @ ts) \<longrightarrow> rte_pktmbuf_chain P h t m = (r, m') \<longrightarrow>
        ops m' = ops m \<and> same_objects P m m' \<and>
        (if r = 0
         then (let ms = (mbufs m)(last bs := (mbufs m (last bs))\<lparr>next_seg := Some t\<rparr>);
                   ms = ms(h := (ms h)\<lparr>pkt_len := pkt_len (ms h) + pkt_len (ms t)\<rparr>);
                   ms = ms(t := (ms t)\<lparr>pkt_len := data_len (ms t)\<rparr>)
               in mbufs m' = ms)
         else mbufs m' = mbufs m))"

text \<open>Reserving and freeing memzones does not touch the pools, the queue pairs or the transforms.\<close>

definition same_queues :: "('w, 'p) dpdk_scheme \<Rightarrow> 'w machine \<Rightarrow> 'w machine \<Rightarrow> bool" where
  "same_queues P m m' \<longleftrightarrow>
     live_mbufs P (hidden m') = live_mbufs P (hidden m) \<and>
     live_ops P (hidden m') = live_ops P (hidden m) \<and>
     inflight P (hidden m') = inflight P (hidden m) \<and>
     xforms P (hidden m') = xforms P (hidden m)"

definition zone_frame_laws :: "('w, 'p) dpdk_scheme \<Rightarrow> bool" where
  "zone_frame_laws P \<longleftrightarrow>
     (\<forall>n al m. same_queues P m (snd (rte_memzone_reserve_aligned P n al m))) \<and>
     (\<forall>z m. same_queues P m (rte_memzone_free P z m))"

subsection \<open>A queue pair of the device\<close>

text \<open>
  A queue pair takes a prefix of the operations it is offered and gives them back in the
  order it took them, as the device of the MLX5 driver does. It writes nothing but
  the output areas of the operations it holds, their status and the number of bytes
  produced. The output of a successful stateless operation over one source and one
  destination mbuf is the transform of its input, when the areas do not overlap.
\<close>

definition mem_bytes :: "'w machine \<Rightarrow> addr \<Rightarrow> nat \<Rightarrow> u8 list" where
  "mem_bytes m a n = map (\<lambda>i. bytes m (a + i)) [0..<n]"

definition mbuf_bytes :: "'w machine \<Rightarrow> mbuf_ptr option \<Rightarrow> addr set" where
  "mbuf_bytes m p = (case p of None \<Rightarrow> {}
     | Some b \<Rightarrow> {buf_addr (mbufs m b) + data_off (mbufs m b) ..<
                 buf_addr (mbufs m b) + data_off (mbufs m b) + data_len (mbufs m b)})"

definition src_area :: "'w machine \<Rightarrow> op_ptr \<Rightarrow> addr set" where
  "src_area m j = mbuf_bytes m (m_src (ops m j))"

definition dst_area :: "'w machine \<Rightarrow> op_ptr \<Rightarrow> addr set" where
  "dst_area m j = mbuf_bytes m (m_dst (ops m j))"

definition dst_bytes :: "'w machine \<Rightarrow> op_ptr list \<Rightarrow> addr set" where
  "dst_bytes m js = (\<Union>j \<in> set js. dst_area m j)"

text \<open>No operation writes where another one reads or writes, or where it reads itself.\<close>

definition apart :: "'w machine \<Rightarrow> op_ptr list \<Rightarrow> bool" where
  "apart m js \<longleftrightarrow> (\<forall>i \<in> set js. \<forall>j \<in> set js. src_area m i \<inter> dst_area m j = {} \<and>
     (i \<noteq> j \<longrightarrow> dst_area m i \<inter> dst_area m j = {}))"

definition set_inflight ::
  "op_ptr list \<Rightarrow> u8 \<Rightarrow> u16 \<Rightarrow> (u8 \<Rightarrow> u16 \<Rightarrow> op_ptr list) \<Rightarrow> u8 \<Rightarrow> u16 \<Rightarrow> op_ptr list" where
  "set_inflight js dev_id qp_id f = f(dev_id := (f dev_id)(qp_id := js))"

definition burst_frame ::
  "('w, 'p) dpdk_scheme \<Rightarrow> op_ptr list \<Rightarrow> 'w machine \<Rightarrow> 'w machine \<Rightarrow> bool" where
  "burst_frame P held m m' \<longleftrightarrow>
     mbufs m' = mbufs m \<and> (\<forall>a. a \<notin> dst_bytes m held \<longrightarrow> bytes m' a = bytes m a) \<and>
     live_zones P (hidden m') = live_zones P (hidden m) \<and>
     live_mallocs P (hidden m') = live_mallocs P (hidden m) \<and>
     live_mbufs P (hidden m') = live_mbufs P (hidden m) \<and>
     live_ops P (hidden m') = live_ops P (hidden m) \<and>
     xforms P (hidden m') = xforms P (hidden m)"

text \<open>An operation the device has processed, with the bytes it read and wrote in \<open>m\<close>.\<close>

definition processed :: "('w, 'p) dpdk_scheme \<Rightarrow> 'w machine \<Rightarrow> op_ptr \<Rightarrow> bool" where
  "processed P m j \<longleftrightarrow>
     (\<forall>b d x xf. m_src (ops m j) = Some b \<longrightarrow> m_dst (ops m j) = Some d \<longrightarrow>
        next_seg (mbufs m b) = None \<longrightarrow> next_seg (mbufs m d) = None \<longrightarrow>
        src_offset (ops m j) = 0 \<longrightarrow> dst_offset (ops m j) = 0 \<longrightarrow>
        src_length (ops m j) \<le> data_len (mbufs m b) \<longrightarrow>
        flush_flag (ops m j) = RTE_COMP_FLUSH_FINAL \<longrightarrow> private_xform (ops m j) = Some x \<longrightarrow>
        xforms P (hidden m) x = Some xf \<longrightarrow> op_status (ops m j) = RTE_COMP_OP_STATUS_SUCCESS \<longrightarrow>
        produced (ops m j) \<le> data_len (mbufs m d) \<and>
        mem_bytes m (buf_addr (mbufs m d) + data_off (mbufs m d)) (produced (ops m j)) =
          codec P xf (mem_bytes m (buf_addr (mbufs m b) + data_off (mbufs m b)) (src_length (ops m j))))"

definition burst_laws :: "('w, 'p) dpdk_scheme \<Rightarrow> bool" where
  "burst_laws P \<longleftrightarrow>
     (\<forall>dev_id qp_id js m n m'.
        rte_compressdev_enqueue_burst P dev_id qp_id (map Some js) m = (n, m') \<longrightarrow>
        (let held = inflight P (hidden m) dev_id qp_id @ take (unat n) js in
         unat n \<le> length js \<and> ops m' = ops m \<and> burst_frame P held m m' \<and>
         inflight P (hidden m') = set_inflight held dev_id qp_id (inflight P (hidden m)))) \<and>
     (\<forall>dev_id qp_id n m js m'.
        rte_compressdev_dequeue_burst P dev_id qp_id n m = (js, m') \<longrightarrow>
        (let held = inflight P (hidden m) dev_id qp_id in
         length js \<le> unat n \<and> burst_frame P held m m' \<and>
         held = js @ drop (length js) held \<and>
         inflight P (hidden m') = set_inflight (drop (length js) held) dev_id qp_id (inflight P (hidden m)) \<and>
         (\<forall>j. j \<notin> set js \<longrightarrow> ops m' j = ops m j) \<and>
         (\<forall>j \<in> set js. \<exists>st k. ops m' j = (ops m j)\<lparr>op_status := st, produced := k\<rparr>) \<and>
         (distinct held \<longrightarrow> apart m held \<longrightarrow> (\<forall>j \<in> set js. processed P m' j))))"

text \<open>
  The same operation when the device makes no error: it succeeds whenever there is room for
  its output. A device is faultless if it processes all operations like that, counts no errors
  and its pools have always room. No law of the library: some properties say what holds in
  addition on such a device.
\<close>

definition succeeded :: "('w, 'p) dpdk_scheme \<Rightarrow> 'w machine \<Rightarrow> op_ptr \<Rightarrow> bool" where
  "succeeded P m j \<longleftrightarrow>
     (\<forall>b d x xf. m_src (ops m j) = Some b \<longrightarrow> m_dst (ops m j) = Some d \<longrightarrow>
        next_seg (mbufs m b) = None \<longrightarrow> next_seg (mbufs m d) = None \<longrightarrow>
        src_offset (ops m j) = 0 \<longrightarrow> dst_offset (ops m j) = 0 \<longrightarrow>
        src_length (ops m j) \<le> data_len (mbufs m b) \<longrightarrow>
        flush_flag (ops m j) = RTE_COMP_FLUSH_FINAL \<longrightarrow> private_xform (ops m j) = Some x \<longrightarrow>
        xforms P (hidden m) x = Some xf \<longrightarrow>
        length (codec P xf (mem_bytes m (buf_addr (mbufs m b) + data_off (mbufs m b)) (src_length (ops m j))))
          \<le> data_len (mbufs m d) \<longrightarrow>
        op_status (ops m j) = RTE_COMP_OP_STATUS_SUCCESS)"

definition faultless :: "('w, 'p) dpdk_scheme \<Rightarrow> bool" where
  "faultless P \<longleftrightarrow>
     (\<forall>pool n m. fst (rte_comp_op_bulk_alloc P pool n m) \<noteq> None) \<and>
     (\<forall>pool n m. fst (rte_pktmbuf_alloc_bulk P pool n m) \<noteq> None) \<and>
     (\<forall>dev_id m. enqueue_err_count (rte_compressdev_stats_get P dev_id m) = 0 \<and>
        dequeue_err_count (rte_compressdev_stats_get P dev_id m) = 0) \<and>
     (\<forall>dev_id qp_id n m js m'.
        rte_compressdev_dequeue_burst P dev_id qp_id n m = (js, m') \<longrightarrow>
        distinct (inflight P (hidden m) dev_id qp_id) \<longrightarrow> apart m (inflight P (hidden m) dev_id qp_id) \<longrightarrow>
        (\<forall>j \<in> set js. succeeded P m' j))"

text \<open>
  The transforms a configuration gives to the driver are inverse to each other, and
  nothing is compressed to nothing.
\<close>

definition codec_laws :: "('w, 'p) dpdk_scheme \<Rightarrow> configuration \<Rightarrow> bool" where
  "codec_laws P c \<longleftrightarrow>
     (\<forall>xs. codec P (decompress_xform c) (codec P (compress_xform c) xs) = xs) \<and>
     (\<forall>xs. xs \<noteq> [] \<longrightarrow> codec P (compress_xform c) xs \<noteq> [])"

end
