(* ===== verification/Bitar_QP_Memory.thy ===== *)
theory Bitar_QP_Memory
  imports Bitar_Device_Memory Bitar_Compressdev
begin

text \<open>
  Class \<open>QueuePairMemory\<close> of \<open>src/include/memory.h\<close> and \<open>src/memory.cc\<close>: the pools and
  arrays of a queue pair, the assembly of bursts of operations from input buffers, and
  their release. The arrays \<open>operations_\<close> and \<open>mbufs_\<close> are lists of pointers, reads and
  writes outside of them faults; pointers that may be null are options.
\<close>

subsection \<open>State\<close>

definition kMaxInflightOps :: nat where "kMaxInflightOps = 512"
definition kCacheSizeAmplifier :: nat where "kCacheSizeAmplifier = 2"
definition kMaxInflightMbufs :: nat where "kMaxInflightMbufs = kMaxInflightOps * 16"

record queue_pair_memory =
  qm_device_id :: u8
  qm_queue_pair_id :: u16
  num_ops_assembled :: u16
  pending_operations :: "op_ptr option list"
  mbuf_pool :: "pool_ptr option"
  operation_pool :: "pool_ptr option"
  operations :: "op_ptr option list option"
  mbuf_array :: "mbuf_ptr option list option"
  shared_info_decompressed_mbuf :: "shinfo_ptr option"
  shared_info_compressed_mbuf :: "shinfo_ptr option"
  private_xform_compress :: "xform_ptr option"
  private_xform_decompress :: "xform_ptr option"

definition new_QueuePairMemory :: "u8 \<Rightarrow> u16 \<Rightarrow> queue_pair_memory" where
  "new_QueuePairMemory device_id queue_pair_id =
     \<lparr>qm_device_id = device_id, qm_queue_pair_id = queue_pair_id, num_ops_assembled = 0,
      pending_operations = [], mbuf_pool = None, operation_pool = None, operations = None,
      mbuf_array = None, shared_info_decompressed_mbuf = None,
      shared_info_compressed_mbuf = None, private_xform_compress = None,
      private_xform_decompress = None\<rparr>"

text \<open>An Arrow buffer: its address, its size and, for a resizable one, its capacity.\<close>

record buffer =
  buf_data :: addr
  buf_size :: nat
  buf_capacity :: nat

text \<open>
  What the operations of a queue pair work on: its own members, the memory of its device,
  the process, the reference parameters \<open>offset\<close> and \<open>index\<close> of \<open>AssembleFrom\<close>, and the
  local variables of \<open>Compress\<close> and \<open>Decompress\<close> that collect the output.
\<close>

record 'w qp_state =
  qp :: queue_pair_memory
  dmem :: device_memory
  wld :: "'w world"
  offset :: nat
  index :: nat
  compressed_buffers :: "buffer list"
  decompressed_buffer_size :: int

definition upd_qp :: "(queue_pair_memory \<Rightarrow> queue_pair_memory) \<Rightarrow> ('w qp_state, unit) code" where
  "upd_qp f = modify (\<lambda>s. s\<lparr>qp := f (qp s)\<rparr>)"

definition on_mach :: "('w machine \<Rightarrow> 'a \<times> 'w machine) \<Rightarrow> ('w qp_state, 'a) code" where
  "on_mach f = (\<lambda>s. case f (mach (wld s)) of (x, m) \<Rightarrow> (Inr x, s\<lparr>wld := (wld s)\<lparr>mach := m\<rparr>\<rparr>))"

definition do_mach :: "('w machine \<Rightarrow> 'w machine) \<Rightarrow> ('w qp_state, unit) code" where
  "do_mach f = modify (\<lambda>s. s\<lparr>wld := (wld s)\<lparr>mach := f (mach (wld s))\<rparr>\<rparr>)"

text \<open>
  \<open>ARROW_RETURN_NEGATIVE_NOT_STATUS_OK\<close>: inside an assembler an early return carries the
  status code; \<open>negative_codes\<close> makes it the negative integer the assembler returns.
\<close>

definition not_ok_returns :: "status_code \<Rightarrow> ('s, unit) code" where
  "not_ok_returns code = (if code = SC_OK then return () else throw (Status code ''''))"

definition negative_codes :: "status_encoding \<Rightarrow> ('s, int) code \<Rightarrow> ('s, int) code" where
  "negative_codes e f = (\<lambda>s. case f s of
     (Inl (Status code _), s) \<Rightarrow>
       (case RETURN_NEGATIVE_NOT_STATUS_OK e code of Some i \<Rightarrow> (Inr i, s) | None \<Rightarrow> (Inr 0, s))
   | (r, s) \<Rightarrow> (r, s))"

subsection \<open>AppendData and UpdateOperation\<close>

datatype op_field = M_SRC | M_DST

fun mbuf_of :: "op_field \<Rightarrow> comp_op \<Rightarrow> mbuf_ptr option" where
  "mbuf_of M_SRC j = m_src j"
| "mbuf_of M_DST j = m_dst j"

fun set_mbuf_of :: "op_field \<Rightarrow> mbuf_ptr \<Rightarrow> comp_op \<Rightarrow> comp_op" where
  "set_mbuf_of M_SRC b j = j\<lparr>m_src := Some b\<rparr>"
| "set_mbuf_of M_DST b j = j\<lparr>m_dst := Some b\<rparr>"

text \<open>The second half of \<open>AppendData\<close>, after \<open>tail\<close> has been linked.\<close>

definition attach_and_append ::
  "('w, 'p) dpdk_scheme \<Rightarrow> mbuf_ptr \<Rightarrow> addr \<Rightarrow> addr \<Rightarrow> u16 \<Rightarrow> shinfo_ptr \<Rightarrow> 'w machine \<Rightarrow>
   status_code \<times> 'w machine" where
  "attach_and_append P tail ad iova len sh m =
     (let m = rte_pktmbuf_attach_extbuf P tail ad iova len sh m;
          m = rte_mbuf_ext_refcnt_update P sh 1 m
      in case rte_pktmbuf_append P tail len m of
           (None, m) \<Rightarrow> (CapacityError, m)
         | (Some _, m) \<Rightarrow> (SC_OK, m))"

definition AppendData ::
  "('w, 'p) dpdk_scheme \<Rightarrow> op_field \<Rightarrow> op_ptr \<Rightarrow> mbuf_ptr \<Rightarrow> addr \<Rightarrow> addr \<Rightarrow> u16 \<Rightarrow> shinfo_ptr \<Rightarrow>
   'w machine \<Rightarrow> status_code \<times> 'w machine" where
  "AppendData P fld j tail ad iova len sh m =
     (case mbuf_of fld (ops m j) of
        None \<Rightarrow>
          attach_and_append P tail ad iova len sh
            (m\<lparr>ops := (ops m)(j := set_mbuf_of fld tail (ops m j))\<rparr>)
      | Some head \<Rightarrow>
          (case rte_pktmbuf_chain P head tail m of
             (r, m) \<Rightarrow>
               if r \<noteq> 0 then (CapacityError, m)
               else attach_and_append P tail ad iova len sh
                      (m\<lparr>mbufs := (mbufs m)(head := (mbufs m head)
                           \<lparr>pkt_len := pkt_len (mbufs m head) + unat len\<rparr>)\<rparr>)))"

definition UpdateOperation :: "op_ptr \<Rightarrow> xform_ptr option \<Rightarrow> 'w machine \<Rightarrow> unit result \<times> 'w machine" where
  "UpdateOperation j xform m =
     (case m_src (ops m j) of
        None \<Rightarrow> (Inl (Fault NullDereference), m)
      | Some b \<Rightarrow>
          (OK, m\<lparr>ops := (ops m)(j := (ops m j)
             \<lparr>src_offset := 0, src_length := pkt_len (mbufs m b), dst_offset := 0,
              flush_flag := RTE_COMP_FLUSH_FINAL, input_chksum := buf_addr (mbufs m b),
              private_xform := xform\<rparr>)\<rparr>))"

subsection \<open>Preallocate\<close>

text \<open>The numbers of objects \<open>Preallocate\<close> asks for, in 32-bit arithmetic as in the code.\<close>

definition num_mbufs_in_burst :: "configuration \<Rightarrow> u32" where
  "num_mbufs_in_burst c = ucast (burst_size c) * ucast (max_sgl_segs c) * 2"

definition mbuf_pool_cache_size :: "rte_config \<Rightarrow> configuration \<Rightarrow> u32" where
  "mbuf_pool_cache_size rc c =
     min (num_mbufs_in_burst c * word_of_nat kCacheSizeAmplifier)
         (word_of_nat (RTE_MEMPOOL_CACHE_MAX_SIZE rc))"

definition num_inflight_mbufs :: "configuration \<Rightarrow> u32" where
  "num_inflight_mbufs c =
     min (num_mbufs_in_burst c * word_of_nat kMaxInflightOps) (word_of_nat kMaxInflightMbufs)"

definition num_mbufs_in_pool :: "rte_config \<Rightarrow> configuration \<Rightarrow> u32" where
  "num_mbufs_in_pool rc c =
     num_inflight_mbufs c + mbuf_pool_cache_size rc c + num_mbufs_in_burst c"

definition operation_pool_cache_size :: "rte_config \<Rightarrow> configuration \<Rightarrow> u32" where
  "operation_pool_cache_size rc c =
     word_of_nat (min (unat (burst_size c) * kCacheSizeAmplifier) (RTE_MEMPOOL_CACHE_MAX_SIZE rc))"

definition num_ops_in_pool :: "rte_config \<Rightarrow> configuration \<Rightarrow> u32" where
  "num_ops_in_pool rc c =
     (num_mbufs_in_pool rc c div 2 + ucast (max_sgl_segs c) - 1) div ucast (max_sgl_segs c)"

text \<open>One of the unique pointers: a null result of the allocation returns \<open>Invalid\<close>.\<close>

definition non_null :: "string \<Rightarrow> 'a option \<Rightarrow> ('s, unit) code" where
  "non_null msg p = (case p of None \<Rightarrow> throw (Status Invalid msg) | Some _ \<Rightarrow> return ())"

definition alloc_shared_info ::
  "('w, 'p) dpdk_scheme \<Rightarrow> int \<Rightarrow> string \<Rightarrow>
   (shinfo_ptr option \<Rightarrow> queue_pair_memory \<Rightarrow> queue_pair_memory) \<Rightarrow> ('w qp_state, unit) code" where
  "alloc_shared_info P socket msg set_member =
     seq (on_mach (rte_zmalloc_socket P (sizeof_shared_info P) socket)) (\<lambda>p.
     seq (upd_qp (set_member p)) (\<lambda>_.
     seq (non_null msg p) (\<lambda>_.
     do_mach (rte_mbuf_ext_refcnt_set P (the p) 0))))"

definition create_private_xform ::
  "('w, 'p) dpdk_scheme \<Rightarrow> rte_comp_xform \<Rightarrow> string \<Rightarrow>
   (xform_ptr option \<Rightarrow> queue_pair_memory \<Rightarrow> queue_pair_memory) \<Rightarrow> ('w qp_state, unit) code" where
  "create_private_xform P xform msg set_member =
     seq (get (\<lambda>s. qm_device_id (qp s))) (\<lambda>device_id.
     seq (on_mach (rte_compressdev_private_xform_create P device_id xform)) (\<lambda>(ret, p).
       if ret < 0 then throw (Status Invalid msg) else upd_qp (set_member p)))"

definition qp_Preallocate ::
  "('w, 'p) dpdk_scheme \<Rightarrow> rte_config \<Rightarrow> configuration \<Rightarrow> ('w qp_state, unit) code" where
  "qp_Preallocate P rc c =
     seq (get (\<lambda>s. rte_compressdev_socket_id P (qm_device_id (qp s)))) (\<lambda>socket.
     if socket < 0 then throw (Status Invalid ''Unable to detect compress device '')
     else
     seq (guard (int32_ok (uint (burst_size c) * uint (max_sgl_segs c)) \<and>
                 int32_ok (uint (burst_size c) * uint (max_sgl_segs c) * 2)) SignedOverflow) (\<lambda>_.
     seq (on_mach (rte_pktmbuf_pool_create P (num_mbufs_in_pool rc c)
                     (mbuf_pool_cache_size rc c) socket)) (\<lambda>p.
     seq (upd_qp (mbuf_pool_update (\<lambda>_. p))) (\<lambda>_.
     seq (non_null ''Unable to allocate mbuf pool: '' p) (\<lambda>_.
     seq (guard (max_sgl_segs c \<noteq> 0) DivisionByZero) (\<lambda>_.
     seq (on_mach (rte_comp_op_pool_create P (num_ops_in_pool rc c)
                     (operation_pool_cache_size rc c) socket)) (\<lambda>p.
     seq (upd_qp (operation_pool_update (\<lambda>_. p))) (\<lambda>_.
     seq (non_null ''Unable to allocate operation pool: '' p) (\<lambda>_.
     let num_operations = unat (ucast (burst_size c) + num_ops_in_pool rc c) in
     seq (on_mach (rte_zmalloc_socket P (num_operations * 8) socket)) (\<lambda>p.
     seq (upd_qp (operations_update (\<lambda>_. map_option (\<lambda>_. replicate num_operations None) p))) (\<lambda>_.
     seq (non_null ''Unable to allocate memory for holding pointers to compression operations'' p) (\<lambda>_.
     let num_mbufs = unat (num_mbufs_in_burst c) in
     seq (on_mach (rte_zmalloc_socket P (num_mbufs * 8) socket)) (\<lambda>p.
     seq (upd_qp (mbuf_array_update (\<lambda>_. map_option (\<lambda>_. replicate num_mbufs None) p))) (\<lambda>_.
     seq (non_null ''Unable to allocate memory for holding pointers to mbufs'' p) (\<lambda>_.
     seq (alloc_shared_info P socket
            ''Unable to allocate memory for the shared_info used by decompressed mbufs''
            (\<lambda>p. shared_info_decompressed_mbuf_update (\<lambda>_. p))) (\<lambda>_.
     seq (alloc_shared_info P socket
            ''Unable to allocate memory for the shared_info used by compressed mbufs''
            (\<lambda>p. shared_info_compressed_mbuf_update (\<lambda>_. p))) (\<lambda>_.
     seq (create_private_xform P (compress_xform c)
            ''Private xform could not be created for compression operations.''
            (\<lambda>p. private_xform_compress_update (\<lambda>_. p))) (\<lambda>_.
     create_private_xform P (decompress_xform c)
            ''Private xform could not be created for decompression operations.''
            (\<lambda>p. private_xform_decompress_update (\<lambda>_. p))))))))))))))))))))"

subsection \<open>BulkAllocate\<close>

definition BulkAllocate ::
  "('w, 'p) dpdk_scheme \<Rightarrow> u16 \<Rightarrow> u32 \<Rightarrow> ('w qp_state, status_code) code" where
  "BulkAllocate P num_ops num_mbufs =
     seq (get qp) (\<lambda>q.
     seq (deref (operation_pool q)) (\<lambda>op_pool.
     seq (deref (operations q)) (\<lambda>os.
     seq (guard (unat (num_ops_assembled q) + unat num_ops \<le> length os) OutOfBounds) (\<lambda>_.
     seq (on_mach (rte_comp_op_bulk_alloc P op_pool (unat num_ops))) (\<lambda>js.
     case js of None \<Rightarrow> return OutOfMemory
     | Some js \<Rightarrow>
         seq (upd_qp (operations_update
                (\<lambda>_. Some (overwrite os (unat (num_ops_assembled q)) (map Some js))))) (\<lambda>_.
         seq (deref (mbuf_pool q)) (\<lambda>mb_pool.
         seq (deref (mbuf_array q)) (\<lambda>bs.
         seq (guard (unat num_mbufs \<le> length bs) OutOfBounds) (\<lambda>_.
         seq (on_mach (rte_pktmbuf_alloc_bulk P mb_pool (unat num_mbufs))) (\<lambda>ms.
         case ms of None \<Rightarrow> return OutOfMemory
         | Some ms \<Rightarrow>
             seq (upd_qp (mbuf_array_update (\<lambda>_. Some (overwrite bs 0 (map Some ms))))) (\<lambda>_.
             return SC_OK)))))))))))"

subsection \<open>Assembling a burst\<close>

text \<open>Reading \<open>operations_[i]\<close> and \<open>mbufs_[i]\<close>.\<close>

definition operation_at :: "nat \<Rightarrow> ('w qp_state, op_ptr option) code" where
  "operation_at i =
     seq (get (\<lambda>s. operations (qp s))) (\<lambda>os. seq (deref os) (\<lambda>os. array_at os i))"

definition mbuf_at :: "nat \<Rightarrow> ('w qp_state, mbuf_ptr option) code" where
  "mbuf_at i =
     seq (get (\<lambda>s. mbuf_array (qp s))) (\<lambda>bs. seq (deref bs) (\<lambda>bs. array_at bs i))"

definition push_pending :: "op_ptr option \<Rightarrow> ('w qp_state, unit) code" where
  "push_pending j = upd_qp (\<lambda>q. q\<lparr>pending_operations := pending_operations q @ [j]\<rparr>)"

text \<open>\<open>AppendData\<close> as the assemblers call it, with the early return.\<close>

definition append_to ::
  "('w, 'p) dpdk_scheme \<Rightarrow> op_field \<Rightarrow> op_ptr option \<Rightarrow> nat \<Rightarrow> addr \<Rightarrow> addr \<Rightarrow> u16 \<Rightarrow>
   shinfo_ptr option \<Rightarrow> ('w qp_state, unit) code" where
  "append_to P fld j mbuf_id ad iova len sh =
     seq (deref j) (\<lambda>j.
     seq (mbuf_at mbuf_id) (\<lambda>b.
     seq (deref b) (\<lambda>b.
     seq (deref sh) (\<lambda>sh.
     seq (on_mach (AppendData P fld j b ad iova len sh)) not_ok_returns))))"

text \<open>
  The loop over the source mbufs of compression: \<open>left\<close> of the \<open>n\<close> mbufs remain, \<open>k\<close> is
  \<open>num_ops_assembled_with_mbufs\<close>, \<open>j\<close> is \<open>current_op\<close>, the input is \<open>sz\<close> bytes at \<open>data\<close>.
\<close>

fun compress_src_loop ::
  "('w, 'p) dpdk_scheme \<Rightarrow> configuration \<Rightarrow> addr \<Rightarrow> nat \<Rightarrow> nat \<Rightarrow> nat \<Rightarrow> u16 \<Rightarrow> op_ptr option \<Rightarrow>
   ('w qp_state, unit) code" where
  "compress_src_loop P c data sz n 0 k j = return ()"
| "compress_src_loop P c data sz n (Suc left) k j =
     (let mbuf_id = n - Suc left in
      seq (get offset) (\<lambda>off.
      seq (guard (off \<le> sz) OutOfBounds) (\<lambda>_.
      let buf_len = min (unat (decompressed_seg_size c)) (sz - off) in
      seq (get (\<lambda>s. shared_info_decompressed_mbuf (qp s))) (\<lambda>sh.
      seq (append_to P M_SRC j mbuf_id (data + off) (rte_mem_virt2iova P (data + off))
             (word_of_nat buf_len) sh) (\<lambda>_.
      seq (modify (offset_update (\<lambda>off. off + buf_len))) (\<lambda>_.
      let mbuf_id = mbuf_id + 1 in
      if mbuf_id mod unat (max_sgl_segs c) = 0 \<and> mbuf_id < n then
        seq (operation_at (unat (k + 1))) (\<lambda>j.
        seq (push_pending j) (\<lambda>_.
        compress_src_loop P c data sz n left (k + 1) j))
      else compress_src_loop P c data sz n left k j))))))"

definition take_memzone ::
  "('w, 'p) dpdk_scheme \<Rightarrow> configuration \<Rightarrow> ('w qp_state, memzone_ptr) code" where
  "take_memzone P c = (\<lambda>s. case Take P c (dmem s) (wld s) of
     (r, d, w) \<Rightarrow> (r, s\<lparr>dmem := d, wld := w\<rparr>))"

definition update_operation :: "op_ptr option \<Rightarrow> xform_ptr option \<Rightarrow> ('w qp_state, unit) code" where
  "update_operation j xform =
     seq (deref j) (\<lambda>j s. case UpdateOperation j xform (mach (wld s)) of
       (r, m) \<Rightarrow> (r, s\<lparr>wld := (wld s)\<lparr>mach := m\<rparr>\<rparr>))"

text \<open>The loop over the destination mbufs of compression; it ends with the new number of operations.\<close>

fun compress_dst_loop ::
  "('w, 'p) dpdk_scheme \<Rightarrow> configuration \<Rightarrow> nat \<Rightarrow> nat \<Rightarrow> u16 \<Rightarrow> op_ptr option \<Rightarrow>
   ('w qp_state, u16) code" where
  "compress_dst_loop P c n 0 k j = return k"
| "compress_dst_loop P c n (Suc left) k j =
     (let mbuf_id = n - Suc left in
      seq (take_memzone P c) (\<lambda>z.
      case z of None \<Rightarrow> throw (Status IOError '''')
      | Some z \<Rightarrow>
      seq (get (\<lambda>s. shared_info_compressed_mbuf (qp s))) (\<lambda>sh.
      seq (append_to P M_DST j (mbuf_id + n) (mz_addr z) (mz_iova z) (word_of_nat (mz_len z)) sh) (\<lambda>_.
      let mbuf_id = mbuf_id + 1 in
      if mbuf_id mod unat (max_sgl_segs c) = 0 \<or> mbuf_id = n then
        seq (get (\<lambda>s. private_xform_compress (qp s))) (\<lambda>xform.
        seq (update_operation j xform) (\<lambda>_.
        seq (operation_at (unat (k + 1))) (\<lambda>j.
        compress_dst_loop P c n left (k + 1) j)))
      else compress_dst_loop P c n left k j))))"

text \<open>
  \<open>AssembleFrom\<close> for compression, of the \<open>sz\<close> bytes at \<open>data\<close>. The capacity of the burst is
  an \<open>int\<close> product.
\<close>

definition AssembleFrom_decompressed ::
  "('w, 'p) dpdk_scheme \<Rightarrow> configuration \<Rightarrow> addr \<Rightarrow> nat \<Rightarrow> ('w qp_state, int) code" where
  "AssembleFrom_decompressed P c data sz =
     negative_codes (status_codes P)
     (seq (get offset) (\<lambda>off.
      seq (get (\<lambda>s. num_ops_assembled (qp s))) (\<lambda>num.
      let remaining_bytes = int sz - int off in
      if remaining_bytes \<le> 0 \<or> burst_size c \<le> num then return (uint num)
      else
      let ops_left = uint (burst_size c) - uint num;
          capacity = ops_left * uint (max_sgl_segs c) * uint (decompressed_seg_size c) in
      seq (guard (int32_ok (ops_left * uint (max_sgl_segs c)) \<and> int32_ok capacity) SignedOverflow) (\<lambda>_.
      seq (guard (decompressed_seg_size c \<noteq> 0 \<and> max_sgl_segs c \<noteq> 0) DivisionByZero) (\<lambda>_.
      let next_burst_bytes = min remaining_bytes capacity;
          n = word_of_int ((next_burst_bytes + uint (decompressed_seg_size c) - 1)
                div uint (decompressed_seg_size c)) :: u32;
          num_ops = ucast ((n + ucast (max_sgl_segs c) - 1) div ucast (max_sgl_segs c)) :: u16 in
      seq (BulkAllocate P num_ops (n * 2)) (\<lambda>code.
      seq (not_ok_returns code) (\<lambda>_.
      seq (operation_at (unat num)) (\<lambda>j.
      seq (push_pending j) (\<lambda>_.
      seq (compress_src_loop P c data sz (unat n) (unat n) num j) (\<lambda>_.
      seq (operation_at (unat num)) (\<lambda>j.
      seq (compress_dst_loop P c (unat n) (unat n) num j) (\<lambda>k.
      seq (upd_qp (num_ops_assembled_update (\<lambda>_. k))) (\<lambda>_.
      return (uint k))))))))))))))"

fun decompress_src_loop ::
  "('w, 'p) dpdk_scheme \<Rightarrow> configuration \<Rightarrow> buffer list \<Rightarrow> nat \<Rightarrow> nat \<Rightarrow> u16 \<Rightarrow> op_ptr option \<Rightarrow>
   ('w qp_state, unit) code" where
  "decompress_src_loop P c bufs n 0 k j = return ()"
| "decompress_src_loop P c bufs n (Suc left) k j =
     (let mbuf_id = n - Suc left in
      seq (get index) (\<lambda>i.
      seq (array_at bufs i) (\<lambda>b.
      seq (get (\<lambda>s. shared_info_compressed_mbuf (qp s))) (\<lambda>sh.
      seq (append_to P M_SRC j mbuf_id (buf_data b) (rte_mem_virt2iova P (buf_data b))
             (word_of_nat (buf_size b)) sh) (\<lambda>_.
      seq (modify (index_update (\<lambda>i. i + 1))) (\<lambda>_.
      let mbuf_id = mbuf_id + 1 in
      if mbuf_id mod unat (max_sgl_segs c) = 0 \<and> mbuf_id < n then
        seq (operation_at (unat (k + 1))) (\<lambda>j.
        seq (push_pending j) (\<lambda>_.
        decompress_src_loop P c bufs n left (k + 1) j))
      else decompress_src_loop P c bufs n left k j))))))"

fun decompress_dst_loop ::
  "('w, 'p) dpdk_scheme \<Rightarrow> configuration \<Rightarrow> addr \<Rightarrow> nat \<Rightarrow> nat \<Rightarrow> nat \<Rightarrow> u16 \<Rightarrow> op_ptr option \<Rightarrow>
   ('w qp_state, u16) code" where
  "decompress_dst_loop P c data sz n 0 k j = return k"
| "decompress_dst_loop P c data sz n (Suc left) k j =
     (let mbuf_id = n - Suc left; buf_len = decompressed_seg_size c in
      seq (get offset) (\<lambda>off.
      seq (guard (off \<le> sz) OutOfBounds) (\<lambda>_.
      seq (get (\<lambda>s. shared_info_decompressed_mbuf (qp s))) (\<lambda>sh.
      seq (append_to P M_DST j (mbuf_id + n) (data + off) (rte_mem_virt2iova P (data + off))
             buf_len sh) (\<lambda>_.
      seq (modify (offset_update (\<lambda>off. off + unat buf_len))) (\<lambda>_.
      let mbuf_id = mbuf_id + 1 in
      if mbuf_id mod unat (max_sgl_segs c) = 0 \<or> mbuf_id = n then
        seq (get (\<lambda>s. private_xform_decompress (qp s))) (\<lambda>xform.
        seq (update_operation j xform) (\<lambda>_.
        seq (operation_at (unat (k + 1))) (\<lambda>j.
        decompress_dst_loop P c data sz n left (k + 1) j)))
      else decompress_dst_loop P c data sz n left k j))))))"

text \<open>\<open>AssembleFrom\<close> for decompression into the \<open>sz\<close> bytes at \<open>data\<close>.\<close>

definition AssembleFrom_compressed ::
  "('w, 'p) dpdk_scheme \<Rightarrow> configuration \<Rightarrow> buffer list \<Rightarrow> addr \<Rightarrow> nat \<Rightarrow> ('w qp_state, int) code" where
  "AssembleFrom_compressed P c bufs data sz =
     negative_codes (status_codes P)
     (seq (get index) (\<lambda>i.
      seq (get (\<lambda>s. num_ops_assembled (qp s))) (\<lambda>num.
      let remaining_mbufs = int (length bufs) - int i in
      if remaining_mbufs \<le> 0 \<or> burst_size c \<le> num then return (uint num)
      else
      let capacity = (uint (burst_size c) - uint num) * uint (max_sgl_segs c) in
      seq (guard (int32_ok capacity) SignedOverflow) (\<lambda>_.
      seq (guard (max_sgl_segs c \<noteq> 0) DivisionByZero) (\<lambda>_.
      let n = word_of_int (min capacity remaining_mbufs) :: u32;
          num_ops = ucast ((n + ucast (max_sgl_segs c) - 1) div ucast (max_sgl_segs c)) :: u16 in
      seq (BulkAllocate P num_ops (n * 2)) (\<lambda>code.
      seq (not_ok_returns code) (\<lambda>_.
      seq (operation_at (unat num)) (\<lambda>j.
      seq (push_pending j) (\<lambda>_.
      seq (decompress_src_loop P c bufs (unat n) (unat n) num j) (\<lambda>_.
      seq (operation_at (unat num)) (\<lambda>j.
      seq (decompress_dst_loop P c data sz (unat n) (unat n) num j) (\<lambda>k.
      seq (upd_qp (num_ops_assembled_update (\<lambda>_. k))) (\<lambda>_.
      return (uint k))))))))))))))"

subsection \<open>After a burst\<close>

definition AccumulateUnused :: "u16 \<Rightarrow> ('w qp_state, status_code) code" where
  "AccumulateUnused num_unused =
     seq (get (\<lambda>s. num_ops_assembled (qp s))) (\<lambda>num.
     if num < num_unused then return Invalid
     else
     seq (if 0 < num_unused \<and> num_unused \<noteq> num
          then
            seq (get (\<lambda>s. operations (qp s))) (\<lambda>os.
            seq (deref os) (\<lambda>os.
            seq (guard (unat num \<le> length os) OutOfBounds) (\<lambda>_.
            upd_qp (operations_update (\<lambda>_. Some (overwrite os 0
              (take (unat num_unused) (drop (unat num - unat num_unused) os)))))))
          )
          else return ()) (\<lambda>_.
     seq (upd_qp (num_ops_assembled_update (\<lambda>_. num_unused))) (\<lambda>_.
     return SC_OK)))"

text \<open>Popping from an empty deque is undefined.\<close>

definition RecycleResources ::
  "('w, 'p) dpdk_scheme \<Rightarrow> op_ptr option \<Rightarrow> ('w qp_state, status_code) code" where
  "RecycleResources P operation =
     seq (get (\<lambda>s. pending_operations (qp s))) (\<lambda>pending.
     case pending of [] \<Rightarrow> throw (Fault OutOfBounds)
     | front # rest \<Rightarrow>
       if \<not> NDEBUG P \<and> front \<noteq> operation then return Invalid
       else
       seq (upd_qp (pending_operations_update (\<lambda>_. rest))) (\<lambda>_.
       seq (deref operation) (\<lambda>j.
       seq (do_mach (\<lambda>m. rte_pktmbuf_free P (m_src (ops m j)) m)) (\<lambda>_.
       seq (do_mach (\<lambda>m. rte_pktmbuf_free P (m_dst (ops m j)) m)) (\<lambda>_.
       seq (do_mach (rte_comp_op_free P j)) (\<lambda>_.
       return SC_OK))))))"

text \<open>
  The inner loop of \<open>Release\<close>, along a chain of destination mbufs; \<open>None\<close> if it never
  ends. The sanity check does nothing in a build without mbuf debugging.
\<close>

partial_function (option) release_dst ::
  "('w, 'p) dpdk_scheme \<Rightarrow> shinfo_ptr option \<Rightarrow> mbuf_ptr option \<Rightarrow> device_memory \<Rightarrow> 'w world \<Rightarrow>
   (device_memory \<times> 'w world) option" where
  "release_dst P sh dst d w =
     (case dst of None \<Rightarrow> Some (d, w)
      | Some b \<Rightarrow>
          (let next = next_seg (mbufs (mach w) b);
               (d, w) = (if shinfo (mbufs (mach w) b) = sh
                         then snd (Put (buf_addr (mbufs (mach w) b)) d w) else (d, w))
           in release_dst P sh next d (w\<lparr>mach := rte_pktmbuf_free_seg P b (mach w)\<rparr>)))"

declare release_dst.simps [code]

fun release_ops ::
  "('w, 'p) dpdk_scheme \<Rightarrow> shinfo_ptr option \<Rightarrow> op_ptr option list \<Rightarrow> device_memory \<Rightarrow> 'w world \<Rightarrow>
   (unit result \<times> device_memory \<times> 'w world) option" where
  "release_ops P sh [] d w = Some (OK, d, w)"
| "release_ops P sh (None # js) d w = Some (Inl (Fault NullDereference), d, w)"
| "release_ops P sh (Some j # js) d w =
     (let w = w\<lparr>mach := rte_pktmbuf_free P (m_src (ops (mach w) j)) (mach w)\<rparr>
      in case release_dst P sh (m_dst (ops (mach w) j)) d w of
           None \<Rightarrow> None
         | Some (d, w) \<Rightarrow>
             release_ops P sh js d (w\<lparr>mach := rte_comp_op_free P j (mach w)\<rparr>))"

definition Release ::
  "('w, 'p) dpdk_scheme \<Rightarrow> 'w qp_state \<Rightarrow> (unit result \<times> 'w qp_state) option" where
  "Release P s =
     (case release_ops P (shared_info_compressed_mbuf (qp s)) (pending_operations (qp s))
             (dmem s) (wld s) of
        None \<Rightarrow> None
      | Some (r, d, w) \<Rightarrow>
          Some (r, s\<lparr>qp := (qp s)\<lparr>pending_operations :=
                       (if is_ok r then [] else pending_operations (qp s))\<rparr>,
                     dmem := d, wld := w\<rparr>))"

definition has_pending_operations :: "queue_pair_memory \<Rightarrow> bool" where
  "has_pending_operations q \<longleftrightarrow> pending_operations q \<noteq> []"

text \<open>The pointers into \<open>operations_\<close>, as the index they point to; \<open>None\<close> is null.\<close>

definition enqueue_ops :: "queue_pair_memory \<Rightarrow> nat option" where
  "enqueue_ops q = (case operations q of None \<Rightarrow> None | Some _ \<Rightarrow> Some 0)"

definition dequeue_ops :: "configuration \<Rightarrow> queue_pair_memory \<Rightarrow> nat option" where
  "dequeue_ops c q =
     (case operations q of None \<Rightarrow> None | Some _ \<Rightarrow> Some (unat (burst_size c)))"

end
