(* ===== verification/Bitar_Device.thy ===== *)
theory Bitar_Device
  imports Bitar_QP_Memory
begin

text \<open>
  \<open>src/include/device.h\<close> and \<open>src/device.cc\<close>: the compress device, its states, the
  validation of its configuration, and the loops of \<open>Compress\<close> and \<open>Decompress\<close> that
  move bursts of operations through a queue pair. The only device class that can be
  made is \<open>BlueFieldCompressDevice\<close>, so the virtual calls of \<open>CompressDevice\<close> are
  resolved to its overrides.
\<close>

subsection \<open>State\<close>

datatype DeviceState = kUndefined | kConfigured | kStarted

fun DeviceState_integer :: "DeviceState \<Rightarrow> nat" where
  "DeviceState_integer kUndefined = 1"
| "DeviceState_integer kConfigured = 2"
| "DeviceState_integer kStarted = 4"

instantiation DeviceState :: linorder
begin

definition less_eq_DeviceState :: "DeviceState \<Rightarrow> DeviceState \<Rightarrow> bool" where
  "less_eq_DeviceState a b \<longleftrightarrow> DeviceState_integer a \<le> DeviceState_integer b"

definition less_DeviceState :: "DeviceState \<Rightarrow> DeviceState \<Rightarrow> bool" where
  "less_DeviceState a b \<longleftrightarrow> DeviceState_integer a < DeviceState_integer b"

instance
proof
  fix a b c :: DeviceState
  show "a < b \<longleftrightarrow> a \<le> b \<and> \<not> b \<le> a"
    by (auto simp: less_eq_DeviceState_def less_DeviceState_def)
  show "a \<le> a" "a \<le> b \<or> b \<le> a" by (auto simp: less_eq_DeviceState_def)
  show "a \<le> b \<Longrightarrow> b \<le> c \<Longrightarrow> a \<le> c" by (auto simp: less_eq_DeviceState_def)
  show "a \<le> b \<Longrightarrow> b \<le> a \<Longrightarrow> a = b"
    by (cases a; cases b) (auto simp: less_eq_DeviceState_def)
qed

end

record compress_device =
  device_id :: u8
  worker_lcores :: "u32 list"
  device_configuration :: "configuration option"
  device_state :: DeviceState
  device_mem :: "device_memory option"
  qp_memory :: "queue_pair_memory list"

text \<open>A device and the process it lives in.\<close>

record 'w dev_state =
  dev :: compress_device
  env :: "'w world"

definition new_CompressDevice :: "u8 \<Rightarrow> u32 list \<Rightarrow> compress_device" where
  "new_CompressDevice dev_id lcores =
     \<lparr>device_id = dev_id, worker_lcores = lcores, device_configuration = None,
      device_state = kUndefined, device_mem = None, qp_memory = []\<rparr>"

definition num_qps :: "compress_device \<Rightarrow> u16" where
  "num_qps d = word_of_nat (length (worker_lcores d))"

text \<open>\<open>std::vector::at\<close> throws beyond the end.\<close>

definition LcoreOf :: "compress_device \<Rightarrow> u16 \<Rightarrow> u32 result" where
  "LcoreOf d qp_id =
     (if unat qp_id < length (worker_lcores d) then Inr (worker_lcores d ! unat qp_id)
      else Inl (Fault (UncaughtException ''std::out_of_range'')))"

definition upd_dev :: "(compress_device \<Rightarrow> compress_device) \<Rightarrow> ('w dev_state, unit) code" where
  "upd_dev f = modify (\<lambda>s. s\<lparr>dev := f (dev s)\<rparr>)"

definition set_state :: "DeviceState \<Rightarrow> ('w dev_state, unit) code" where
  "set_state st = upd_dev (\<lambda>d. d\<lparr>device_state := st\<rparr>)"

definition dev_mach :: "('w machine \<Rightarrow> 'a \<times> 'w machine) \<Rightarrow> ('w dev_state, 'a) code" where
  "dev_mach f = (\<lambda>s. case f (mach (env s)) of (x, m) \<Rightarrow> (Inr x, s\<lparr>env := (env s)\<lparr>mach := m\<rparr>\<rparr>))"

subsection \<open>Validation of the configuration\<close>

text \<open>The loop of \<open>ValidateWindowSize\<close> over \<open>uint8_t\<close>; \<open>None\<close> is the loop that never ends.\<close>

partial_function (option) window_size_loop :: "u8 \<Rightarrow> rte_param_log2_range \<Rightarrow> u8 \<Rightarrow> bool option" where
  "window_size_loop window_sz rg next_size =
     (if next_size \<le> range_max rg then
        (if window_sz = next_size then Some True
         else window_size_loop window_sz rg (next_size + range_increment rg))
      else Some False)"

declare window_size_loop.simps [code]

definition ValidateWindowSize :: "u8 \<Rightarrow> rte_param_log2_range \<Rightarrow> unit result option" where
  "ValidateWindowSize window_sz rg =
     (if window_sz < range_min rg \<or> range_max rg < window_sz
      then Some (Inl (Status Invalid ''window_size is not in the range of [''))
      else if range_increment rg = 0 then Some OK
      else
        (case window_size_loop window_sz rg (range_min rg) of
           None \<Rightarrow> None
         | Some True \<Rightarrow> Some OK
         | Some False \<Rightarrow> Some (Inl (Status Invalid ''The value of window_size is invalid''))))"

text \<open>
  \<open>CompressDevice::ValidateConfiguration\<close> may change the configuration. Its checks come
  in the order of the code; \<open>None\<close> only if \<open>ValidateWindowSize\<close> does not return.
\<close>

definition ValidateConfiguration_base ::
  "('w, 'p) dpdk_scheme \<Rightarrow> rte_config \<Rightarrow> compress_device \<Rightarrow> configuration \<Rightarrow>
   (unit result \<times> configuration) option" where
  "ValidateConfiguration_base P rc d c =
     (let max_qps = rte_compressdev_max_nb_queue_pairs P (device_id d) in
      if 0 < max_qps \<and> max_qps < num_qps d
      then Some (Inl (Status Invalid ''The requested number of queue pairs (''), c)
      else if burst_size c = 0
      then Some (Inl (Status Invalid ''Burst size must be greater than 0''), c)
      else
      (case rte_compressdev_capability_get P (device_id d) of
         None \<Rightarrow> Some (Inl (Status NotImplemented ''Compress device ''), c)
       | Some capability \<Rightarrow>
         let c = (if max_sgl_segs c < 1 then set_max_sgl_segs 1 c else c) in
         if 1 < max_sgl_segs c \<and> \<not> ff_oop_sgl_in_sgl_out capability
         then Some (Inl (Status Invalid ''Compress device does not support chained mbufs.''), c)
         else if unat (decompressed_seg_size c) < kMinSegSize \<or>
                 kMaxSegSize rc < unat (decompressed_seg_size c)
         then Some (Inl (Status Invalid ''decompressed_seg_size is not in the range of [''), c)
         else
         (case (if window_size c = 0
                then Some (OK, set_window_size (range_max (cap_window_size capability)) c)
                else map_option (\<lambda>r. (r, c))
                       (ValidateWindowSize (window_size c) (cap_window_size capability))) of
            None \<Rightarrow> None
          | Some (Inl e, c) \<Rightarrow> Some (Inl e, c)
          | Some (Inr _, c) \<Rightarrow>
            if huffman_enc c = RTE_COMP_HUFFMAN_FIXED \<and> \<not> ff_huffman_fixed capability
            then Some (Inl (Status Invalid ''Compress device does not supported fixed Huffman''), c)
            else if huffman_enc c = RTE_COMP_HUFFMAN_DYNAMIC \<and> \<not> ff_huffman_dynamic capability
            then Some (Inl (Status Invalid ''Compress device does not supported dynamic Huffman''), c)
            else if unat (max_preallocate_memzones c) < kMinPreallocateMemzones \<or>
                    RTE_MAX_MEMZONE rc < max_preallocate_memzones c
            then Some (Inl (Status Invalid ''max_preallocate_memzones (''), c)
            else Some (OK, c))))"

text \<open>\<open>BlueFieldCompressDevice::ValidateConfiguration\<close>.\<close>

definition ValidateConfiguration ::
  "('w, 'p) dpdk_scheme \<Rightarrow> rte_config \<Rightarrow> compress_device \<Rightarrow> configuration \<Rightarrow>
   (unit result \<times> configuration) option" where
  "ValidateConfiguration P rc d c =
     (if config_type c \<noteq> kBlueFieldConfigurationTypeName
      then Some (Inl (Status Invalid ''Invalid configuration for BlueFieldCompressDevice''), c)
      else if huffman_enc c \<noteq> RTE_COMP_HUFFMAN_FIXED \<and> huffman_enc c \<noteq> RTE_COMP_HUFFMAN_DYNAMIC
      then Some (Inl (Status Invalid ''Compress device of type ''), c)
      else ValidateConfiguration_base P rc d c)"

text \<open>\<open>BlueFieldCompressDevice::set_configuration\<close>, of a pointer that must not be null.\<close>

definition set_configuration :: "configuration option \<Rightarrow> ('w dev_state, unit) code" where
  "set_configuration cfg =
     seq (deref cfg) (\<lambda>c.
     if config_type c \<noteq> kBlueFieldConfigurationTypeName
     then throw (Status Invalid ''Configuration of type '')
     else upd_dev (\<lambda>d. d\<lparr>device_configuration := Some c\<rparr>))"

subsection \<open>Initialize\<close>

text \<open>Running an operation of the memory of queue pair \<open>i\<close> on the state of the device.\<close>

definition qp_view :: "compress_device \<Rightarrow> nat \<Rightarrow> device_memory \<Rightarrow> 'w world \<Rightarrow> 'w qp_state" where
  "qp_view d i dm w =
     \<lparr>qp = qp_memory d ! i, dmem = dm, wld = w, offset = 0, index = 0,
      compressed_buffers = [], decompressed_buffer_size = 0\<rparr>"

definition qp_store :: "nat \<Rightarrow> 'w qp_state \<Rightarrow> 'w dev_state \<Rightarrow> 'w dev_state" where
  "qp_store i q s =
     s\<lparr>dev := (dev s)\<lparr>qp_memory := (qp_memory (dev s))[i := qp q], device_mem := Some (dmem q)\<rparr>,
       env := wld q\<rparr>"

definition with_qp_memory ::
  "nat \<Rightarrow> ('w qp_state, 'a) pcode \<Rightarrow> ('w dev_state, 'a \<times> 'w qp_state) pcode" where
  "with_qp_memory i f = (\<lambda>s.
     if i < length (qp_memory (dev s)) then
       (case device_mem (dev s) of
          None \<Rightarrow> Some (Inl (Fault NullDereference), s)
        | Some dm \<Rightarrow>
            (case f (qp_view (dev s) i dm (env s)) of
               None \<Rightarrow> None
             | Some (Inl e, q) \<Rightarrow> Some (Inl e, qp_store i q s)
             | Some (Inr x, q) \<Rightarrow> Some (Inr (x, q), qp_store i q s)))
     else Some (Inl (Fault OutOfBounds), s))"

text \<open>
  \<open>PreAllocateMemory\<close>. Assigning a new device memory destroys the one that was there, and
  the queue pair memories are appended to those that are there.
\<close>

definition replace_device_memory ::
  "('w, 'p) dpdk_scheme \<Rightarrow> configuration \<Rightarrow> ('w dev_state, unit) code" where
  "replace_device_memory P c = (\<lambda>s.
     let new = new_DeviceMemory (device_id (dev s)) in
     case (case device_mem (dev s) of None \<Rightarrow> (OK, env s)
           | Some old \<Rightarrow> destroy_DeviceMemory P c old (env s)) of
       (Inl e, w) \<Rightarrow> (Inl e, s\<lparr>env := w\<rparr>)
     | (Inr _, w) \<Rightarrow> (OK, s\<lparr>dev := (dev s)\<lparr>device_mem := Some new\<rparr>, env := w\<rparr>))"

definition preallocate_device_memory ::
  "('w, 'p) dpdk_scheme \<Rightarrow> configuration \<Rightarrow> ('w dev_state, unit) code" where
  "preallocate_device_memory P c = (\<lambda>s.
     case device_mem (dev s) of
       None \<Rightarrow> (Inl (Fault NullDereference), s)
     | Some dm \<Rightarrow>
         (case dm_Preallocate P c dm (env s) of
            (r, dm, w) \<Rightarrow> (r, s\<lparr>dev := (dev s)\<lparr>device_mem := Some dm\<rparr>, env := w\<rparr>)))"

fun preallocate_qps ::
  "('w, 'p) dpdk_scheme \<Rightarrow> rte_config \<Rightarrow> configuration \<Rightarrow> nat \<Rightarrow> u16 \<Rightarrow> ('w dev_state, unit) pcode" where
  "preallocate_qps P rc c 0 qp_id = total (return ())"
| "preallocate_qps P rc c (Suc left) qp_id =
     pseq (total (upd_dev (\<lambda>d. d\<lparr>qp_memory :=
             qp_memory d @ [new_QueuePairMemory (device_id d) qp_id]\<rparr>))) (\<lambda>_.
     pseq (\<lambda>s. with_qp_memory (length (qp_memory (dev s)) - 1) (total (qp_Preallocate P rc c)) s) (\<lambda>_.
     preallocate_qps P rc c left (qp_id + 1)))"

definition PreAllocateMemory ::
  "('w, 'p) dpdk_scheme \<Rightarrow> rte_config \<Rightarrow> configuration \<Rightarrow> ('w dev_state, unit) pcode" where
  "PreAllocateMemory P rc c =
     pseq (total (replace_device_memory P c)) (\<lambda>_.
     pseq (total (preallocate_device_memory P c)) (\<lambda>_.
     pseq (total (get (\<lambda>s. unat (num_qps (dev s))))) (\<lambda>n.
     preallocate_qps P rc c n 0)))"

fun setup_queue_pairs ::
  "('w, 'p) dpdk_scheme \<Rightarrow> int \<Rightarrow> nat \<Rightarrow> u16 \<Rightarrow> ('w dev_state, unit) code" where
  "setup_queue_pairs P socket 0 qp_id = return ()"
| "setup_queue_pairs P socket (Suc left) qp_id =
     seq (get (\<lambda>s. device_id (dev s))) (\<lambda>dev_id.
     seq (dev_mach (rte_compressdev_queue_pair_setup P dev_id qp_id kMaxInflightOps socket)) (\<lambda>ret.
     if ret < 0 then throw (Status Invalid ''Failed to setup queue pair '')
     else
     seq (\<lambda>s. (LcoreOf (dev s) qp_id, s)) (\<lambda>_.
     setup_queue_pairs P socket left (qp_id + 1))))"

definition Initialize ::
  "('w, 'p) dpdk_scheme \<Rightarrow> rte_config \<Rightarrow> configuration option \<Rightarrow> ('w dev_state, unit) pcode" where
  "Initialize P rc cfg =
     pseq (total (set_configuration cfg)) (\<lambda>_.
     pseq (\<lambda>s. case device_configuration (dev s) of
             None \<Rightarrow> Some (Inl (Fault NullDereference), s)
           | Some c \<Rightarrow>
               map_option (\<lambda>(r, c). (r, s\<lparr>dev := (dev s)\<lparr>device_configuration := Some c\<rparr>\<rparr>))
                 (ValidateConfiguration P rc (dev s) c)) (\<lambda>_.
     pseq (\<lambda>s. case device_configuration (dev s) of
             None \<Rightarrow> Some (Inl (Fault NullDereference), s)
           | Some c \<Rightarrow> PreAllocateMemory P rc c s) (\<lambda>_.
     total
     (seq (get (\<lambda>s. device_id (dev s))) (\<lambda>dev_id.
      seq (get (\<lambda>s. num_qps (dev s))) (\<lambda>n.
      let socket = rte_compressdev_socket_id P dev_id in
      seq (dev_mach (rte_compressdev_configure P dev_id socket n)) (\<lambda>ret.
      if ret < 0 then throw (Status Invalid ''Device configuration failed'')
      else
      seq (set_state kConfigured) (\<lambda>_.
      seq (setup_queue_pairs P socket (unat n) 0) (\<lambda>_.
      seq (dev_mach (rte_compressdev_start P dev_id)) (\<lambda>ret.
      if ret < 0 then throw (Status Invalid ''Failed to start device '')
      else set_state kStarted))))))))))"

subsection \<open>Bursts\<close>

definition kNumIgnoredMaybeNotOKBurst :: u32 where "kNumIgnoredMaybeNotOKBurst = 10"

text \<open>
  \<open>GetErrorCount\<close>. Its counter is one static variable for all devices and queue pairs; the
  device is asked for its statistics at every tenth burst in a row that moved nothing.
\<close>

definition GetErrorCount ::
  "('w, 'p) dpdk_scheme \<Rightarrow> u16 \<Rightarrow> u8 \<Rightarrow> 'w world \<Rightarrow> u64 \<times> 'w world" where
  "GetErrorCount P num_bursted_ops dev_id w =
     (if 0 < num_bursted_ops then (0, w\<lparr>num_maybe_not_ok := 0\<rparr>)
      else
        (let w = w\<lparr>num_maybe_not_ok := num_maybe_not_ok w + 1\<rparr> in
         if num_maybe_not_ok w mod kNumIgnoredMaybeNotOKBurst \<noteq> 0 then (0, w)
         else
           (let stats = rte_compressdev_stats_get P dev_id (mach w) in
            if 0 < enqueue_err_count stats then (enqueue_err_count stats, w)
            else if 0 < dequeue_err_count stats then (dequeue_err_count stats, w)
            else (0, w\<lparr>num_maybe_not_ok := 0\<rparr>))))"

definition error_count :: "('w, 'p) dpdk_scheme \<Rightarrow> u16 \<Rightarrow> u8 \<Rightarrow> ('w qp_state, u64) code" where
  "error_count P num dev_id = (\<lambda>s. case GetErrorCount P num dev_id (wld s) of
     (n, w) \<Rightarrow> (Inr n, s\<lparr>wld := w\<rparr>))"

text \<open>Part of the array \<open>operations_\<close> from a pointer into it.\<close>

definition operations_from :: "nat option \<Rightarrow> nat \<Rightarrow> ('w qp_state, op_ptr option list) code" where
  "operations_from ptr n =
     seq (deref ptr) (\<lambda>at.
     seq (get (\<lambda>s. operations (qp s))) (\<lambda>os.
     seq (deref os) (\<lambda>os.
     seq (guard (at + n \<le> length os) OutOfBounds) (\<lambda>_.
     return (take n (drop at os))))))"

definition EnqueueBurst ::
  "('w, 'p) dpdk_scheme \<Rightarrow> u8 \<Rightarrow> u16 \<Rightarrow> nat option \<Rightarrow> u16 \<Rightarrow> ('w qp_state, status_code) code" where
  "EnqueueBurst P dev_id qp_id ptr num =
     seq (operations_from ptr (unat num)) (\<lambda>os.
     seq (on_mach (rte_compressdev_enqueue_burst P dev_id qp_id os)) (\<lambda>num_enqueued.
     seq (error_count P num_enqueued dev_id) (\<lambda>errors.
     if 0 < errors then return IOError
     else AccumulateUnused (num - num_enqueued))))"

text \<open>The loop of \<open>DequeueBurst\<close> over the operations that were dequeued.\<close>

fun process_dequeued ::
  "('w, 'p) dpdk_scheme \<Rightarrow> (op_ptr \<Rightarrow> ('w qp_state, unit) pcode) \<Rightarrow> op_ptr option list \<Rightarrow>
   ('w qp_state, status_code) pcode" where
  "process_dequeued P callback [] = total (return SC_OK)"
| "process_dequeued P callback (p # ps) =
     pseq (total (deref p)) (\<lambda>j.
     pseq (total (get (\<lambda>s. op_status (ops (mach (wld s)) j)))) (\<lambda>status.
     if status \<noteq> RTE_COMP_OP_STATUS_SUCCESS then total (return IOError)
     else
     pseq (callback j) (\<lambda>_.
     pseq (total (RecycleResources P p)) (\<lambda>code.
     if code \<noteq> SC_OK then total (return code)
     else process_dequeued P callback ps))))"

definition DequeueBurst ::
  "('w, 'p) dpdk_scheme \<Rightarrow> configuration \<Rightarrow> u8 \<Rightarrow> u16 \<Rightarrow> nat option \<Rightarrow>
   (op_ptr \<Rightarrow> ('w qp_state, unit) pcode) \<Rightarrow> ('w qp_state, status_code) pcode" where
  "DequeueBurst P c dev_id qp_id ptr callback =
     pseq (total (operations_from ptr (unat (burst_size c)))) (\<lambda>_.
     pseq (total (on_mach (rte_compressdev_dequeue_burst P dev_id qp_id (burst_size c)))) (\<lambda>js.
     pseq (total (upd_qp (\<lambda>q. q\<lparr>operations := map_option
             (\<lambda>os. overwrite os (the ptr) (map Some js)) (operations q)\<rparr>))) (\<lambda>_.
     pseq (total (error_count P (word_of_nat (length js)) dev_id)) (\<lambda>errors.
     if 0 < errors then total (return IOError)
     else
     pseq (total (operations_from ptr (length js))) (\<lambda>ps.
     process_dequeued P callback ps)))))"

subsection \<open>Compress and Decompress\<close>

definition Recycle :: "buffer list \<Rightarrow> device_memory \<times> 'w world \<Rightarrow> nat \<times> device_memory \<times> 'w world" where
  "Recycle bufs = put_all dm_put (map buf_data (rev bufs))"

definition ReleaseAll ::
  "('w, 'p) dpdk_scheme \<Rightarrow> buffer list \<Rightarrow> ('w qp_state, unit) pcode" where
  "ReleaseAll P bufs = (\<lambda>s.
     case Recycle bufs (dmem s, wld s) of
       (_, d, w) \<Rightarrow> Release P (s\<lparr>dmem := d, wld := w\<rparr>))"

definition EntryGuard :: "compress_device \<Rightarrow> u16 \<Rightarrow> unit result" where
  "EntryGuard d qp_id =
     (if device_state d < kStarted then Inl (Status Invalid ''Compress device '')
      else if num_qps d \<le> qp_id then Inl (Status Invalid ''queue_pair_id must be in the range of [0, '')
      else if length (qp_memory d) \<le> unat qp_id then Inl (Fault OutOfBounds)
      else if has_pending_operations (qp_memory d ! unat qp_id)
      then Inl (Status Cancelled ''Queue pair '')
      else OK)"

text \<open>
  The callback of \<open>Compress\<close>: the output of an operation, mbuf by mbuf; \<open>None\<close> if a loop
  of empty mbufs never ends.
\<close>

partial_function (option) output_buffers ::
  "'w machine \<Rightarrow> nat \<Rightarrow> mbuf_ptr option \<Rightarrow> buffer list \<Rightarrow> (unit result \<times> buffer list) option" where
  "output_buffers m remaining dst out =
     (if 0 < remaining then
        (case dst of None \<Rightarrow> Some (Inl (Fault NullDereference), out)
         | Some b \<Rightarrow>
             (let ad = buf_addr (mbufs m b) + data_off (mbufs m b);
                  len = min (data_len (mbufs m b)) remaining
              in output_buffers m (remaining - len) (next_seg (mbufs m b))
                   (out @ [\<lparr>buf_data = ad, buf_size = len, buf_capacity = len\<rparr>])))
      else Some (OK, out))"

declare output_buffers.simps [code]

definition compress_callback :: "op_ptr \<Rightarrow> ('w qp_state, unit) pcode" where
  "compress_callback j = (\<lambda>s.
     map_option (\<lambda>(r, out). (r, s\<lparr>compressed_buffers := out\<rparr>))
       (output_buffers (mach (wld s)) (produced (ops (mach (wld s)) j))
          (m_dst (ops (mach (wld s)) j)) (compressed_buffers s)))"

definition decompress_callback :: "op_ptr \<Rightarrow> ('w qp_state, unit) pcode" where
  "decompress_callback j = total (modify (\<lambda>s. s\<lparr>decompressed_buffer_size :=
     decompressed_buffer_size s + int (produced (ops (mach (wld s)) j))\<rparr>))"

text \<open>
  \<open>ARROW_RETURN_NOT_STATUS_OK_ELSE\<close> and \<open>ARROW_ASSIGN_OR_RAISE_NEGATIVE_ELSE\<close>: run \<open>els\<close> and
  return a status for a code that is not \<open>OK\<close>, or for a negative integer.
\<close>

definition not_ok_else :: "string \<Rightarrow> ('s, unit) pcode \<Rightarrow> status_code \<Rightarrow> ('s, unit) pcode" where
  "not_ok_else msg els code =
     (case RETURN_NOT_STATUS_OK code msg of
        None \<Rightarrow> total (return ())
      | Some e \<Rightarrow> pseq els (\<lambda>_. total (throw e)))"

definition negative_else ::
  "status_encoding \<Rightarrow> string \<Rightarrow> ('s, unit) pcode \<Rightarrow> int \<Rightarrow> ('s, int) pcode" where
  "negative_else e msg els rexpr =
     (case ASSIGN_OR_RAISE_NEGATIVE e rexpr msg of
        Inr lhs \<Rightarrow> total (return lhs)
      | Inl er \<Rightarrow> pseq els (\<lambda>_. total (throw er)))"

text \<open>
  The three parts \<open>Compress\<close> and \<open>Decompress\<close> have in common: assemble a burst; while
  operations are assembled enqueue, dequeue and assemble again; dequeue what is pending.
\<close>

partial_function (option) burst_loop ::
  "(int \<Rightarrow> ('w qp_state, int) pcode) \<Rightarrow> int \<Rightarrow> 'w qp_state \<Rightarrow> (unit result \<times> 'w qp_state) option" where
  "burst_loop burst num s =
     (if 0 < num then
        (case burst num s of
           None \<Rightarrow> None
         | Some (Inl e, s) \<Rightarrow> Some (Inl e, s)
         | Some (Inr num, s) \<Rightarrow> burst_loop burst num s)
      else Some (OK, s))"

declare burst_loop.simps [code]

partial_function (option) drain_loop ::
  "('w qp_state, unit) pcode \<Rightarrow> 'w qp_state \<Rightarrow> (unit result \<times> 'w qp_state) option" where
  "drain_loop dequeue s =
     (if has_pending_operations (qp s) then
        (case dequeue s of
           None \<Rightarrow> None
         | Some (Inl e, s) \<Rightarrow> Some (Inl e, s)
         | Some (Inr _, s) \<Rightarrow> drain_loop dequeue s)
      else Some (OK, s))"

declare drain_loop.simps [code]

definition run_bursts ::
  "('w qp_state, int) pcode \<Rightarrow> (int \<Rightarrow> ('w qp_state, unit) pcode) \<Rightarrow> ('w qp_state, unit) pcode \<Rightarrow>
   ('w qp_state, unit) pcode \<Rightarrow> ('w qp_state, unit) pcode" where
  "run_bursts assemble enqueue dequeue drain =
     pseq assemble (\<lambda>num.
     pseq (burst_loop (\<lambda>num. pseq (enqueue num) (\<lambda>_. pseq dequeue (\<lambda>_. assemble))) num) (\<lambda>_.
     drain_loop drain))"

text \<open>The body of \<open>Compress\<close> after \<open>EntryGuard\<close>, for an input of \<open>sz\<close> bytes at \<open>data\<close>.\<close>

definition compress_run ::
  "('w, 'p) dpdk_scheme \<Rightarrow> configuration \<Rightarrow> u8 \<Rightarrow> u16 \<Rightarrow> addr \<Rightarrow> nat \<Rightarrow> ('w qp_state, unit) pcode" where
  "compress_run P c dev_id qp_id data sz =
     (let release = (\<lambda>s. ReleaseAll P (compressed_buffers s) s);
          dequeue = (\<lambda>msg s. pseq
            (DequeueBurst P c dev_id qp_id (dequeue_ops c (qp s)) compress_callback)
            (not_ok_else msg release) s)
      in run_bursts
           (pseq (total (AssembleFrom_decompressed P c data sz))
              (negative_else (status_codes P) ''Failed to assemble compression operations for queue pair '' release))
           (\<lambda>num s. pseq (total (EnqueueBurst P dev_id qp_id (enqueue_ops (qp s)) (word_of_int num)))
              (not_ok_else ''Failed to enqueue compression operations to compress device '' release) s)
           (dequeue ''Failed to dequeue compression operations from compress device '')
           (dequeue ''Failed to dequeue pending compression operations from compress device ''))"

definition Compress ::
  "('w, 'p) dpdk_scheme \<Rightarrow> u16 \<Rightarrow> buffer option \<Rightarrow> ('w dev_state, buffer list) pcode" where
  "Compress P qp_id decompressed_buffer =
     (case decompressed_buffer of
        None \<Rightarrow> total (return [])
      | Some b \<Rightarrow>
          if buf_size b = 0 then total (return [])
          else
          pseq (\<lambda>s. Some (EntryGuard (dev s) qp_id, s)) (\<lambda>_.
          pseq (total (seq (get (\<lambda>s. device_configuration (dev s))) deref)) (\<lambda>c.
          pseq (total (guard (decompressed_seg_size c \<noteq> 0) DivisionByZero)) (\<lambda>_.
          pseq (total (get (\<lambda>s. device_id (dev s)))) (\<lambda>dev_id.
          pseq (with_qp_memory (unat qp_id) (compress_run P c dev_id qp_id (buf_data b) (buf_size b)))
            (\<lambda>(_, q). total (return (compressed_buffers q))))))))"

text \<open>The body of \<open>Decompress\<close> after \<open>EntryGuard\<close>; nothing is released on an error.\<close>

definition decompress_run ::
  "('w, 'p) dpdk_scheme \<Rightarrow> configuration \<Rightarrow> u8 \<Rightarrow> u16 \<Rightarrow> buffer list \<Rightarrow> addr \<Rightarrow> nat \<Rightarrow>
   ('w qp_state, unit) pcode" where
  "decompress_run P c dev_id qp_id bufs data sz =
     (let nothing = total (return ());
          dequeue = (\<lambda>msg s. pseq
            (DequeueBurst P c dev_id qp_id (dequeue_ops c (qp s)) decompress_callback)
            (not_ok_else msg nothing) s)
      in run_bursts
           (pseq (total (AssembleFrom_compressed P c bufs data sz))
              (negative_else (status_codes P) ''Failed to assemble decompression operations for queue pair '' nothing))
           (\<lambda>num s. pseq (total (EnqueueBurst P dev_id qp_id (enqueue_ops (qp s)) (word_of_int num)))
              (not_ok_else ''Failed to enqueue decompression operations to compress device '' nothing) s)
           (dequeue ''Failed to dequeue decompression operations from compress device '')
           (dequeue ''Failed to dequeue pending decompression operations from compress device ''))"

text \<open>
  \<open>Decompress\<close>, with the new size it asks of the output buffer by \<open>Resize\<close>. The minimal
  capacity is computed from the configuration before \<open>EntryGuard\<close>, in unsigned 64-bit
  arithmetic.
\<close>

definition Decompress ::
  "('w, 'p) dpdk_scheme \<Rightarrow> u16 \<Rightarrow> buffer list \<Rightarrow> buffer option \<Rightarrow> ('w dev_state, int option) pcode" where
  "Decompress P qp_id bufs decompressed_buffer =
     (if bufs = [] then total (return None)
      else
      pseq (total (seq (get (\<lambda>s. device_configuration (dev s))) deref)) (\<lambda>c.
      let min_capacity = (length bufs * unat (decompressed_seg_size c)) mod 2 ^ 64 in
      case decompressed_buffer of
        None \<Rightarrow> total (throw (Status CapacityError ''The decompressed_buffer is required to be >= ''))
      | Some b \<Rightarrow>
          if buf_capacity b < min_capacity
          then total (throw (Status CapacityError ''The decompressed_buffer is required to be >= ''))
          else
          pseq (\<lambda>s. Some (EntryGuard (dev s) qp_id, s)) (\<lambda>_.
          pseq (total (get (\<lambda>s. device_id (dev s)))) (\<lambda>dev_id.
          pseq (with_qp_memory (unat qp_id)
                  (decompress_run P c dev_id qp_id bufs (buf_data b) (buf_capacity b)))
            (\<lambda>(_, q). total (return (Some (decompressed_buffer_size q))))))))"

definition CompressDevice_Recycle ::
  "buffer list \<Rightarrow> ('w dev_state, nat) code" where
  "CompressDevice_Recycle bufs = (\<lambda>s.
     case bufs of [] \<Rightarrow> (Inr 0, s)
     | _ \<Rightarrow>
       (case device_mem (dev s) of
          None \<Rightarrow> (Inl (Fault NullDereference), s)
        | Some dm \<Rightarrow>
            (case Recycle bufs (dm, env s) of
               (n, dm, w) \<Rightarrow> (Inr n, s\<lparr>dev := (dev s)\<lparr>device_mem := Some dm\<rparr>, env := w\<rparr>))))"

subsection \<open>The destructor and DeviceManager\<close>

definition close_device :: "('w, 'p) dpdk_scheme \<Rightarrow> ('w dev_state, unit) code" where
  "close_device P =
     seq (get dev) (\<lambda>d.
     seq (if kStarted \<le> device_state d
          then seq (dev_mach (\<lambda>m. ((), rte_compressdev_stop P (device_id d) m))) (\<lambda>_.
               set_state kConfigured)
          else return ()) (\<lambda>_.
     seq (get dev) (\<lambda>d.
     if kConfigured \<le> device_state d
     then seq (dev_mach (\<lambda>m. ((), rte_compressdev_close P (device_id d) m))) (\<lambda>_.
          set_state kUndefined)
     else return ())))"

datatype PCIVendorId = MELLANOX
datatype PCIDeviceId = MELLANOX_CONNECTX6DXBF | MELLANOX_CONNECTX7BF

fun PCIVendorId_integer :: "PCIVendorId \<Rightarrow> u16" where
  "PCIVendorId_integer MELLANOX = 0x15b3"

fun PCIDeviceId_integer :: "PCIDeviceId \<Rightarrow> u16" where
  "PCIDeviceId_integer MELLANOX_CONNECTX6DXBF = 0xa2d6"
| "PCIDeviceId_integer MELLANOX_CONNECTX7BF = 0xa2dc"

text \<open>The general \<open>Create\<close> and its one specialisation.\<close>

fun DeviceManager_Create ::
  "PCIVendorId \<Rightarrow> PCIDeviceId \<Rightarrow> u8 \<Rightarrow> u32 list \<Rightarrow> compress_device result" where
  "DeviceManager_Create MELLANOX MELLANOX_CONNECTX6DXBF dev_id lcores =
     Inr (new_CompressDevice dev_id lcores)"
| "DeviceManager_Create MELLANOX MELLANOX_CONNECTX7BF dev_id lcores =
     Inl (Status NotImplemented ''Unsupported compress device '')"

end
