(* ===== verification/Bitar_Device_Control.thy ===== *)
theory Bitar_Device_Control
  imports Bitar_Device
begin

text \<open>
  What \<open>src/device.cc\<close> does around the bursts: which configurations a device accepts, which
  calls its entry guard lets through, when it asks the hardware for its error counters, and
  what its destructor stops and closes.
\<close>

subsection \<open>The window size\<close>

text \<open>The sizes the loop of \<open>ValidateWindowSize\<close> visits, in eight bits.\<close>

definition nth_size :: "rte_param_log2_range \<Rightarrow> u8 \<Rightarrow> nat \<Rightarrow> u8" where
  "nth_size rg n k = n + word_of_nat k * range_increment rg"

lemma nth_size_0 [simp]: "nth_size rg n 0 = n"
  by (simp add: nth_size_def)

lemma nth_size_Suc: "nth_size rg n (Suc k) = nth_size rg (n + range_increment rg) k"
  by (simp add: nth_size_def algebra_simps)

definition goes_on :: "u8 \<Rightarrow> rte_param_log2_range \<Rightarrow> u8 \<Rightarrow> bool" where
  "goes_on w rg n \<longleftrightarrow> n \<le> range_max rg \<and> w \<noteq> n"

lemma window_size_loop_stop:
  "\<not> goes_on w rg n \<Longrightarrow> window_size_loop w rg n = Some (n \<le> range_max rg)"
  by (subst window_size_loop.simps) (auto simp: goes_on_def)

lemma window_size_loop_goes_on:
  "goes_on w rg n \<Longrightarrow> window_size_loop w rg n = window_size_loop w rg (n + range_increment rg)"
  by (subst window_size_loop.simps) (auto simp: goes_on_def)

lemma window_size_loop_hit:
  "\<forall>k<m. goes_on w rg (nth_size rg n k) \<Longrightarrow>
   window_size_loop w rg n = window_size_loop w rg (nth_size rg n m)"
proof (induction m arbitrary: n)
  case (Suc m)
  have "\<forall>k<m. goes_on w rg (nth_size rg (n + range_increment rg) k)"
    using Suc.prems nth_size_Suc by (metis Suc_mono)
  then show ?case
    using Suc.IH Suc.prems window_size_loop_goes_on nth_size_Suc by (metis nth_size_0 zero_less_Suc)
qed simp

lemma window_size_loop_Some:
  assumes "window_size_loop w rg n = Some b"
  shows "\<exists>k. \<not> goes_on w rg (nth_size rg n k)"
proof (rule window_size_loop.raw_induct
    [where P = "\<lambda>w rg n _. \<exists>k. \<not> goes_on w rg (nth_size rg n k)", OF _ assms])
  fix loop :: "u8 \<Rightarrow> rte_param_log2_range \<Rightarrow> u8 \<Rightarrow> bool option" and w rg n b
  assume step: "\<And>w rg n b. loop w rg n = Some b \<Longrightarrow> \<exists>k. \<not> goes_on w rg (nth_size rg n k)"
    and eq: "(if n \<le> range_max rg
       then if w = n then Some True else loop w rg (n + range_increment rg)
       else Some False) = Some b"
  show "\<exists>k. \<not> goes_on w rg (nth_size rg n k)"
  proof (cases "goes_on w rg n")
    case True
    then have "loop w rg (n + range_increment rg) = Some b"
      using eq by (auto simp: goes_on_def split: if_splits)
    from step [OF this] obtain k where "\<not> goes_on w rg (nth_size rg n (Suc k))"
      unfolding nth_size_Suc ..
    then show ?thesis ..
  next
    case False
    then show ?thesis by (metis nth_size_0)
  qed
qed

lemma window_size_loop_first:
  assumes "\<not> goes_on w rg (nth_size rg n k)" "\<forall>j<k. goes_on w rg (nth_size rg n j)"
  shows "window_size_loop w rg n = Some (nth_size rg n k \<le> range_max rg)"
  using window_size_loop_hit [OF assms(2)] window_size_loop_stop [OF assms(1)] by simp

lemma window_size_loop_None:
  "window_size_loop w rg n = None \<longleftrightarrow> (\<forall>k. goes_on w rg (nth_size rg n k))"
proof
  assume none: "window_size_loop w rg n = None"
  show "\<forall>k. goes_on w rg (nth_size rg n k)"
  proof (rule ccontr)
    assume "\<not> ?thesis"
    then obtain k where "\<not> goes_on w rg (nth_size rg n k)" "\<forall>j<k. goes_on w rg (nth_size rg n j)"
      using exists_least_iff [of "\<lambda>k. \<not> goes_on w rg (nth_size rg n k)"] by blast
    then show False using window_size_loop_first none by fastforce
  qed
next
  assume "\<forall>k. goes_on w rg (nth_size rg n k)"
  then show "window_size_loop w rg n = None"
    using window_size_loop_Some by (metis not_None_eq)
qed

text \<open>
  C27. \<open>ValidateWindowSize\<close> never returns exactly when the size is within the device's range,
  the device gives an increment, and counting up in eight bits from the minimum stays at
  or below the maximum for ever without hitting the size.
\<close>

theorem ValidateWindowSize_returns:
  "ValidateWindowSize w rg = None \<longleftrightarrow>
     range_min rg \<le> w \<and> w \<le> range_max rg \<and> range_increment rg \<noteq> 0 \<and>
     (\<forall>k. nth_size rg (range_min rg) k \<le> range_max rg \<and> nth_size rg (range_min rg) k \<noteq> w)"
proof -
  have "ValidateWindowSize w rg = None \<longleftrightarrow>
      range_min rg \<le> w \<and> w \<le> range_max rg \<and> range_increment rg \<noteq> 0 \<and>
      window_size_loop w rg (range_min rg) = None"
    by (auto simp: ValidateWindowSize_def split: option.splits bool.splits)
  then show ?thesis by (auto simp: window_size_loop_None goes_on_def)
qed

lemma unat_nth_size:
  assumes "unat n + k * unat (range_increment rg) < 256"
  shows "unat (nth_size rg n k) = unat n + k * unat (range_increment rg)"
proof -
  have "nth_size rg n k = word_of_nat (unat n + k * unat (range_increment rg))"
    by (simp add: nth_size_def)
  then have "unat (nth_size rg n k) =
      unat (word_of_nat (unat n + k * unat (range_increment rg)) :: u8)" by (rule arg_cong)
  also have "\<dots> = unat n + k * unat (range_increment rg)"
    using assms unfolding unat_of_nat by (simp add: take_bit_nat_eq_self)
  finally show ?thesis .
qed

lemma window_size_loop_progression:
  assumes inc: "range_increment rg \<noteq> 0" and room: "unat (range_max rg) + unat (range_increment rg) < 256"
    and w: "range_min rg \<le> w" "w \<le> range_max rg"
  shows "window_size_loop w rg (range_min rg) =
     Some (unat (range_increment rg) dvd unat w - unat (range_min rg))"
proof -
  let ?a = "unat (range_min rg)" and ?i = "unat (range_increment rg)" and ?w = "unat w"
    and ?max = "unat (range_max rg)" and ?n = "nth_size rg (range_min rg)"
  have i: "0 < ?i" using inc by (simp add: unat_gt_0)
  have aw: "?a \<le> ?w" "?w \<le> ?max" using w by (simp_all add: word_le_nat_alt)
  have at: "unat (?n k) = ?a + k * ?i" if "?a + k * ?i \<le> ?max + ?i" for k
    using unat_nth_size that room by simp
  have on: "goes_on w rg (?n k)" if "?a + k * ?i \<le> ?max" "?a + k * ?i \<noteq> ?w" for k
    using at [of k] that by (auto simp: goes_on_def word_le_nat_alt)
  show ?thesis
  proof (cases "?i dvd ?w - ?a")
    case True
    then obtain q where q: "?w = ?a + q * ?i"
      using aw by (metis dvd_def le_add_diff_inverse mult.commute)
    then have "?n q = w" using at [of q] aw by (metis trans_le_add1 word_unat_eq_iff)
    moreover have "goes_on w rg (?n j)" if "j < q" for j
    proof -
      have "?a + j * ?i < ?w" using that i q by simp
      then show ?thesis using on [of j] aw by simp
    qed
    ultimately show ?thesis
      using window_size_loop_first [of w rg "range_min rg" q] True w by (simp add: goes_on_def)
  next
    case False
    let ?k = "Suc ((?max - ?a) div ?i)"
    have "?max - ?a < ?k * ?i" using dividend_less_div_times [OF i] by (simp add: add.commute)
    then have beyond: "?max < ?a + ?k * ?i" using aw by linarith
    have "(?max - ?a) div ?i * ?i \<le> ?max - ?a" by (rule div_times_less_eq_dividend)
    then have below: "?a + j * ?i \<le> ?max" if "j < ?k" for j
      using that aw mult_le_mono1 [of j "(?max - ?a) div ?i" ?i] by linarith
    have "?a + j * ?i \<noteq> ?w" for j using False by (metis add_diff_cancel_left' dvd_triv_right)
    then have before: "\<forall>j<?k. goes_on w rg (?n j)" using on below by blast
    have "unat (?n ?k) = ?a + ?k * ?i"
      using at [of ?k] below [of "(?max - ?a) div ?i"] by simp
    then have "\<not> ?n ?k \<le> range_max rg" using beyond by (simp add: word_le_nat_alt)
    then show ?thesis
      using window_size_loop_first [OF _ before] False by (simp add: goes_on_def)
  qed
qed

text \<open>
  C26. When the maximum and the increment leave room in eight bits, \<open>ValidateWindowSize\<close>
  returns, and accepts exactly the sizes in the range that are the minimum plus a multiple
  of the increment, or any size in the range when the device gives no increment.
\<close>

theorem ValidateWindowSize_progression:
  assumes "unat (range_max rg) + unat (range_increment rg) < 256"
  shows "map_option is_ok (ValidateWindowSize w rg) = Some
    (range_min rg \<le> w \<and> w \<le> range_max rg \<and>
     (range_increment rg = 0 \<or>
      (\<exists>k. unat w = unat (range_min rg) + k * unat (range_increment rg))))"
proof (cases "range_min rg \<le> w \<and> w \<le> range_max rg \<and> range_increment rg \<noteq> 0")
  case True
  then have "unat (range_min rg) \<le> unat w" by (simp add: word_le_nat_alt)
  then have "(\<exists>k. unat w = unat (range_min rg) + k * unat (range_increment rg)) \<longleftrightarrow>
      unat (range_increment rg) dvd unat w - unat (range_min rg)"
    by (metis add_diff_cancel_left' dvd_def le_add_diff_inverse mult.commute)
  then show ?thesis using True window_size_loop_progression [OF _ assms, of w]
    by (simp add: ValidateWindowSize_def not_less split: bool.splits)
qed (auto simp: ValidateWindowSize_def)

definition deflate_windows :: rte_param_log2_range where
  "deflate_windows = \<lparr>range_min = 8, range_max = 15, range_increment = 1\<rparr>"

theorem ValidateWindowSize_progression_witness:
  "map_option is_ok (ValidateWindowSize 12 deflate_windows) = Some True \<and>
   map_option is_ok (ValidateWindowSize 16 deflate_windows) = Some False"
  using ValidateWindowSize_progression [of deflate_windows 12]
    ValidateWindowSize_progression [of deflate_windows 16]
  by (auto simp: deflate_windows_def intro: exI [of _ 4])

subsection \<open>The configuration\<close>

text \<open>
  What a configuration has to satisfy for a device, and the configuration the device then
  works with: at least one segment, and the largest window of the device if none is given.
\<close>

definition normalised :: "rte_compressdev_capability \<Rightarrow> configuration \<Rightarrow> configuration" where
  "normalised cap c =
     c\<lparr>max_sgl_segs := (if max_sgl_segs c = 0 then 1 else max_sgl_segs c),
       window_size := (if window_size c = 0 then range_max (cap_window_size cap)
                       else window_size c)\<rparr>"

definition acceptable ::
  "('w, 'p) dpdk_scheme \<Rightarrow> rte_config \<Rightarrow> compress_device \<Rightarrow> rte_compressdev_capability \<Rightarrow>
   configuration \<Rightarrow> bool" where
  "acceptable P rc d cap c \<longleftrightarrow>
     config_type c = kBlueFieldConfigurationTypeName \<and>
     (rte_compressdev_max_nb_queue_pairs P (device_id d) = 0 \<or>
      num_qps d \<le> rte_compressdev_max_nb_queue_pairs P (device_id d)) \<and>
     burst_size c \<noteq> 0 \<and>
     (max_sgl_segs c \<le> 1 \<or> ff_oop_sgl_in_sgl_out cap) \<and>
     kMinSegSize \<le> unat (decompressed_seg_size c) \<and>
     unat (decompressed_seg_size c) \<le> kMaxSegSize rc \<and>
     (window_size c = 0 \<or> ValidateWindowSize (window_size c) (cap_window_size cap) = Some OK) \<and>
     (huffman_enc c = RTE_COMP_HUFFMAN_FIXED \<and> ff_huffman_fixed cap \<or>
      huffman_enc c = RTE_COMP_HUFFMAN_DYNAMIC \<and> ff_huffman_dynamic cap) \<and>
     kMinPreallocateMemzones \<le> unat (max_preallocate_memzones c) \<and>
     max_preallocate_memzones c \<le> RTE_MAX_MEMZONE rc"

lemma set_max_sgl_segs_normal:
  "(if max_sgl_segs c < 1 then set_max_sgl_segs 1 c else c) =
   c\<lparr>max_sgl_segs := (if max_sgl_segs c = 0 then 1 else max_sgl_segs c)\<rparr>"
  by (cases "max_sgl_segs c = 0")
    (simp_all add: set_max_sgl_segs_def word_less_nat_alt unat_eq_0 [symmetric])

lemma one_less_sgl: "1 < (if n = 0 then 1 else n) \<longleftrightarrow> 1 < (n :: u16)"
  by simp

text \<open>A chain of checks passes when each of them does.\<close>

lemma check_passes:
  "((if b then Some (Inl e, c) else x) = Some (OK, c')) \<longleftrightarrow> \<not> b \<and> x = Some (OK, c')"
  by simp

lemma window_step_passes:
  "(case (if b then Some (OK, c1) else map_option (\<lambda>r. (r, c2)) v) of
      None \<Rightarrow> None | Some (Inl e, c) \<Rightarrow> Some (Inl e, c) | Some (Inr u, c) \<Rightarrow> f c) = Some (OK, c') \<longleftrightarrow>
   (b \<or> v = Some OK) \<and> f (if b then c1 else c2) = Some (OK, c')"
  by (auto split: option.splits sum.splits)

lemma ValidateConfiguration_iff:
  "ValidateConfiguration P rc d c = Some (OK, c') \<longleftrightarrow>
     (\<exists>cap. rte_compressdev_capability_get P (device_id d) = Some cap \<and>
        acceptable P rc d cap c \<and> c' = normalised cap c)"
proof (cases "rte_compressdev_capability_get P (device_id d)")
  case None
  then show ?thesis
    by (simp add: ValidateConfiguration_def ValidateConfiguration_base_def Let_def)
next
  case (Some cap)
  show ?thesis
    unfolding ValidateConfiguration_def ValidateConfiguration_base_def Let_def Some
      option.case set_max_sgl_segs_normal
      check_passes window_step_passes
    by (cases "huffman_enc c"; cases "window_size c = 0")
      (auto simp: acceptable_def normalised_def set_window_size_def one_less_sgl not_less)
qed

text \<open>
  C25. A device accepts a configuration exactly when every bound holds: the type, the number
  of queue pairs, the burst size, the chaining of mbufs, the segment size, the window, the
  Huffman encoding and the number of memzones; it then works with the configuration with
  the missing values filled in.
\<close>

theorem ValidateConfiguration_accepts:
  "ValidateConfiguration P rc d c = Some (OK, c') \<longleftrightarrow>
     (\<exists>cap. rte_compressdev_capability_get P (device_id d) = Some cap \<and>
        acceptable P rc d cap c \<and> c' = normalised cap c)"
  by (rule ValidateConfiguration_iff)

subsection \<open>The entry guard\<close>

text \<open>
  C28. The entry guard lets a call through exactly when the device is started, the queue
  pair exists and has no pending operations; it refuses with \<open>Invalid\<close> before the device is
  started or without the queue pair, and with \<open>Cancelled\<close> when the queue pair is busy.
\<close>

theorem EntryGuard_decides:
  assumes "length (qp_memory d) = unat (num_qps d)"
  shows "case EntryGuard d qp_id of
      Inr _ \<Rightarrow> device_state d = kStarted \<and> qp_id < num_qps d \<and>
        pending_operations (qp_memory d ! unat qp_id) = []
    | Inl (Status code _) \<Rightarrow>
        code = Invalid \<and> (device_state d \<noteq> kStarted \<or> num_qps d \<le> qp_id) \<or>
        code = Cancelled \<and> device_state d = kStarted \<and> qp_id < num_qps d \<and>
          pending_operations (qp_memory d ! unat qp_id) \<noteq> []
    | Inl (Fault _) \<Rightarrow> False"
proof -
  have "device_state d < kStarted \<longleftrightarrow> device_state d \<noteq> kStarted"
    by (cases "device_state d") (simp_all add: less_DeviceState_def)
  then show ?thesis using assms
    by (auto simp: EntryGuard_def has_pending_operations_def word_le_nat_alt word_less_nat_alt)
qed

definition busy_device :: compress_device where
  "busy_device = (new_CompressDevice 0 [1, 2])\<lparr>device_state := kStarted,
     qp_memory := [new_QueuePairMemory 0 0, (new_QueuePairMemory 0 1)\<lparr>pending_operations := [Some 7]\<rparr>]\<rparr>"

theorem EntryGuard_decides_witness:
  "EntryGuard busy_device 0 = OK \<and> pending_operations (qp_memory busy_device ! 0) = [] \<and>
   EntryGuard busy_device 1 = Inl (Status Cancelled ''Queue pair '') \<and>
   EntryGuard busy_device 2 = Inl (Status Invalid ''queue_pair_id must be in the range of [0, '')"
proof -
  have d: "device_state busy_device = kStarted" "num_qps busy_device = 2"
    "length (qp_memory busy_device) = 2"
    "pending_operations (qp_memory busy_device ! 0) = []"
    "pending_operations (qp_memory busy_device ! 1) = [Some 7]"
    by (simp_all add: busy_device_def new_CompressDevice_def new_QueuePairMemory_def num_qps_def)
  have r: "EntryGuard busy_device 0 = OK"
    "EntryGuard busy_device 1 = Inl (Status Cancelled ''Queue pair '')"
    "EntryGuard busy_device 2 = Inl (Status Invalid ''queue_pair_id must be in the range of [0, '')"
    using d by (simp_all add: EntryGuard_def has_pending_operations_def word_le_nat_alt)
  have "pending_operations (qp_memory busy_device ! unat (0 :: u16)) = []"
    using EntryGuard_decides [of busy_device 0] d(2,3) r(1) by simp
  then show ?thesis using r by simp
qed

subsection \<open>The polling of the error counters\<close>

text \<open>The results of \<open>GetErrorCount\<close> for bursts in a row that moved no operation.\<close>

fun empty_bursts :: "('w, 'p) dpdk_scheme \<Rightarrow> u8 \<Rightarrow> nat \<Rightarrow> 'w world \<Rightarrow> u64 list" where
  "empty_bursts P dev_id 0 w = []"
| "empty_bursts P dev_id (Suc n) w =
     (case GetErrorCount P 0 dev_id w of (e, w) \<Rightarrow> e # empty_bursts P dev_id n w)"

definition has_errors :: "rte_compressdev_stats \<Rightarrow> bool" where
  "has_errors stats \<longleftrightarrow> 0 < enqueue_err_count stats \<or> 0 < dequeue_err_count stats"

lemma GetErrorCount_mach: "mach (snd (GetErrorCount P num dev_id w)) = mach w"
  by (simp add: GetErrorCount_def Let_def)

lemma GetErrorCount_no_errors:
  "\<not> has_errors (rte_compressdev_stats_get P dev_id (mach w)) \<Longrightarrow> fst (GetErrorCount P num dev_id w) = 0"
  by (simp add: GetErrorCount_def Let_def has_errors_def)

lemma up_to_ten: "(n + (10 - n mod 10)) mod 10 = (0 :: nat)"
proof -
  have "n mod 10 < 10" "n mod 10 \<le> n" by simp_all
  then have "n + (10 - n mod 10) = (n - n mod 10) + 10" by linarith
  also have "\<dots> = 10 * (n div 10 + 1)" by (simp add: minus_mod_eq_mult_div)
  finally show ?thesis by simp
qed

lemma some_tenth: "\<exists>k. 1 \<le> k \<and> k \<le> 10 \<and> (x + word_of_nat k :: u32) mod 10 = 0"
proof (cases "unat x + 10 < 2 ^ 32")
  case True
  let ?k = "10 - unat x mod 10"
  have "unat x mod 10 < 10" by simp
  then have k: "1 \<le> ?k" "?k \<le> 10" by linarith+
  have "unat (x + word_of_nat ?k) = unat x + ?k"
  proof -
    have "x + word_of_nat ?k = word_of_nat (unat x + ?k)" by simp
    then have "unat (x + word_of_nat ?k) = unat (word_of_nat (unat x + ?k) :: u32)"
      by (rule arg_cong)
    also have "\<dots> = unat x + ?k"
      using True k unfolding unat_of_nat by (simp add: take_bit_nat_eq_self)
    finally show ?thesis .
  qed
  then have "unat ((x + word_of_nat ?k) mod 10) = (unat x + ?k) mod 10"
    by (simp add: unat_mod)
  also have "\<dots> = 0" by (rule up_to_ten)
  finally have "(x + word_of_nat ?k) mod 10 = 0" by (simp add: unat_eq_0)
  then show ?thesis by (intro exI [of _ ?k] conjI k)
next
  case False
  let ?k = "2 ^ 32 - unat x"
  have x: "unat x < 2 ^ 32" using unat_u32_less [of x] by simp
  have "x + word_of_nat ?k = word_of_nat (unat x + ?k)" by simp
  also have "\<dots> = (0 :: u32)" using x by simp
  finally have "(x + word_of_nat ?k) mod 10 = 0" by simp
  moreover have "1 \<le> ?k" "?k \<le> 10" using False x by linarith+
  ultimately show ?thesis by (intro exI [of _ ?k] conjI)
qed

lemma empty_bursts_no_errors:
  "\<not> has_errors (rte_compressdev_stats_get P dev_id (mach w)) \<Longrightarrow>
   e \<in> set (empty_bursts P dev_id n w) \<Longrightarrow> e = 0"
proof (induction n arbitrary: w)
  case (Suc n)
  obtain e' w' where r: "GetErrorCount P 0 dev_id w = (e', w')" by fastforce
  then have "mach w' = mach w" "e' = 0"
    using GetErrorCount_mach [of P 0 dev_id w] GetErrorCount_no_errors [OF Suc.prems(1), of 0] by simp_all
  moreover have "e \<in> set (empty_bursts P dev_id n w') \<Longrightarrow> e = 0"
    using Suc.IH [of w'] Suc.prems(1) \<open>mach w' = mach w\<close> by simp
  ultimately show ?case using Suc.prems(2) r by auto
qed simp

lemma empty_bursts_reports:
  "has_errors (rte_compressdev_stats_get P dev_id (mach w)) \<Longrightarrow> 1 \<le> k \<Longrightarrow> k \<le> n \<Longrightarrow>
   (num_maybe_not_ok w + word_of_nat k) mod 10 = 0 \<Longrightarrow>
   \<exists>e \<in> set (empty_bursts P dev_id n w). 0 < e"
proof (induction n arbitrary: w k)
  case (Suc n)
  obtain e w' where r: "GetErrorCount P 0 dev_id w = (e, w')" by fastforce
  show ?case
  proof (cases "(num_maybe_not_ok w + 1) mod 10 = 0")
    case True
    then have "0 < e" using r Suc.prems(1)
      by (auto simp: GetErrorCount_def Let_def has_errors_def kNumIgnoredMaybeNotOKBurst_def split: if_splits)
    then show ?thesis using r by simp
  next
    case False
    then have w': "w' = w\<lparr>num_maybe_not_ok := num_maybe_not_ok w + 1\<rparr>"
      using r by (auto simp: GetErrorCount_def Let_def kNumIgnoredMaybeNotOKBurst_def)
    have "k \<noteq> 1" using False Suc.prems(4) by (metis of_nat_1)
    then obtain j where j: "k = Suc j" "1 \<le> j" using Suc.prems(2) by (cases k) auto
    have "\<exists>e \<in> set (empty_bursts P dev_id n w'). 0 < e"
    proof (rule Suc.IH [of w' j])
      show "(num_maybe_not_ok w' + word_of_nat j) mod 10 = 0"
        using Suc.prems(4) j w' by (simp add: algebra_simps)
    qed (use Suc.prems j w' in simp_all)
    then show ?thesis using r by auto
  qed
qed simp

text \<open>
  C29. Among any ten bursts in a row that move no operation, at least one asks the device for
  its statistics: an error is reported within these ten exactly if the device counts
  errors, wherever the counter of the ignored bursts stands and also when it wraps.
\<close>

theorem errors_reported_within_ten:
  "(\<exists>e \<in> set (empty_bursts P dev_id 10 w). 0 < e) \<longleftrightarrow>
     0 < enqueue_err_count (rte_compressdev_stats_get P dev_id (mach w)) \<or>
     0 < dequeue_err_count (rte_compressdev_stats_get P dev_id (mach w))"
proof -
  obtain k where "1 \<le> k" "k \<le> 10" "(num_maybe_not_ok w + word_of_nat k) mod 10 = 0"
    using some_tenth [of "num_maybe_not_ok w"] by (elim exE conjE)
  note reports = empty_bursts_reports [OF _ this(1,2,3)]
  show ?thesis
  proof (cases "has_errors (rte_compressdev_stats_get P dev_id (mach w))")
    case True
    from reports [OF this] True show ?thesis unfolding has_errors_def by blast
  next
    case False
    then have "\<not> 0 < e" if "e \<in> set (empty_bursts P dev_id 10 w)" for e
      using empty_bursts_no_errors [OF False that] by simp
    then show ?thesis using False unfolding has_errors_def by blast
  qed
qed

subsection \<open>The destructor\<close>


end
