(* ===== verification/Bitar_Assembly.thy ===== *)
theory Bitar_Assembly
  imports Bitar_Device
begin

text \<open>
  What the assemblers of \<open>Bitar_QP_Memory\<close> build, for operations over one source and one
  destination mbuf (\<open>max_sgl_segs\<close> 1, the default of the configuration): which mbufs are
  attached to which operation, over which bytes, and what stays as it was.
\<close>

subsection \<open>One mbuf over external bytes\<close>

definition data_mbuf :: "addr \<Rightarrow> nat \<Rightarrow> shinfo_ptr \<Rightarrow> mbuf \<Rightarrow> bool" where
  "data_mbuf a len sh b \<longleftrightarrow> buf_addr b = a \<and> data_off b = 0 \<and> data_len b = len \<and>
     pkt_len b = len \<and> next_seg b = None \<and> shinfo b = Some sh"

lemma attach_law:
  assumes "mbuf_laws P"
  shows "mbufs (rte_pktmbuf_attach_extbuf P b a iova len sh m) =
      (mbufs m)(b := (mbufs m b)\<lparr>buf_addr := a, buf_len := unat len, data_off := 0,
          data_len := 0, shinfo := Some sh\<rparr>)"
    and "ops (rte_pktmbuf_attach_extbuf P b a iova len sh m) = ops m"
    and "same_objects P m (rte_pktmbuf_attach_extbuf P b a iova len sh m)"
  using assms [unfolded mbuf_laws_def Let_def, THEN conjunct1, rule_format, of b a iova len sh m]
  by auto

lemma refcnt_law:
  assumes "mbuf_laws P"
  shows "mbufs (rte_mbuf_ext_refcnt_update P sh k m) = mbufs m"
    and "ops (rte_mbuf_ext_refcnt_update P sh k m) = ops m"
    and "same_objects P m (rte_mbuf_ext_refcnt_update P sh k m)"
  using assms [unfolded mbuf_laws_def Let_def, THEN conjunct2, THEN conjunct1, rule_format, of sh k m]
  by auto

lemma append_law:
  assumes "mbuf_laws P" "next_seg (mbufs m b) = None" "rte_pktmbuf_append P b len m = (p, m')"
    and "data_off (mbufs m b) + data_len (mbufs m b) + unat len \<le> buf_len (mbufs m b)"
  shows "p \<noteq> None" "ops m' = ops m" "same_objects P m m'"
    "mbufs m' = (mbufs m)(b := (mbufs m b)
        \<lparr>data_len := data_len (mbufs m b) + unat len, pkt_len := pkt_len (mbufs m b) + unat len\<rparr>)"
  using assms(1) [unfolded mbuf_laws_def Let_def, THEN conjunct2, THEN conjunct2, THEN conjunct1,
      rule_format, OF assms(2,3)] assms(4)
  by auto

lemma same_memory_trans:
  "same_memory P m m' \<Longrightarrow> same_memory P m' m'' \<Longrightarrow> same_memory P m m''"
  by (simp add: same_memory_def)

lemma same_objects_trans:
  "same_objects P m m' \<Longrightarrow> same_objects P m' m'' \<Longrightarrow> same_objects P m m''"
  by (simp add: same_objects_def same_memory_def)

lemma same_objects_upd [simp]:
  "same_objects P m (m'\<lparr>ops := x\<rparr>) = same_objects P m m'"
  "same_objects P m (m'\<lparr>mbufs := y\<rparr>) = same_objects P m m'"
  "same_objects P (m\<lparr>ops := x\<rparr>) m' = same_objects P m m'"
  "same_objects P m m"
  by (simp_all add: same_objects_def same_memory_def)

lemma attach_and_append_fresh:
  assumes "mbuf_laws P" "fresh_mbuf (mbufs m b)"
  obtains m' where "attach_and_append P b a iova len sh m = (SC_OK, m')"
    "data_mbuf a (unat len) sh (mbufs m' b)" "\<forall>x. x \<noteq> b \<longrightarrow> mbufs m' x = mbufs m x"
    "ops m' = ops m" "same_objects P m m'"
proof -
  let ?m = "rte_mbuf_ext_refcnt_update P sh 1 (rte_pktmbuf_attach_extbuf P b a iova len sh m)"
  obtain p m' where r: "rte_pktmbuf_append P b len ?m = (p, m')" by fastforce
  have mb: "mbufs ?m = (mbufs m)(b := (mbufs m b)\<lparr>buf_addr := a, buf_len := unat len, data_off := 0,
          data_len := 0, shinfo := Some sh\<rparr>)" and op: "ops ?m = ops m" "same_objects P m ?m"
    using attach_law [OF assms(1)] refcnt_law [OF assms(1)] same_objects_trans by metis+
  have "next_seg (mbufs ?m b) = None" "data_off (mbufs ?m b) + data_len (mbufs ?m b) + unat len \<le> buf_len (mbufs ?m b)"
    using assms(2) by (simp_all add: mb fresh_mbuf_def)
  note A = append_law [OF assms(1) this(1) r this(2)]
  show ?thesis
  proof (rule that [of m'])
    show "attach_and_append P b a iova len sh m = (SC_OK, m')"
      using r A(1) by (auto simp: attach_and_append_def Let_def)
    show "data_mbuf a (unat len) sh (mbufs m' b)"
      using assms(2) by (simp add: A(4) mb data_mbuf_def fresh_mbuf_def)
    show "\<forall>x. x \<noteq> b \<longrightarrow> mbufs m' x = mbufs m x" by (simp add: A(4) mb)
    show "ops m' = ops m" by (simp add: A(2) op)
    show "same_objects P m m'" using op(2) A(3) by (rule same_objects_trans)
  qed
qed

abbreviation on_world :: "('w machine \<Rightarrow> 'w machine) \<Rightarrow> 'w qp_state \<Rightarrow> 'w qp_state" where
  "on_world f s \<equiv> s\<lparr>wld := (wld s)\<lparr>mach := f (mach (wld s))\<rparr>\<rparr>"

lemma AppendData_fresh:
  assumes "mbuf_laws P" "fresh_mbuf (mbufs m b)" "mbuf_of fld (ops m j) = None"
  obtains m' where "AppendData P fld j b a iova len sh m = (SC_OK, m')"
    "data_mbuf a (unat len) sh (mbufs m' b)" "\<forall>x. x \<noteq> b \<longrightarrow> mbufs m' x = mbufs m x"
    "ops m' = (ops m)(j := set_mbuf_of fld b (ops m j))" "same_objects P m m'"
proof -
  let ?m = "m\<lparr>ops := (ops m)(j := set_mbuf_of fld b (ops m j))\<rparr>"
  have "fresh_mbuf (mbufs ?m b)" using assms(2) by simp
  from attach_and_append_fresh [OF assms(1) this, of a iova len sh]
  obtain m' where "attach_and_append P b a iova len sh ?m = (SC_OK, m')"
    "data_mbuf a (unat len) sh (mbufs m' b)" "\<forall>x. x \<noteq> b \<longrightarrow> mbufs m' x = mbufs m x"
    "ops m' = ops ?m" "same_objects P m m'" by auto
  then show ?thesis using that assms(3) by (simp add: AppendData_def)
qed

text \<open>The elements of the arrays from an index on.\<close>

definition array_has :: "'a option list option \<Rightarrow> nat \<Rightarrow> 'a list \<Rightarrow> bool" where
  "array_has arr i xs \<longleftrightarrow> (\<exists>os. arr = Some os \<and> i + length xs \<le> length os \<and>
     take (length xs) (drop i os) = map Some xs)"

lemma array_has_nth:
  "array_has arr i xs \<Longrightarrow> k < length xs \<Longrightarrow>
   \<exists>os. arr = Some os \<and> i + k < length os \<and> os ! (i + k) = Some (xs ! k)"
proof -
  assume "array_has arr i xs" and k: "k < length xs"
  then obtain os where os: "arr = Some os" "i + length xs \<le> length os"
    "take (length xs) (drop i os) = map Some xs" by (auto simp: array_has_def)
  have "take (length xs) (drop i os) ! k = os ! (i + k)" using k os(2) by simp
  then show ?thesis using os k by auto
qed

lemma array_has_tl: "array_has arr i (x # xs) \<Longrightarrow> array_has arr (Suc i) xs"
  unfolding array_has_def
proof (elim exE conjE, intro exI conjI)
  fix os assume os: "arr = Some os" "i + length (x # xs) \<le> length os"
    "take (length (x # xs)) (drop i os) = map Some (x # xs)"
  show "arr = Some os" "Suc i + length xs \<le> length os" using os by simp_all
  have "drop (Suc i) os = tl (drop i os)" by (simp add: drop_Suc tl_drop)
  then show "take (length xs) (drop (Suc i) os) = map Some xs"
    using os(3) by (cases "drop i os") simp_all
qed

lemma wp_operation_at:
  "array_has (operations (qp s)) i xs \<Longrightarrow> k < length xs \<Longrightarrow>
   wp (operation_at (i + k)) Q E s = Q (Some (xs ! k)) s"
  using array_has_nth [of "operations (qp s)" i xs k] by (auto simp: operation_at_def)

lemma wp_mbuf_at:
  "array_has (mbuf_array (qp s)) i xs \<Longrightarrow> k < length xs \<Longrightarrow>
   wp (mbuf_at (i + k)) Q E s = Q (Some (xs ! k)) s"
  using array_has_nth [of "mbuf_array (qp s)" i xs k] by (auto simp: mbuf_at_def)

lemma append_to_fresh:
  assumes "mbuf_laws P" "array_has (mbuf_array (qp s)) i (b # bs)"
    and "fresh_mbuf (mbufs (mach (wld s)) b)" "mbuf_of fld (ops (mach (wld s)) j) = None"
  obtains m where "append_to P fld (Some j) i a iova len (Some sh) s =
      (OK, s\<lparr>wld := (wld s)\<lparr>mach := m\<rparr>\<rparr>)"
    "data_mbuf a (unat len) sh (mbufs m b)" "\<forall>x. x \<noteq> b \<longrightarrow> mbufs m x = mbufs (mach (wld s)) x"
    "ops m = (ops (mach (wld s)))(j := set_mbuf_of fld b (ops (mach (wld s)) j))"
    "same_objects P (mach (wld s)) m"
proof -
  obtain m where m: "AppendData P fld j b a iova len sh (mach (wld s)) = (SC_OK, m)"
    "data_mbuf a (unat len) sh (mbufs m b)" "\<forall>x. x \<noteq> b \<longrightarrow> mbufs m x = mbufs (mach (wld s)) x"
    "ops m = (ops (mach (wld s)))(j := set_mbuf_of fld b (ops (mach (wld s)) j))"
    "same_objects P (mach (wld s)) m"
    by (rule AppendData_fresh [OF assms(1,3,4)]) (rule that)
  obtain xs where "mbuf_array (qp s) = Some xs" "i < length xs" "xs ! i = Some b"
    using array_has_nth [OF assms(2), of 0] by auto
  then have "append_to P fld (Some j) i a iova len (Some sh) s =
      (OK, s\<lparr>wld := (wld s)\<lparr>mach := m\<rparr>\<rparr>)"
    using m(1) by (simp add: append_to_def mbuf_at_def on_mach_def not_ok_returns_def seq_def)
  then show ?thesis using that m(2-5) by blast
qed

subsection \<open>What taking a memzone leaves alone\<close>

text \<open>
  From \<open>w\<close> to \<open>w'\<close> only bytes of \<open>A\<close> have changed, the pools and queue pairs are as they were,
  and every tracked memzone is still tracked.
\<close>

definition mem_step ::
  "('w, 'p) dpdk_scheme \<Rightarrow> addr set \<Rightarrow> 'w world \<Rightarrow> 'w world \<Rightarrow> bool" where
  "mem_step P A w w' \<longleftrightarrow> (\<forall>a. a \<notin> A \<longrightarrow> bytes (mach w') a = bytes (mach w) a) \<and>
     same_queues P (mach w) (mach w') \<and>
     (\<forall>a z. allocated_memzones w a = Some z \<longrightarrow> allocated_memzones w' a = Some z)"

lemma mem_step_refl [simp]: "mem_step P A w w"
  by (simp add: mem_step_def same_queues_def)

lemma mem_step_trans: "mem_step P A w w' \<Longrightarrow> mem_step P B w' w'' \<Longrightarrow> mem_step P (A \<union> B) w w''"
  by (simp add: mem_step_def same_queues_def)

lemma mem_step_weaken: "mem_step P A w w' \<Longrightarrow> A \<subseteq> B \<Longrightarrow> mem_step P B w w'"
  by (auto simp: mem_step_def)

lemma mem_step_same_objects:
  "same_objects P (mach w) m \<Longrightarrow> mem_step P A w (w\<lparr>mach := m\<rparr>)"
  by (simp add: mem_step_def same_objects_def same_memory_def same_queues_def)

lemma dm_ok_same_objects:
  assumes "dm_ok P c (d, w)" "live_zones P (hidden m) = live_zones P (hidden (mach w))"
  shows "dm_ok P c (d, w\<lparr>mach := m\<rparr>)"
proof -
  have "mz_ok P (w\<lparr>mach := m\<rparr>)" using assms by (simp add: dm_ok_def mz_ok_def)
  then show ?thesis using dm_same(1) [of P "w\<lparr>mach := m\<rparr>" w c d] assms(1) by simp
qed

text \<open>Taking a memzone besides leaves the mbufs and operations alone.\<close>

definition zone_step ::
  "('w, 'p) dpdk_scheme \<Rightarrow> addr set \<Rightarrow> 'w world \<Rightarrow> 'w world \<Rightarrow> bool" where
  "zone_step P A w w' \<longleftrightarrow> mem_step P A w w' \<and> mbufs (mach w') = mbufs (mach w) \<and>
     ops (mach w') = ops (mach w)"

lemma AllocateOne_cases:
  fixes P :: "('w, 'p) dpdk_memory_scheme"
  assumes "0 < sz" "rte_memzone_reserve_aligned P (unat sz) 64 (mach w) = (y, m)"
  shows "AllocateOne P sz w = (case y of
      None \<Rightarrow> (Inl (Status OutOfMemory ''Reserving memzone of ''), w\<lparr>mach := m\<rparr>)
    | Some z \<Rightarrow>
        if \<not> NDEBUG P \<and> mz_addr z = nullptr
        then (Inl (Fault CheckFailed), tracker_Emplace (mz_addr z) z (w\<lparr>mach := m\<rparr>))
        else
          (let w1 = tracker_Emplace (mz_addr z) z (w\<lparr>mach := m\<rparr>);
               w2 = (if NDEBUG P then w1
                     else write_byte (mz_addr z + nat (uint sz - 1)) kAllocPoison
                            (write_byte (mz_addr z) kAllocPoison w1))
           in (Inr (allocated_memzones w1 (mz_addr z)), UpdateAllocatedBytes Rtememzone (uint sz) False w2)))"
proof -
  have s: "\<not> uint sz < 0" "\<not> 2 ^ 64 - 1 \<le> uint sz" "uint sz \<noteq> 0" "0 < uint sz"
    using uint_u16 [of sz] assms(1) by auto
  have n: "nat (uint sz mod 2 ^ 64) = unat sz" "nat (kDefaultBufferAlignment mod 2 ^ 32) = 64"
    using uint_u16 [of sz] by (simp_all add: kDefaultBufferAlignment_def)
  have "memzone_AllocateAligned P (uint sz) kDefaultBufferAlignment nullptr w = (case y of
      None \<Rightarrow> (Inl (Status OutOfMemory ''Reserving memzone of ''), nullptr, w\<lparr>mach := m\<rparr>)
    | Some z \<Rightarrow> (OK, mz_addr z, tracker_Emplace (mz_addr z) z (w\<lparr>mach := m\<rparr>)))"
    unfolding memzone_AllocateAligned_def n assms(2) using s(3) by simp
  then show ?thesis
    unfolding AllocateOne_def pool_Allocate_def RtememzoneMemoryPool_sel
    using s by (cases y) (simp_all add: Let_def tracker_Of_def UpdateAllocatedBytes_def)
qed

lemma AllocateOne_frame:
  assumes "mz_ok P w" "zone_frame_laws P" "0 < sz" "AllocateOne P sz w = (r, w')"
  shows "case r of Inr (Some z) \<Rightarrow> zone_step P (zone_bytes z) w w' | _ \<Rightarrow> zone_step P {} w w'"
proof -
  obtain y m where r: "rte_memzone_reserve_aligned P (unat sz) 64 (mach w) = (y, m)" by fastforce
  have q: "same_queues P (mach w) m"
    using assms(2) r unfolding zone_frame_laws_def by (metis snd_conv)
  have sz: "0 < unat sz" using assms(3) by (simp add: unat_gt_0)
  show ?thesis
  proof (cases y)
    case None
    have "memzone_laws P" using assms(1) by (simp add: mz_ok_def)
    then have "same_outside {} (mach w) m"
      using memzone_reserve_none r None by blast
    then show ?thesis using AllocateOne_cases [OF assms(3) r] assms(4) None q
      by (auto simp: zone_step_def mem_step_def same_outside_def)
  next
    case (Some z)
    note Z = mz_reserve_ok [OF assms(1) sz r [unfolded Some]]
    let ?w1 = "tracker_Emplace (mz_addr z) z (w\<lparr>mach := m\<rparr>)"
    have w1: "?w1 = w\<lparr>mach := m, allocated_memzones := (allocated_memzones w)(mz_addr z \<mapsto> z)\<rparr>"
      using Z(1) by (simp add: tracker_Emplace_def)
    have "mz_addr z \<noteq> nullptr" using mz_ok_tracked(2) [OF Z(2), of "mz_addr z" z] Z(3) by simp
    then have eq: "r = Inr (Some z)" "w' = UpdateAllocatedBytes Rtememzone (uint sz) False
        (if NDEBUG P then ?w1
         else write_byte (mz_addr z + nat (uint sz - 1)) kAllocPoison
                (write_byte (mz_addr z) kAllocPoison ?w1))"
      using AllocateOne_cases [OF assms(3) r] assms(4) Some Z(3) by (auto simp: Let_def)
    have "nat (uint sz - 1) < mz_len z" "0 < mz_len z"
      using Z(4) sz uint_u16(2) [of sz] by linarith+
    then have "mz_addr z \<in> zone_bytes z" "mz_addr z + nat (uint sz - 1) \<in> zone_bytes z"
      by (auto simp: zone_bytes_def)
    then have "same_outside (zone_bytes z) (mach w) (mach w')"
      using Z(5) unfolding eq(2) w1 by (auto simp: same_outside_def UpdateAllocatedBytes_def write_byte_def)
    moreover have "same_queues P (mach w) (mach w')"
      using q unfolding eq(2) w1 by (simp add: same_queues_def UpdateAllocatedBytes_def write_byte_def)
    moreover have "allocated_memzones w' = (allocated_memzones w)(mz_addr z \<mapsto> z)"
      unfolding eq(2) w1 by (simp add: UpdateAllocatedBytes_def)
    ultimately show ?thesis using Z(1) by (auto simp: eq(1) zone_step_def mem_step_def same_outside_def)
  qed
qed

lemma Take_none_zones:
  assumes "dm_ok P c (d, w)" "Take P c d w = (Inr None, d', w')"
  shows "live_zones P (hidden (mach w')) = live_zones P (hidden (mach w))"
proof -
  have D: "mz_ok P w" "0 < compressed_seg_size c" "burst_size c \<noteq> 0" "memzone_pool d = []"
    using assms(1) dm_take_pool(2) [OF assms] by (simp_all add: dm_ok_def)
  obtain y m where r: "rte_memzone_reserve_aligned P (unat (compressed_seg_size c)) 64 (mach w) = (y, m)" by fastforce
  note A = AllocateOne_cases [OF D(2) r]
  obtain q v where a: "AllocateOne P (compressed_seg_size c) w = (q, v)" by fastforce
  have T: "w' = v" "(\<exists>s t. q = Inl (Status s t)) \<or> q = Inr None"
    using assms(2) D(3,4) a by (auto simp: Take_def split: sum.splits error.splits)
  show ?thesis
  proof (cases y)
    case None
    have "memzone_laws P" using D(1) by (simp add: mz_ok_def)
    note L = memzone_reserve_none(1) [OF this r [unfolded None]]
    have "w' = w\<lparr>mach := m\<rparr>" using A a T(1) by (simp add: None)
    then show ?thesis using L by simp
  next
    case (Some z)
    have "0 < unat (compressed_seg_size c)" using D(2) by (simp add: unat_gt_0)
    note Z = mz_reserve_ok(3) [OF D(1) this r [unfolded Some]]
    have "q = Inl (Fault CheckFailed) \<or> q = Inr (Some z)"
      using A a Z(1) by (auto simp: Some Let_def tracker_Emplace_def split: if_splits)
    then show ?thesis using T(2) by auto
  qed
qed

lemma Take_frame:
  assumes "dm_ok P c (d, w)" "zone_frame_laws P" "Take P c d w = (r, d', w')"
  shows "case r of Inr (Some z) \<Rightarrow> zone_step P (zone_bytes z) w w' | _ \<Rightarrow> zone_step P {} w w'"
proof -
  have D: "mz_ok P w" "0 < compressed_seg_size c" "burst_size c \<noteq> 0"
    using assms(1) by (simp_all add: dm_ok_def)
  show ?thesis
  proof (cases "memzone_pool d")
    case Nil
    obtain q v where a: "AllocateOne P (compressed_seg_size c) w = (q, v)" by fastforce
    note F = AllocateOne_frame [OF D(1) assms(2) D(2) a]
    show ?thesis
    proof (cases q)
      case (Inl e)
      then have "w' = v" "r = Inr None \<or> (\<exists>f. r = Inl f)"
        using assms(3) Nil a D(3) by (auto simp: Take_def split: error.splits)
      then show ?thesis using F Inl by auto
    next
      case (Inr z)
      then have "w' = v" "r = Inr z" using assms(3) Nil a D(3) by (auto simp: Take_def)
      then show ?thesis using F Inr by (cases z) simp_all
    qed
  next
    case (Cons p ps)
    then show ?thesis
      using assms(3) by (auto simp: Take_def zone_step_def split: sum.splits option.splits)
  qed
qed

subsection \<open>The loops over the mbufs\<close>

text \<open>The offsets and lengths of \<open>n\<close> pieces of an input of \<open>sz\<close> bytes from \<open>off\<close> on.\<close>

fun pieces :: "nat \<Rightarrow> nat \<Rightarrow> nat \<Rightarrow> nat \<Rightarrow> (nat \<times> nat) list" where
  "pieces seg sz off 0 = []"
| "pieces seg sz off (Suc n) =
     (off, min seg (sz - off)) # pieces seg sz (off + min seg (sz - off)) n"

lemma length_pieces [simp]: "length (pieces seg sz off n) = n"
  by (induction n arbitrary: off) auto

text \<open>
  From \<open>m\<close> to \<open>m'\<close> the operations \<open>js\<close> have been given the mbufs \<open>bs\<close> over the areas \<open>ps\<close>, as
  source or as destination, and nothing else has happened.
\<close>

definition attached ::
  "('w, 'p) dpdk_scheme \<Rightarrow> op_field \<Rightarrow> shinfo_ptr \<Rightarrow> op_ptr list \<Rightarrow> mbuf_ptr list \<Rightarrow>
   (addr \<times> nat) list \<Rightarrow> 'w machine \<Rightarrow> 'w machine \<Rightarrow> bool" where
  "attached P fld sh js bs ps m m' \<longleftrightarrow> same_objects P m m' \<and>
     (\<forall>t < length js. ops m' (js ! t) = set_mbuf_of fld (bs ! t) (ops m (js ! t)) \<and>
        data_mbuf (fst (ps ! t)) (snd (ps ! t)) sh (mbufs m' (bs ! t))) \<and>
     (\<forall>j. j \<notin> set js \<longrightarrow> ops m' j = ops m j) \<and>
     (\<forall>b. b \<notin> set bs \<longrightarrow> mbufs m' b = mbufs m b)"

lemma attached_Nil: "attached P fld sh [] [] [] m m"
  by (simp add: attached_def)

lemma attached_Cons:
  assumes "same_objects P m m1" "ops m1 = (ops m)(j := set_mbuf_of fld b (ops m j))"
    and "data_mbuf a len sh (mbufs m1 b)" "\<forall>x. x \<noteq> b \<longrightarrow> mbufs m1 x = mbufs m x"
    and "attached P fld sh js bs ps m1 m'"
    and "j \<notin> set js" "b \<notin> set bs" "length bs = length js"
  shows "attached P fld sh (j # js) (b # bs) ((a, len) # ps) m m'"
proof -
  have at: "ops m' (js ! t) = set_mbuf_of fld (bs ! t) (ops m1 (js ! t))"
    "data_mbuf (fst (ps ! t)) (snd (ps ! t)) sh (mbufs m' (bs ! t))" if "t < length js" for t
    using assms(5) that by (simp_all add: attached_def)
  have other: "x \<notin> set js \<Longrightarrow> ops m' x = ops m1 x" "x \<notin> set bs \<Longrightarrow> mbufs m' x = mbufs m1 x" for x
    using assms(5) by (simp_all add: attached_def)
  have "ops m' ((j # js) ! t) = set_mbuf_of fld ((b # bs) ! t) (ops m ((j # js) ! t)) \<and>
      data_mbuf (fst (((a, len) # ps) ! t)) (snd (((a, len) # ps) ! t)) sh (mbufs m' ((b # bs) ! t))"
    if "t < length (j # js)" for t
  proof (cases t)
    case 0
    then show ?thesis using other(1) [OF assms(6)] other(2) [OF assms(7)] assms(2,3) by simp
  next
    case (Suc u)
    then have u: "u < length js" using that by simp
    then have "js ! u \<noteq> j" using assms(6) nth_mem by blast
    then show ?thesis using at [OF u] assms(2) Suc by simp
  qed
  moreover have "same_objects P m m'"
    using assms(1,5) same_objects_trans unfolding attached_def by blast
  ultimately show ?thesis
    using other assms(2,4) by (simp add: attached_def)
qed

lemma word_min_seg:
  fixes seg :: u16
  shows "unat (word_of_nat (min (unat seg) n) :: u16) = min (unat seg) n"
proof -
  have "min (unat seg) n < 2 ^ 16" using unat_u16_less [of seg] by simp
  then show ?thesis by (simp add: unat_of_nat take_bit_nat_eq_self)
qed

lemma unat_Suc_u16: "unat (k :: u16) + 1 < 65536 \<Longrightarrow> unat (k + 1) = Suc (unat k)"
  by (simp add: unat_word_ariths)

lemma offset_add [simp]: "offset_update (\<lambda>off. off + x) s = s\<lparr>offset := offset s + x\<rparr>"
  by simp

lemma index_add [simp]: "index_update (\<lambda>i. i + x) s = s\<lparr>index := index s + x\<rparr>"
  by simp

lemma index_Suc [simp]: "index_update Suc s = s\<lparr>index := Suc (index s)\<rparr>"
  by simp

lemma compress_src_loop_ok:
  assumes "mbuf_laws P" "max_sgl_segs c = 1"
    and "length js = left" "length bs = left" "left \<le> n" "distinct js" "distinct bs"
    and "array_has (operations (qp s)) (unat k) js" "array_has (mbuf_array (qp s)) (n - left) bs"
    and "shared_info_decompressed_mbuf (qp s) = Some sh" "unat k + left < 65536"
    and "\<forall>b \<in> set bs. fresh_mbuf (mbufs (mach (wld s)) b)"
    and "\<forall>j \<in> set js. m_src (ops (mach (wld s)) j) = None"
    and "0 < left \<longrightarrow> j = Some (hd js) \<and> offset s + (left - 1) * unat (decompressed_seg_size c) < sz"
  shows "\<exists>m. compress_src_loop P c data sz n left k j s =
      (OK, s\<lparr>qp := (qp s)\<lparr>pending_operations := pending_operations (qp s) @ map Some (tl js)\<rparr>,
             wld := (wld s)\<lparr>mach := m\<rparr>,
             offset := offset s + sum_list (map snd (pieces (unat (decompressed_seg_size c)) sz (offset s) left))\<rparr>) \<and>
    attached P M_SRC sh js bs
      (map (\<lambda>(off, len). (data + off, len)) (pieces (unat (decompressed_seg_size c)) sz (offset s) left))
      (mach (wld s)) m"
  using assms(3-)
proof (induction left arbitrary: s k j js bs)
  case 0
  then show ?case by (intro exI [of _ "mach (wld s)"]) (simp add: attached_Nil)
next
  case (Suc left)
  let ?seg = "unat (decompressed_seg_size c)"
  let ?len = "min ?seg (sz - offset s)"
  obtain j0 js' where js: "js = j0 # js'" using Suc.prems(1) by (cases js) auto
  obtain b0 bs' where bs: "bs = b0 # bs'" using Suc.prems(2) by (cases bs) auto
  have j: "j = Some j0" and lt: "offset s + left * ?seg < sz" using Suc.prems(12) js by simp_all
  have src: "mbuf_of M_SRC (ops (mach (wld s)) j0) = None" using Suc.prems(11) js by simp
  have fresh: "fresh_mbuf (mbufs (mach (wld s)) b0)" using Suc.prems(10) bs by simp
  obtain m1 where app: "append_to P M_SRC (Some j0) (n - Suc left) (data + offset s)
        (rte_mem_virt2iova P (data + offset s)) (word_of_nat ?len) (Some sh) s =
      (OK, s\<lparr>wld := (wld s)\<lparr>mach := m1\<rparr>\<rparr>)"
    and m1: "data_mbuf (data + offset s) ?len sh (mbufs m1 b0)"
      "\<forall>x. x \<noteq> b0 \<longrightarrow> mbufs m1 x = mbufs (mach (wld s)) x"
      "ops m1 = (ops (mach (wld s)))(j0 := set_mbuf_of M_SRC b0 (ops (mach (wld s)) j0))"
      "same_objects P (mach (wld s)) m1"
    using append_to_fresh [OF assms(1) Suc.prems(7) [unfolded bs] fresh src,
        of "data + offset s" "rte_mem_virt2iova P (data + offset s)" "word_of_nat ?len" sh]
    unfolding word_min_seg by blast
  let ?s1 = "s\<lparr>wld := (wld s)\<lparr>mach := m1\<rparr>, offset := offset s + ?len\<rparr>"
  have idx: "n - Suc left + 1 = n - left" using Suc.prems(3) by simp
  show ?case
  proof (cases left)
    case 0
    then have "compress_src_loop P c data sz n (Suc left) k j s = (OK, ?s1)"
      using app lt Suc.prems(8) j Suc.prems(3)
      by (simp add: Let_def seq_def get_def modify_def return_def assms(2))
    moreover have "js' = []" "bs' = []" using Suc.prems(1,2) js bs 0 by simp_all
    moreover have "attached P M_SRC sh js bs [(data + offset s, ?len)] (mach (wld s)) m1"
      using attached_Cons [OF m1(4,3,1,2) attached_Nil] calculation(2,3) js bs by simp
    ultimately show ?thesis using 0 js by (intro exI [of _ m1]) simp
  next
    case (Suc l)
    then have left: "0 < left" by simp
    have more: "Suc (n - Suc left) < n" using left Suc.prems(3) by linarith
    obtain j1 js2 where js': "js' = j1 # js2" using Suc.prems(1) js Suc by (cases js') auto
    have k: "unat (k + 1) = Suc (unat k)" using Suc.prems(9) by (intro unat_Suc_u16) simp
    have ops: "array_has (operations (qp s)) (unat (k + 1)) js'"
      using array_has_tl Suc.prems(6) js k by metis
    let ?s2 = "?s1\<lparr>qp := (qp s)\<lparr>pending_operations := pending_operations (qp s) @ [Some j1]\<rparr>\<rparr>"
    have "operation_at (unat (k + 1)) ?s1 = (Inr (Some j1), ?s1)"
      using array_has_nth [OF ops, of 0] js' by (auto simp: operation_at_def)
    then have step: "compress_src_loop P c data sz n (Suc left) k j s =
        compress_src_loop P c data sz n left (k + 1) (Some j1) ?s2"
      using app lt j Suc.prems(3,8) more
      unfolding compress_src_loop.simps(2)
      by (simp add: Let_def seq_def assms(2) push_pending_def upd_qp_def get_def modify_def return_def
          del: compress_src_loop.simps)
    have "array_has (mbuf_array (qp ?s2)) (n - left) bs'"
      using array_has_tl [OF Suc.prems(7) [unfolded bs]] Suc.prems(3) by (simp add: Suc_diff_Suc)
    moreover have "array_has (operations (qp ?s2)) (unat (k + 1)) js'" using ops by simp
    moreover have "\<forall>b \<in> set bs'. fresh_mbuf (mbufs (mach (wld ?s2)) b)"
      using Suc.prems(5,10) bs m1(2) by auto
    moreover have "\<forall>j \<in> set js'. m_src (ops (mach (wld ?s2)) j) = None"
      using Suc.prems(4,11) js m1(3) by auto
    moreover have "offset s + ?len + (left - 1) * ?seg < sz" using lt Suc by simp
    moreover have "unat (k + 1) + left < 65536" using k Suc.prems(9) by simp
    moreover have "length js' = left" "length bs' = left" "left \<le> n" "distinct js'" "distinct bs'"
      using Suc.prems(1-5) js bs by simp_all
    moreover have "shared_info_decompressed_mbuf (qp ?s2) = Some sh" using Suc.prems(8) by simp
    moreover have "0 < left \<longrightarrow> Some j1 = Some (hd js') \<and> offset ?s2 + (left - 1) * ?seg < sz"
    proof -
      have "offset ?s2 = offset s + ?len" by simp
      then show ?thesis using js' calculation(5) by (simp only: list.sel simp_thms)
    qed
    ultimately obtain m where m:
      "compress_src_loop P c data sz n left (k + 1) (Some j1) ?s2 =
        (OK, ?s2\<lparr>qp := (qp ?s2)\<lparr>pending_operations := pending_operations (qp ?s2) @ map Some (tl js')\<rparr>,
             wld := (wld ?s2)\<lparr>mach := m\<rparr>,
             offset := offset ?s2 + sum_list (map snd (pieces ?seg sz (offset ?s2) left))\<rparr>)"
      "attached P M_SRC sh js' bs'
        (map (\<lambda>(off, len). (data + off, len)) (pieces ?seg sz (offset ?s2) left)) (mach (wld ?s2)) m"
      using Suc.IH [of js' bs' ?s2 "k + 1" "Some j1"] by blast
    have "attached P M_SRC sh js bs
        (map (\<lambda>(off, len). (data + off, len)) (pieces ?seg sz (offset s) (Suc left))) (mach (wld s)) m"
      using attached_Cons [OF m1(4,3,1,2), of js' bs' _ m] m(2) Suc.prems(1,2,4,5) js bs by simp
    then show ?thesis using step m(1) js js' by (intro exI [of _ m]) simp
  qed
qed

text \<open>An operation that has been given its destination and the parameters of the burst.\<close>

definition completed :: "mbuf_ptr \<Rightarrow> mbuf \<Rightarrow> xform_ptr option \<Rightarrow> comp_op \<Rightarrow> comp_op" where
  "completed d b xf j = j\<lparr>m_dst := Some d, src_offset := 0, src_length := pkt_len b, dst_offset := 0,
     flush_flag := RTE_COMP_FLUSH_FINAL, input_chksum := buf_addr b, private_xform := xf\<rparr>"

definition finished ::
  "shinfo_ptr \<Rightarrow> xform_ptr option \<Rightarrow> op_ptr list \<Rightarrow> mbuf_ptr list \<Rightarrow> (addr \<times> nat) list \<Rightarrow>
   'w machine \<Rightarrow> 'w machine \<Rightarrow> bool" where
  "finished sh xf js ds ps m m' \<longleftrightarrow>
     (\<forall>t < length js.
        ops m' (js ! t) = completed (ds ! t) (mbufs m (the (m_src (ops m (js ! t))))) xf (ops m (js ! t)) \<and>
        data_mbuf (fst (ps ! t)) (snd (ps ! t)) sh (mbufs m' (ds ! t))) \<and>
     (\<forall>j. j \<notin> set js \<longrightarrow> ops m' j = ops m j) \<and>
     (\<forall>b. b \<notin> set ds \<longrightarrow> mbufs m' b = mbufs m b)"

lemma finished_Nil: "ops m' = ops m \<Longrightarrow> mbufs m' = mbufs m \<Longrightarrow> finished sh xf [] [] [] m m'"
  by (simp add: finished_def)

lemma finished_Cons:
  assumes "ops m1 = (ops m)(j := completed d (mbufs m (the (m_src (ops m j)))) xf (ops m j))"
    and "data_mbuf a len sh (mbufs m1 d)" "\<forall>x. x \<noteq> d \<longrightarrow> mbufs m1 x = mbufs m x"
    and "finished sh xf js ds ps m1 m'"
    and "j \<notin> set js" "d \<notin> set ds" "length ds = length js"
    and "\<forall>i \<in> set js. the (m_src (ops m i)) \<noteq> d"
  shows "finished sh xf (j # js) (d # ds) ((a, len) # ps) m m'"
proof -
  have at: "ops m' (js ! t) = completed (ds ! t) (mbufs m1 (the (m_src (ops m1 (js ! t))))) xf (ops m1 (js ! t))"
    "data_mbuf (fst (ps ! t)) (snd (ps ! t)) sh (mbufs m' (ds ! t))" if "t < length js" for t
    using assms(4) that by (simp_all add: finished_def)
  have other: "x \<notin> set js \<Longrightarrow> ops m' x = ops m1 x" "x \<notin> set ds \<Longrightarrow> mbufs m' x = mbufs m1 x" for x
    using assms(4) by (simp_all add: finished_def)
  have "ops m' ((j # js) ! t) = completed ((d # ds) ! t) (mbufs m (the (m_src (ops m ((j # js) ! t))))) xf
        (ops m ((j # js) ! t)) \<and>
      data_mbuf (fst (((a, len) # ps) ! t)) (snd (((a, len) # ps) ! t)) sh (mbufs m' ((d # ds) ! t))"
    if "t < length (j # js)" for t
  proof (cases t)
    case 0
    then show ?thesis using other(1) [OF assms(5)] other(2) [OF assms(6)] assms(1,2) by simp
  next
    case (Suc u)
    then have u: "u < length js" using that by simp
    then have "js ! u \<noteq> j" "the (m_src (ops m (js ! u))) \<noteq> d" using assms(5,8) nth_mem by blast+
    then show ?thesis using at [OF u] assms(1,3) Suc by simp
  qed
  then show ?thesis using other assms(1,3) by (simp add: finished_def)
qed

lemma finish_op:
  assumes "mbuf_laws P" "array_has (mbuf_array (qp s)) i (d # ds)"
    and "fresh_mbuf (mbufs (mach (wld s)) d)" "m_dst (ops (mach (wld s)) j) = None"
    and "m_src (ops (mach (wld s)) j) = Some b" "b \<noteq> d"
  obtains m s1 where "append_to P M_DST (Some j) i a iova len (Some sh) s = (OK, s1)"
    "update_operation (Some j) xf s1 = (OK, s\<lparr>wld := (wld s)\<lparr>mach := m\<rparr>\<rparr>)" "qp s1 = qp s"
    "data_mbuf a (unat len) sh (mbufs m d)" "\<forall>x. x \<noteq> d \<longrightarrow> mbufs m x = mbufs (mach (wld s)) x"
    "ops m = (ops (mach (wld s)))(j := completed d (mbufs (mach (wld s)) b) xf (ops (mach (wld s)) j))"
    "same_objects P (mach (wld s)) m"
proof -
  have "mbuf_of M_DST (ops (mach (wld s)) j) = None" using assms(4) by simp
  from append_to_fresh [OF assms(1-3) this, of a iova len sh] obtain m1 where m1:
    "append_to P M_DST (Some j) i a iova len (Some sh) s = (OK, s\<lparr>wld := (wld s)\<lparr>mach := m1\<rparr>\<rparr>)"
    "data_mbuf a (unat len) sh (mbufs m1 d)" "\<forall>x. x \<noteq> d \<longrightarrow> mbufs m1 x = mbufs (mach (wld s)) x"
    "ops m1 = (ops (mach (wld s)))(j := set_mbuf_of M_DST d (ops (mach (wld s)) j))"
    "same_objects P (mach (wld s)) m1" by blast
  let ?m = "m1\<lparr>ops := (ops m1)(j := completed d (mbufs (mach (wld s)) b) xf (ops (mach (wld s)) j))\<rparr>"
  have "update_operation (Some j) xf (s\<lparr>wld := (wld s)\<lparr>mach := m1\<rparr>\<rparr>) =
      (OK, s\<lparr>wld := (wld s)\<lparr>mach := ?m\<rparr>\<rparr>)"
    using assms(5,6) m1(3,4) by (simp add: update_operation_def UpdateOperation_def completed_def)
  then show ?thesis using that [OF m1(1)] m1 by simp
qed

text \<open>An area inside a memzone that is tracked and not one of the device's own.\<close>

definition foreign :: "addr set \<Rightarrow> 'w qp_state \<Rightarrow> bool" where
  "foreign A s \<longleftrightarrow> (\<exists>z. allocated_memzones (wld s) (mz_addr z) = Some z \<and>
     Some z \<notin> set (dm_all (dmem s)) \<and> A \<subseteq> zone_bytes z)"

lemma foreign_Take:
  assumes "dm_ok P c (d, w)" "Take P c d w = (r, d', w')" "mem_step P B w w'"
    and "foreign A (s\<lparr>dmem := d, wld := w\<rparr>)"
  shows "foreign A (s\<lparr>dmem := d', wld := w'\<rparr>)"
  unfolding foreign_def
proof -
  obtain z where z: "allocated_memzones w (mz_addr z) = Some z" "Some z \<notin> set (dm_all d)" "A \<subseteq> zone_bytes z"
    using assms(4) by (auto simp: foreign_def)
  have "Some z \<notin> set (dm_all d')"
    using Take_ok(3) [OF assms(1,2)] z(1,2) by (auto simp: dm_all_def)
  moreover have "allocated_memzones w' (mz_addr z) = Some z"
    using z(1) assms(3) by (simp add: mem_step_def)
  ultimately show "\<exists>z. allocated_memzones (wld (s\<lparr>dmem := d', wld := w'\<rparr>)) (mz_addr z) = Some z \<and>
     Some z \<notin> set (dm_all (dmem (s\<lparr>dmem := d', wld := w'\<rparr>))) \<and> A \<subseteq> zone_bytes z"
    using z(3) by auto
qed

lemma foreign_apart:
  assumes "dm_ok P c (dmem s, wld s)" "foreign A s" "z \<in> dm_held (dmem s, wld s)"
  shows "A \<inter> zone_bytes z = {}"
proof -
  obtain y where y: "allocated_memzones (wld s) (mz_addr y) = Some y" "Some y \<notin> set (dm_all (dmem s))"
    "A \<subseteq> zone_bytes y" using assms(2) by (auto simp: foreign_def)
  have z: "allocated_memzones (wld s) (mz_addr z) = Some z"
    using dm_own_held(1) [OF assms(1,3)] by (simp add: tracker_Of_def)
  have "Some z \<in> set (dm_all (dmem s))" using assms(3) by (simp add: dm_held_def dm_all_def)
  then have "y \<noteq> z" using y(2) by blast
  then have "mz_addr y \<noteq> mz_addr z" using y(1) z by (metis option.inject)
  moreover have "mz_ok P (wld s)" using assms(1) by (simp add: dm_ok_def)
  ultimately have "zone_bytes y \<inter> zone_bytes z = {}" using mz_ok_disjoint [OF _ y(1) z] by blast
  then show ?thesis using y(3) by blast
qed

text \<open>The area of a memzone as the destination of an operation; its length is cut to 16 bits.\<close>

definition zone_area :: "memzone \<Rightarrow> addr \<times> nat" where
  "zone_area z = (mz_addr z, unat (word_of_nat (mz_len z) :: u16))"

definition zones_bytes :: "memzone list \<Rightarrow> addr set" where
  "zones_bytes zs = (\<Union>z \<in> set zs. zone_bytes z)"

abbreviation held :: "'w qp_state \<Rightarrow> memzone set" where
  "held s \<equiv> dm_held (dmem s, wld s)"

text \<open>The operations \<open>js\<close> have been given the memzones \<open>zs\<close>, taken from the device memory, to write to.\<close>

abbreviation spare :: "'w qp_state \<Rightarrow> nat" where
  "spare s \<equiv> length (memzone_pool (dmem s))"

text \<open>
  \<open>n\<close> memzones are taken from the free list as long as it has some, and then no memzone is
  reserved.
\<close>

definition took_spare :: "('w, 'p) dpdk_scheme \<Rightarrow> nat \<Rightarrow> 'w qp_state \<Rightarrow> 'w qp_state \<Rightarrow> bool" where
  "took_spare P n s t \<longleftrightarrow> spare t = spare s - n \<and>
     (n \<le> spare s \<longrightarrow> set (dm_all (dmem t)) = set (dm_all (dmem s)) \<and>
        live_zones P (hidden (mach (wld t))) = live_zones P (hidden (mach (wld s))))"

lemma took_spare_0:
  "dmem t = dmem s \<Longrightarrow> live_zones P (hidden (mach (wld t))) = live_zones P (hidden (mach (wld s))) \<Longrightarrow> took_spare P 0 s t"
  by (simp add: took_spare_def)

lemma took_spare_trans: "took_spare P m s t \<Longrightarrow> took_spare P n t u \<Longrightarrow> took_spare P (m + n) s u"
  by (auto simp: took_spare_def)

definition took_zones ::
  "('w, 'p) dpdk_scheme \<Rightarrow> configuration \<Rightarrow> shinfo_ptr \<Rightarrow> xform_ptr option \<Rightarrow> op_ptr list \<Rightarrow>
   mbuf_ptr list \<Rightarrow> memzone list \<Rightarrow> 'w qp_state \<Rightarrow> 'w qp_state \<Rightarrow> bool" where
  "took_zones P c sh xf js ds zs s t \<longleftrightarrow>
     length zs = length js \<and> distinct zs \<and> set zs \<inter> held s = {} \<and> held t = set zs \<union> held s \<and>
     dm_ok P c (dmem t, wld t) \<and> mem_step P (zones_bytes zs) (wld s) (wld t) \<and>
     finished sh xf js ds (map zone_area zs) (mach (wld s)) (mach (wld t)) \<and>
     (\<forall>A. foreign A s \<longrightarrow> foreign A t) \<and> took_spare P (length js) s t \<and> t = s\<lparr>dmem := dmem t, wld := wld t\<rparr>"

lemma took_zones_Nil:
  assumes "dm_ok P c (dmem t, wld t)" "took_spare P 0 s t" "held t = held s" "zone_step P {} (wld s) (wld t)"
    and "\<forall>A. foreign A s \<longrightarrow> foreign A t"
    and "t = s\<lparr>dmem := dmem t, wld := wld t\<rparr>"
  shows "took_zones P c sh xf [] [] [] s t"
  using assms by (simp add: took_zones_def zones_bytes_def finished_Nil zone_step_def)

lemma took_zones_Cons:
  assumes take: "z \<notin> held s" "held s1 = insert z (held s)" "zone_step P (zone_bytes z) (wld s) (wld s1)"
    and s2: "s2 = s\<lparr>dmem := dmem s1, wld := (wld s1)\<lparr>mach := m\<rparr>\<rparr>"
    and m: "same_objects P (mach (wld s1)) m"
      "data_mbuf (mz_addr z) (unat (word_of_nat (mz_len z) :: u16)) sh (mbufs m d)"
      "\<forall>x. x \<noteq> d \<longrightarrow> mbufs m x = mbufs (mach (wld s1)) x"
      "ops m = (ops (mach (wld s1)))(j :=
         completed d (mbufs (mach (wld s1)) (the (m_src (ops (mach (wld s1)) j)))) xf (ops (mach (wld s1)) j))"
    and fg: "\<forall>A. foreign A s \<longrightarrow> foreign A s1" and sp: "took_spare P 1 s s1"
    and rest: "took_zones P c sh xf js ds zs s2 t"
    and js: "j \<notin> set js" "d \<notin> set ds" "length ds = length js"
      "\<forall>i \<in> set js. the (m_src (ops (mach (wld s)) i)) \<noteq> d"
  shows "took_zones P c sh xf (j # js) (d # ds) (z # zs) s t"
proof -
  have same: "mbufs (mach (wld s1)) = mbufs (mach (wld s))" "ops (mach (wld s1)) = ops (mach (wld s))"
    using take(3) by (simp_all add: zone_step_def)
  have w2: "wld s2 = (wld s1)\<lparr>mach := m\<rparr>" "held s2 = held s1" using s2 by (simp_all add: dm_held_def)
  have T: "length zs = length js" "distinct zs" "set zs \<inter> held s2 = {}" "held t = set zs \<union> held s2"
    "dm_ok P c (dmem t, wld t)" "mem_step P (zones_bytes zs) (wld s2) (wld t)"
    "finished sh xf js ds (map zone_area zs) (mach (wld s2)) (mach (wld t))"
    "t = s2\<lparr>dmem := dmem t, wld := wld t\<rparr>" and T2: "\<forall>A. foreign A s2 \<longrightarrow> foreign A t"
    and T3: "took_spare P (length js) s2 t"
    using rest unfolding took_zones_def by blast+
  have "\<forall>A. foreign A s \<longrightarrow> foreign A t" using fg T2 by (simp add: foreign_def s2)
  note T2 = this
  have "finished sh xf (j # js) (d # ds) (map zone_area (z # zs)) (mach (wld s)) (mach (wld t))"
    unfolding list.map zone_area_def [of z]
    using m(2-4) T(7) js w2(1) by (intro finished_Cons [of m]) (simp_all add: same)
  moreover have "mem_step P (zones_bytes (z # zs)) (wld s) (wld t)"
  proof -
    have "mem_step P (zone_bytes z) (wld s) (wld s1)" using take(3) by (simp add: zone_step_def)
    moreover have "mem_step P (zone_bytes z) (wld s1) (wld s2)"
      unfolding w2(1) using m(1) by (rule mem_step_same_objects)
    ultimately have "mem_step P (zone_bytes z \<union> zone_bytes z \<union> zones_bytes zs) (wld s) (wld t)"
      using T(6) mem_step_trans by blast
    then show ?thesis by (simp add: zones_bytes_def)
  qed
  moreover have "t = s\<lparr>dmem := dmem t, wld := wld t\<rparr>" using T(8) s2 by simp
  moreover have "took_spare P (length (j # js)) s t"
  proof -
    have "took_spare P (length js) s1 t"
      using T3 m(1) unfolding took_spare_def s2 by (simp add: same_objects_def same_memory_def)
    from took_spare_trans [OF sp this] show ?thesis by simp
  qed
  ultimately show ?thesis
    using T(1-5) T2 take(1,2) w2(2) unfolding took_zones_def by auto
qed

lemma compress_dst_loop_ok:
  assumes "mbuf_laws P" "zone_frame_laws P" "max_sgl_segs c = 1"
    and "length js = left" "length ds = left" "left \<le> n" "distinct js" "distinct ds"
    and "array_has (operations (qp s)) (unat k) js" "array_has (mbuf_array (qp s)) (n - left + n) ds"
    and "shared_info_compressed_mbuf (qp s) = Some sh" "unat k + left < 65536"
    and "\<exists>os. operations (qp s) = Some os \<and> unat k + left < length os"
    and "\<forall>d \<in> set ds. fresh_mbuf (mbufs (mach (wld s)) d)"
    and "\<forall>j \<in> set js. m_dst (ops (mach (wld s)) j) = None"
    and "\<forall>j \<in> set js. \<exists>b. m_src (ops (mach (wld s)) j) = Some b \<and> b \<notin> set ds"
    and "dm_ok P c (dmem s, wld s)" "0 < left \<longrightarrow> j = Some (hd js)"
  shows "wp (compress_dst_loop P c n left k j)
    (\<lambda>k' t. unat k' = unat k + left \<and>
       (\<exists>zs. took_zones P c sh (private_xform_compress (qp s)) js ds zs s t))
    (\<lambda>e t. e = Status IOError '''' \<and> spare s < left \<and>
       (\<exists>u zs. u < left \<and> took_zones P c sh (private_xform_compress (qp s)) (take u js) (take u ds) zs s t)) s"
  using assms(4-)
proof (induction left arbitrary: s k j js ds)
  case 0
  then show ?case by (auto intro!: took_zones_Nil exI [of _ "[]"] simp: zone_step_def took_spare_def)
next
  case (Suc left)
  let ?xf = "private_xform_compress (qp s)"
  obtain j0 js' where js: "js = j0 # js'" using Suc.prems(1) by (cases js) auto
  obtain d0 ds' where ds: "ds = d0 # ds'" using Suc.prems(2) by (cases ds) auto
  have j: "j = Some j0" using Suc.prems(15) js by simp
  obtain r d1 w1 where t: "Take P c (dmem s) (wld s) = (r, d1, w1)" by (cases "Take P c (dmem s) (wld s)")
  let ?s1 = "s\<lparr>dmem := d1, wld := w1\<rparr>"
  note frame = Take_frame [OF Suc.prems(14) assms(2) t]
  obtain p where r: "r = Inr p" using dm_take_defined [OF Suc.prems(14)] t by auto
  have take: "take_memzone P c s = (Inr p, ?s1)" using t r by (simp add: take_memzone_def)
  have fg: "\<forall>A. foreign A s \<longrightarrow> foreign A ?s1"
    using foreign_Take [OF Suc.prems(14) t, of _ _ s] frame r
    by (cases p) (auto simp: zone_step_def foreign_def)
  show ?case
  proof (cases p)
    case None
    note empty = dm_take_pool [OF Suc.prems(14), of p d1 w1]
    have "spare s = 0" "spare ?s1 = 0" using empty t r None by auto
    moreover have "set (dm_all d1) = set (dm_all (dmem s))"
      using Take_ok(3) [OF Suc.prems(14), of r d1 w1] t r None by (auto simp: dm_all_def)
    moreover have "live_zones P (hidden (mach w1)) = live_zones P (hidden (mach (wld s)))"
      using Take_none_zones [OF Suc.prems(14)] t r None by simp
    ultimately have "took_spare P 0 s ?s1" by (simp add: took_spare_def)
    then have "took_zones P c sh ?xf [] [] [] s ?s1" "spare s = 0"
      using dm_take_none [OF Suc.prems(14), of d1 w1] t r None frame fg \<open>spare s = 0\<close>
      by (auto intro!: took_zones_Nil)
    then show ?thesis
      unfolding compress_dst_loop.simps Let_def wp_simps wp_eq(1) [of "take_memzone P c" s, OF take] None option.case
      by (intro conjI refl exI [of _ 0] exI [of _ "[]"]) simp_all
  next
    case (Some z)
    note T = dm_take_zone [OF Suc.prems(14), of z d1 w1]
    have sp: "length (memzone_pool d1) = spare s - 1" using dm_take_pool [OF Suc.prems(14), of p d1 w1] t r by simp
    have tz: "Take P c (dmem s) (wld s) = (Inr (Some z), d1, w1)" using t r Some by simp
    have fr: "zone_step P (zone_bytes z) (wld s) w1" using frame r Some by simp
    then have same: "mbufs (mach w1) = mbufs (mach (wld s))" "ops (mach w1) = ops (mach (wld s))"
      by (simp_all add: zone_step_def)
    obtain b where b: "m_src (ops (mach (wld s)) j0) = Some b" "b \<noteq> d0"
      using Suc.prems(13) js ds by auto
    have "fresh_mbuf (mbufs (mach (wld ?s1)) d0)" "m_dst (ops (mach (wld ?s1)) j0) = None"
      "m_src (ops (mach (wld ?s1)) j0) = Some b"
      using Suc.prems(11,12) js ds b same by simp_all
    note pre = this
    have arr: "array_has (mbuf_array (qp ?s1)) (n - Suc left + n) (d0 # ds')" using Suc.prems(7) ds by simp
    obtain m sA where app: "append_to P M_DST (Some j0) (n - Suc left + n) (mz_addr z) (mz_iova z)
        (word_of_nat (mz_len z)) (Some sh) ?s1 = (OK, sA)"
      and upd: "update_operation (Some j0) ?xf sA = (OK, ?s1\<lparr>wld := (wld ?s1)\<lparr>mach := m\<rparr>\<rparr>)" "qp sA = qp ?s1"
      and m: "data_mbuf (mz_addr z) (unat (word_of_nat (mz_len z) :: u16)) sh (mbufs m d0)"
        "\<forall>x. x \<noteq> d0 \<longrightarrow> mbufs m x = mbufs (mach (wld ?s1)) x"
        "ops m = (ops (mach (wld ?s1)))(j0 := completed d0 (mbufs (mach (wld ?s1)) b) ?xf (ops (mach (wld ?s1)) j0))"
        "same_objects P (mach (wld ?s1)) m"
      by (rule finish_op [OF assms(1) arr pre b(2), of "mz_addr z" "mz_iova z" "word_of_nat (mz_len z)" sh ?xf])
        (rule that)
    let ?s2 = "s\<lparr>dmem := d1, wld := w1\<lparr>mach := m\<rparr>\<rparr>"
    have k: "unat (k + 1) = Suc (unat k)" using Suc.prems(9) by (intro unat_Suc_u16) simp
    obtain os where os: "operations (qp s) = Some os" "unat k + Suc left < length os"
      using Suc.prems(10) by blast
    let ?j1 = "os ! Suc (unat k)"
    have "operation_at (unat (k + 1)) ?s2 = (Inr ?j1, ?s2)"
      using os k by (simp add: operation_at_def)
    note step = this
    have ops: "array_has (operations (qp ?s2)) (unat (k + 1)) js'"
      using array_has_tl Suc.prems(6) js k by simp
    have hd: "0 < left \<longrightarrow> ?j1 = Some (hd js')"
      using array_has_nth [OF ops, of 0] os(1) k Suc.prems(1) js by (auto simp: hd_conv_nth)
    have ok2: "dm_ok P c (dmem ?s2, wld ?s2)"
      using dm_ok_same_objects [OF T(1) [OF tz], of m] m(4)
      by (simp add: same_objects_def same_memory_def)
    have other: "j \<noteq> j0 \<Longrightarrow> ops m j = ops (mach (wld s)) j" "x \<noteq> d0 \<Longrightarrow> mbufs m x = mbufs (mach (wld s)) x" for j x
      using m(2,3) same by simp_all
    have newj: "j \<in> set js' \<Longrightarrow> j \<noteq> j0" and newd: "x \<in> set ds' \<Longrightarrow> x \<noteq> d0" for j x
      using Suc.prems(4,5) js ds by auto
    have IH: "wp (compress_dst_loop P c n left (k + 1) ?j1)
      (\<lambda>k' t. unat k' = unat (k + 1) + left \<and> (\<exists>zs. took_zones P c sh ?xf js' ds' zs ?s2 t))
      (\<lambda>e t. e = Status IOError '''' \<and> spare ?s2 < left \<and>
         (\<exists>u zs. u < left \<and> took_zones P c sh ?xf (take u js') (take u ds') zs ?s2 t)) ?s2"
    proof -
      have "array_has (mbuf_array (qp ?s2)) (n - left + n) ds'"
        using array_has_tl [OF Suc.prems(7) [unfolded ds]] Suc.prems(3) by (simp add: Suc_diff_Suc)
      moreover have "\<forall>d \<in> set ds'. fresh_mbuf (mbufs (mach (wld ?s2)) d)"
        using Suc.prems(11) ds newd other(2) by simp
      moreover have "\<forall>j \<in> set js'. m_dst (ops (mach (wld ?s2)) j) = None"
        using Suc.prems(12) js newj other(1) by simp
      moreover have "\<forall>j \<in> set js'. \<exists>b. m_src (ops (mach (wld ?s2)) j) = Some b \<and> b \<notin> set ds'"
        using Suc.prems(13) js ds newj other(1) by fastforce
      moreover have "length js' = left" "length ds' = left" "left \<le> n" "distinct js'" "distinct ds'"
        using Suc.prems(1-5) js ds by simp_all
      moreover have "unat (k + 1) + left < 65536" "shared_info_compressed_mbuf (qp ?s2) = Some sh"
        "\<exists>os. operations (qp ?s2) = Some os \<and> unat (k + 1) + left < length os"
        using k Suc.prems(8,9) os by simp_all
      ultimately show ?thesis using Suc.IH [of js' ds' ?s2 "k + 1" ?j1] ops ok2 hd by simp
    qed
    have cons: "took_zones P c sh ?xf (j0 # js2) (d0 # ds2) (z # zs) s t"
      if "took_zones P c sh ?xf js2 ds2 zs ?s2 t" "set js2 \<subseteq> set js'" "set ds2 \<subseteq> set ds'"
        "length ds2 = length js2" for js2 ds2 zs t
    proof (rule took_zones_Cons [of z s ?s1 P ?s2 m, OF _ _ _ _ _ m(1) _ _ fg _ that(1)])
      show "z \<notin> held s" "held ?s1 = insert z (held s)" using T(2,3) [OF tz] by simp_all
      show "took_spare P 1 s ?s1"
        using dm_take_pool(3) [OF Suc.prems(14), of p d1 w1] t r sp
        by (cases "memzone_pool (dmem s)") (simp_all add: took_spare_def Take_def)
      show "\<forall>i \<in> set js2. the (m_src (ops (mach (wld s)) i)) \<noteq> d0"
        using Suc.prems(13) js ds that(2) by force
    qed (use fr m b same that Suc.prems(4,5) js ds in auto)
    have "compress_dst_loop P c n (Suc left) k j s = compress_dst_loop P c n left (k + 1) ?j1 ?s2"
      using Suc.prems(3,8) upd(2) app upd(1) step
      unfolding compress_dst_loop.simps(2)
      by (simp add: Let_def seq_def take Some j assms(3) get_def del: compress_dst_loop.simps)
    then have eq: "wp (compress_dst_loop P c n (Suc left) k j) Q E s =
        wp (compress_dst_loop P c n left (k + 1) ?j1) Q E ?s2" for Q E
      by (simp add: wp_def del: compress_dst_loop.simps)
    show ?thesis
      unfolding eq
    proof (rule wp_mono [OF IH])
      fix k' t
      assume "unat k' = unat (k + 1) + left \<and> (\<exists>zs. took_zones P c sh ?xf js' ds' zs ?s2 t)"
      then obtain zs where "unat k' = unat k + Suc left" "took_zones P c sh ?xf js' ds' zs ?s2 t"
        using k by auto
      then show "unat k' = unat k + Suc left \<and> (\<exists>zs. took_zones P c sh ?xf js ds zs s t)"
        using cons [of js' ds' zs t] Suc.prems(1,2) js ds by auto
    next
      fix e t
      assume "e = Status IOError '''' \<and> spare ?s2 < left \<and>
         (\<exists>u zs. u < left \<and> took_zones P c sh ?xf (take u js') (take u ds') zs ?s2 t)"
      then obtain u zs where "e = Status IOError ''''" "u < left" "spare s < Suc left"
        "took_zones P c sh ?xf (take u js') (take u ds') zs ?s2 t" using sp by auto
      then show "e = Status IOError '''' \<and> spare s < Suc left \<and>
         (\<exists>u zs. u < Suc left \<and> took_zones P c sh ?xf (take u js) (take u ds) zs s t)"
        using cons [of "take u js'" "take u ds'" zs t] Suc.prems(1,2) js ds
          set_take_subset [of u js'] set_take_subset [of u ds']
        by (intro conjI exI [of _ "Suc u"] exI [of _ "z # zs"]) simp_all
    qed
  qed
qed

text \<open>The loops of decompression: the sources are the next compressed buffers.\<close>

definition buffer_area :: "buffer \<Rightarrow> addr \<times> nat" where
  "buffer_area b = (buf_data b, unat (word_of_nat (buf_size b) :: u16))"

lemma decompress_src_loop_ok:
  assumes "mbuf_laws P" "max_sgl_segs c = 1"
    and "length js = left" "length bs = left" "left \<le> n" "distinct js" "distinct bs"
    and "array_has (operations (qp s)) (unat k) js" "array_has (mbuf_array (qp s)) (n - left) bs"
    and "shared_info_compressed_mbuf (qp s) = Some sh" "unat k + left < 65536"
    and "\<forall>b \<in> set bs. fresh_mbuf (mbufs (mach (wld s)) b)"
    and "\<forall>j \<in> set js. m_src (ops (mach (wld s)) j) = None"
    and "index s + left \<le> length bufs" "0 < left \<longrightarrow> j = Some (hd js)"
  shows "\<exists>m. decompress_src_loop P c bufs n left k j s =
      (OK, s\<lparr>qp := (qp s)\<lparr>pending_operations := pending_operations (qp s) @ map Some (tl js)\<rparr>,
             wld := (wld s)\<lparr>mach := m\<rparr>, index := index s + left\<rparr>) \<and>
    attached P M_SRC sh js bs (map buffer_area (take left (drop (index s) bufs))) (mach (wld s)) m"
  using assms(3-)
proof (induction left arbitrary: s k j js bs)
  case 0
  then show ?case by (intro exI [of _ "mach (wld s)"]) (simp add: attached_Nil)
next
  case (Suc left)
  obtain j0 js' where js: "js = j0 # js'" using Suc.prems(1) by (cases js) auto
  obtain b0 bs' where bs: "bs = b0 # bs'" using Suc.prems(2) by (cases bs) auto
  have j: "j = Some j0" using Suc.prems(13) js by simp
  have src: "mbuf_of M_SRC (ops (mach (wld s)) j0) = None" using Suc.prems(11) js by simp
  have fresh: "fresh_mbuf (mbufs (mach (wld s)) b0)" using Suc.prems(10) bs by simp
  let ?B = "bufs ! index s"
  have lt: "index s < length bufs" using Suc.prems(12) by simp
  have rest: "take (Suc left) (drop (index s) bufs) = ?B # take left (drop (index s + 1) bufs)"
    using lt by (simp add: Cons_nth_drop_Suc [symmetric])
  obtain m1 where app: "append_to P M_SRC (Some j0) (n - Suc left) (buf_data ?B)
        (rte_mem_virt2iova P (buf_data ?B)) (word_of_nat (buf_size ?B)) (Some sh) s =
      (OK, s\<lparr>wld := (wld s)\<lparr>mach := m1\<rparr>\<rparr>)"
    and m1: "data_mbuf (buf_data ?B) (unat (word_of_nat (buf_size ?B) :: u16)) sh (mbufs m1 b0)"
      "\<forall>x. x \<noteq> b0 \<longrightarrow> mbufs m1 x = mbufs (mach (wld s)) x"
      "ops m1 = (ops (mach (wld s)))(j0 := set_mbuf_of M_SRC b0 (ops (mach (wld s)) j0))"
      "same_objects P (mach (wld s)) m1"
    by (rule append_to_fresh [OF assms(1) Suc.prems(7) [unfolded bs] fresh src]) (rule that)
  let ?s1 = "s\<lparr>wld := (wld s)\<lparr>mach := m1\<rparr>, index := index s + 1\<rparr>"
  show ?case
  proof (cases "left = 0")
    case True
    then have "decompress_src_loop P c bufs n (Suc left) k j s = (OK, ?s1)"
      using app lt Suc.prems(8) j Suc.prems(3)
      by (simp add: Let_def seq_def get_def modify_def return_def assms(2))
    moreover have "js' = []" "bs' = []" using Suc.prems(1,2) js bs True by simp_all
    moreover have "attached P M_SRC sh js bs [buffer_area ?B] (mach (wld s)) m1"
      using attached_Cons [OF m1(4,3,1,2) attached_Nil] calculation(2,3) js bs
      by (simp add: buffer_area_def)
    ultimately show ?thesis using True js rest by (intro exI [of _ m1]) simp
  next
    case False
    have more: "Suc (n - Suc left) < n" using False Suc.prems(3) by linarith
    obtain j1 js2 where js': "js' = j1 # js2" using Suc.prems(1) js False by (cases js') auto
    have k: "unat (k + 1) = Suc (unat k)" using Suc.prems(9) by (intro unat_Suc_u16) simp
    have ops: "array_has (operations (qp s)) (unat (k + 1)) js'"
      using array_has_tl Suc.prems(6) js k by metis
    let ?s2 = "?s1\<lparr>qp := (qp s)\<lparr>pending_operations := pending_operations (qp s) @ [Some j1]\<rparr>\<rparr>"
    have "operation_at (unat (k + 1)) ?s1 = (Inr (Some j1), ?s1)"
      using array_has_nth [OF ops, of 0] js' by (auto simp: operation_at_def)
    then have step: "decompress_src_loop P c bufs n (Suc left) k j s =
        decompress_src_loop P c bufs n left (k + 1) (Some j1) ?s2"
      using app lt j Suc.prems(3,8) more
      unfolding decompress_src_loop.simps(2)
      by (simp add: Let_def seq_def assms(2) push_pending_def upd_qp_def get_def modify_def return_def
          del: decompress_src_loop.simps)
    have "array_has (mbuf_array (qp ?s2)) (n - left) bs'"
      using array_has_tl [OF Suc.prems(7) [unfolded bs]] Suc.prems(3) by (simp add: Suc_diff_Suc)
    moreover have "array_has (operations (qp ?s2)) (unat (k + 1)) js'" using ops by simp
    moreover have "\<forall>b \<in> set bs'. fresh_mbuf (mbufs (mach (wld ?s2)) b)"
      using Suc.prems(5,10) bs m1(2) by auto
    moreover have "\<forall>j \<in> set js'. m_src (ops (mach (wld ?s2)) j) = None"
      using Suc.prems(4,11) js m1(3) by auto
    moreover have "unat (k + 1) + left < 65536" using k Suc.prems(9) by simp
    moreover have "length js' = left" "length bs' = left" "left \<le> n" "distinct js'" "distinct bs'"
      using Suc.prems(1-5) js bs by simp_all
    moreover have "shared_info_compressed_mbuf (qp ?s2) = Some sh" using Suc.prems(8) by simp
    moreover have "0 < left \<longrightarrow> Some j1 = Some (hd js')" "index ?s2 + left \<le> length bufs"
      using js' Suc.prems(12) by simp_all
    ultimately obtain m where m:
      "decompress_src_loop P c bufs n left (k + 1) (Some j1) ?s2 =
        (OK, ?s2\<lparr>qp := (qp ?s2)\<lparr>pending_operations := pending_operations (qp ?s2) @ map Some (tl js')\<rparr>,
             wld := (wld ?s2)\<lparr>mach := m\<rparr>, index := index ?s2 + left\<rparr>)"
      "attached P M_SRC sh js' bs' (map buffer_area (take left (drop (index ?s2) bufs))) (mach (wld ?s2)) m"
      using Suc.IH [of js' bs' ?s2 "k + 1" "Some j1"] by blast
    have "attached P M_SRC sh js bs (map buffer_area (take (Suc left) (drop (index s) bufs))) (mach (wld s)) m"
      using attached_Cons [OF m1(4,3,1,2), of js' bs' _ m] m(2) Suc.prems(1,2,4,5) js bs rest
      by (simp add: buffer_area_def)
    then show ?thesis using step m(1) js js' by (intro exI [of _ m]) simp
  qed
qed

lemma update_operation_offset:
  assumes "update_operation (Some j) xf u = (r, v)"
  shows "update_operation (Some j) xf (u\<lparr>offset := x\<rparr>) = (r, v\<lparr>offset := x\<rparr>)"
    and "offset u = offset v"
  using assms by (auto simp: update_operation_def split: prod.splits)

text \<open>The destinations are successive segments of the output buffer.\<close>

lemma decompress_dst_loop_ok:
  assumes "mbuf_laws P" "max_sgl_segs c = 1"
    and "length js = left" "length ds = left" "left \<le> n" "distinct js" "distinct ds"
    and "array_has (operations (qp s)) (unat k) js" "array_has (mbuf_array (qp s)) (n - left + n) ds"
    and "shared_info_decompressed_mbuf (qp s) = Some sh" "unat k + left < 65536"
    and "\<exists>os. operations (qp s) = Some os \<and> unat k + left < length os"
    and "\<forall>d \<in> set ds. fresh_mbuf (mbufs (mach (wld s)) d)"
    and "\<forall>j \<in> set js. m_dst (ops (mach (wld s)) j) = None"
    and "\<forall>j \<in> set js. \<exists>b. m_src (ops (mach (wld s)) j) = Some b \<and> b \<notin> set ds"
    and "0 < left \<longrightarrow> j = Some (hd js)"
    and "offset s + left * unat (decompressed_seg_size c) \<le> sz"
  shows "\<exists>m. decompress_dst_loop P c data sz n left k j s =
      (Inr (k + word_of_nat left),
       s\<lparr>wld := (wld s)\<lparr>mach := m\<rparr>, offset := offset s + left * unat (decompressed_seg_size c)\<rparr>) \<and>
    same_objects P (mach (wld s)) m \<and>
    finished sh (private_xform_decompress (qp s)) js ds
      (map (\<lambda>t. (data + (offset s + t * unat (decompressed_seg_size c)), unat (decompressed_seg_size c)))
         [0..<left]) (mach (wld s)) m"
  using assms(3-)
proof (induction left arbitrary: s k j js ds)
  case 0
  then show ?case by (intro exI [of _ "mach (wld s)"]) (simp add: finished_Nil)
next
  case (Suc left)
  let ?xf = "private_xform_decompress (qp s)" and ?seg = "unat (decompressed_seg_size c)"
  let ?a = "data + offset s"
  obtain j0 js' where js: "js = j0 # js'" using Suc.prems(1) by (cases js) auto
  obtain d0 ds' where ds: "ds = d0 # ds'" using Suc.prems(2) by (cases ds) auto
  have j: "j = Some j0" using Suc.prems(14) js by simp
  obtain b where b: "m_src (ops (mach (wld s)) j0) = Some b" "b \<noteq> d0"
    using Suc.prems(13) js ds by auto
  have pre: "fresh_mbuf (mbufs (mach (wld s)) d0)" "m_dst (ops (mach (wld s)) j0) = None"
    using Suc.prems(11,12) js ds by simp_all
  have arr: "array_has (mbuf_array (qp s)) (n - Suc left + n) (d0 # ds')" using Suc.prems(7) ds by simp
  obtain m1 sA where app: "append_to P M_DST (Some j0) (n - Suc left + n) ?a
        (rte_mem_virt2iova P ?a) (decompressed_seg_size c) (Some sh) s = (OK, sA)"
    and upd: "update_operation (Some j0) ?xf sA = (OK, s\<lparr>wld := (wld s)\<lparr>mach := m1\<rparr>\<rparr>)" "qp sA = qp s"
    and m1: "data_mbuf ?a ?seg sh (mbufs m1 d0)"
      "\<forall>x. x \<noteq> d0 \<longrightarrow> mbufs m1 x = mbufs (mach (wld s)) x"
      "ops m1 = (ops (mach (wld s)))(j0 := completed d0 (mbufs (mach (wld s)) b) ?xf (ops (mach (wld s)) j0))"
      "same_objects P (mach (wld s)) m1"
    by (rule finish_op [OF assms(1) arr pre b, of ?a "rte_mem_virt2iova P ?a" "decompressed_seg_size c" sh ?xf])
      (rule that)
  let ?s2 = "s\<lparr>wld := (wld s)\<lparr>mach := m1\<rparr>, offset := offset s + ?seg\<rparr>"
  have k: "unat (k + 1) = Suc (unat k)" using Suc.prems(9) by (intro unat_Suc_u16) simp
  obtain os where os: "operations (qp s) = Some os" "unat k + Suc left < length os"
    using Suc.prems(10) by blast
  let ?j1 = "os ! Suc (unat k)"
  have at: "operation_at (unat (k + 1)) ?s2 = (Inr ?j1, ?s2)"
    using os k by (simp add: operation_at_def)
  have ops: "array_has (operations (qp ?s2)) (unat (k + 1)) js'"
    using array_has_tl Suc.prems(6) js k by simp
  have hd: "0 < left \<longrightarrow> ?j1 = Some (hd js')"
    using array_has_nth [OF ops, of 0] os(1) k Suc.prems(1) js by (auto simp: hd_conv_nth)
  have room: "offset s \<le> sz" using Suc.prems(15) by simp
  have upd2: "update_operation (Some j0) ?xf (sA\<lparr>offset := offset sA + ?seg\<rparr>) = (OK, ?s2)"
    using update_operation_offset(1) [OF upd(1)] update_operation_offset(2) [OF upd(1)] by simp
  have step: "decompress_dst_loop P c data sz n (Suc left) k j s =
      decompress_dst_loop P c data sz n left (k + 1) ?j1 ?s2"
    using Suc.prems(3,8) app upd upd2 at room
    unfolding decompress_dst_loop.simps(2)
    by (simp add: Let_def seq_def j assms(2) get_def modify_def return_def del: decompress_dst_loop.simps)
  have other: "i \<noteq> j0 \<Longrightarrow> ops m1 i = ops (mach (wld s)) i" "x \<noteq> d0 \<Longrightarrow> mbufs m1 x = mbufs (mach (wld s)) x" for i x
    using m1(2,3) by simp_all
  have newj: "i \<in> set js' \<Longrightarrow> i \<noteq> j0" and newd: "x \<in> set ds' \<Longrightarrow> x \<noteq> d0" for i x
    using Suc.prems(4,5) js ds by auto
  have "array_has (mbuf_array (qp ?s2)) (n - left + n) ds'"
    using array_has_tl [OF Suc.prems(7) [unfolded ds]] Suc.prems(3) by (simp add: Suc_diff_Suc)
  moreover have "\<forall>d \<in> set ds'. fresh_mbuf (mbufs (mach (wld ?s2)) d)"
    using Suc.prems(11) ds newd other(2) by simp
  moreover have "\<forall>j \<in> set js'. m_dst (ops (mach (wld ?s2)) j) = None"
    using Suc.prems(12) js newj other(1) by simp
  moreover have "\<forall>j \<in> set js'. \<exists>b. m_src (ops (mach (wld ?s2)) j) = Some b \<and> b \<notin> set ds'"
    using Suc.prems(13) js ds newj other(1) by fastforce
  moreover have "length js' = left" "length ds' = left" "left \<le> n" "distinct js'" "distinct ds'"
    using Suc.prems(1-5) js ds by simp_all
  moreover have "unat (k + 1) + left < 65536" "shared_info_decompressed_mbuf (qp ?s2) = Some sh"
    "\<exists>os. operations (qp ?s2) = Some os \<and> unat (k + 1) + left < length os"
    "offset ?s2 + left * ?seg \<le> sz"
    using k Suc.prems(8,9,15) os by (simp_all add: algebra_simps)
  ultimately obtain m where m: "decompress_dst_loop P c data sz n left (k + 1) ?j1 ?s2 =
      (Inr (k + 1 + word_of_nat left), ?s2\<lparr>wld := (wld ?s2)\<lparr>mach := m\<rparr>, offset := offset ?s2 + left * ?seg\<rparr>)"
    "same_objects P (mach (wld ?s2)) m"
    "finished sh (private_xform_decompress (qp ?s2)) js' ds'
      (map (\<lambda>t. (data + (offset ?s2 + t * ?seg), ?seg)) [0..<left]) (mach (wld ?s2)) m"
    using Suc.IH [of js' ds' ?s2 "k + 1" ?j1] ops hd by blast
  have areas: "map (\<lambda>t. (data + (offset s + t * ?seg), ?seg)) [0..<Suc left] =
      (?a, ?seg) # map (\<lambda>t. (data + (offset ?s2 + t * ?seg), ?seg)) [0..<left]"
    by (simp add: upt_conv_Cons map_Suc_upt [symmetric] algebra_simps del: upt_Suc)
  have "finished sh ?xf js ds (map (\<lambda>t. (data + (offset s + t * ?seg), ?seg)) [0..<Suc left]) (mach (wld s)) m"
    unfolding areas js ds
  proof (rule finished_Cons [OF _ m1(1,2)])
    show "ops m1 = (ops (mach (wld s)))(j0 := completed d0
        (mbufs (mach (wld s)) (the (m_src (ops (mach (wld s)) j0)))) ?xf (ops (mach (wld s)) j0))"
      using m1(3) b(1) by simp
    show "finished sh ?xf js' ds'
      (map (\<lambda>t. (data + (offset ?s2 + t * ?seg), ?seg)) [0..<left]) m1 m" using m(3) by simp
    show "\<forall>i \<in> set js'. the (m_src (ops (mach (wld s)) i)) \<noteq> d0"
      using Suc.prems(13) js ds by fastforce
  qed (use Suc.prems(1,2,4,5) js ds in simp_all)
  moreover have "same_objects P (mach (wld s)) m"
    using same_objects_trans [OF m1(4), of m] m(2) by simp
  moreover have "decompress_dst_loop P c data sz n (Suc left) k j s =
      (Inr (k + word_of_nat (Suc left)),
       s\<lparr>wld := (wld s)\<lparr>mach := m\<rparr>, offset := offset s + Suc left * ?seg\<rparr>)"
    unfolding step m(1) by (simp add: algebra_simps)
  ultimately show ?case by (intro exI [of _ m] conjI)
qed

end
