(* ===== verification/Bitar_Pipeline.thy ===== *)
theory Bitar_Pipeline
  imports Bitar_Assembly
begin

text \<open>
  The way of operations through a queue pair, common to compression and decompression:
  assembled, enqueued, processed by the device, dequeued and recycled, in this order.
\<close>

subsection \<open>Jobs\<close>

text \<open>
  A job is an operation with its source and its destination mbuf, the bytes it reads and
  the room it may write to. All jobs of a call have the same mode: the shared infos of
  source and destination, and the transform.
\<close>

record job =
  job_op :: op_ptr
  job_src :: mbuf_ptr
  job_dst :: mbuf_ptr
  job_in :: addr
  job_len :: nat
  job_out :: addr
  job_cap :: nat

record mode =
  src_sh :: shinfo_ptr
  dst_sh :: shinfo_ptr
  mode_xform :: xform_ptr
  mode_codec :: rte_comp_xform

definition job_area :: "job \<Rightarrow> addr set" where
  "job_area x = {job_out x ..< job_out x + job_cap x}"

definition job_source :: "job \<Rightarrow> addr set" where
  "job_source x = {job_in x ..< job_in x + job_len x}"

definition areas :: "job list \<Rightarrow> addr set" where
  "areas xs = (\<Union>x \<in> set xs. job_area x)"

definition jobs_apart :: "job list \<Rightarrow> bool" where
  "jobs_apart xs \<longleftrightarrow> (\<forall>x \<in> set xs. \<forall>y \<in> set xs. job_source x \<inter> job_area y = {} \<and>
     (x \<noteq> y \<longrightarrow> job_area x \<inter> job_area y = {}))"

lemma jobs_apart_subset: "jobs_apart xs \<Longrightarrow> set ys \<subseteq> set xs \<Longrightarrow> jobs_apart ys"
  by (auto simp: jobs_apart_def)

definition job_ready :: "mode \<Rightarrow> 'w machine \<Rightarrow> job \<Rightarrow> bool" where
  "job_ready md m x \<longleftrightarrow>
     m_src (ops m (job_op x)) = Some (job_src x) \<and> m_dst (ops m (job_op x)) = Some (job_dst x) \<and>
     src_offset (ops m (job_op x)) = 0 \<and> src_length (ops m (job_op x)) = job_len x \<and>
     dst_offset (ops m (job_op x)) = 0 \<and> flush_flag (ops m (job_op x)) = RTE_COMP_FLUSH_FINAL \<and>
     private_xform (ops m (job_op x)) = Some (mode_xform md) \<and>
     data_mbuf (job_in x) (job_len x) (src_sh md) (mbufs m (job_src x)) \<and>
     data_mbuf (job_out x) (job_cap x) (dst_sh md) (mbufs m (job_dst x))"

definition same_request :: "comp_op \<Rightarrow> comp_op \<Rightarrow> bool" where
  "same_request j i \<longleftrightarrow> (\<exists>st k. i = j\<lparr>op_status := st, produced := k\<rparr>)"

lemma same_request_refl [simp]: "same_request j j"
  unfolding same_request_def by (intro exI [of _ "op_status j"] exI [of _ "produced j"]) simp

lemma job_ready_cong:
  assumes "job_ready md m x" "same_request (ops m (job_op x)) (ops m' (job_op x))"
    and "mbufs m' (job_src x) = mbufs m (job_src x)" "mbufs m' (job_dst x) = mbufs m (job_dst x)"
  shows "job_ready md m' x"
  using assms by (auto simp: job_ready_def same_request_def)

lemma job_ready_areas:
  assumes "job_ready md m x"
  shows "src_area m (job_op x) = job_source x" "dst_area m (job_op x) = job_area x"
  using assms
  by (simp_all add: job_ready_def src_area_def dst_area_def mbuf_bytes_def data_mbuf_def
      job_source_def job_area_def)

lemma dst_bytes_jobs:
  "\<forall>x \<in> set xs. job_ready md m x \<Longrightarrow> dst_bytes m (map job_op xs) = areas xs"
  unfolding dst_bytes_def areas_def by (simp add: job_ready_areas(2) [of md m])

lemma apart_jobs:
  assumes "\<forall>x \<in> set xs. job_ready md m x" "jobs_apart xs"
  shows "apart m (map job_op xs)"
  unfolding apart_def
proof (intro ballI conjI impI)
  fix i j assume "i \<in> set (map job_op xs)" "j \<in> set (map job_op xs)"
  then obtain x y where x: "x \<in> set xs" "i = job_op x" and y: "y \<in> set xs" "j = job_op y" by auto
  note A = job_ready_areas [of md m x] job_ready_areas [of md m y]
  show "src_area m i \<inter> dst_area m j = {}"
    using assms x y A unfolding jobs_apart_def by simp
  assume "i \<noteq> j"
  then have "x \<noteq> y" using x y by blast
  then show "dst_area m i \<inter> dst_area m j = {}"
    using assms x y A unfolding jobs_apart_def by simp
qed

definition job_mbufs :: "job \<Rightarrow> mbuf_ptr list" where
  "job_mbufs x = [job_src x, job_dst x]"

definition owns :: "('w, 'p) dpdk_scheme \<Rightarrow> 'w machine \<Rightarrow> job list \<Rightarrow> bool" where
  "owns P m xs \<longleftrightarrow>
     distinct (map job_op xs) \<and> set (map job_op xs) \<subseteq> live_ops P (hidden m) \<and>
     distinct (concat (map job_mbufs xs)) \<and> set (concat (map job_mbufs xs)) \<subseteq> live_mbufs P (hidden m)"

text \<open>The result of a job the device has given back.\<close>

definition job_fits :: "('w, 'p) dpdk_scheme \<Rightarrow> mode \<Rightarrow> 'w machine \<Rightarrow> job \<Rightarrow> bool" where
  "job_fits P md m x \<longleftrightarrow> length (codec P (mode_codec md) (mem_bytes m (job_in x) (job_len x))) \<le> job_cap x"

definition delivered :: "('w, 'p) dpdk_scheme \<Rightarrow> mode \<Rightarrow> 'w machine \<Rightarrow> job \<Rightarrow> bool" where
  "delivered P md m x \<longleftrightarrow>
     (op_status (ops m (job_op x)) = RTE_COMP_OP_STATUS_SUCCESS \<longrightarrow>
        produced (ops m (job_op x)) \<le> job_cap x \<and>
        mem_bytes m (job_out x) (produced (ops m (job_op x))) =
          codec P (mode_codec md) (mem_bytes m (job_in x) (job_len x))) \<and>
     (faultless P \<longrightarrow> job_fits P md m x \<longrightarrow> op_status (ops m (job_op x)) = RTE_COMP_OP_STATUS_SUCCESS)"

subsection \<open>The state of a queue pair\<close>

text \<open>The members of a queue pair memory that no call changes.\<close>

definition statics where
  "statics q = (qm_device_id q, qm_queue_pair_id q, mbuf_pool q, operation_pool q,
     shared_info_decompressed_mbuf q, shared_info_compressed_mbuf q,
     private_xform_compress q, private_xform_decompress q,
     map_option length (operations q), map_option length (mbuf_array q))"

text \<open>A queue pair memory after a successful \<open>Preallocate\<close>, for chains of one mbuf.\<close>

definition qp_ready :: "configuration \<Rightarrow> queue_pair_memory \<Rightarrow> bool" where
  "qp_ready c q \<longleftrightarrow>
     (\<exists>n. map_option length (operations q) = Some n \<and> 2 * unat (burst_size c) \<le> n \<and> unat (burst_size c) < n) \<and>
     (\<exists>n. map_option length (mbuf_array q) = Some n \<and> 2 * unat (burst_size c) \<le> n) \<and>
     mbuf_pool q \<noteq> None \<and> operation_pool q \<noteq> None \<and>
     shared_info_decompressed_mbuf q \<noteq> None \<and> shared_info_compressed_mbuf q \<noteq> None \<and>
     shared_info_decompressed_mbuf q \<noteq> shared_info_compressed_mbuf q \<and>
     private_xform_compress q \<noteq> None \<and> private_xform_decompress q \<noteq> None"

lemma qp_ready_cong: "statics q = statics q' \<Longrightarrow> qp_ready c q = qp_ready c q'"
  by (simp add: qp_ready_def statics_def)

text \<open>
  The jobs \<open>A\<close> have been dequeued and not yet recycled, \<open>B\<close> are with the device, \<open>C\<close> are
  assembled and not yet enqueued.
\<close>

definition pipe ::
  "('w, 'p) dpdk_scheme \<Rightarrow> configuration \<Rightarrow> mode \<Rightarrow> u8 \<Rightarrow> u16 \<Rightarrow> job list \<Rightarrow> job list \<Rightarrow> job list \<Rightarrow>
   'w qp_state \<Rightarrow> bool" where
  "pipe P c md dev_id qp_id A B C s \<longleftrightarrow>
     qp_ready c (qp s) \<and>
     pending_operations (qp s) = map (\<lambda>x. Some (job_op x)) (A @ B @ C) \<and>
     inflight P (hidden (mach (wld s))) dev_id qp_id = map job_op B \<and>
     array_has (operations (qp s)) 0 (map job_op C) \<and>
     unat (num_ops_assembled (qp s)) = length C \<and> length C \<le> unat (burst_size c) \<and>
     owns P (mach (wld s)) (A @ B @ C) \<and> jobs_apart (A @ B @ C) \<and>
     (\<forall>x \<in> set (A @ B @ C). job_ready md (mach (wld s)) x) \<and>
     (\<forall>x \<in> set A. delivered P md (mach (wld s)) x) \<and>
     xforms P (hidden (mach (wld s))) (mode_xform md) = Some (mode_codec md)"

lemma pipeD:
  assumes "pipe P c md dev_id qp_id A B C s"
  shows "qp_ready c (qp s)"
    "pending_operations (qp s) = map (\<lambda>x. Some (job_op x)) (A @ B @ C)"
    "inflight P (hidden (mach (wld s))) dev_id qp_id = map job_op B"
    "array_has (operations (qp s)) 0 (map job_op C)"
    "unat (num_ops_assembled (qp s)) = length C" "length C \<le> unat (burst_size c)"
    "owns P (mach (wld s)) (A @ B @ C)" "jobs_apart (A @ B @ C)"
    "x \<in> set (A @ B @ C) \<Longrightarrow> job_ready md (mach (wld s)) x"
    "x \<in> set A \<Longrightarrow> delivered P md (mach (wld s)) x"
    "xforms P (hidden (mach (wld s))) (mode_xform md) = Some (mode_codec md)"
  using assms unfolding pipe_def by blast+

text \<open>The part of it that holds at an error, too: what \<open>Release\<close> needs.\<close>

definition stuck :: "('w, 'p) dpdk_scheme \<Rightarrow> configuration \<Rightarrow> mode \<Rightarrow> job list \<Rightarrow> 'w qp_state \<Rightarrow> bool" where
  "stuck P c md xs s \<longleftrightarrow>
     qp_ready c (qp s) \<and> pending_operations (qp s) = map (\<lambda>x. Some (job_op x)) xs \<and>
     owns P (mach (wld s)) xs \<and> (\<forall>x \<in> set xs. job_ready md (mach (wld s)) x)"

lemma pipe_stuck: "pipe P c md dev_id qp_id A B C s \<Longrightarrow> stuck P c md (A @ B @ C) s"
  by (simp add: pipe_def stuck_def)

text \<open>
  From \<open>s\<close> to \<open>t\<close> nothing has changed that a client looks at, but bytes of the areas of the
  jobs \<open>J\<close>.
\<close>

definition quiet :: "('w, 'p) dpdk_scheme \<Rightarrow> job list \<Rightarrow> 'w qp_state \<Rightarrow> 'w qp_state \<Rightarrow> bool" where
  "quiet P J s t \<longleftrightarrow>
     t = s\<lparr>qp := qp t, wld := wld t\<rparr> \<and> statics (qp t) = statics (qp s) \<and>
     allocated_memzones (wld t) = allocated_memzones (wld s) \<and>
     live_zones P (hidden (mach (wld t))) = live_zones P (hidden (mach (wld s))) \<and>
     xforms P (hidden (mach (wld t))) = xforms P (hidden (mach (wld s))) \<and>
     (\<forall>a. a \<notin> areas J \<longrightarrow> bytes (mach (wld t)) a = bytes (mach (wld s)) a)"

lemma quiet_refl [simp]: "quiet P J s s"
  by (simp add: quiet_def)

lemma quiet_trans:
  assumes "quiet P J s t" "quiet P J t u"
  shows "quiet P J s u"
proof (cases s; cases t; cases u)
  fix a1 b1 c1 d1 e1 f1 g1 m1 a2 b2 c2 d2 e2 f2 g2 m2 a3 b3 c3 d3 e3 f3 g3 m3
  assume "s = \<lparr>qp = a1, dmem = b1, wld = c1, offset = d1, index = e1, compressed_buffers = f1,
      decompressed_buffer_size = g1\<rparr>"
    "t = \<lparr>qp = a2, dmem = b2, wld = c2, offset = d2, index = e2, compressed_buffers = f2,
      decompressed_buffer_size = g2\<rparr>"
    "u = \<lparr>qp = a3, dmem = b3, wld = c3, offset = d3, index = e3, compressed_buffers = f3,
      decompressed_buffer_size = g3\<rparr>"
  then show ?thesis using assms by (simp add: quiet_def)
qed

lemma quiet_mono: "quiet P J s t \<Longrightarrow> set J \<subseteq> set K \<Longrightarrow> quiet P K s t"
  unfolding quiet_def areas_def by blast

lemma pipe_cong:
  "qp t = qp s \<Longrightarrow> mach (wld t) = mach (wld s) \<Longrightarrow>
   pipe P c md dev_id qp_id A B C t = pipe P c md dev_id qp_id A B C s"
  by (simp add: pipe_def)

lemma stuck_cong:
  "qp t = qp s \<Longrightarrow> mach (wld t) = mach (wld s) \<Longrightarrow> stuck P c md xs t = stuck P c md xs s"
  by (simp add: stuck_def)

subsection \<open>The steps of a burst\<close>

lemma error_count_step:
  obtains n k where "error_count P num dev_id s = (Inr n, s\<lparr>wld := (wld s)\<lparr>num_maybe_not_ok := k\<rparr>\<rparr>)"
    "faultless P \<Longrightarrow> n = 0"
proof -
  obtain n w where g: "GetErrorCount P num dev_id (wld s) = (n, w)" by fastforce
  then have "\<exists>k. w = (wld s)\<lparr>num_maybe_not_ok := k\<rparr>"
    by (auto simp: GetErrorCount_def Let_def split: if_splits)
  moreover have "n = 0" if "faultless P"
    using g that by (auto simp: GetErrorCount_def Let_def faultless_def split: if_splits)
  ultimately show ?thesis using g that by (auto simp: error_count_def)
qed

lemma quiet_count: "quiet P xs s (s\<lparr>wld := (wld s)\<lparr>num_maybe_not_ok := k\<rparr>\<rparr>)"
  by (simp add: quiet_def)

lemma enqueue_law:
  assumes "burst_laws P" "rte_compressdev_enqueue_burst P dev_id qp_id (map Some js) m = (n, m')"
  shows "unat n \<le> length js" "ops m' = ops m"
    "burst_frame P (inflight P (hidden m) dev_id qp_id @ take (unat n) js) m m'"
    "inflight P (hidden m') =
       set_inflight (inflight P (hidden m) dev_id qp_id @ take (unat n) js) dev_id qp_id (inflight P (hidden m))"
  using assms(1) [unfolded burst_laws_def Let_def, THEN conjunct1, rule_format, OF assms(2)] by auto

lemma dequeue_law:
  assumes "burst_laws P" "rte_compressdev_dequeue_burst P dev_id qp_id n m = (js, m')"
    and "inflight P (hidden m) dev_id qp_id = hs"
  shows "length js \<le> unat n" "burst_frame P hs m m'" "hs = js @ drop (length js) hs"
    "inflight P (hidden m') = set_inflight (drop (length js) hs) dev_id qp_id (inflight P (hidden m))"
    "\<And>j. same_request (ops m j) (ops m' j)"
    "\<And>j. j \<notin> set js \<Longrightarrow> ops m' j = ops m j"
    "distinct hs \<Longrightarrow> apart m hs \<Longrightarrow> j \<in> set js \<Longrightarrow> processed P m' j"
    "distinct hs \<Longrightarrow> apart m hs \<Longrightarrow> faultless P \<Longrightarrow> j \<in> set js \<Longrightarrow> succeeded P m' j"
proof -
  show "distinct hs \<Longrightarrow> apart m hs \<Longrightarrow> faultless P \<Longrightarrow> j \<in> set js \<Longrightarrow> succeeded P m' j"
    using assms(2,3) unfolding faultless_def by blast
  note L = assms(1) [unfolded burst_laws_def Let_def, THEN conjunct2, rule_format, OF assms(2),
      unfolded assms(3)]
  then show "length js \<le> unat n" "burst_frame P hs m m'" "hs = js @ drop (length js) hs"
    "inflight P (hidden m') = set_inflight (drop (length js) hs) dev_id qp_id (inflight P (hidden m))"
    "\<And>j. j \<notin> set js \<Longrightarrow> ops m' j = ops m j"
    "distinct hs \<Longrightarrow> apart m hs \<Longrightarrow> j \<in> set js \<Longrightarrow> processed P m' j"
    by blast+
  fix j
  show "same_request (ops m j) (ops m' j)"
  proof (cases "j \<in> set js")
    case True
    then show ?thesis using L unfolding same_request_def by blast
  next
    case False
    then show ?thesis using L by simp
  qed
qed

lemma burst_quiet:
  assumes "burst_frame P (map job_op xs) (mach (wld s)) m'" "\<forall>x \<in> set xs. job_ready md (mach (wld s)) x"
    and "statics q' = statics (qp s)"
  shows "quiet P xs s (s\<lparr>qp := q', wld := (wld s)\<lparr>mach := m'\<rparr>\<rparr>)"
  using assms by (simp add: quiet_def burst_frame_def dst_bytes_jobs)

lemma burst_owns:
  "burst_frame P js m m' \<Longrightarrow> owns P m' xs = owns P m xs"
  by (simp add: burst_frame_def owns_def)

lemma AccumulateUnused_ok:
  assumes "array_has (operations (qp s)) 0 js" "unat (num_ops_assembled (qp s)) = length js"
    and "unat u \<le> length js"
  obtains os where "AccumulateUnused u s =
      (Inr SC_OK, s\<lparr>qp := (qp s)\<lparr>operations := os, num_ops_assembled := u\<rparr>\<rparr>)"
    "array_has os 0 (drop (length js - unat u) js)"
    "map_option length os = map_option length (operations (qp s))"
proof -
  obtain xs where xs: "operations (qp s) = Some xs" "length js \<le> length xs"
    "take (length js) xs = map Some js"
    using assms(1) by (auto simp: array_has_def)
  have le: "\<not> num_ops_assembled (qp s) < u" using assms(2,3) by (simp add: word_less_nat_alt)
  show ?thesis
  proof (cases "0 < u \<and> u \<noteq> num_ops_assembled (qp s)")
    case True
    let ?d = "length js - unat u"
    let ?part = "take (unat u) (drop ?d xs)"
    have len: "length ?part = unat u" using assms(3) xs(2) by simp
    have "?part = drop ?d (take (length js) xs)" using assms(3) by (simp add: drop_take)
    then have part: "?part = map Some (drop ?d js)" using xs(3) by (simp add: drop_map)
    show ?thesis
    proof (rule that)
      show "AccumulateUnused u s = (Inr SC_OK,
          s\<lparr>qp := (qp s)\<lparr>operations := Some (overwrite xs 0 ?part), num_ops_assembled := u\<rparr>\<rparr>)"
        using le True xs(1,2) assms(2) by (simp add: AccumulateUnused_def upd_qp_def seq_assoc)
      have "take (unat u) (overwrite xs 0 ?part) = ?part" using len by (simp add: overwrite_def)
      then show "array_has (Some (overwrite xs 0 ?part)) 0 (drop ?d js)"
        using len part assms(3) xs(2) by (simp add: array_has_def)
      show "map_option length (Some (overwrite xs 0 ?part)) = map_option length (operations (qp s))"
        unfolding option.map xs(1) using len assms(3) xs(2)
        by (intro arg_cong [of _ _ Some] length_overwrite) (simp only: len)
    qed
  next
    case False
    then have u: "unat u = 0 \<or> unat u = length js"
      using assms(2) by (auto simp: word_less_nat_alt unat_eq_0)
    show ?thesis
    proof (rule that)
      show "AccumulateUnused u s =
          (Inr SC_OK, s\<lparr>qp := (qp s)\<lparr>operations := Some xs, num_ops_assembled := u\<rparr>\<rparr>)"
        using le False xs(1) by (auto simp: AccumulateUnused_def upd_qp_def)
      show "array_has (Some xs) 0 (drop (length js - unat u) js)"
        using u xs by (auto simp: array_has_def)
    qed (simp add: xs)
  qed
qed

text \<open>Operations move from \<open>C\<close> to \<open>B\<close> when they are enqueued.\<close>

lemma EnqueueBurst_pipe:
  assumes "burst_laws P" "pipe P c md dev_id qp_id [] B C s"
  shows "wp (EnqueueBurst P dev_id qp_id (enqueue_ops (qp s)) (num_ops_assembled (qp s)))
    (\<lambda>code t. quiet P (B @ C) s t \<and>
       (code = SC_OK \<and> (\<exists>e \<le> length C. pipe P c md dev_id qp_id [] (B @ take e C) (drop e C) t \<and>
          (e = 0 \<longrightarrow> rte_compressdev_enqueue_burst P dev_id qp_id (map Some (map job_op C))
             (mach (wld s)) = (0, mach (wld t)))) \<or>
        code = IOError \<and> stuck P c md (B @ C) t \<and> \<not> faultless P))
    (\<lambda>_ _. False) s"
proof -
  let ?m = "mach (wld s)" and ?js = "map job_op C"
  note pipe = pipeD [OF assms(2)]
  obtain os where os: "operations (qp s) = Some os" "length C \<le> length os"
    "take (length C) os = map Some ?js"
    using pipe(4) by (auto simp: array_has_def)
  have ptr: "enqueue_ops (qp s) = Some 0" using os(1) by (simp add: enqueue_ops_def)
  obtain n m' where enq: "rte_compressdev_enqueue_burst P dev_id qp_id (map Some ?js) ?m = (n, m')"
    by fastforce
  note L = enqueue_law [OF assms(1) enq]
  define e where "e = unat n"
  have e: "e \<le> length C" using L(1) by (simp add: e_def)
  have fr: "burst_frame P (map job_op (B @ take e C)) ?m m'" using L(3) pipe(3) by (simp add: e_def take_map)
  have sub: "set (B @ take e C) \<subseteq> set (B @ C)" by (auto dest: in_set_takeD)
  have ready: "\<forall>x \<in> set (B @ C). job_ready md m' x"
  proof
    fix x assume "x \<in> set (B @ C)"
    then have "job_ready md ?m x" using pipe(9) by simp
    then show "job_ready md m' x"
      by (rule job_ready_cong) (use L(2) fr in \<open>simp_all add: burst_frame_def\<close>)
  qed
  obtain k r where err: "error_count P n dev_id (s\<lparr>wld := (wld s)\<lparr>mach := m'\<rparr>\<rparr>) =
      (Inr r, s\<lparr>wld := (wld s)\<lparr>mach := m', num_maybe_not_ok := k\<rparr>\<rparr>)"
    and no_err: "faultless P \<Longrightarrow> r = 0"
    by (rule error_count_step [of P n dev_id "s\<lparr>wld := (wld s)\<lparr>mach := m'\<rparr>\<rparr>"]) simp
  let ?w = "(wld s)\<lparr>mach := m', num_maybe_not_ok := k\<rparr>"
  have quiet: "quiet P (B @ C) s (s\<lparr>qp := q', wld := ?w\<rparr>)" if "statics q' = statics (qp s)" for q'
  proof (rule quiet_mono [OF _ sub])
    have "\<forall>x \<in> set (B @ take e C). job_ready md ?m x" using pipe(9) sub by auto
    then show "quiet P (B @ take e C) s (s\<lparr>qp := q', wld := ?w\<rparr>)"
      using burst_quiet [OF fr _ that, of md] by (simp add: quiet_def)
  qed
  have u: "unat (num_ops_assembled (qp s) - n) = length C - e"
    using pipe(5) e by (simp add: unat_sub word_le_nat_alt e_def)
  obtain os' where acc: "AccumulateUnused (num_ops_assembled (qp s) - n) (s\<lparr>wld := ?w\<rparr>) =
      (Inr SC_OK, s\<lparr>qp := (qp s)\<lparr>operations := os', num_ops_assembled := num_ops_assembled (qp s) - n\<rparr>, wld := ?w\<rparr>)"
    and os': "array_has os' 0 (drop e ?js)" "map_option length os' = map_option length (operations (qp s))"
  proof (rule AccumulateUnused_ok [of "s\<lparr>wld := ?w\<rparr>" ?js "num_ops_assembled (qp s) - n"])
    show "array_has (operations (qp (s\<lparr>wld := ?w\<rparr>))) 0 ?js" using pipe(4) by simp
    show "unat (num_ops_assembled (qp (s\<lparr>wld := ?w\<rparr>))) = length ?js" using pipe(5) by simp
    show "unat (num_ops_assembled (qp s) - n) \<le> length ?js" using u by simp
    fix os2
    assume "AccumulateUnused (num_ops_assembled (qp s) - n) (s\<lparr>wld := ?w\<rparr>) = (Inr SC_OK,
        s\<lparr>wld := ?w, qp := (qp (s\<lparr>wld := ?w\<rparr>))\<lparr>operations := os2, num_ops_assembled := num_ops_assembled (qp s) - n\<rparr>\<rparr>)"
      "array_has os2 0 (drop (length ?js - unat (num_ops_assembled (qp s) - n)) ?js)"
      "map_option length os2 = map_option length (operations (qp (s\<lparr>wld := ?w\<rparr>)))"
    then show thesis using u e by (intro that [of os2]) simp_all
  qed
  let ?q = "(qp s)\<lparr>operations := os', num_ops_assembled := num_ops_assembled (qp s) - n\<rparr>"
  have st: "statics ?q = statics (qp s)" using os'(2) by (simp add: statics_def)
  have "pipe P c md dev_id qp_id [] (B @ take e C) (drop e C) (s\<lparr>qp := ?q, wld := ?w\<rparr>)"
    unfolding pipe_def
  proof (intro conjI ballI)
    have split: "[] @ (B @ take e C) @ drop e C = B @ C" by simp
    show "qp_ready c (qp (s\<lparr>qp := ?q, wld := ?w\<rparr>))" using qp_ready_cong [OF st] pipe(1) by simp
    show "inflight P (hidden (mach (wld (s\<lparr>qp := ?q, wld := ?w\<rparr>)))) dev_id qp_id = map job_op (B @ take e C)"
      using L(4) pipe(3) by (simp add: set_inflight_def e_def take_map)
    show "owns P (mach (wld (s\<lparr>qp := ?q, wld := ?w\<rparr>))) ([] @ (B @ take e C) @ drop e C)"
      unfolding split using burst_owns [OF fr] pipe(7) by simp
    show "pending_operations (qp (s\<lparr>qp := ?q, wld := ?w\<rparr>)) =
        map (\<lambda>x. Some (job_op x)) ([] @ (B @ take e C) @ drop e C)"
      unfolding split using pipe(2) by simp
    show "jobs_apart ([] @ (B @ take e C) @ drop e C)" unfolding split using pipe(8) by simp
    show "job_ready md (mach (wld (s\<lparr>qp := ?q, wld := ?w\<rparr>))) x"
      if "x \<in> set ([] @ (B @ take e C) @ drop e C)" for x
      using that ready unfolding split by simp
  qed (use os'(1) u pipe(6,11) fr in \<open>simp_all add: drop_map burst_frame_def\<close>)
  moreover have "stuck P c md (B @ C) (s\<lparr>wld := ?w\<rparr>)"
    using pipe(1,2,7) ready burst_owns [OF fr] by (simp add: stuck_def)
  moreover have "EnqueueBurst P dev_id qp_id (enqueue_ops (qp s)) (num_ops_assembled (qp s)) s =
      (if 0 < r then (Inr IOError, s\<lparr>wld := ?w\<rparr>) else (Inr SC_OK, s\<lparr>qp := ?q, wld := ?w\<rparr>))"
    using pipe(5) os enq err acc
    by (simp add: EnqueueBurst_def ptr operations_from_def seq_assoc on_mach_def seq_def)
  moreover have "e = 0 \<longrightarrow> rte_compressdev_enqueue_burst P dev_id qp_id (map Some ?js) ?m = (0, m')"
    using enq by (simp add: e_def unat_eq_0)
  ultimately show ?thesis using quiet [OF refl] quiet [OF st] e no_err
    by (auto simp: wp_def intro!: exI [of _ e])
qed

lemma array_has_overwrite:
  assumes "i + length js \<le> length os"
  shows "array_has (Some (overwrite os i (map Some js))) i js"
proof -
  have "length (take i os) = i" using assms by simp
  then have "take (length js) (drop i (overwrite os i (map Some js))) = map Some js"
    by (simp add: overwrite_def)
  then show ?thesis using assms by (simp add: array_has_def)
qed

lemma array_has_overwrite_above:
  assumes "array_has (Some os) 0 xs" "length xs \<le> i" "i + length js \<le> length os"
  shows "array_has (Some (overwrite os i js)) 0 xs"
  using assms by (simp add: array_has_def overwrite_def)

lemma processed_delivered:
  assumes "processed P m (job_op x)" "faultless P \<Longrightarrow> succeeded P m (job_op x)" "job_ready md m x"
    "xforms P (hidden m) (mode_xform md) = Some (mode_codec md)"
  shows "delivered P md m x"
  unfolding delivered_def
proof (intro conjI impI)
  show "op_status (ops m (job_op x)) = RTE_COMP_OP_STATUS_SUCCESS" if "faultless P" "job_fits P md m x"
    using assms(2) [OF that(1)] assms(3,4) that(2)
    unfolding succeeded_def job_ready_def data_mbuf_def job_fits_def by simp
qed (use assms(1,3,4) in \<open>simp_all add: processed_def job_ready_def data_mbuf_def\<close>)

text \<open>Operations move from \<open>B\<close> to \<open>A\<close> when they are dequeued.\<close>

lemma dequeue_pipe:
  assumes "burst_laws P" "pipe P c md dev_id qp_id [] B C s"
    and deq: "rte_compressdev_dequeue_burst P dev_id qp_id (burst_size c) (mach (wld s)) = (js, m')"
    and t: "t = s\<lparr>qp := (qp s)\<lparr>operations := map_option (\<lambda>os. overwrite os (unat (burst_size c)) (map Some js))
        (operations (qp s))\<rparr>, wld := (wld s)\<lparr>mach := m'\<rparr>\<rparr>"
  shows "length js \<le> length B" "js = map job_op (take (length js) B)"
    "pipe P c md dev_id qp_id (take (length js) B) (drop (length js) B) C t" "quiet P B s t"
    "array_has (operations (qp t)) (unat (burst_size c)) js" "length js \<le> unat (burst_size c)"
proof -
  note pipe = pipeD [OF assms(2)]
  let ?m = "mach (wld s)" and ?k = "length js" and ?b = "unat (burst_size c)"
  note L = dequeue_law [OF assms(1) deq pipe(3)]
  have le: "?k \<le> length B" using arg_cong [OF L(3), of length] by simp
  then show "?k \<le> length B" .
  have js: "js = map job_op (take ?k B)" using arg_cong [OF L(3), of "take ?k"] by (simp add: take_map)
  then show "js = map job_op (take ?k B)" .
  show "?k \<le> ?b" by (rule L(1))
  obtain os where os: "operations (qp s) = Some os" "2 * ?b \<le> length os"
    using pipe(1) by (auto simp: qp_ready_def)
  have room: "?b + ?k \<le> length os" using os(2) L(1) by simp
  have st: "statics (qp t) = statics (qp s)" using t os(1) room by (simp add: statics_def)
  have mb: "mbufs m' = mbufs ?m" using L(2) by (simp add: burst_frame_def)
  have ready: "job_ready md m' x" if "x \<in> set (B @ C)" for x
  proof (rule job_ready_cong)
    show "job_ready md ?m x" using that pipe(9) by simp
    show "same_request (ops ?m (job_op x)) (ops m' (job_op x))" by (rule L(5))
  qed (simp_all add: mb)
  have xf: "xforms P (hidden m') (mode_xform md) = Some (mode_codec md)"
    using L(2) pipe(11) by (simp add: burst_frame_def)
  have dist: "distinct (map job_op B)" using pipe(7) by (simp add: owns_def)
  have "apart ?m (map job_op B)"
    using pipe(9) by (intro apart_jobs [of _ md] jobs_apart_subset [OF pipe(8)]) auto
  note proc = L(7,8) [OF dist this]
  have del: "delivered P md m' x" if "x \<in> set (take ?k B)" for x
  proof (rule processed_delivered [OF _ _ _ xf])
    have j: "job_op x \<in> set js" using that by (subst js) simp
    show "processed P m' (job_op x)" "faultless P \<Longrightarrow> succeeded P m' (job_op x)"
      by (rule proc(1) [OF j], rule proc(2) [OF _ j])
    show "job_ready md m' x" using that by (intro ready) (auto dest: in_set_takeD)
  qed
  have split: "take ?k B @ drop ?k B @ C = B @ C" by simp
  show "pipe P c md dev_id qp_id (take ?k B) (drop ?k B) C t"
    unfolding pipe_def split
  proof (intro conjI ballI)
    show "qp_ready c (qp t)" using qp_ready_cong [OF st] pipe(1) by simp
    show "inflight P (hidden (mach (wld t))) dev_id qp_id = map job_op (drop ?k B)"
      using L(4) by (simp add: set_inflight_def t drop_map)
    show "owns P (mach (wld t)) (B @ C)" using burst_owns [OF L(2)] pipe(7) t by simp
    show "array_has (operations (qp t)) 0 (map job_op C)"
      using array_has_overwrite_above [of os "map job_op C" ?b "map Some js"] pipe(4,6) os room t by simp
  qed (use t pipe(2,5,6,8) xf ready del in simp_all)
  show "quiet P B s t"
    unfolding t using burst_quiet [OF L(2), of md] pipe(9) st by (simp add: t)
  show "array_has (operations (qp t)) ?b js" using array_has_overwrite [OF room] os(1) by (simp add: t)
qed

lemma free_law:
  assumes "free_laws P" "chained m p bs"
  shows "live_mbufs P (hidden (rte_pktmbuf_free P p m)) = live_mbufs P (hidden m) - set bs"
    "a \<notin> set bs \<Longrightarrow> mbufs (rte_pktmbuf_free P p m) a = mbufs m a"
    "ops (rte_pktmbuf_free P p m) = ops m"
    "live_ops P (hidden (rte_pktmbuf_free P p m)) = live_ops P (hidden m)"
    "inflight P (hidden (rte_pktmbuf_free P p m)) = inflight P (hidden m)"
    "same_memory P m (rte_pktmbuf_free P p m)"
  using assms(1) [unfolded free_laws_def Let_def, THEN conjunct2, THEN conjunct1, rule_format, OF assms(2)]
  by blast+

lemma op_free_law:
  assumes "free_laws P"
  shows "live_ops P (hidden (rte_comp_op_free P j m)) = live_ops P (hidden m) - {j}"
    "i \<noteq> j \<Longrightarrow> ops (rte_comp_op_free P j m) i = ops m i"
    "mbufs (rte_comp_op_free P j m) = mbufs m"
    "live_mbufs P (hidden (rte_comp_op_free P j m)) = live_mbufs P (hidden m)"
    "inflight P (hidden (rte_comp_op_free P j m)) = inflight P (hidden m)"
    "same_memory P m (rte_comp_op_free P j m)"
  using assms [unfolded free_laws_def Let_def, THEN conjunct2, THEN conjunct2, rule_format, of j m]
  by blast+

lemma seg_free_law:
  assumes "free_laws P"
  shows "live_mbufs P (hidden (rte_pktmbuf_free_seg P b m)) = live_mbufs P (hidden m) - {b}"
    "a \<noteq> b \<Longrightarrow> mbufs (rte_pktmbuf_free_seg P b m) a = mbufs m a"
    "ops (rte_pktmbuf_free_seg P b m) = ops m"
    "live_ops P (hidden (rte_pktmbuf_free_seg P b m)) = live_ops P (hidden m)"
    "inflight P (hidden (rte_pktmbuf_free_seg P b m)) = inflight P (hidden m)"
    "same_memory P m (rte_pktmbuf_free_seg P b m)"
  using assms [unfolded free_laws_def Let_def, THEN conjunct1, rule_format, of b m]
  by blast+

text \<open>From \<open>m\<close> to \<open>m'\<close> the operation of a job and its mbufs have been given back to the pools.\<close>

definition job_freed :: "('w, 'p) dpdk_scheme \<Rightarrow> job \<Rightarrow> 'w machine \<Rightarrow> 'w machine \<Rightarrow> bool" where
  "job_freed P x m m' \<longleftrightarrow>
     live_mbufs P (hidden m') = live_mbufs P (hidden m) - set (job_mbufs x) \<and>
     live_ops P (hidden m') = live_ops P (hidden m) - {job_op x} \<and>
     (\<forall>b. b \<notin> set (job_mbufs x) \<longrightarrow> mbufs m' b = mbufs m b) \<and>
     (\<forall>j. j \<noteq> job_op x \<longrightarrow> ops m' j = ops m j) \<and>
     inflight P (hidden m') = inflight P (hidden m) \<and> same_memory P m m'"

lemma data_mbuf_chained: "data_mbuf a len sh (mbufs m b) \<Longrightarrow> chained m (Some b) [b]"
  by (simp add: data_mbuf_def)

lemma free_job:
  assumes "free_laws P" "job_ready md m x" "job_src x \<noteq> job_dst x"
  shows "job_freed P x m
    (rte_comp_op_free P (job_op x) (rte_pktmbuf_free P (Some (job_dst x)) (rte_pktmbuf_free P (Some (job_src x)) m)))"
proof -
  have "chained m (Some (job_src x)) [job_src x]"
    using assms(2) by (intro data_mbuf_chained) (auto simp: job_ready_def)
  note S = free_law [OF assms(1) this]
  let ?m = "rte_pktmbuf_free P (Some (job_src x)) m"
  have "next_seg (mbufs ?m (job_dst x)) = None"
    using S(2) [of "job_dst x"] assms(2,3) by (simp add: job_ready_def data_mbuf_def)
  then have "chained ?m (Some (job_dst x)) [job_dst x]" by simp
  note D = free_law [OF assms(1) this]
  note O = op_free_law [OF assms(1), where j = "job_op x" and m = "rte_pktmbuf_free P (Some (job_dst x)) ?m"]
  show ?thesis
    unfolding job_freed_def job_mbufs_def
    using S(1-5) D(1-5) O(1-5) same_memory_trans [OF same_memory_trans [OF S(6) D(6)] O(6)] by auto
qed

lemma owns_Cons:
  "owns P m (x # xs) \<longleftrightarrow> owns P m xs \<and> job_src x \<noteq> job_dst x \<and> job_op x \<in> live_ops P (hidden m) \<and>
     set (job_mbufs x) \<subseteq> live_mbufs P (hidden m) \<and>
     (\<forall>y \<in> set xs. job_op y \<noteq> job_op x \<and> set (job_mbufs y) \<inter> set (job_mbufs x) = {})"
proof -
  have "job_op x \<notin> set (map job_op xs) \<longleftrightarrow> (\<forall>y \<in> set xs. job_op y \<noteq> job_op x)"
    by (metis image_iff list.set_map)
  moreover have "set (job_mbufs x) \<inter> set (concat (map job_mbufs xs)) = {} \<longleftrightarrow>
      (\<forall>y \<in> set xs. set (job_mbufs y) \<inter> set (job_mbufs x) = {})" by auto
  moreover have "distinct (job_mbufs x) \<longleftrightarrow> job_src x \<noteq> job_dst x" by (simp add: job_mbufs_def)
  ultimately show ?thesis unfolding owns_def by auto
qed

lemma owns_append1: "owns P m (xs @ ys) \<Longrightarrow> owns P m xs" "owns P m (xs @ ys) \<Longrightarrow> owns P m ys"
  by (simp_all add: owns_def)

lemma job_freed_others:
  assumes "job_freed P x m m'" "owns P m (x # xs)"
  shows "owns P m' xs"
    and "y \<in> set xs \<Longrightarrow> job_ready md m y \<Longrightarrow> job_ready md m' y"
    and "y \<in> set xs \<Longrightarrow> delivered P md m y \<Longrightarrow> delivered P md m' y"
proof -
  have apart: "job_op y \<noteq> job_op x" "set (job_mbufs y) \<inter> set (job_mbufs x) = {}" if "y \<in> set xs" for y
    using assms(2) that unfolding owns_Cons by blast+
  then show "owns P m' xs"
    using assms unfolding owns_Cons owns_def job_freed_def by auto
  assume y: "y \<in> set xs"
  have "ops m' (job_op y) = ops m (job_op y)" "mbufs m' (job_src y) = mbufs m (job_src y)"
    "mbufs m' (job_dst y) = mbufs m (job_dst y)"
    using apart [OF y] assms(1) by (auto simp: job_freed_def job_mbufs_def)
  note same = this
  show "job_ready md m y \<Longrightarrow> job_ready md m' y"
    by (erule job_ready_cong) (simp_all add: same)
  show "delivered P md m y \<Longrightarrow> delivered P md m' y"
    using same assms(1) by (simp add: delivered_def job_fits_def job_freed_def same_memory_def mem_bytes_def)
qed

lemma RecycleResources_pipe:
  assumes "free_laws P" "pipe P c md dev_id qp_id (x # A) B C s"
  obtains t where "RecycleResources P (Some (job_op x)) s = (Inr SC_OK, t)"
    "pipe P c md dev_id qp_id A B C t" "quiet P [] s t"
proof -
  note pipe = pipeD [OF assms(2)]
  let ?m = "mach (wld s)"
  let ?m' = "rte_comp_op_free P (job_op x) (rte_pktmbuf_free P (Some (job_dst x)) (rte_pktmbuf_free P (Some (job_src x)) ?m))"
  let ?p = "map (\<lambda>x. Some (job_op x)) (A @ B @ C)"
  let ?t = "s\<lparr>qp := (qp s)\<lparr>pending_operations := ?p\<rparr>, wld := (wld s)\<lparr>mach := ?m'\<rparr>\<rparr>"
  have ready: "job_ready md ?m x" using pipe(9) by simp
  have own: "owns P ?m (x # A @ B @ C)" using pipe(7) by simp
  then have ne: "job_src x \<noteq> job_dst x" by (simp add: owns_Cons)
  note F = free_job [OF assms(1) ready ne]
  note R = job_freed_others [OF F own]
  have mem: "same_memory P ?m ?m'" "inflight P (hidden ?m') = inflight P (hidden ?m)"
    using F by (simp_all add: job_freed_def)
  have op1: "ops (rte_pktmbuf_free P (Some (job_src x)) ?m) = ops ?m"
    using ready by (intro free_law(3) [OF assms(1) data_mbuf_chained]) (auto simp: job_ready_def)
  have st: "statics (qp ?t) = statics (qp s)" by (simp add: statics_def)
  show ?thesis
  proof
    show "RecycleResources P (Some (job_op x)) s = (Inr SC_OK, ?t)"
      using pipe(2) ready op1
      by (simp add: RecycleResources_def upd_qp_def do_mach_def job_ready_def)
    show "quiet P [] s ?t"
      using mem(1) st by (simp add: quiet_def same_memory_def)
    show "pipe P c md dev_id qp_id A B C ?t"
      unfolding pipe_def
    proof (intro conjI ballI)
      show "qp_ready c (qp ?t)" using qp_ready_cong [OF st] pipe(1) by simp
      show "jobs_apart (A @ B @ C)" by (rule jobs_apart_subset [OF pipe(8)]) auto
      show "owns P (mach (wld ?t)) (A @ B @ C)" using R(1) by simp
      show "job_ready md (mach (wld ?t)) y" if "y \<in> set (A @ B @ C)" for y
        using R(2) [of y md] pipe(9) [of y] that by simp
      show "delivered P md (mach (wld ?t)) y" if "y \<in> set A" for y
        using R(3) [of y md] pipe(10) [of y] that by simp
      show "xforms P (hidden (mach (wld ?t))) (mode_xform md) = Some (mode_codec md)"
        using pipe(11) mem(1) by (simp add: same_memory_def)
    qed (use pipe mem in simp_all)
  qed
qed

end
