(* ===== verification/Bitar_Bursts.thy ===== *)
theory Bitar_Bursts
  imports Bitar_Pipeline
begin

text \<open>
  The three phases \<open>Compress\<close> and \<open>Decompress\<close> have in common, for any client that assembles
  jobs and takes the results of finished jobs: all jobs are assembled, go through the queue
  pair and are finished in their order, or the client's clean-up has run. The client is a
  locale; \<open>Bitar_Compress\<close> and \<open>Bitar_Decompress\<close> interpret it.
\<close>

subsection \<open>The loops\<close>

text \<open>
  If a round keeps an invariant, it holds when the loop ends; if each round also comes closer
  to the end in a well-founded order, the loop ends.
\<close>

lemma burst_loop_pwp:
  fixes body :: "int \<Rightarrow> ('w qp_state, int) pcode"
  assumes round: "\<And>n s. I n s \<Longrightarrow> 0 < n \<Longrightarrow> pwp (body n) I E s" and "I n s"
  shows "pwp (burst_loop body n) (\<lambda>_ t. \<exists>n \<le> 0. I n t) E s"
proof -
  have "case y of (Inl e, t) \<Rightarrow> E e t | (Inr _, t) \<Rightarrow> \<exists>n \<le> 0. I n t"
    if "burst_loop body n s = Some y" "I n s" for n s y
  proof (rule burst_loop.raw_induct
      [where P = "\<lambda>b n s y. b = body \<longrightarrow> I n s \<longrightarrow> (case y of (Inl e, t) \<Rightarrow> E e t | (Inr _, t) \<Rightarrow> \<exists>n \<le> 0. I n t)",
        OF _ that(1), THEN mp, THEN mp])
    fix loop :: "(int \<Rightarrow> ('w qp_state, int) pcode) \<Rightarrow> int \<Rightarrow> ('w qp_state, unit) pcode"
    fix b n s y
    assume 1: "\<And>b n s y. loop b n s = Some y \<Longrightarrow> b = body \<longrightarrow> I n s \<longrightarrow>
        (case y of (Inl e, t) \<Rightarrow> E e t | (Inr _, t) \<Rightarrow> \<exists>n \<le> 0. I n t)"
      "(if 0 < n then
          (case b n s of None \<Rightarrow> None | Some (Inl e, s) \<Rightarrow> Some (Inl e, s) | Some (Inr n, s) \<Rightarrow> loop b n s)
        else Some (OK, s)) = Some y"
    show "b = body \<longrightarrow> I n s \<longrightarrow> (case y of (Inl e, t) \<Rightarrow> E e t | (Inr _, t) \<Rightarrow> \<exists>n \<le> 0. I n t)"
    proof (intro impI)
      assume b: "b = body" and i: "I n s"
      show "case y of (Inl e, t) \<Rightarrow> E e t | (Inr _, t) \<Rightarrow> \<exists>n \<le> 0. I n t"
      proof (cases "0 < n")
        case True
        note R = round [OF i True]
        show ?thesis
        proof (cases "body n s")
          case None
          then show ?thesis using 1(2) b True by simp
        next
          case (Some x)
          obtain q t where x: "x = (q, t)" by fastforce
          show ?thesis
          proof (cases q)
            case (Inl e)
            then show ?thesis using 1(2) b True Some x R by (auto simp: pwp_def)
          next
            case (Inr m)
            have "loop body m t = Some y" using 1(2) b True Some x Inr by simp
            moreover have "I m t" using R Some x Inr by (simp add: pwp_def)
            ultimately show ?thesis using 1(1) [of body m t y] by blast
          qed
        qed
      next
        case False
        then have "n \<le> 0 \<and> I n s" "y = (OK, s)" using 1(2) i b by simp_all
        then show ?thesis by auto
      qed
    qed
  qed (simp_all add: that(2))
  then show ?thesis using assms(2) by (fastforce simp: pwp_def split: option.splits)
qed

lemma burst_loop_twp:
  assumes wf: "wf r" and round: "\<And>n s. I n s \<Longrightarrow> 0 < n \<Longrightarrow> twp (body n) (\<lambda>n t. I n t \<and> (t, s) \<in> r) E s"
    and "I n s"
  shows "twp (burst_loop body n) (\<lambda>_ t. \<exists>n \<le> 0. I n t) E s"
  using assms(3)
proof (induction s arbitrary: n rule: wf_induct_rule [OF wf])
  case (1 s)
  show ?case
  proof (cases "0 < n")
    case False
    then have "burst_loop body n s = Some (OK, s)" by (simp add: burst_loop.simps)
    then show ?thesis using twp_eq(1) [of "burst_loop body n" s] 1(2) False by (metis linorder_not_less)
  next
    case True
    show ?thesis
    proof (rule twp_cases [OF round [OF 1(2) True]])
      fix m t assume m: "body n s = Some (Inr m, t)" "I m t \<and> (t, s) \<in> r"
      have "burst_loop body n s = burst_loop body m t"
        using True m(1) by (subst burst_loop.simps) simp
      then show ?thesis using 1(1) [of t m] m(2) by (simp add: twp_def pwp_def)
    next
      fix e t assume e: "body n s = Some (Inl e, t)" "E e t"
      have "burst_loop body n s = Some (Inl e, t)"
        using True e(1) by (subst burst_loop.simps) simp
      then show ?thesis using e(2) by (simp add: twp_def pwp_def)
    qed
  qed
qed

lemma drain_loop_pwp:
  fixes body :: "('w qp_state, unit) pcode"
  assumes round: "\<And>s. I s \<Longrightarrow> has_pending_operations (qp s) \<Longrightarrow> pwp body (\<lambda>_. I) E s" and "I s"
  shows "pwp (drain_loop body) (\<lambda>_ t. I t \<and> \<not> has_pending_operations (qp t)) E s"
proof -
  have "case y of (Inl e, t) \<Rightarrow> E e t | (Inr _, t) \<Rightarrow> I t \<and> \<not> has_pending_operations (qp t)"
    if "drain_loop body s = Some y" "I s" for s y
  proof (rule drain_loop.raw_induct
      [where P = "\<lambda>b s y. b = body \<longrightarrow> I s \<longrightarrow>
          (case y of (Inl e, t) \<Rightarrow> E e t | (Inr _, t) \<Rightarrow> I t \<and> \<not> has_pending_operations (qp t))",
        OF _ that(1), THEN mp, THEN mp])
    fix loop :: "('w qp_state, unit) pcode \<Rightarrow> ('w qp_state, unit) pcode"
    fix b s y
    assume 1: "\<And>b s y. loop b s = Some y \<Longrightarrow> b = body \<longrightarrow> I s \<longrightarrow>
        (case y of (Inl e, t) \<Rightarrow> E e t | (Inr _, t) \<Rightarrow> I t \<and> \<not> has_pending_operations (qp t))"
      "(if has_pending_operations (qp s) then
          (case b s of None \<Rightarrow> None | Some (Inl e, s) \<Rightarrow> Some (Inl e, s) | Some (Inr _, s) \<Rightarrow> loop b s)
        else Some (OK, s)) = Some y"
    show "b = body \<longrightarrow> I s \<longrightarrow>
        (case y of (Inl e, t) \<Rightarrow> E e t | (Inr _, t) \<Rightarrow> I t \<and> \<not> has_pending_operations (qp t))"
    proof (intro impI)
      assume b: "b = body" and i: "I s"
      show "case y of (Inl e, t) \<Rightarrow> E e t | (Inr _, t) \<Rightarrow> I t \<and> \<not> has_pending_operations (qp t)"
      proof (cases "has_pending_operations (qp s)")
        case True
        note R = round [OF i True]
        show ?thesis
        proof (cases "body s")
          case None
          then show ?thesis using 1(2) b True by simp
        next
          case (Some x)
          obtain q t where x: "x = (q, t)" by fastforce
          show ?thesis
          proof (cases q)
            case (Inl e)
            then show ?thesis using 1(2) b True Some x R by (auto simp: pwp_def)
          next
            case (Inr m)
            have "loop body t = Some y" using 1(2) b True Some x Inr by simp
            moreover have "I t" using R Some x Inr by (simp add: pwp_def)
            ultimately show ?thesis using 1(1) [of body t y] by blast
          qed
        qed
      next
        case False
        then show ?thesis using 1(2) i b by auto
      qed
    qed
  qed (simp_all add: that(2))
  then show ?thesis using assms(2) by (fastforce simp: pwp_def split: option.splits)
qed

lemma drain_loop_twp:
  assumes wf: "wf r" and round: "\<And>s. I s \<Longrightarrow> has_pending_operations (qp s) \<Longrightarrow>
      twp body (\<lambda>_ t. I t \<and> (t, s) \<in> r) E s" and "I s"
  shows "twp (drain_loop body) (\<lambda>_ t. I t \<and> \<not> has_pending_operations (qp t)) E s"
  using assms(3)
proof (induction s rule: wf_induct_rule [OF wf])
  case (1 s)
  show ?case
  proof (cases "has_pending_operations (qp s)")
    case False
    then have "drain_loop body s = Some (OK, s)" by (simp add: drain_loop.simps)
    then show ?thesis using 1(2) False by (simp add: twp_def pwp_def)
  next
    case True
    show ?thesis
    proof (rule twp_cases [OF round [OF 1(2) True]])
      fix m t assume m: "body s = Some (Inr m, t)" "I t \<and> (t, s) \<in> r"
      have "drain_loop body s = drain_loop body t"
        using True m(1) by (subst drain_loop.simps) simp
      then show ?thesis using 1(1) [of t] m(2) by (simp add: twp_def pwp_def)
    next
      fix e t assume e: "body s = Some (Inl e, t)" "E e t"
      have "drain_loop body s = Some (Inl e, t)"
        using True e(1) by (subst drain_loop.simps) simp
      then show ?thesis using e(2) by (simp add: twp_def pwp_def)
    qed
  qed
qed

subsection \<open>The interface of a client\<close>

text \<open>
  A device keeps its clients waiting only finitely often: a number decreases with every burst
  that takes nothing though nothing is in the queue pair, or returns nothing though there is
  something. Only the proofs that the loops end use it.
\<close>

definition prompt :: "('w, 'p) dpdk_scheme \<Rightarrow> ('w \<Rightarrow> nat) \<Rightarrow> bool" where
  "prompt P patience \<longleftrightarrow>
     (\<forall>dev_id qp_id js m m'. js \<noteq> [] \<longrightarrow>
        rte_compressdev_enqueue_burst P dev_id qp_id (map Some js) m = (0, m') \<longrightarrow>
        (if inflight P (hidden m) dev_id qp_id = [] then patience (hidden m') < patience (hidden m)
         else patience (hidden m') \<le> patience (hidden m))) \<and>
     (\<forall>dev_id qp_id n m m'. 0 < n \<longrightarrow>
        rte_compressdev_dequeue_burst P dev_id qp_id n m = ([], m') \<longrightarrow>
        (if inflight P (hidden m) dev_id qp_id = [] then patience (hidden m') \<le> patience (hidden m)
         else patience (hidden m') < patience (hidden m)))"

text \<open>
  \<open>jobs dn xs s\<close>: the jobs \<open>dn\<close> are finished and the jobs \<open>xs\<close> are under way; \<open>left s\<close> jobs are
  still to be assembled; \<open>lost e s\<close> holds after the clean-up that follows an error. Under the
  condition \<open>smooth\<close> the device has no reason to fail one of the jobs.
\<close>

locale burst_client =
  fixes P :: "('w, 'p) dpdk_scheme" and c :: configuration and md :: mode
    and dev_id :: u8 and qp_id :: u16
    and callback :: "op_ptr \<Rightarrow> ('w qp_state, unit) pcode"
    and assemble :: "('w qp_state, int) pcode"
    and release :: "('w qp_state, unit) pcode"
    and jobs :: "job list \<Rightarrow> job list \<Rightarrow> 'w qp_state \<Rightarrow> bool"
    and left :: "'w qp_state \<Rightarrow> nat"
    and lost :: "error \<Rightarrow> 'w qp_state \<Rightarrow> bool"
    and smooth :: bool
  assumes laws: "burst_laws P" "free_laws P"
    and some_burst: "0 < burst_size c"
    and jobs_quiet: "jobs dn xs s \<Longrightarrow> quiet P xs s t \<Longrightarrow> jobs dn xs t"
    and left_quiet: "quiet P xs s t \<Longrightarrow> left t = left s"
    and finish: "pipe P c md dev_id qp_id (x # A) B C s \<Longrightarrow> jobs dn (x # A @ B @ C) s \<Longrightarrow>
      op_status (ops (mach (wld s)) (job_op x)) = RTE_COMP_OP_STATUS_SUCCESS \<Longrightarrow>
      \<exists>t. callback (job_op x) s = Some (OK, t) \<and> jobs (dn @ [x]) (A @ B @ C) t \<and>
        qp t = qp s \<and> wld t = wld s \<and> left t = left s"
    and assembles: "pipe P c md dev_id qp_id [] B C s \<Longrightarrow> jobs dn (B @ C) s \<Longrightarrow>
      twp assemble (\<lambda>n t. \<exists>D. n = int (length (C @ D)) \<and> pipe P c md dev_id qp_id [] B (C @ D) t \<and>
        jobs dn (B @ C @ D) t \<and> left s = length D + left t \<and> (C @ D = [] \<longrightarrow> left t = 0) \<and>
        (D = [] \<longrightarrow> t = s)) lost s"
    and smooth_jobs: "smooth \<Longrightarrow> faultless P"
      "smooth \<Longrightarrow> jobs dn xs s \<Longrightarrow> x \<in> set xs \<Longrightarrow> job_fits P md (mach (wld s)) x"
    and releases: "stuck P c md xs s \<Longrightarrow> jobs dn xs s \<Longrightarrow> xs \<noteq> [] \<Longrightarrow> \<not> smooth \<Longrightarrow>
      twp release (\<lambda>_ t. \<forall>msg. lost (Status IOError msg) t) (\<lambda>_ _. False) s"

text \<open>
  Between two rounds: \<open>n\<close> operations are assembled. What is left to do, and one state being
  closer to the end than another, given the patience with the device.
\<close>

definition in_burst ::
  "('w, 'p) dpdk_scheme \<Rightarrow> configuration \<Rightarrow> mode \<Rightarrow> u8 \<Rightarrow> u16 \<Rightarrow>
   (job list \<Rightarrow> job list \<Rightarrow> 'w qp_state \<Rightarrow> bool) \<Rightarrow> ('w qp_state \<Rightarrow> nat) \<Rightarrow> int \<Rightarrow> 'w qp_state \<Rightarrow> bool" where
  "in_burst P c md dev_id qp_id jobs left n s \<longleftrightarrow>
     (\<exists>dn B C. pipe P c md dev_id qp_id [] B C s \<and> jobs dn (B @ C) s \<and> n = int (length C) \<and>
        (C = [] \<longrightarrow> left s = 0))"

definition work ::
  "('w, 'p) dpdk_scheme \<Rightarrow> u8 \<Rightarrow> u16 \<Rightarrow> ('w qp_state \<Rightarrow> nat) \<Rightarrow> 'w qp_state \<Rightarrow> nat" where
  "work P dev_id qp_id left s = 3 * left s + 2 * unat (num_ops_assembled (qp s)) +
     length (inflight P (hidden (mach (wld s))) dev_id qp_id)"

definition closer ::
  "('w, 'p) dpdk_scheme \<Rightarrow> u8 \<Rightarrow> u16 \<Rightarrow> ('w qp_state \<Rightarrow> nat) \<Rightarrow> ('w \<Rightarrow> nat) \<Rightarrow> ('w qp_state \<times> 'w qp_state) set" where
  "closer P dev_id qp_id left patience =
     inv_image (less_than <*lex*> less_than)
       (\<lambda>s. (work P dev_id qp_id left s, patience (hidden (mach (wld s)))))"

lemma wf_closer: "wf (closer P dev_id qp_id left patience)"
  by (simp add: closer_def wf_lex_prod)

lemma closer_iff:
  "(t, s) \<in> closer P dev_id qp_id left patience \<longleftrightarrow>
     work P dev_id qp_id left t < work P dev_id qp_id left s \<or>
     work P dev_id qp_id left t = work P dev_id qp_id left s \<and>
     patience (hidden (mach (wld t))) < patience (hidden (mach (wld s)))"
  by (simp add: closer_def)

lemma work_pipe:
  "pipe P c md dev_id qp_id A B C s \<Longrightarrow> work P dev_id qp_id left s = 3 * left s + 2 * length C + length B"
  by (simp add: work_def pipe_def)

text \<open>The parts of a round, as \<open>Compress\<close> and \<open>Decompress\<close> pass them to \<open>run_bursts\<close>.\<close>

definition burst_enqueue ::
  "('w, 'p) dpdk_scheme \<Rightarrow> u8 \<Rightarrow> u16 \<Rightarrow> string \<Rightarrow> ('w qp_state, unit) pcode \<Rightarrow> int \<Rightarrow>
   ('w qp_state, unit) pcode" where
  "burst_enqueue P dev_id qp_id msg release num = (\<lambda>s.
     pseq (total (EnqueueBurst P dev_id qp_id (enqueue_ops (qp s)) (word_of_int num)))
       (not_ok_else msg release) s)"

definition burst_dequeue ::
  "('w, 'p) dpdk_scheme \<Rightarrow> configuration \<Rightarrow> u8 \<Rightarrow> u16 \<Rightarrow> (op_ptr \<Rightarrow> ('w qp_state, unit) pcode) \<Rightarrow>
   string \<Rightarrow> ('w qp_state, unit) pcode \<Rightarrow> ('w qp_state, unit) pcode" where
  "burst_dequeue P c dev_id qp_id callback msg release = (\<lambda>s.
     pseq (DequeueBurst P c dev_id qp_id (dequeue_ops c (qp s)) callback) (not_ok_else msg release) s)"

lemma less_work:
  fixes w :: nat
  assumes "w = 3 * l + 2 * (c - e + d) + (b + e - k)" "k \<le> b + e" "0 < e + k + d"
    and "w' = 3 * l' + 2 * c + b" "l' = d + l" "e \<le> c"
  shows "w < w'"
proof -
  obtain q r where q: "c = e + q" "b + e = k + r" using assms(2,6) by (metis le_Suc_ex)
  then have "w = 3 * l + 2 * (q + d) + r" using assms(1) by simp
  moreover have "w' = 3 * l + 3 * d + 2 * q + e + (b + e)" using assms(4,5) q(1) by simp
  ultimately have "w' = w + (e + k + d)" using q(2) by simp
  then show ?thesis using assms(3) by simp
qed

lemma twp_burst:
  "twp (burst_enqueue P dev_id qp_id msg release num) Q E s =
     twp (pseq (total (EnqueueBurst P dev_id qp_id (enqueue_ops (qp s)) (word_of_int num)))
       (not_ok_else msg release)) Q E s"
  "twp (burst_dequeue P c dev_id qp_id callback msg release) Q E s =
     twp (pseq (DequeueBurst P c dev_id qp_id (dequeue_ops c (qp s)) callback) (not_ok_else msg release)) Q E s"
  by (simp_all add: burst_enqueue_def burst_dequeue_def twp_def pwp_def)

lemma prompt_enqueue:
  assumes "prompt P patience" "js \<noteq> []"
    "rte_compressdev_enqueue_burst P dev_id qp_id (map Some js) m = (0, m')"
  shows "patience (hidden m') \<le> patience (hidden m)"
    "inflight P (hidden m) dev_id qp_id = [] \<Longrightarrow> patience (hidden m') < patience (hidden m)"
  using assms(1) [unfolded prompt_def, THEN conjunct1, rule_format, OF assms(2,3)]
  by (auto split: if_splits)

lemma prompt_dequeue:
  assumes "prompt P patience" "0 < n" "rte_compressdev_dequeue_burst P dev_id qp_id n m = ([], m')"
  shows "patience (hidden m') \<le> patience (hidden m)"
    "inflight P (hidden m) dev_id qp_id \<noteq> [] \<Longrightarrow> patience (hidden m') < patience (hidden m)"
  using assms(1) [unfolded prompt_def, THEN conjunct2, rule_format, OF assms(2,3)]
  by (auto split: if_splits)

lemma take_drop_append: "take k xs @ drop k xs @ ys = xs @ ys"
  by (metis append.assoc append_take_drop_id)

lemma twp_process_Nil: "twp (process_dequeued P callback []) Q E s = Q SC_OK s"
  by (simp add: twp_def pwp_def)

context burst_client begin

lemma jobs_quiet_sub: "jobs dn xs s \<Longrightarrow> quiet P ys s t \<Longrightarrow> set ys \<subseteq> set xs \<Longrightarrow> jobs dn xs t"
  using jobs_quiet quiet_mono by blast

text \<open>A code that is not \<open>OK\<close> leads to the clean-up and an error.\<close>

lemma not_ok_IOError:
  assumes "stuck P c md xs s" "jobs dn xs s" "xs \<noteq> []" "\<not> smooth"
  shows "twp (not_ok_else msg release IOError) Q lost s"
proof -
  have "twp (not_ok_else msg release IOError) Q lost s =
      twp release (\<lambda>_ t. lost (Status IOError msg) t) lost s"
    by (simp add: not_ok_else_def RETURN_NOT_STATUS_OK_def)
  then show ?thesis using releases [OF assms] by (auto elim: twp_mono)
qed

lemma not_ok_OK: "not_ok_else msg release SC_OK s = Some (OK, s)"
  by (simp add: not_ok_else_def RETURN_NOT_STATUS_OK_def)

text \<open>The callback and the recycling of the operations that were dequeued.\<close>

lemma process_dequeued_jobs:
  assumes "pipe P c md dev_id qp_id A B C s" "jobs dn (A @ B @ C) s"
  shows "twp (process_dequeued P callback (map (\<lambda>x. Some (job_op x)) A))
    (\<lambda>code t. code = SC_OK \<and> pipe P c md dev_id qp_id [] B C t \<and> jobs (dn @ A) (B @ C) t \<and> left t = left s \<or>
       code = IOError \<and> \<not> smooth \<and> (\<exists>dn' xs. stuck P c md xs t \<and> jobs dn' xs t \<and> xs \<noteq> []))
    (\<lambda>_ _. False) s"
  using assms
proof (induction A arbitrary: s dn)
  case Nil
  then show ?case by (simp add: twp_def pwp_def)
next
  case (Cons x A)
  show ?case
  proof (cases "op_status (ops (mach (wld s)) (job_op x)) = RTE_COMP_OP_STATUS_SUCCESS")
    case False
    have "\<not> smooth"
    proof
      assume smooth
      then have "faultless P" "job_fits P md (mach (wld s)) x"
        using smooth_jobs(1) smooth_jobs(2) [OF _ Cons.prems(2), of x] by simp_all
      then show False using pipeD(10) [OF Cons.prems(1), of x] False by (simp add: delivered_def)
    qed
    moreover have "stuck P c md (x # A @ B @ C) s" using pipe_stuck [OF Cons.prems(1)] by simp
    ultimately show ?thesis using False Cons.prems(2) by (auto simp: Let_def)
  next
    case True
    obtain u where u: "callback (job_op x) s = Some (OK, u)" "jobs (dn @ [x]) (A @ B @ C) u"
      "qp u = qp s" "wld u = wld s" "left u = left s"
      using finish [OF Cons.prems(1) _ True] Cons.prems(2) by auto
    have pipe: "pipe P c md dev_id qp_id (x # A) B C u"
      using Cons.prems(1) u(4) by (simp add: pipe_cong [OF u(3)])
    obtain t where t: "RecycleResources P (Some (job_op x)) u = (Inr SC_OK, t)"
      "pipe P c md dev_id qp_id A B C t" "quiet P [] u t"
      by (rule RecycleResources_pipe [OF laws(2) pipe])
    have "jobs (dn @ [x]) (A @ B @ C) t" by (rule jobs_quiet_sub [OF u(2) t(3)]) simp
    note IH = Cons.IH [OF t(2) this]
    have "left t = left s" using left_quiet [OF t(3)] u(5) by simp
    moreover have "twp (process_dequeued P callback (map (\<lambda>x. Some (job_op x)) (x # A))) Q E s =
        twp (process_dequeued P callback (map (\<lambda>x. Some (job_op x)) A)) Q E t" for Q E
      using True by (simp add: twp_eq(1) [of "callback (job_op x)" s, OF u(1)]
          wp_eq(1) [of "RecycleResources P (Some (job_op x))" u, OF t(1)])
    ultimately show ?thesis using IH by simp
  qed
qed

text \<open>A burst of dequeued operations.\<close>

lemma DequeueBurst_jobs:
  assumes "pipe P c md dev_id qp_id [] B C s" "jobs dn (B @ C) s" "B @ C \<noteq> []"
  shows "twp (DequeueBurst P c dev_id qp_id (dequeue_ops c (qp s)) callback)
    (\<lambda>code t. code = SC_OK \<and> left t = left s \<and>
         (\<exists>k \<le> length B. pipe P c md dev_id qp_id [] (drop k B) C t \<and>
            jobs (dn @ take k B) (drop k B @ C) t \<and>
            (k = 0 \<longrightarrow> rte_compressdev_dequeue_burst P dev_id qp_id (burst_size c) (mach (wld s)) =
               ([], mach (wld t)))) \<or>
       code = IOError \<and> \<not> smooth \<and> (\<exists>dn' xs. stuck P c md xs t \<and> jobs dn' xs t \<and> xs \<noteq> []))
    (\<lambda>_ _. False) s"
proof -
  let ?b = "unat (burst_size c)"
  note pipe = pipeD [OF assms(1)]
  obtain os where os: "operations (qp s) = Some os" "2 * ?b \<le> length os"
    using pipe(1) by (auto simp: qp_ready_def)
  have ptr: "dequeue_ops c (qp s) = Some ?b" using os(1) by (simp add: dequeue_ops_def)
  obtain js m' where deq: "rte_compressdev_dequeue_burst P dev_id qp_id (burst_size c) (mach (wld s)) = (js, m')"
    by fastforce
  define u where "u = s\<lparr>qp := (qp s)\<lparr>operations := map_option (\<lambda>os. overwrite os ?b (map Some js))
        (operations (qp s))\<rparr>, wld := (wld s)\<lparr>mach := m'\<rparr>\<rparr>"
  note D = dequeue_pipe [OF laws(1) assms(1) deq u_def]
  let ?k = "length js"
  obtain r n where err: "error_count P (word_of_nat ?k) dev_id u =
      (Inr r, u\<lparr>wld := (wld u)\<lparr>num_maybe_not_ok := n\<rparr>\<rparr>)" and no_err: "faultless P \<Longrightarrow> r = 0"
    by (rule error_count_step [of P "word_of_nat ?k" dev_id u], blast)
  define v where "v = u\<lparr>wld := (wld u)\<lparr>num_maybe_not_ok := n\<rparr>\<rparr>"
  have pv: "pipe P c md dev_id qp_id (take ?k B) (drop ?k B) C v"
    using D(3) by (simp add: v_def pipe_cong [of "u\<lparr>wld := (wld u)\<lparr>num_maybe_not_ok := n\<rparr>\<rparr>" u])
  have qv: "quiet P B s v" using quiet_trans [OF D(4) quiet_count] by (simp add: v_def)
  have jv: "jobs dn (B @ C) v" by (rule jobs_quiet_sub [OF assms(2) qv]) simp
  have lv: "left v = left s" by (rule left_quiet [OF qv])
  obtain os' where os': "operations (qp v) = Some os'" "?b + ?k \<le> length os'"
    "take ?k (drop ?b os') = map Some js"
    using D(5) by (auto simp: v_def array_has_def)
  have js: "map Some js = map (\<lambda>x. Some (job_op x)) (take ?k B)"
    by (subst D(2)) simp
  have ops: "operations_from (Some ?b) ?k v = (Inr (map (\<lambda>x. Some (job_op x)) (take ?k B)), v)"
    using os' js by (simp add: operations_from_def)
  have room: "operations_from (Some ?b) ?b s = (Inr (take ?b (drop ?b os)), s)"
    using os by (simp add: operations_from_def)
  have eq: "twp (DequeueBurst P c dev_id qp_id (dequeue_ops c (qp s)) callback) Q E s =
     (if 0 < r then Q IOError v
      else twp (process_dequeued P callback (map (\<lambda>x. Some (job_op x)) (take ?k B))) Q E v)" for Q E
  proof -
    let ?f = "\<lambda>q. q\<lparr>operations := map_option (\<lambda>os. overwrite os (the (Some ?b)) (map Some js)) (operations q)\<rparr>"
    have m: "on_mach (rte_compressdev_dequeue_burst P dev_id qp_id (burst_size c)) s =
        (Inr js, s\<lparr>wld := (wld s)\<lparr>mach := m'\<rparr>\<rparr>)" using deq by (simp add: on_mach_def)
    have q: "upd_qp ?f (s\<lparr>wld := (wld s)\<lparr>mach := m'\<rparr>\<rparr>) = (OK, u)" by (simp add: upd_qp_def u_def)
    show ?thesis
      unfolding DequeueBurst_def ptr twp_simps
        wp_eq(1) [of "operations_from (Some ?b) ?b" s, OF room] wp_eq(1) [of "on_mach _" s, OF m]
        wp_eq(1) [of "upd_qp ?f" _, OF q] wp_eq(1) [of "error_count P _ dev_id" u, OF err [folded v_def]]
      by (simp add: wp_eq(1) [of "operations_from (Some ?b) ?k" v, OF ops])
  qed
  show ?thesis
  proof (cases "0 < r")
    case True
    have "stuck P c md (B @ C) v" using pipe_stuck [OF pv] by (simp add: take_drop_append)
    moreover have "\<not> smooth" using True no_err smooth_jobs(1) by auto
    ultimately show ?thesis using True jv assms(3) unfolding eq by auto
  next
    case False
    have "jobs dn (take ?k B @ drop ?k B @ C) v" using jv by (simp add: take_drop_append)
    note proc = process_dequeued_jobs [OF pv this]
    show ?thesis
    proof (cases "?k = 0")
      case True
      then have "pipe P c md dev_id qp_id [] B C v" "mach (wld v) = m'" using pv by (simp_all add: v_def u_def)
      then show ?thesis
        using False True jv lv deq unfolding eq
        by (simp add: twp_process_Nil) (intro exI [of _ 0], simp)
    next
      case nz: False
      show ?thesis
        unfolding eq using False
      proof (simp only: if_False, intro twp_mono [OF proc])
        fix code t
        assume "code = SC_OK \<and> pipe P c md dev_id qp_id [] (drop ?k B) C t \<and>
            jobs (dn @ take ?k B) (drop ?k B @ C) t \<and> left t = left v \<or>
          code = IOError \<and> \<not> smooth \<and> (\<exists>dn' xs. stuck P c md xs t \<and> jobs dn' xs t \<and> xs \<noteq> [])"
        then show "code = SC_OK \<and> left t = left s \<and>
           (\<exists>k \<le> length B. pipe P c md dev_id qp_id [] (drop k B) C t \<and>
              jobs (dn @ take k B) (drop k B @ C) t \<and>
              (k = 0 \<longrightarrow> rte_compressdev_dequeue_burst P dev_id qp_id (burst_size c) (mach (wld s)) =
                 ([], mach (wld t)))) \<or>
         code = IOError \<and> \<not> smooth \<and> (\<exists>dn' xs. stuck P c md xs t \<and> jobs dn' xs t \<and> xs \<noteq> [])"
          using D(1) lv nz by (auto intro: exI [of _ ?k])
      qed
    qed
  qed
qed

lemma enqueue_step:
  assumes "pipe P c md dev_id qp_id [] B C s" "jobs dn (B @ C) s" "B @ C \<noteq> []"
  shows "twp (pseq (total (EnqueueBurst P dev_id qp_id (enqueue_ops (qp s)) (num_ops_assembled (qp s))))
      (not_ok_else msg release))
    (\<lambda>_ t. left t = left s \<and>
       (\<exists>e \<le> length C. pipe P c md dev_id qp_id [] (B @ take e C) (drop e C) t \<and> jobs dn (B @ C) t \<and>
          (e = 0 \<longrightarrow> rte_compressdev_enqueue_burst P dev_id qp_id (map Some (map job_op C))
             (mach (wld s)) = (0, mach (wld t)))))
    lost s"
  unfolding twp_simps
proof (rule wp_mono [OF EnqueueBurst_pipe [OF laws(1) assms(1)]], elim conjE disjE exE)
  fix code t assume q: "quiet P (B @ C) s t" and "code = IOError" "stuck P c md (B @ C) t" "\<not> faultless P"
  then show "twp (not_ok_else msg release code) (\<lambda>_ t. left t = left s \<and>
       (\<exists>e \<le> length C. pipe P c md dev_id qp_id [] (B @ take e C) (drop e C) t \<and> jobs dn (B @ C) t \<and>
          (e = 0 \<longrightarrow> rte_compressdev_enqueue_burst P dev_id qp_id (map Some (map job_op C))
             (mach (wld s)) = (0, mach (wld t))))) lost t"
    using jobs_quiet [OF assms(2) q] not_ok_IOError assms(3) smooth_jobs(1) by blast
next
  fix code t e assume q: "quiet P (B @ C) s t" and e: "code = SC_OK" "e \<le> length C"
    "pipe P c md dev_id qp_id [] (B @ take e C) (drop e C) t"
    "e = 0 \<longrightarrow> rte_compressdev_enqueue_burst P dev_id qp_id (map Some (map job_op C))
             (mach (wld s)) = (0, mach (wld t))"
  show "twp (not_ok_else msg release code) (\<lambda>_ t. left t = left s \<and>
       (\<exists>e \<le> length C. pipe P c md dev_id qp_id [] (B @ take e C) (drop e C) t \<and> jobs dn (B @ C) t \<and>
          (e = 0 \<longrightarrow> rte_compressdev_enqueue_burst P dev_id qp_id (map Some (map job_op C))
             (mach (wld s)) = (0, mach (wld t))))) lost t"
    unfolding e(1) twp_eq(1) [of "not_ok_else msg release SC_OK" t, OF not_ok_OK]
    using e(2-4) left_quiet [OF q] jobs_quiet [OF assms(2) q] by blast
qed simp

lemma dequeue_step:
  assumes "pipe P c md dev_id qp_id [] B C s" "jobs dn (B @ C) s" "B @ C \<noteq> []"
  shows "twp (pseq (DequeueBurst P c dev_id qp_id (dequeue_ops c (qp s)) callback) (not_ok_else msg release))
    (\<lambda>_ t. left t = left s \<and>
       (\<exists>k \<le> length B. pipe P c md dev_id qp_id [] (drop k B) C t \<and>
          jobs (dn @ take k B) (drop k B @ C) t \<and>
          (k = 0 \<longrightarrow> rte_compressdev_dequeue_burst P dev_id qp_id (burst_size c) (mach (wld s)) =
             ([], mach (wld t)))))
    lost s"
  unfolding twp_simps
proof (rule twp_mono [OF DequeueBurst_jobs [OF assms]], elim disjE conjE)
  fix code t assume "code = IOError" "\<not> smooth" "\<exists>dn' xs. stuck P c md xs t \<and> jobs dn' xs t \<and> xs \<noteq> []"
  then show "twp (not_ok_else msg release code) (\<lambda>_ t. left t = left s \<and>
       (\<exists>k \<le> length B. pipe P c md dev_id qp_id [] (drop k B) C t \<and>
          jobs (dn @ take k B) (drop k B @ C) t \<and>
          (k = 0 \<longrightarrow> rte_compressdev_dequeue_burst P dev_id qp_id (burst_size c) (mach (wld s)) =
             ([], mach (wld t))))) lost t"
    using not_ok_IOError by blast
next
  fix code t assume "code = SC_OK" "left t = left s" "\<exists>k \<le> length B. pipe P c md dev_id qp_id [] (drop k B) C t \<and>
          jobs (dn @ take k B) (drop k B @ C) t \<and>
          (k = 0 \<longrightarrow> rte_compressdev_dequeue_burst P dev_id qp_id (burst_size c) (mach (wld s)) =
             ([], mach (wld t)))"
  then show "twp (not_ok_else msg release code) (\<lambda>_ t. left t = left s \<and>
       (\<exists>k \<le> length B. pipe P c md dev_id qp_id [] (drop k B) C t \<and>
          jobs (dn @ take k B) (drop k B @ C) t \<and>
          (k = 0 \<longrightarrow> rte_compressdev_dequeue_burst P dev_id qp_id (burst_size c) (mach (wld s)) =
             ([], mach (wld t))))) lost t"
    using twp_eq(1) [of "not_ok_else msg release SC_OK" t, OF not_ok_OK] by simp
qed simp

text \<open>A round of the first loop.\<close>

lemma burst_round:
  assumes "in_burst P c md dev_id qp_id jobs left num s" "0 < num"
  shows "twp (pseq (burst_enqueue P dev_id qp_id msg release num)
      (\<lambda>_. pseq (burst_dequeue P c dev_id qp_id callback msg' release) (\<lambda>_. assemble)))
    (\<lambda>n t. in_burst P c md dev_id qp_id jobs left n t \<and>
       (\<forall>patience. prompt P patience \<longrightarrow> (t, s) \<in> closer P dev_id qp_id left patience)) lost s"
proof -
  obtain dn B C where s: "pipe P c md dev_id qp_id [] B C s" "jobs dn (B @ C) s" "num = int (length C)"
    using assms(1) unfolding in_burst_def by blast
  have C: "C \<noteq> []" using assms(2) s(3) by simp
  have num: "word_of_int num = num_ops_assembled (qp s)"
  proof -
    have "(word_of_int num :: u16) = word_of_nat (unat (num_ops_assembled (qp s)))"
      using pipeD(5) [OF s(1)] s(3) by simp
    then show ?thesis by simp
  qed
  have ws: "work P dev_id qp_id left s = 3 * left s + 2 * length C + length B"
    using work_pipe [OF s(1)] .
  have ins: "inflight P (hidden (mach (wld s))) dev_id qp_id = map job_op B" by (rule pipeD(3) [OF s(1)])
  show ?thesis
    unfolding twp_simps(1) [of "burst_enqueue _ _ _ _ _ _"] twp_burst num
  proof (rule twp_mono [OF enqueue_step [OF s(1,2)]], simp add: C, elim conjE exE)
    fix t e assume lt: "left t = left s" and e: "e \<le> length C"
      and pt: "pipe P c md dev_id qp_id [] (B @ take e C) (drop e C) t" and jt: "jobs dn (B @ C) t"
      and enq: "e = 0 \<longrightarrow> rte_compressdev_enqueue_burst P dev_id qp_id (map Some (map job_op C))
             (mach (wld s)) = (0, mach (wld t))"
    let ?B = "B @ take e C"
    have "jobs dn (?B @ drop e C) t" "?B @ drop e C \<noteq> []" using jt C by simp_all
    note deq = dequeue_step [OF pt this]
    have it: "inflight P (hidden (mach (wld t))) dev_id qp_id = map job_op ?B" by (rule pipeD(3) [OF pt])
    show "twp (pseq (burst_dequeue P c dev_id qp_id callback msg' release) (\<lambda>_. assemble))
        ( \<lambda>n t. in_burst P c md dev_id qp_id jobs left n t \<and>
          (\<forall>patience. prompt P patience \<longrightarrow> (t, s) \<in> closer P dev_id qp_id left patience)) lost t"
      unfolding twp_simps(1) [of "burst_dequeue _ _ _ _ _ _ _"] twp_burst
    proof (rule twp_mono [OF deq], elim conjE exE)
      fix u k assume lu: "left u = left t" and k: "k \<le> length ?B"
        and pu: "pipe P c md dev_id qp_id [] (drop k ?B) (drop e C) u"
        and ju: "jobs (dn @ take k ?B) (drop k ?B @ drop e C) u"
        and deq: "k = 0 \<longrightarrow> rte_compressdev_dequeue_burst P dev_id qp_id (burst_size c) (mach (wld t)) =
             ([], mach (wld u))"
      show "twp assemble (\<lambda>n t. in_burst P c md dev_id qp_id jobs left n t \<and>
          (\<forall>patience. prompt P patience \<longrightarrow> (t, s) \<in> closer P dev_id qp_id left patience)) lost u"
      proof (rule twp_mono [OF assembles [OF pu ju]], elim exE conjE)
        fix n v D assume n: "n = int (length (drop e C @ D))"
          and pv: "pipe P c md dev_id qp_id [] (drop k ?B) (drop e C @ D) v"
          and jv: "jobs (dn @ take k ?B) (drop k ?B @ drop e C @ D) v"
          and lv: "left u = length D + left v" "drop e C @ D = [] \<longrightarrow> left v = 0" "D = [] \<longrightarrow> v = u"
        have "in_burst P c md dev_id qp_id jobs left n v"
          unfolding in_burst_def using pv jv n lv(2) by blast
        moreover have "(v, s) \<in> closer P dev_id qp_id left patience" if pr: "prompt P patience" for patience
        proof (cases "e = 0 \<and> k = 0 \<and> D = []")
          case False
          have "work P dev_id qp_id left v = 3 * left v + 2 * (length C - e + length D) + (length B + e - k)"
            using work_pipe [OF pv, of left] e by (simp add: min_def)
          moreover have "k \<le> length B + e" using k e by simp
          moreover have "0 < e + k + length D" using False by auto
          moreover have "left s = length D + left v" using lt lu lv(1) by simp
          ultimately have "work P dev_id qp_id left v < work P dev_id qp_id left s"
            using less_work ws e by blast
          then show ?thesis by (simp add: closer_iff)
        next
          case True
          then have v: "v = u" "work P dev_id qp_id left v = work P dev_id qp_id left s"
            using lv(3) work_pipe [OF pv, of left] lt lu ws by simp_all
          have "map job_op C \<noteq> []" using C by simp
          note E = prompt_enqueue [OF pr this, of dev_id qp_id "mach (wld s)" "mach (wld t)"]
          note D = prompt_dequeue [OF pr some_burst, of dev_id qp_id "mach (wld t)" "mach (wld u)"]
          have "patience (hidden (mach (wld u))) < patience (hidden (mach (wld s)))"
          proof (cases "B = []")
            case nil: True
            then show ?thesis using E D(1) enq deq True ins by fastforce
          next
            case False
            then show ?thesis using E(1) D enq deq True it by fastforce
          qed
          then show ?thesis using v by (simp add: closer_iff)
        qed
        ultimately show "in_burst P c md dev_id qp_id jobs left n v \<and>
          (\<forall>patience. prompt P patience \<longrightarrow> (v, s) \<in> closer P dev_id qp_id left patience)" by blast
      qed
    qed simp
  qed simp
qed

text \<open>A round of the second loop.\<close>

lemma drain_round:
  assumes "pipe P c md dev_id qp_id [] B [] s" "jobs dn B s" "left s = 0" "B \<noteq> []"
  shows "twp (burst_dequeue P c dev_id qp_id callback msg release)
    (\<lambda>_ t. (\<exists>dn B. pipe P c md dev_id qp_id [] B [] t \<and> jobs dn B t) \<and> left t = 0 \<and>
       (\<forall>patience. prompt P patience \<longrightarrow> (t, s) \<in> closer P dev_id qp_id left patience)) lost s"
proof -
  have "jobs dn (B @ []) s" "B @ [] \<noteq> []" using assms(2,4) by simp_all
  note deq = dequeue_step [OF assms(1) this]
  show ?thesis
    unfolding twp_burst
  proof (rule twp_mono [OF deq], elim conjE exE)
    fix t k assume lt: "left t = left s" and k: "k \<le> length B"
      and pt: "pipe P c md dev_id qp_id [] (drop k B) [] t"
      and jt: "jobs (dn @ take k B) (drop k B @ []) t"
      and deq: "k = 0 \<longrightarrow> rte_compressdev_dequeue_burst P dev_id qp_id (burst_size c) (mach (wld s)) =
           ([], mach (wld t))"
    have "(t, s) \<in> closer P dev_id qp_id left patience" if pr: "prompt P patience" for patience
    proof (cases "k = 0")
      case True
      then show ?thesis
        using prompt_dequeue(2) [OF pr some_burst, of dev_id qp_id "mach (wld s)" "mach (wld t)"]
          deq pipeD(3) [OF assms(1)] assms(4) work_pipe [OF assms(1), of left] work_pipe [OF pt, of left] lt
        by (simp add: closer_iff)
    next
      case False
      have "drop k B \<noteq> B" using False assms(4) by (metis diff_less length_drop length_greater_0_conv nat_neq_iff not_gr_zero)
      then show ?thesis
        using work_pipe [OF assms(1), of left] work_pipe [OF pt, of left] lt False k assms(4)
        by (simp add: closer_iff)
    qed
    then show "(\<exists>dn B. pipe P c md dev_id qp_id [] B [] t \<and> jobs dn B t) \<and> left t = 0 \<and>
       (\<forall>patience. prompt P patience \<longrightarrow> (t, s) \<in> closer P dev_id qp_id left patience)"
      using pt jt lt assms(3) by auto
  qed simp
qed

lemma drained:
  "pipe P c md dev_id qp_id [] B [] s \<Longrightarrow> has_pending_operations (qp s) \<longleftrightarrow> B \<noteq> []"
  using pipeD(2) [of P c md dev_id qp_id "[]" B "[]" s] by (simp add: has_pending_operations_def)

text \<open>
  All three phases. They end when the device is prompt; whenever they end, all jobs are
  finished, or the clean-up has run.
\<close>

lemma run_bursts_jobs:
  assumes "pipe P c md dev_id qp_id [] [] [] s" "jobs [] [] s"
    and run: "run = run_bursts assemble (burst_enqueue P dev_id qp_id msg1 release)
      (burst_dequeue P c dev_id qp_id callback msg2 release)
      (burst_dequeue P c dev_id qp_id callback msg3 release)"
  shows "pwp run (\<lambda>_ t. left t = 0 \<and> (\<exists>dn. pipe P c md dev_id qp_id [] [] [] t \<and> jobs dn [] t)) lost s"
    and "prompt P patience \<Longrightarrow> run s \<noteq> None"
proof -
  let ?body = "\<lambda>num. pseq (burst_enqueue P dev_id qp_id msg1 release num)
      (\<lambda>_. pseq (burst_dequeue P c dev_id qp_id callback msg2 release) (\<lambda>_. assemble))"
  let ?drain = "burst_dequeue P c dev_id qp_id callback msg3 release"
  let ?I = "in_burst P c md dev_id qp_id jobs left"
  let ?J = "\<lambda>s. (\<exists>dn B. pipe P c md dev_id qp_id [] B [] s \<and> jobs dn B s) \<and> left s = 0"
  have first: "twp assemble ?I lost s"
  proof (rule twp_mono [OF assembles [OF assms(1)]])
    show "jobs [] ([] @ []) s" using assms(2) by simp
  qed (use in_burst_def in blast)+
  have zero: "?J t" if "\<exists>n \<le> 0. ?I n t" for t
    using that unfolding in_burst_def by fastforce
  have end_jobs: "left t = 0 \<and> (\<exists>dn. pipe P c md dev_id qp_id [] [] [] t \<and> jobs dn [] t)"
    if "?J t \<and> \<not> has_pending_operations (qp t)" for t
    using that drained by blast
  have loop: "pwp (burst_loop ?body n) (\<lambda>_. ?J) lost u" if "?I n u" for n u
  proof (rule pwp_mono [OF burst_loop_pwp [of ?I ?body lost, OF _ that]])
    show "pwp (?body n) ?I lost s" if "?I n s" "0 < n" for n s
      by (rule pwp_mono [OF twp_pwp [OF burst_round [OF that]]]) auto
  qed (use zero in auto)
  have drain: "pwp (drain_loop ?drain) (\<lambda>_ t. left t = 0 \<and> (\<exists>dn. pipe P c md dev_id qp_id [] [] [] t \<and> jobs dn [] t)) lost u"
    if "?J u" for u
  proof (rule pwp_mono [OF drain_loop_pwp [of ?J ?drain lost, OF _ that]])
    show "pwp ?drain (\<lambda>_. ?J) lost s" if J: "?J s" and h: "has_pending_operations (qp s)" for s
    proof -
      obtain dn B where "pipe P c md dev_id qp_id [] B [] s" "jobs dn B s" "left s = 0" using J by blast
      then show ?thesis
        using drained h by (intro pwp_mono [OF twp_pwp [OF drain_round [of B s dn]]]) auto
    qed
  qed (use end_jobs in auto)
  show "pwp run (\<lambda>_ t. left t = 0 \<and> (\<exists>dn. pipe P c md dev_id qp_id [] [] [] t \<and> jobs dn [] t)) lost s"
    unfolding run run_bursts_def pwp_simps
    by (rule pwp_mono [OF twp_pwp [OF first]], rule pwp_mono [OF loop], assumption, rule drain)
  assume pr: "prompt P patience"
  let ?r = "closer P dev_id qp_id left patience"
  have loop: "twp (burst_loop ?body n) (\<lambda>_. ?J) lost u" if "?I n u" for n u
  proof (rule twp_mono [OF burst_loop_twp [of ?r ?I ?body lost, OF wf_closer _ that]])
    show "twp (?body n) (\<lambda>n t. ?I n t \<and> (t, s) \<in> ?r) lost s" if "?I n s" "0 < n" for n s
      by (rule twp_mono [OF burst_round [OF that]]) (use pr in auto)
  qed (use zero in auto)
  have drain: "twp (drain_loop ?drain) (\<lambda>_ t. True) lost u" if "?J u" for u
  proof (rule twp_mono [OF drain_loop_twp [of ?r ?J ?drain lost, OF wf_closer _ that]])
    show "twp ?drain (\<lambda>_ t. ?J t \<and> (t, s) \<in> ?r) lost s" if J: "?J s" and h: "has_pending_operations (qp s)" for s
    proof -
      obtain dn B where "pipe P c md dev_id qp_id [] B [] s" "jobs dn B s" "left s = 0" using J by blast
      then show ?thesis
        using drained h pr by (intro twp_mono [OF drain_round [of B s dn]]) auto
    qed
  qed auto
  have "twp run (\<lambda>_ _. True) lost s"
    unfolding run run_bursts_def twp_simps
    by (rule twp_mono [OF first], rule twp_mono [OF loop], assumption, rule drain)
  then show "run s \<noteq> None" by (simp add: twp_def)
qed

end

end
