(* ===== verification/Bitar_Batch.thy ===== *)
theory Bitar_Batch
  imports Bitar_Bursts "HOL-Library.Multiset"
begin

text \<open>
  What both assemblers share: the allocation of the operations and mbufs of a batch, the jobs
  a batch adds to the pipe, the early return of a status code as a negative integer, and
  \<open>Release\<close> of what is pending after an error.
\<close>

subsection \<open>Early returns\<close>

lemma wp_negative_codes:
  assumes "wp f Q (\<lambda>e t. case e of
      Status code _ \<Rightarrow> (case RETURN_NEGATIVE_NOT_STATUS_OK enc code of Some i \<Rightarrow> Q i t | None \<Rightarrow> Q 0 t)
    | Fault ft \<Rightarrow> E e t) s"
  shows "wp (negative_codes enc f) Q E s"
  using assms
  by (auto simp: wp_def negative_codes_def split: prod.splits sum.splits error.splits option.splits)

lemma negative_roundtrip:
  assumes "status_encoding_laws enc" "code \<noteq> SC_OK"
  obtains i where "RETURN_NEGATIVE_NOT_STATUS_OK enc code = Some i"
    "negative_else enc msg els i = pseq els (\<lambda>_. total (throw (Status code msg)))"
  using StatusCode_int_pos [OF assms] assms that
  by (auto simp: RETURN_NEGATIVE_NOT_STATUS_OK_def negative_else_def ASSIGN_OR_RAISE_NEGATIVE_def
      status_encoding_laws_def)

lemma not_negative: "0 \<le> i \<Longrightarrow> negative_else enc msg els i = total (return i)"
  by (simp add: negative_else_def ASSIGN_OR_RAISE_NEGATIVE_def)

text \<open>
  An assembler followed by the check of its result: a value, or a status after the clean-up.
\<close>

lemma assemble_else:
  assumes "status_encoding_laws enc"
    and "wp f (\<lambda>n t. 0 \<le> n \<and> Q n t)
      (\<lambda>e t. \<exists>code. code \<noteq> SC_OK \<and> e = Status code '''' \<and>
         twp els (\<lambda>_ t. E (Status code msg) t) (\<lambda>_ _. False) t) s"
  shows "twp (pseq (total (negative_codes enc f)) (negative_else enc msg els)) Q E s"
  unfolding twp_simps
proof (rule wp_negative_codes, rule wp_mono [OF assms(2)])
  fix n t assume "0 \<le> n \<and> Q n t"
  then show "twp (negative_else enc msg els n) Q E t" by (simp add: not_negative)
next
  fix e t assume "\<exists>code. code \<noteq> SC_OK \<and> e = Status code '''' \<and>
         twp els (\<lambda>_ t. E (Status code msg) t) (\<lambda>_ _. False) t"
  then obtain code where code: "code \<noteq> SC_OK" "e = Status code ''''"
    and els: "twp els (\<lambda>_ t. E (Status code msg) t) (\<lambda>_ _. False) t" by blast
  obtain i where i: "RETURN_NEGATIVE_NOT_STATUS_OK enc code = Some i"
    "negative_else enc msg els i = pseq els (\<lambda>_. total (throw (Status code msg)))"
    by (rule negative_roundtrip [OF assms(1) code(1)])
  have "twp (negative_else enc msg els i) Q E t"
    unfolding i(2) twp_simps wp_simps by (rule twp_mono [OF els]) simp_all
  then show "case e of
      Status code _ \<Rightarrow> (case RETURN_NEGATIVE_NOT_STATUS_OK enc code of
         Some i \<Rightarrow> twp (negative_else enc msg els i) Q E t
       | None \<Rightarrow> twp (negative_else enc msg els 0) Q E t)
    | Fault ft \<Rightarrow> E e t" by (simp add: code(2) i(1))
qed

subsection \<open>Allocating a batch\<close>

text \<open>Whatever was allocated in \<open>m\<close> is still allocated in \<open>m'\<close> and as it was.\<close>

definition keeps :: "('w, 'p) dpdk_scheme \<Rightarrow> 'w machine \<Rightarrow> 'w machine \<Rightarrow> bool" where
  "keeps P m m' \<longleftrightarrow>
     (\<forall>b \<in> live_mbufs P (hidden m). mbufs m' b = mbufs m b) \<and>
     (\<forall>j \<in> live_ops P (hidden m). ops m' j = ops m j) \<and>
     live_mbufs P (hidden m) \<subseteq> live_mbufs P (hidden m') \<and>
     live_ops P (hidden m) \<subseteq> live_ops P (hidden m') \<and>
     inflight P (hidden m') = inflight P (hidden m) \<and> xforms P (hidden m') = xforms P (hidden m)"

lemma keeps_refl [simp]: "keeps P m m"
  by (simp add: keeps_def)

lemma keeps_trans:
  assumes "keeps P m m'" "keeps P m' m''"
  shows "keeps P m m''"
  using assms unfolding keeps_def by (metis subsetD subset_trans)

lemma keeps_owns: "owns P m xs \<Longrightarrow> keeps P m m' \<Longrightarrow> owns P m' xs"
  unfolding owns_def keeps_def by blast

lemma owns_in:
  assumes "owns P m xs" "x \<in> set xs"
  shows "job_op x \<in> live_ops P (hidden m)" "job_src x \<in> live_mbufs P (hidden m)"
    "job_dst x \<in> live_mbufs P (hidden m)"
  using assms by (auto simp: owns_def job_mbufs_def)

lemma keeps_ready:
  assumes "owns P m xs" "x \<in> set xs" "keeps P m m'" "job_ready md m x"
  shows "job_ready md m' x"
  using owns_in [OF assms(1,2)] assms(3) by (intro job_ready_cong [OF assms(4)]) (simp_all add: keeps_def)

definition fresh_batch ::
  "('w, 'p) dpdk_scheme \<Rightarrow> nat \<Rightarrow> nat \<Rightarrow> op_ptr list \<Rightarrow> mbuf_ptr list \<Rightarrow> 'w machine \<Rightarrow> 'w machine \<Rightarrow> bool" where
  "fresh_batch P n k js bs m m' \<longleftrightarrow>
     length js = n \<and> length bs = k \<and> distinct js \<and> distinct bs \<and>
     set js \<inter> live_ops P (hidden m) = {} \<and> set bs \<inter> live_mbufs P (hidden m) = {} \<and>
     live_ops P (hidden m') = live_ops P (hidden m) \<union> set js \<and>
     live_mbufs P (hidden m') = live_mbufs P (hidden m) \<union> set bs \<and>
     (\<forall>b \<in> set bs. fresh_mbuf (mbufs m' b)) \<and> (\<forall>j \<in> set js. fresh_op (ops m' j)) \<and>
     (\<forall>b. b \<notin> set bs \<longrightarrow> mbufs m' b = mbufs m b) \<and> (\<forall>j. j \<notin> set js \<longrightarrow> ops m' j = ops m j) \<and>
     inflight P (hidden m') = inflight P (hidden m) \<and> same_memory P m m'"

lemma fresh_batch_keeps: "fresh_batch P n k js bs m m' \<Longrightarrow> keeps P m m'"
  unfolding fresh_batch_def keeps_def same_memory_def by blast

lemma op_alloc_some:
  assumes "alloc_laws P" "rte_comp_op_bulk_alloc P pool n m = (Some js, m')"
  shows "length js = n \<and> distinct js \<and> set js \<inter> live_ops P (hidden m) = {} \<and>
        live_ops P (hidden m') = live_ops P (hidden m) \<union> set js \<and>
        (\<forall>j \<in> set js. fresh_op (ops m' j)) \<and>
        (\<forall>j. j \<notin> set js \<longrightarrow> ops m' j = ops m j) \<and>
        mbufs m' = mbufs m \<and> live_mbufs P (hidden m') = live_mbufs P (hidden m) \<and>
        inflight P (hidden m') = inflight P (hidden m) \<and> same_memory P m m'"
  using assms(1) [unfolded alloc_laws_def, THEN conjunct2, THEN conjunct2, THEN conjunct1,
      rule_format, OF assms(2)] .

lemma op_alloc_none:
  assumes "alloc_laws P" "rte_comp_op_bulk_alloc P pool n m = (None, m')"
  shows "mbufs m' = mbufs m \<and> ops m' = ops m \<and> same_objects P m m'"
  using assms(1) [unfolded alloc_laws_def, THEN conjunct2, THEN conjunct2, THEN conjunct2,
      rule_format, OF assms(2)] .

lemma mbuf_alloc_some:
  assumes "alloc_laws P" "rte_pktmbuf_alloc_bulk P pool n m = (Some bs, m')"
  shows "length bs = n \<and> distinct bs \<and> set bs \<inter> live_mbufs P (hidden m) = {} \<and>
        live_mbufs P (hidden m') = live_mbufs P (hidden m) \<union> set bs \<and>
        (\<forall>b \<in> set bs. fresh_mbuf (mbufs m' b)) \<and>
        (\<forall>b. b \<notin> set bs \<longrightarrow> mbufs m' b = mbufs m b) \<and>
        ops m' = ops m \<and> live_ops P (hidden m') = live_ops P (hidden m) \<and>
        inflight P (hidden m') = inflight P (hidden m) \<and> same_memory P m m'"
  using assms(1) [unfolded alloc_laws_def, THEN conjunct1, rule_format, OF assms(2)] .

lemma mbuf_alloc_none:
  assumes "alloc_laws P" "rte_pktmbuf_alloc_bulk P pool n m = (None, m')"
  shows "mbufs m' = mbufs m \<and> ops m' = ops m \<and> same_objects P m m'"
  using assms(1) [unfolded alloc_laws_def, THEN conjunct2, THEN conjunct1, rule_format, OF assms(2)] .

lemma keeps_same_objects:
  "mbufs m' = mbufs m \<and> ops m' = ops m \<and> same_objects P m m' \<Longrightarrow> keeps P m m' \<and> same_memory P m m'"
  by (simp add: keeps_def same_objects_def same_memory_def)

text \<open>
  \<open>BulkAllocate\<close> gives a fresh batch and stores it in the arrays. It fails with
  \<open>OutOfMemory\<close>; when the mbufs run out, the operations it has taken stay allocated.
\<close>

lemma BulkAllocate_ok:
  assumes "alloc_laws P" "operation_pool (qp s) = Some op" "mbuf_pool (qp s) = Some mp"
    and "operations (qp s) = Some os" "unat (num_ops_assembled (qp s)) + unat no \<le> length os"
    and "mbuf_array (qp s) = Some ba" "unat nm \<le> length ba"
  shows "wp (BulkAllocate P no nm)
    (\<lambda>code t.
       code = OutOfMemory \<and> \<not> faultless P \<and> (\<exists>os' m. t = s\<lparr>qp := (qp s)\<lparr>operations := Some os'\<rparr>, wld := (wld s)\<lparr>mach := m\<rparr>\<rparr> \<and>
          length os' = length os \<and> keeps P (mach (wld s)) m \<and> same_memory P (mach (wld s)) m) \<or>
       code = SC_OK \<and> (\<exists>js bs m. t = s\<lparr>qp := (qp s)\<lparr>
            operations := Some (overwrite os (unat (num_ops_assembled (qp s))) (map Some js)),
            mbuf_array := Some (overwrite ba 0 (map Some bs))\<rparr>, wld := (wld s)\<lparr>mach := m\<rparr>\<rparr> \<and>
          fresh_batch P (unat no) (unat nm) js bs (mach (wld s)) m))
    (\<lambda>_ _. False) s"
proof -
  let ?m = "mach (wld s)"
  obtain x m1 where op: "rte_comp_op_bulk_alloc P op (unat no) ?m = (x, m1)" by fastforce
  show ?thesis
  proof (cases x)
    case None
    have same: "s\<lparr>qp := (qp s)\<lparr>operations := Some os\<rparr>, wld := (wld s)\<lparr>mach := m1\<rparr>\<rparr> = s\<lparr>wld := (wld s)\<lparr>mach := m1\<rparr>\<rparr>"
      using assms(4) by (cases s; cases "qp s") simp
    have "BulkAllocate P no nm s = (Inr OutOfMemory, s\<lparr>wld := (wld s)\<lparr>mach := m1\<rparr>\<rparr>)"
      using assms(2,4,5) op None by (simp add: BulkAllocate_def on_mach_def seq_def)
    moreover have "keeps P ?m m1 \<and> same_memory P ?m m1"
      by (rule keeps_same_objects [OF op_alloc_none [OF assms(1) op [unfolded None]]])
    moreover have "\<not> faultless P"
      using op None unfolding faultless_def by (metis fst_conv)
    ultimately show ?thesis
      by (simp add: wp_def) (rule exI [of _ os], rule exI [of _ m1], simp add: same)
  next
    case (Some js)
    note J = op_alloc_some [OF assms(1) op [unfolded Some]]
    let ?os = "overwrite os (unat (num_ops_assembled (qp s))) (map Some js)"
    let ?t = "s\<lparr>qp := (qp s)\<lparr>operations := Some ?os\<rparr>, wld := (wld s)\<lparr>mach := m1\<rparr>\<rparr>"
    have len: "length ?os = length os" using J assms(5) by simp
    have k1: "keeps P ?m m1" using J unfolding keeps_def same_memory_def by auto
    obtain y m2 where mb: "rte_pktmbuf_alloc_bulk P mp (unat nm) m1 = (y, m2)" by fastforce
    show ?thesis
    proof (cases y)
      case None
      have "keeps P m1 m2 \<and> same_memory P m1 m2"
        using mbuf_alloc_none [OF assms(1) mb [unfolded None]] by (rule keeps_same_objects)
      then have "keeps P ?m m2 \<and> same_memory P ?m m2"
        using k1 J keeps_trans same_memory_trans by blast
      moreover have "\<not> faultless P" using mb None unfolding faultless_def by (metis fst_conv)
      ultimately show ?thesis
        using assms(2-7) op Some mb None len
        by (auto simp: BulkAllocate_def on_mach_def upd_qp_def wp_def seq_def)
    next
      case (Some bs)
      note B = mbuf_alloc_some [OF assms(1) mb [unfolded Some]]
      have "fresh_batch P (unat no) (unat nm) js bs ?m m2"
        using J B unfolding fresh_batch_def by (auto intro: same_memory_trans)
      moreover have "BulkAllocate P no nm s = (Inr SC_OK, s\<lparr>qp := (qp s)\<lparr>
            operations := Some (overwrite os (unat (num_ops_assembled (qp s))) (map Some js)),
            mbuf_array := Some (overwrite ba 0 (map Some bs))\<rparr>, wld := (wld s)\<lparr>mach := m2\<rparr>\<rparr>)"
        using assms(2-7) op \<open>x = Some js\<close> mb Some
        by (simp add: BulkAllocate_def on_mach_def upd_qp_def seq_def)
      ultimately show ?thesis by (simp only: wp_eq(1)) blast
    qed
  qed
qed

subsection \<open>The jobs of a batch\<close>

text \<open>
  New jobs \<open>D\<close> over operations and mbufs that were not allocated before are behind \<open>C\<close>.
\<close>

lemma pipe_extend:
  assumes "pipe P c md dev_id qp_id [] B C s"
    and "statics (qp t) = statics (qp s)" "keeps P (mach (wld s)) (mach (wld t))"
    and "pending_operations (qp t) = pending_operations (qp s) @ map (\<lambda>x. Some (job_op x)) D"
    and "array_has (operations (qp t)) 0 (map job_op (C @ D))"
    and "unat (num_ops_assembled (qp t)) = length (C @ D)" "length (C @ D) \<le> unat (burst_size c)"
    and "owns P (mach (wld t)) D" "set (map job_op D) \<inter> live_ops P (hidden (mach (wld s))) = {}"
    and "set (concat (map job_mbufs D)) \<inter> live_mbufs P (hidden (mach (wld s))) = {}"
    and "\<forall>x \<in> set D. job_ready md (mach (wld t)) x" "jobs_apart (B @ C @ D)"
  shows "pipe P c md dev_id qp_id [] B (C @ D) t"
proof -
  note pipe = pipeD [OF assms(1)]
  let ?m = "mach (wld s)" and ?n = "mach (wld t)"
  have old: "owns P ?m (B @ C)" using pipe(7) by simp
  have "owns P ?n (B @ C)" by (rule keeps_owns [OF old assms(3)])
  moreover have "set (map job_op (B @ C)) \<subseteq> live_ops P (hidden ?m)"
    "set (concat (map job_mbufs (B @ C))) \<subseteq> live_mbufs P (hidden ?m)" using old unfolding owns_def by blast+
  ultimately have own: "owns P ?n ((B @ C) @ D)"
    using assms(8-10) unfolding owns_def map_append concat_append set_append distinct_append by blast
  show ?thesis
    unfolding pipe_def
  proof (intro conjI ballI)
    show "qp_ready c (qp t)" using qp_ready_cong [OF assms(2)] pipe(1) by simp
    show "owns P ?n ([] @ B @ C @ D)" using own by simp
    show "job_ready md ?n x" if "x \<in> set ([] @ B @ C @ D)" for x
      using that keeps_ready [OF old _ assms(3)] pipe(9) assms(11) by auto
    show "inflight P (hidden ?n) dev_id qp_id = map job_op B"
      "xforms P (hidden ?n) (mode_xform md) = Some (mode_codec md)"
      using assms(3) pipe(3,11) by (simp_all add: keeps_def)
  qed (use assms pipe(2) in simp_all)
qed

text \<open>What an assembler makes of a fresh batch: each operation over its source and destination.\<close>

definition batch_jobs ::
  "op_ptr list \<Rightarrow> mbuf_ptr list \<Rightarrow> mbuf_ptr list \<Rightarrow> (addr \<times> nat) list \<Rightarrow> (addr \<times> nat) list \<Rightarrow> job list" where
  "batch_jobs js bs ds ps qs =
     map (\<lambda>i. \<lparr>job_op = js ! i, job_src = bs ! i, job_dst = ds ! i, job_in = fst (ps ! i),
        job_len = snd (ps ! i), job_out = fst (qs ! i), job_cap = snd (qs ! i)\<rparr>) [0..<length js]"

lemma length_batch_jobs [simp]: "length (batch_jobs js bs ds ps qs) = length js"
  by (simp add: batch_jobs_def)

lemma batch_jobs_ops [simp]: "map job_op (batch_jobs js bs ds ps qs) = js"
  by (simp add: batch_jobs_def comp_def map_nth)

lemma batch_jobs_areas:
  "length ps = length js \<Longrightarrow> map (\<lambda>x. (job_in x, job_len x)) (batch_jobs js bs ds ps qs) = ps"
  "length qs = length js \<Longrightarrow> map (\<lambda>x. (job_out x, job_cap x)) (batch_jobs js bs ds ps qs) = qs"
  using map_nth [of ps] map_nth [of qs] by (simp_all add: batch_jobs_def comp_def)

lemma mset_pairs:
  "mset (concat (map (\<lambda>i. [f i, g i]) [0..<n])) = mset (map f [0..<n]) + mset (map g [0..<n])"
  by (induction n) simp_all

lemma batch_jobs_mbufs:
  assumes "length bs = length js" "length ds = length js"
  shows "mset (concat (map job_mbufs (batch_jobs js bs ds ps qs))) = mset bs + mset ds"
proof -
  have "concat (map job_mbufs (batch_jobs js bs ds ps qs)) =
      concat (map (\<lambda>i. [bs ! i, ds ! i]) [0..<length js])"
    by (simp add: batch_jobs_def comp_def job_mbufs_def)
  also have "mset \<dots> = mset (map ((!) bs) [0..<length bs]) + mset (map ((!) ds) [0..<length ds])"
    unfolding assms by (rule mset_pairs)
  finally show ?thesis unfolding map_nth .
qed

lemma batch_ready:
  assumes att: "attached P M_SRC (src_sh md) js bs ps m1 m2"
    and fin: "finished (dst_sh md) (Some (mode_xform md)) js ds qs m2 m3"
    and "length bs = length js" "length ds = length js" "distinct js" "distinct bs" "set bs \<inter> set ds = {}"
  shows "\<forall>x \<in> set (batch_jobs js bs ds ps qs). job_ready md m3 x"
proof
  fix x assume "x \<in> set (batch_jobs js bs ds ps qs)"
  then obtain i where i: "i < length js" and x: "x = \<lparr>job_op = js ! i, job_src = bs ! i, job_dst = ds ! i,
     job_in = fst (ps ! i), job_len = snd (ps ! i), job_out = fst (qs ! i), job_cap = snd (qs ! i)\<rparr>"
    by (auto simp: batch_jobs_def)
  have A: "m_src (ops m2 (js ! i)) = Some (bs ! i)"
    "data_mbuf (fst (ps ! i)) (snd (ps ! i)) (src_sh md) (mbufs m2 (bs ! i))"
    using att i by (simp_all add: attached_def)
  have "bs ! i \<in> set bs" using i assms(3) by simp
  then have "bs ! i \<notin> set ds" using assms(7) by blast
  then have B: "mbufs m3 (bs ! i) = mbufs m2 (bs ! i)" using fin by (simp add: finished_def)
  have F: "ops m3 (js ! i) = completed (ds ! i) (mbufs m2 (bs ! i)) (Some (mode_xform md)) (ops m2 (js ! i))"
    "data_mbuf (fst (qs ! i)) (snd (qs ! i)) (dst_sh md) (mbufs m3 (ds ! i))"
    using fin i A(1) by (simp_all add: finished_def)
  show "job_ready md m3 x"
    using A F B by (simp add: job_ready_def x completed_def) (simp add: data_mbuf_def)
qed

lemma batch_jobs_distinct:
  assumes "length bs = length js" "length ds = length js" "distinct js" "distinct (bs @ ds)"
  shows "distinct (map job_op (batch_jobs js bs ds ps qs))"
    "distinct (concat (map job_mbufs (batch_jobs js bs ds ps qs)))"
    "set (concat (map job_mbufs (batch_jobs js bs ds ps qs))) = set (bs @ ds)"
proof -
  have m: "mset (concat (map job_mbufs (batch_jobs js bs ds ps qs))) = mset (bs @ ds)"
    using batch_jobs_mbufs [OF assms(1,2)] by simp
  show "distinct (concat (map job_mbufs (batch_jobs js bs ds ps qs)))"
    using mset_eq_imp_distinct_iff [OF m] assms(4) by simp
  show "set (concat (map job_mbufs (batch_jobs js bs ds ps qs))) = set (bs @ ds)"
    by (rule mset_eq_setD [OF m])
qed (use assms(3) in simp)

text \<open>The arrays after \<open>BulkAllocate\<close>.\<close>

lemma overwrite_append:
  assumes "array_has (Some os) 0 xs" "length xs + length ys \<le> length os"
  shows "array_has (Some (overwrite os (length xs) (map Some ys))) 0 (xs @ ys)"
proof -
  have "take (length xs) os = map Some xs" using assms by (simp add: array_has_def)
  then have "overwrite os (length xs) (map Some ys) = map Some (xs @ ys) @ drop (length xs + length ys) os"
    by (simp add: overwrite_def)
  then show ?thesis using assms by (simp add: array_has_def)
qed

lemma array_has_part:
  assumes "array_has os i (xs @ ys)"
  shows "array_has os i xs" "array_has os (i + length xs) ys"
proof -
  obtain zs where zs: "os = Some zs" "i + length (xs @ ys) \<le> length zs"
    "take (length (xs @ ys)) (drop i zs) = map Some (xs @ ys)"
    using assms unfolding array_has_def by blast
  have "take (length xs) (drop i zs) = map Some xs"
    using arg_cong [OF zs(3), of "take (length xs)"] by simp
  then show "array_has os i xs" using zs(1,2) by (simp add: array_has_def)
  have "drop (length xs) (take (length (xs @ ys)) (drop i zs)) = map Some ys"
    using arg_cong [OF zs(3), of "drop (length xs)"] by simp
  then have "take (length ys) (drop (i + length xs) zs) = map Some ys"
    by (simp add: drop_take add.commute)
  then show "array_has os (i + length xs) ys" using zs(1,2) by (simp add: array_has_def)
qed

end
