(* ===== verification/Bitar_Release.thy ===== *)
theory Bitar_Release
  imports Bitar_Batch
begin

text \<open>
  \<open>Release\<close> and \<open>ReleaseAll\<close>: after an error the operations that are pending, with their chains
  of mbufs of any length, go back to their pools and their memzones to the device memory.
\<close>

subsection \<open>One operation\<close>

lemma Put_one:
  assumes "dm_ok P c (d, w)"
  obtains n d' where "Put a d w = (n, d', w)" "dm_ok P c (d', w)"
    "dm_held (d', w) = {z \<in> dm_held (d, w). mz_addr z \<noteq> a}"
proof -
  have "snd (snd (Put a d w)) = w" by (simp add: Put_def split: option.split)
  then obtain n d' where put: "Put a d w = (n, d', w)" by (metis prod.collapse)
  have one: "put_all dm_put [a] (d, w) = (n, d', w)" using put by (simp add: dm_put_def)
  show ?thesis
    using dm.put_all_ok [OF assms, of "[a]"] unfolding one by (intro that [OF put]) auto
qed

text \<open>From \<open>m\<close> to \<open>m'\<close> the mbufs \<open>bs\<close> and the operations \<open>js\<close> have been freed.\<close>

definition freed :: "('w, 'p) dpdk_scheme \<Rightarrow> mbuf_ptr set \<Rightarrow> op_ptr set \<Rightarrow> 'w machine \<Rightarrow> 'w machine \<Rightarrow> bool" where
  "freed P bs js m m' \<longleftrightarrow>
     live_mbufs P (hidden m') = live_mbufs P (hidden m) - bs \<and>
     live_ops P (hidden m') = live_ops P (hidden m) - js \<and>
     (\<forall>b. b \<notin> bs \<longrightarrow> mbufs m' b = mbufs m b) \<and> (\<forall>j. j \<notin> js \<longrightarrow> ops m' j = ops m j) \<and>
     inflight P (hidden m') = inflight P (hidden m) \<and> same_memory P m m'"

lemma freed_refl [simp]: "freed P {} {} m m"
  by (simp add: freed_def same_memory_def)

lemma freed_trans:
  "freed P bs js m m' \<Longrightarrow> freed P cs is m' m'' \<Longrightarrow> freed P (bs \<union> cs) (js \<union> is) m m''"
  by (simp add: freed_def same_memory_def) blast

lemma freed_chain:
  "free_laws P \<Longrightarrow> chained m p bs \<Longrightarrow> freed P (set bs) {} m (rte_pktmbuf_free P p m)"
  by (simp add: freed_def free_law)

lemma freed_seg: "free_laws P \<Longrightarrow> freed P {b} {} m (rte_pktmbuf_free_seg P b m)"
  by (simp add: freed_def seg_free_law)

lemma freed_op: "free_laws P \<Longrightarrow> freed P {} {j} m (rte_comp_op_free P j m)"
  by (simp add: freed_def op_free_law)

text \<open>The addresses of the buffers of \<open>ds\<close> that carry the shared info \<open>sh\<close>.\<close>

definition shared_addrs :: "'w machine \<Rightarrow> shinfo_ptr option \<Rightarrow> mbuf_ptr list \<Rightarrow> addr set" where
  "shared_addrs m sh ds = {buf_addr (mbufs m b) | b. b \<in> set ds \<and> shinfo (mbufs m b) = sh}"

lemma shared_addrs_Cons:
  "shared_addrs m sh (b # ds) = (if shinfo (mbufs m b) = sh then {buf_addr (mbufs m b)} else {}) \<union> shared_addrs m sh ds"
  by (auto simp: shared_addrs_def)

lemma shared_addrs_cong:
  "(\<And>b. b \<in> set ds \<Longrightarrow> mbufs m' b = mbufs m b) \<Longrightarrow> shared_addrs m' sh ds = shared_addrs m sh ds"
  unfolding shared_addrs_def by (metis (no_types, lifting))

lemma dm_ok_freed:
  assumes "dm_ok P c (d, w)" "freed P bs js (mach w) m"
  shows "dm_ok P c (d, w\<lparr>mach := m\<rparr>)"
  using assms(2) by (intro dm_ok_same_objects [OF assms(1)]) (simp add: freed_def same_memory_def)

lemma release_dst_ok:
  assumes "free_laws P" "chained (mach w) p ds" "distinct ds" "dm_ok P c (d, w)"
  shows "\<exists>d' m. release_dst P sh p d w = Some (d', w\<lparr>mach := m\<rparr>) \<and> dm_ok P c (d', w\<lparr>mach := m\<rparr>) \<and>
    dm_held (d', w) = {z \<in> dm_held (d, w). mz_addr z \<notin> shared_addrs (mach w) sh ds} \<and>
    freed P (set ds) {} (mach w) m"
  using assms(2-)
proof (induction ds arbitrary: p d w)
  case Nil
  then show ?case
    by (intro exI [of _ d] exI [of _ "mach w"]) (simp add: release_dst.simps shared_addrs_def)
next
  case (Cons b ds)
  have p: "p = Some b" "chained (mach w) (next_seg (mbufs (mach w) b)) ds" using Cons.prems(1) by auto
  let ?m = "rte_pktmbuf_free_seg P b (mach w)" and ?nx = "next_seg (mbufs (mach w) b)"
  note F = freed_seg [OF assms(1), of b "mach w"]
  have other: "x \<in> set ds \<Longrightarrow> mbufs ?m x = mbufs (mach w) x" for x
    using F Cons.prems(2) by (auto simp: freed_def)
  obtain d1 where d1: "dm_ok P c (d1, w)"
    "dm_held (d1, w) = {z \<in> dm_held (d, w). shinfo (mbufs (mach w) b) = sh \<longrightarrow> mz_addr z \<noteq> buf_addr (mbufs (mach w) b)}"
    "(if shinfo (mbufs (mach w) b) = sh then snd (Put (buf_addr (mbufs (mach w) b)) d w) else (d, w)) = (d1, w)"
  proof (cases "shinfo (mbufs (mach w) b) = sh")
    case True
    obtain n d' where "Put (buf_addr (mbufs (mach w) b)) d w = (n, d', w)" "dm_ok P c (d', w)"
      "dm_held (d', w) = {z \<in> dm_held (d, w). mz_addr z \<noteq> buf_addr (mbufs (mach w) b)}"
      by (rule Put_one [OF Cons.prems(3)])
    then show ?thesis using that True by simp
  next
    case False
    then show ?thesis using that [of d] Cons.prems(3) by simp
  qed
  have ch: "chained (mach (w\<lparr>mach := ?m\<rparr>)) ?nx ds" using p(2) chained_cong [of ds ?m "mach w"] other by simp
  obtain d' m where IH: "release_dst P sh ?nx d1 (w\<lparr>mach := ?m\<rparr>) = Some (d', w\<lparr>mach := m\<rparr>)"
    "dm_ok P c (d', w\<lparr>mach := m\<rparr>)" "freed P (set ds) {} ?m m"
    "dm_held (d', w) = {z \<in> dm_held (d1, w). mz_addr z \<notin> shared_addrs ?m sh ds}"
    using Cons.IH [OF ch _ dm_ok_freed [OF d1(1) F]] Cons.prems(2) by (auto simp: dm_held_def)
  have "release_dst P sh p d w = Some (d', w\<lparr>mach := m\<rparr>)"
    using IH(1) d1(3) by (subst release_dst.simps) (simp add: p(1) Let_def)
  moreover have "dm_held (d', w) = {z \<in> dm_held (d, w). mz_addr z \<notin> shared_addrs (mach w) sh (b # ds)}"
  proof -
    have "shared_addrs ?m sh ds = shared_addrs (mach w) sh ds" by (rule shared_addrs_cong) (rule other)
    then show ?thesis unfolding IH(4) d1(2) shared_addrs_Cons by auto
  qed
  moreover have "freed P (set (b # ds)) {} (mach w) m" using freed_trans [OF F IH(3)] by simp
  ultimately show ?case using IH(2) by blast
qed

subsection \<open>All pending operations\<close>

text \<open>
  What is pending: each operation with the chains of its source and destination mbufs, no mbuf
  in two places. An operation whose destination has not been attached yet has an empty chain.
\<close>

type_synonym claim = "op_ptr \<times> mbuf_ptr list \<times> mbuf_ptr list"

definition claim_mbufs :: "claim \<Rightarrow> mbuf_ptr list" where
  "claim_mbufs = (\<lambda>(j, bs, ds). bs @ ds)"

lemma claim_mbufs_simp: "claim_mbufs (j, bs, ds) = bs @ ds"
  by (simp add: claim_mbufs_def)

definition claims_ok :: "'w machine \<Rightarrow> claim list \<Rightarrow> bool" where
  "claims_ok m rs \<longleftrightarrow> distinct (map fst rs) \<and> distinct (concat (map claim_mbufs rs)) \<and>
     (\<forall>(j, bs, ds) \<in> set rs. chained m (m_src (ops m j)) bs \<and> chained m (m_dst (ops m j)) ds)"

definition claim_addrs :: "'w machine \<Rightarrow> shinfo_ptr option \<Rightarrow> claim list \<Rightarrow> addr set" where
  "claim_addrs m sh rs = (\<Union>(j, bs, ds) \<in> set rs. shared_addrs m sh ds)"

lemma release_ops_ok:
  assumes "free_laws P" "claims_ok (mach w) rs" "dm_ok P c (d, w)"
  shows "\<exists>d' m. release_ops P sh (map (\<lambda>r. Some (fst r)) rs) d w = Some (OK, d', w\<lparr>mach := m\<rparr>) \<and>
    dm_ok P c (d', w\<lparr>mach := m\<rparr>) \<and>
    dm_held (d', w) = {z \<in> dm_held (d, w). mz_addr z \<notin> claim_addrs (mach w) sh rs} \<and>
    freed P (set (concat (map claim_mbufs rs))) (set (map fst rs)) (mach w) m"
  using assms(2-)
proof (induction rs arbitrary: d w)
  case Nil
  then show ?case
    by (intro exI [of _ d] exI [of _ "mach w"]) (simp add: claim_addrs_def)
next
  case (Cons r rs)
  obtain j bs ds where r: "r = (j, bs, ds)" by (cases r) auto
  let ?m0 = "mach w"
  have R: "chained ?m0 (m_src (ops ?m0 j)) bs" "chained ?m0 (m_dst (ops ?m0 j)) ds" "distinct (bs @ ds)"
    "j \<notin> set (map fst rs)" "set (bs @ ds) \<inter> set (concat (map claim_mbufs rs)) = {}" "claims_ok ?m0 rs"
    using Cons.prems(1) unfolding claims_ok_def r list.map concat.simps distinct_append distinct.simps
    by (simp_all add: claim_mbufs_simp)
  define m1 where "m1 = rte_pktmbuf_free P (m_src (ops ?m0 j)) ?m0"
  note F1 = freed_chain [OF assms(1) R(1), folded m1_def]
  have o1: "ops m1 = ops ?m0" using F1 by (auto simp: freed_def)
  have same1: "mbufs m1 b = mbufs ?m0 b" if "b \<in> set ds" for b using F1 R(3) that by (auto simp: freed_def)
  have "chained m1 (m_dst (ops ?m0 j)) ds" using R(2) chained_cong [of ds m1 ?m0] same1 by simp
  then obtain d2 m2 where D: "release_dst P sh (m_dst (ops ?m0 j)) d (w\<lparr>mach := m1\<rparr>) = Some (d2, w\<lparr>mach := m2\<rparr>)"
    "dm_ok P c (d2, w\<lparr>mach := m2\<rparr>)" "freed P (set ds) {} m1 m2"
    "dm_held (d2, w) = {z \<in> dm_held (d, w). mz_addr z \<notin> shared_addrs m1 sh ds}"
    using release_dst_ok [OF assms(1), of "w\<lparr>mach := m1\<rparr>" "m_dst (ops ?m0 j)" ds c d sh]
      R(3) dm_ok_freed [OF Cons.prems(2) F1] by (auto simp: dm_held_def)
  let ?m3 = "rte_comp_op_free P j m2"
  have F3: "freed P (set (bs @ ds)) {j} ?m0 ?m3"
    using freed_trans [OF freed_trans [OF F1 D(3)] freed_op [OF assms(1)], of j] by simp
  have oth: "b \<notin> set (bs @ ds) \<Longrightarrow> mbufs ?m3 b = mbufs ?m0 b" "i \<noteq> j \<Longrightarrow> ops ?m3 i = ops ?m0 i" for b i
    using F3 by (simp_all add: freed_def)
  have rest: "mbufs ?m3 b = mbufs ?m0 b" if "b \<in> set (concat (map claim_mbufs rs))" for b
    using oth(1) R(5) that by blast
  have ok3: "claims_ok (mach (w\<lparr>mach := ?m3\<rparr>)) rs"
  proof -
    have "chained ?m3 (m_src (ops ?m3 i)) cs \<and> chained ?m3 (m_dst (ops ?m3 i)) es" if i: "(i, cs, es) \<in> set rs" for i cs es
    proof -
      have "i \<noteq> j" using R(4) i by force
      moreover have "set cs \<union> set es \<subseteq> set (concat (map claim_mbufs rs))"
        using i by (force simp: claim_mbufs_def)
      moreover have "chained ?m0 (m_src (ops ?m0 i)) cs" "chained ?m0 (m_dst (ops ?m0 i)) es"
        using R(6) i unfolding claims_ok_def by blast+
      ultimately show ?thesis
        using chained_cong [of cs ?m3 ?m0] chained_cong [of es ?m3 ?m0] rest oth(2) by (simp add: subset_iff)
    qed
    then show ?thesis using R(6) unfolding claims_ok_def by auto
  qed
  have dm3: "dm_ok P c (d2, w\<lparr>mach := ?m3\<rparr>)"
    using dm_ok_freed [OF D(2), of "{}" "{j}" ?m3] freed_op [OF assms(1), of j m2] by simp
  obtain d' m where IH: "release_ops P sh (map (\<lambda>r. Some (fst r)) rs) d2 (w\<lparr>mach := ?m3\<rparr>) = Some (OK, d', w\<lparr>mach := m\<rparr>)"
    "dm_ok P c (d', w\<lparr>mach := m\<rparr>)"
    "dm_held (d', w) = {z \<in> dm_held (d2, w). mz_addr z \<notin> claim_addrs ?m3 sh rs}"
    "freed P (set (concat (map claim_mbufs rs))) (set (map fst rs)) ?m3 m"
    using Cons.IH [OF ok3 dm3] by (auto simp: dm_held_def)
  have "claim_addrs ?m3 sh rs = claim_addrs ?m0 sh rs"
  proof -
    have "shared_addrs ?m3 sh es = shared_addrs ?m0 sh es" if "(i, cs, es) \<in> set rs" for i cs es
      using that by (intro shared_addrs_cong rest) (force simp: claim_mbufs_def)
    then show ?thesis unfolding claim_addrs_def by (intro SUP_cong) auto
  qed
  then have "dm_held (d', w) = {z \<in> dm_held (d, w). mz_addr z \<notin> claim_addrs ?m0 sh (r # rs)}"
  proof -
    have "shared_addrs m1 sh ds = shared_addrs ?m0 sh ds" by (rule shared_addrs_cong) (rule same1)
    moreover assume "claim_addrs ?m3 sh rs = claim_addrs ?m0 sh rs"
    ultimately show ?thesis unfolding IH(3) D(4) by (auto simp: claim_addrs_def r)
  qed
  moreover have "freed P (set (concat (map claim_mbufs (r # rs)))) (set (map fst (r # rs))) ?m0 m"
    using freed_trans [OF F3 IH(4)] by (simp add: r claim_mbufs_simp Un_assoc)
  moreover have "release_ops P sh (map (\<lambda>r. Some (fst r)) (r # rs)) d w = Some (OK, d', w\<lparr>mach := m\<rparr>)"
    using IH(1) D(1) by (simp add: r Let_def m1_def [symmetric] o1)
  ultimately show ?case using IH(2) by blast
qed

text \<open>\<open>ReleaseAll\<close>, of the buffers handed out so far and of what is pending.\<close>

lemma Recycle_ok:
  assumes "dm_ok P c (d, w)"
  obtains d' where "Recycle bufs (d, w) = (card {z \<in> dm_held (d, w). mz_addr z \<in> buf_data ` set bufs}, d', w)"
    "dm_ok P c (d', w)" "dm_held (d', w) = {z \<in> dm_held (d, w). mz_addr z \<notin> buf_data ` set bufs}"
proof -
  have world: "snd (snd (put_all dm_put as s)) = snd s" for as and s :: "device_memory \<times> 'a world"
  proof (induction as arbitrary: s)
    case (Cons a as)
    have "snd (snd (dm_put a s)) = snd s" by (cases s) (simp add: dm_put_def Put_def split: option.split)
    then show ?case using Cons by (simp split: prod.splits) (metis snd_conv)
  qed simp
  obtain s' where "put_all dm_put (map buf_data (rev bufs)) (d, w) =
      (card {z \<in> dm_held (d, w). mz_addr z \<in> set (map buf_data (rev bufs))}, s')"
    "dm_ok P c s'" "dm_held s' = {z \<in> dm_held (d, w). mz_addr z \<notin> set (map buf_data (rev bufs))}"
    using dm.put_all_ok [OF assms, of "map buf_data (rev bufs)"] by blast
  moreover have "snd s' = w" using world [of "map buf_data (rev bufs)" "(d, w)"] calculation(1) by simp
  ultimately show ?thesis using that [of "fst s'"] by (cases s') (simp add: Recycle_def)
qed

lemma ReleaseAll_ok:
  assumes "free_laws P" "claims_ok (mach (wld s)) rs" "dm_ok P c (dmem s, wld s)"
    and "pending_operations (qp s) = map (\<lambda>r. Some (fst r)) rs"
  shows "\<exists>d m. ReleaseAll P bufs s = Some (OK, s\<lparr>qp := (qp s)\<lparr>pending_operations := []\<rparr>, dmem := d,
      wld := (wld s)\<lparr>mach := m\<rparr>\<rparr>) \<and> dm_ok P c (d, (wld s)\<lparr>mach := m\<rparr>) \<and>
    dm_held (d, wld s) = {z \<in> held s. mz_addr z \<notin> buf_data ` set bufs \<union>
      claim_addrs (mach (wld s)) (shared_info_compressed_mbuf (qp s)) rs} \<and>
    freed P (set (concat (map claim_mbufs rs))) (set (map fst rs)) (mach (wld s)) m"
proof -
  obtain d1 where d1: "Recycle bufs (dmem s, wld s) = (card {z \<in> held s. mz_addr z \<in> buf_data ` set bufs}, d1, wld s)"
    "dm_ok P c (d1, wld s)" "dm_held (d1, wld s) = {z \<in> held s. mz_addr z \<notin> buf_data ` set bufs}"
    by (rule Recycle_ok [OF assms(3)])
  obtain d m where R: "release_ops P (shared_info_compressed_mbuf (qp s)) (map (\<lambda>r. Some (fst r)) rs) d1 (wld s) =
      Some (OK, d, (wld s)\<lparr>mach := m\<rparr>)" "dm_ok P c (d, (wld s)\<lparr>mach := m\<rparr>)"
    "dm_held (d, wld s) = {z \<in> dm_held (d1, wld s). mz_addr z \<notin>
       claim_addrs (mach (wld s)) (shared_info_compressed_mbuf (qp s)) rs}"
    "freed P (set (concat (map claim_mbufs rs))) (set (map fst rs)) (mach (wld s)) m"
    using release_ops_ok [OF assms(1,2) d1(2)] by blast
  have "ReleaseAll P bufs s = Some (OK, s\<lparr>qp := (qp s)\<lparr>pending_operations := []\<rparr>, dmem := d,
      wld := (wld s)\<lparr>mach := m\<rparr>\<rparr>)"
    using d1(1) R(1) assms(4) by (simp add: ReleaseAll_def Release_def)
  then show ?thesis using R(2-4) d1(3) by auto
qed

end
