(* ===== verification/Bitar_Compress.thy ===== *)
theory Bitar_Compress
  imports Bitar_Release
begin

text \<open>
  \<open>Compress\<close> as a client of the bursts of \<open>Bitar_Bursts\<close>, for operations over one source and
  one destination mbuf: segment by segment the input goes through the device into memzones
  of the device memory, and the buffers are handed out in the order of the segments.
\<close>

subsection \<open>The segments of the input\<close>

lemma pieces_nth:
  "i < n \<Longrightarrow> pieces seg sz off n ! i = (min sz (off + i * seg), min seg (sz - (off + i * seg)))" if "off \<le> sz"
  using that
proof (induction n arbitrary: off i)
  case (Suc n)
  have step: "off + min seg (sz - off) = min sz (off + seg)" using Suc.prems(2) by auto
  show ?case
  proof (cases i)
    case 0
    then show ?thesis using Suc.prems(2) by simp
  next
    case (Suc l)
    have "pieces seg sz off (Suc n) ! i = pieces seg sz (min sz (off + seg)) n ! l"
      using Suc step by simp
    also have "\<dots> = (min sz (min sz (off + seg) + l * seg), min seg (sz - (min sz (off + seg) + l * seg)))"
      using Suc.IH [of l "min sz (off + seg)"] Suc Suc.prems(1) by simp
    also have "\<dots> = (min sz (off + i * seg), min seg (sz - (off + i * seg)))"
    proof (cases "off + seg \<le> sz")
      case True
      then show ?thesis using Suc by (simp add: min_absorb2 add.assoc)
    next
      case False
      then have "min sz (off + seg) = sz" "sz \<le> off + i * seg" using Suc by simp_all
      then show ?thesis by simp
    qed
    finally show ?thesis .
  qed
qed simp

lemma pieces_append:
  "off \<le> sz \<Longrightarrow> pieces seg sz off (m + n) = pieces seg sz off m @ pieces seg sz (min sz (off + m * seg)) n"
proof (induction m arbitrary: off)
  case (Suc m)
  have step: "off + min seg (sz - off) = min sz (off + seg)" using Suc.prems by auto
  have "min sz (min sz (off + seg) + m * seg) = min sz (off + Suc m * seg)" by (auto simp: min_def)
  then show ?case using Suc.IH [of "min sz (off + seg)"] step by simp
qed simp

lemma pieces_sum:
  "off \<le> sz \<Longrightarrow> off + sum_list (map snd (pieces seg sz off n)) = min sz (off + n * seg)"
proof (induction n arbitrary: off)
  case (Suc n)
  have step: "off + min seg (sz - off) = min sz (off + seg)" using Suc.prems by auto
  have "off + sum_list (map snd (pieces seg sz off (Suc n))) =
      min sz (off + seg) + sum_list (map snd (pieces seg sz (min sz (off + seg)) n))"
    using step by simp
  also have "\<dots> = min sz (min sz (off + seg) + n * seg)" using Suc.IH [of "min sz (off + seg)"] by simp
  finally show ?case by (auto simp: min_def)
qed simp

text \<open>The segments of a list, and of bytes in memory.\<close>

definition segments :: "nat \<Rightarrow> 'a list \<Rightarrow> 'a list list" where
  "segments seg xs = map (\<lambda>i. take seg (drop (i * seg) xs)) [0..<ceil_div (length xs) seg]"

lemma concat_take_segments:
  "concat (map (\<lambda>i. take seg (drop (i * seg) xs)) [0..<n]) = take (n * seg) xs"
proof (induction n)
  case (Suc n)
  then show ?case using take_add [of "n * seg" seg xs] by (simp add: add.commute)
qed simp

lemma concat_segments: "0 < seg \<Longrightarrow> concat (segments seg xs) = xs"
  using ceil_div_mult_ge [of seg "length xs"]
  by (simp add: segments_def concat_take_segments)

lemma mem_bytes_slice:
  "i + n \<le> sz \<Longrightarrow> mem_bytes m (a + i) n = take n (drop i (mem_bytes m a sz))"
  by (rule nth_equalityI) (simp_all add: mem_bytes_def add.assoc)

lemma mem_bytes_cong:
  "(\<And>x. a \<le> x \<Longrightarrow> x < a + n \<Longrightarrow> bytes m' x = bytes m x) \<Longrightarrow> mem_bytes m' a n = mem_bytes m a n"
  by (simp add: mem_bytes_def)

lemma length_mem_bytes [simp]: "length (mem_bytes m a n) = n"
  by (simp add: mem_bytes_def)

subsection \<open>Jobs whose destinations are memzones of the device memory\<close>

definition zone_jobs :: "memzone list \<Rightarrow> job list \<Rightarrow> bool" where
  "zone_jobs zs xs \<longleftrightarrow> distinct zs \<and> map (\<lambda>x. (job_out x, job_cap x)) xs = map zone_area zs"

lemma zone_area_bytes: "{fst (zone_area z) ..< fst (zone_area z) + snd (zone_area z)} \<subseteq> zone_bytes z"
proof -
  have "unat (word_of_nat (mz_len z) :: u16) \<le> mz_len z"
    by (simp add: unat_of_nat take_bit_eq_mod)
  then show ?thesis by (auto simp: zone_area_def zone_bytes_def)
qed

lemma zone_jobs_nth:
  assumes "zone_jobs zs xs" "i < length xs"
  shows "i < length zs" "job_area (xs ! i) \<subseteq> zone_bytes (zs ! i)" "job_out (xs ! i) = mz_addr (zs ! i)"
    "job_cap (xs ! i) = snd (zone_area (zs ! i))"
proof -
  have eq: "map (\<lambda>x. (job_out x, job_cap x)) xs = map zone_area zs" using assms(1) by (simp add: zone_jobs_def)
  show i: "i < length zs" using arg_cong [OF eq, of length] assms(2) by simp
  have "(job_out (xs ! i), job_cap (xs ! i)) = zone_area (zs ! i)"
    using arg_cong [OF eq, of "\<lambda>l. l ! i"] i assms(2) by simp
  then have "fst (zone_area (zs ! i)) = job_out (xs ! i)" "snd (zone_area (zs ! i)) = job_cap (xs ! i)"
    by (metis fst_conv, metis snd_conv)
  then show "job_cap (xs ! i) = snd (zone_area (zs ! i))" by simp
  show "job_area (xs ! i) \<subseteq> zone_bytes (zs ! i)" "job_out (xs ! i) = mz_addr (zs ! i)"
    using zone_area_bytes [of "zs ! i"] \<open>fst (zone_area (zs ! i)) = job_out (xs ! i)\<close>
      \<open>snd (zone_area (zs ! i)) = job_cap (xs ! i)\<close> by (simp_all add: job_area_def zone_area_def)
qed

lemma zone_jobs_length: "zone_jobs zs xs \<Longrightarrow> length zs = length xs"
  unfolding zone_jobs_def by (metis length_map)

lemma zone_jobs_apart_nth:
  assumes "dm_ok P c (dmem s, wld s)" "zone_jobs zs xs" "set zs \<subseteq> held s"
    and "i < length xs" "k < length xs" "i \<noteq> k"
  shows "job_area (xs ! i) \<inter> job_area (xs ! k) = {}"
proof -
  have ik: "i < length zs" "k < length zs" using assms(2,4,5) by (simp_all add: zone_jobs_length)
  then have "zs ! i \<noteq> zs ! k" using assms(2,6) by (simp add: zone_jobs_def nth_eq_iff_index_eq)
  moreover have "zs ! i \<in> held s" "zs ! k \<in> held s" using assms(3) ik by auto
  ultimately have "zone_bytes (zs ! i) \<inter> zone_bytes (zs ! k) = {}"
    using dm_held_apart [OF assms(1)] by blast
  then show ?thesis using zone_jobs_nth(2) [OF assms(2)] assms(4,5) by blast
qed

lemma zone_jobs_foreign:
  assumes "dm_ok P c (dmem s, wld s)" "zone_jobs zs xs" "set zs \<subseteq> held s" "foreign A s" "x \<in> set xs"
  shows "A \<inter> job_area x = {}"
proof -
  obtain i where i: "i < length xs" "x = xs ! i" using assms(5) by (auto simp: in_set_conv_nth)
  have "zs ! i \<in> held s" using assms(3) zone_jobs_nth(1) [OF assms(2) i(1)] by auto
  then show ?thesis using foreign_apart [OF assms(1,4)] zone_jobs_nth(2) [OF assms(2) i(1)] i(2) by blast
qed

lemma zone_jobs_apart:
  assumes "dm_ok P c (dmem s, wld s)" "zone_jobs zs xs" "set zs \<subseteq> held s" "foreign A s"
    and "\<forall>x \<in> set xs. job_source x \<subseteq> A"
  shows "jobs_apart xs"
  unfolding jobs_apart_def
proof (intro ballI conjI impI)
  fix x y assume x: "x \<in> set xs" and y: "y \<in> set xs"
  show "job_source x \<inter> job_area y = {}" using zone_jobs_foreign [OF assms(1-4) y] assms(5) x by blast
  assume ne: "x \<noteq> y"
  obtain i k where "i < length xs" "x = xs ! i" "k < length xs" "y = xs ! k"
    using x y by (auto simp: in_set_conv_nth)
  then show "job_area x \<inter> job_area y = {}" using zone_jobs_apart_nth [OF assms(1-3), of i k] ne by auto
qed

lemma zone_jobs_append:
  assumes "zone_jobs zs xs" "zone_jobs ys ws" "set zs \<inter> set ys = {}"
  shows "zone_jobs (zs @ ys) (xs @ ws)"
  using assms by (simp add: zone_jobs_def)

lemma zone_jobs_outs: "zone_jobs zs xs \<Longrightarrow> job_out ` set xs = mz_addr ` set zs"
proof -
  assume "zone_jobs zs xs"
  then have "map fst (map (\<lambda>x. (job_out x, job_cap x)) xs) = map fst (map zone_area zs)"
    by (simp add: zone_jobs_def)
  then have "map job_out xs = map mz_addr zs" by (simp add: zone_area_def comp_def)
  then show ?thesis by (metis list.set_map)
qed

subsection \<open>The invariant of Compress\<close>

text \<open>
  The input \<open>input\<close> lies at \<open>data\<close>. The jobs \<open>dn @ xs\<close> are the first segments of it, in order,
  and write to memzones \<open>H\<close> does not contain; each finished job has its buffer. All other bytes
  are those of \<open>m0\<close>.
\<close>

definition compress_mode :: "configuration \<Rightarrow> queue_pair_memory \<Rightarrow> mode" where
  "compress_mode c q =
     \<lparr>src_sh = the (shared_info_decompressed_mbuf q), dst_sh = the (shared_info_compressed_mbuf q),
      mode_xform = the (private_xform_compress q), mode_codec = compress_xform c\<rparr>"

definition decompress_mode :: "configuration \<Rightarrow> queue_pair_memory \<Rightarrow> mode" where
  "decompress_mode c q =
     \<lparr>src_sh = the (shared_info_compressed_mbuf q), dst_sh = the (shared_info_decompressed_mbuf q),
      mode_xform = the (private_xform_decompress q), mode_codec = decompress_xform c\<rparr>"

definition output_of :: "('w, 'p) dpdk_scheme \<Rightarrow> rte_comp_xform \<Rightarrow> 'w machine \<Rightarrow> job \<Rightarrow> buffer \<Rightarrow> bool" where
  "output_of P xf m x b \<longleftrightarrow> buf_data b = job_out x \<and> buf_capacity b = buf_size b \<and> buf_size b \<le> job_cap x \<and>
     mem_bytes m (buf_data b) (buf_size b) = codec P xf (mem_bytes m (job_in x) (job_len x))"

definition source_areas :: "addr \<Rightarrow> nat \<Rightarrow> nat \<Rightarrow> nat \<Rightarrow> nat \<Rightarrow> (addr \<times> nat) list" where
  "source_areas data seg sz off n = map (\<lambda>(off, len). (data + off, len)) (pieces seg sz off n)"

text \<open>From \<open>m0\<close> to the state only bytes of memzones taken since have changed.\<close>

definition only_new_zones :: "('w, 'p) dpdk_scheme \<Rightarrow> 'w machine \<Rightarrow> memzone set \<Rightarrow> 'w machine \<Rightarrow> bool" where
  "only_new_zones P m0 Z m \<longleftrightarrow> xforms P (hidden m) = xforms P (hidden m0) \<and>
     (\<forall>a. (\<forall>z \<in> Z. a \<notin> zone_bytes z) \<longrightarrow> bytes m a = bytes m0 a)"

lemma only_new_zones_refl: "only_new_zones P m Z m"
  by (simp add: only_new_zones_def)

lemma only_new_zones_step:
  assumes "only_new_zones P m0 Z m" "xforms P (hidden m') = xforms P (hidden m)" "Z \<subseteq> Z'"
    and "\<And>a. bytes m' a = bytes m a \<or> (\<exists>z \<in> Z'. a \<in> zone_bytes z)"
  shows "only_new_zones P m0 Z' m'"
  using assms unfolding only_new_zones_def by (metis subsetD)

definition compress_jobs ::
  "('w, 'p) dpdk_scheme \<Rightarrow> configuration \<Rightarrow> queue_pair_memory \<Rightarrow> 'w machine \<Rightarrow> addr \<Rightarrow> u8 list \<Rightarrow> memzone set \<Rightarrow>
   job list \<Rightarrow> job list \<Rightarrow> 'w qp_state \<Rightarrow> bool" where
  "compress_jobs P c q0 m0 data input H dn xs s \<longleftrightarrow>
     (let seg = unat (decompressed_seg_size c); sz = length input; n = length (dn @ xs) in
      statics (qp s) = statics q0 \<and>
      map (\<lambda>x. (job_in x, job_len x)) (dn @ xs) = source_areas data seg sz 0 n \<and>
      offset s = min sz (n * seg) \<and> n \<le> ceil_div sz seg \<and>
      mem_bytes (mach (wld s)) data sz = input \<and> foreign {data ..< data + sz} s \<and>
      dm_ok P c (dmem s, wld s) \<and> only_new_zones P m0 (held s - H) (mach (wld s)) \<and>
      (\<exists>zs. zone_jobs zs (dn @ xs) \<and> held s = H \<union> set zs \<and> H \<inter> set zs = {}) \<and>
      list_all2 (output_of P (compress_xform c) (mach (wld s))) dn (compressed_buffers s))"

lemma compress_jobsD:
  assumes "compress_jobs P c q0 m0 data input H dn xs s"
  shows "statics (qp s) = statics q0"
    "map (\<lambda>x. (job_in x, job_len x)) (dn @ xs) =
       source_areas data (unat (decompressed_seg_size c)) (length input) 0 (length (dn @ xs))"
    "offset s = min (length input) (length (dn @ xs) * unat (decompressed_seg_size c))"
    "length (dn @ xs) \<le> ceil_div (length input) (unat (decompressed_seg_size c))"
    "mem_bytes (mach (wld s)) data (length input) = input" "foreign {data ..< data + length input} s"
    "dm_ok P c (dmem s, wld s)"
    "list_all2 (output_of P (compress_xform c) (mach (wld s))) dn (compressed_buffers s)"
    "only_new_zones P m0 (held s - H) (mach (wld s))"
  using assms unfolding compress_jobs_def Let_def by blast+

lemma compress_jobs_zones:
  assumes "compress_jobs P c q0 m0 data input H dn xs s"
  obtains zs where "zone_jobs zs (dn @ xs)" "held s = H \<union> set zs" "H \<inter> set zs = {}"
  using assms unfolding compress_jobs_def Let_def by blast

lemma source_areas_nth:
  assumes "map (\<lambda>x. (job_in x, job_len x)) xs = source_areas data seg sz 0 (length xs)" "i < length xs"
  shows "job_in (xs ! i) = data + min sz (i * seg)" "job_len (xs ! i) = min seg (sz - i * seg)"
proof -
  have "(job_in (xs ! i), job_len (xs ! i)) = source_areas data seg sz 0 (length xs) ! i"
    using arg_cong [OF assms(1), of "\<lambda>l. l ! i"] assms(2) by simp
  also have "\<dots> = (data + min sz (i * seg), min seg (sz - i * seg))"
    using assms(2) by (simp add: source_areas_def pieces_nth)
  finally show "job_in (xs ! i) = data + min sz (i * seg)" "job_len (xs ! i) = min seg (sz - i * seg)"
    by simp_all
qed

lemma source_inside:
  assumes "map (\<lambda>x. (job_in x, job_len x)) xs = source_areas data seg sz 0 (length xs)" "x \<in> set xs"
  shows "job_source x \<subseteq> {data ..< data + sz}"
proof -
  obtain i where i: "i < length xs" "x = xs ! i" using assms(2) by (auto simp: in_set_conv_nth)
  show ?thesis
    using source_areas_nth [OF assms(1) i(1)] i(2) by (auto simp: job_source_def min_def split: if_splits)
qed

lemma compress_jobs_apart:
  assumes "compress_jobs P c q0 m0 data input H dn xs s"
  shows "jobs_apart (dn @ xs)"
proof -
  note J = compress_jobsD [OF assms]
  obtain zs where "zone_jobs zs (dn @ xs)" "held s = H \<union> set zs" by (rule compress_jobs_zones [OF assms])
  then show ?thesis
    using zone_jobs_apart [OF J(7) _ _ J(6)] source_inside [OF J(2)] by blast
qed

lemma quiet_dm_ok:
  assumes "dm_ok P c (dmem s, wld s)" "quiet P xs s t"
  shows "dm_ok P c (dmem t, wld t)" "dmem t = dmem s"
proof -
  have q: "allocated_memzones (wld t) = allocated_memzones (wld s)"
    "live_zones P (hidden (mach (wld t))) = live_zones P (hidden (mach (wld s)))"
    "t = s\<lparr>qp := qp t, wld := wld t\<rparr>"
    using assms(2) unfolding quiet_def by blast+
  show "dmem t = dmem s" using arg_cong [OF q(3), of dmem] by simp
  moreover have "mz_ok P (wld t)" using assms(1) q(1,2) by (simp add: dm_ok_def mz_ok_def)
  ultimately show "dm_ok P c (dmem t, wld t)"
    using assms(1) own_zone_cong [OF q(1)] by (simp add: dm_ok_def)
qed

lemma quiet_bytes:
  assumes "quiet P xs s t" "A \<inter> areas xs = {}" "{a ..< a + n} \<subseteq> A"
  shows "mem_bytes (mach (wld t)) a n = mem_bytes (mach (wld s)) a n"
  using assms by (intro mem_bytes_cong) (fastforce simp: quiet_def)

lemma quiet_other:
  assumes "quiet P xs s t"
  shows "offset t = offset s" "index t = index s" "compressed_buffers t = compressed_buffers s"
    "decompressed_buffer_size t = decompressed_buffer_size s" "statics (qp t) = statics (qp s)"
    "allocated_memzones (wld t) = allocated_memzones (wld s)" "dmem t = dmem s"
    "live_zones P (hidden (mach (wld t))) = live_zones P (hidden (mach (wld s)))"
proof -
  have t: "t = s\<lparr>qp := qp t, wld := wld t\<rparr>" using assms unfolding quiet_def by blast
  show "offset t = offset s" using arg_cong [OF t, of offset] by simp
  show "index t = index s" using arg_cong [OF t, of index] by simp
  show "compressed_buffers t = compressed_buffers s" using arg_cong [OF t, of compressed_buffers] by simp
  show "dmem t = dmem s" using arg_cong [OF t, of dmem] by simp
  show "decompressed_buffer_size t = decompressed_buffer_size s"
    using arg_cong [OF t, of decompressed_buffer_size] by simp
qed (use assms in \<open>simp_all add: quiet_def\<close>)

lemma output_of_bytes:
  assumes "output_of P xf m x b" "mem_bytes m' (job_in x) (job_len x) = mem_bytes m (job_in x) (job_len x)"
    and "\<And>a. a \<in> job_area x \<Longrightarrow> bytes m' a = bytes m a"
  shows "output_of P xf m' x b"
proof -
  have "mem_bytes m' (buf_data b) (buf_size b) = mem_bytes m (buf_data b) (buf_size b)"
    using assms(1,3) by (intro mem_bytes_cong) (simp add: output_of_def job_area_def)
  then show ?thesis using assms(1,2) unfolding output_of_def by metis
qed

lemma compress_jobs_quiet:
  assumes "compress_jobs P c q0 m0 data input H dn xs s" "quiet P xs s t"
  shows "compress_jobs P c q0 m0 data input H dn xs t"
proof -
  note J = compress_jobsD [OF assms(1)]
  note q = quiet_other [OF assms(2)]
  obtain zs where zs: "zone_jobs zs (dn @ xs)" "held s = H \<union> set zs" "H \<inter> set zs = {}"
    by (rule compress_jobs_zones [OF assms(1)])
  let ?A = "{data ..< data + length input}"
  have A: "?A \<inter> areas xs = {}"
    using zone_jobs_foreign [OF J(7) zs(1) _ J(6)] zs(2) by (fastforce simp: areas_def)
  have held: "held t = held s" using q by (simp add: dm_held_def)
  have out: "output_of P (compress_xform c) (mach (wld t)) (dn ! i) (compressed_buffers s ! i)"
    if i: "i < length dn" for i
  proof (rule output_of_bytes [OF list_all2_nthD [OF J(8) i]])
    have x: "dn ! i \<in> set (dn @ xs)" using i by simp
    show "mem_bytes (mach (wld t)) (job_in (dn ! i)) (job_len (dn ! i)) =
        mem_bytes (mach (wld s)) (job_in (dn ! i)) (job_len (dn ! i))"
      by (rule quiet_bytes [OF assms(2) A]) (use source_inside [OF J(2) x] in \<open>simp add: job_source_def\<close>)
    fix a assume a: "a \<in> job_area (dn ! i)"
    have "a \<notin> areas xs"
    proof
      assume "a \<in> areas xs"
      then obtain k where k: "k < length xs" "a \<in> job_area (xs ! k)"
        by (auto simp: areas_def in_set_conv_nth)
      have "job_area ((dn @ xs) ! i) \<inter> job_area ((dn @ xs) ! (length dn + k)) = {}"
        using zs i k(1) by (intro zone_jobs_apart_nth [OF J(7) zs(1)]) auto
      then show False using a k i by (auto simp: nth_append)
    qed
    then show "bytes (mach (wld t)) a = bytes (mach (wld s)) a" using assms(2) by (simp add: quiet_def)
  qed
  have "list_all2 (output_of P (compress_xform c) (mach (wld t))) dn (compressed_buffers t)"
    using out list_all2_lengthD [OF J(8)] q(3) by (simp add: list_all2_conv_all_nth)
  moreover have "foreign ?A t" using J(6) q by (simp add: foreign_def)
  moreover have "only_new_zones P m0 (held s - H) (mach (wld t))"
  proof (rule only_new_zones_step [OF J(9)])
    show "xforms P (hidden (mach (wld t))) = xforms P (hidden (mach (wld s)))"
      using assms(2) by (simp add: quiet_def)
    fix a
    have "\<exists>z \<in> held s - H. a \<in> zone_bytes z" if ar: "a \<in> areas xs"
    proof -
      obtain k where k: "k < length xs" "a \<in> job_area (xs ! k)" using ar by (auto simp: areas_def in_set_conv_nth)
      let ?i = "length dn + k"
      have i: "?i < length (dn @ xs)" using k(1) by simp
      have "a \<in> zone_bytes (zs ! ?i)" using zone_jobs_nth(2) [OF zs(1) i] k(2) by (auto simp: nth_append)
      moreover have "zs ! ?i \<in> set zs" using zone_jobs_nth(1) [OF zs(1) i] by simp
      ultimately show ?thesis using zs(2,3) by blast
    qed
    then show "bytes (mach (wld t)) a = bytes (mach (wld s)) a \<or> (\<exists>z \<in> held s - H. a \<in> zone_bytes z)"
      using assms(2) by (auto simp: quiet_def)
  qed simp
  moreover have "mem_bytes (mach (wld t)) data (length input) = input"
    using quiet_bytes [OF assms(2) A] J(5) by simp
  ultimately show ?thesis
    unfolding compress_jobs_def Let_def held q(1,5)
    using J(1-4) quiet_dm_ok(1) [OF J(7) assms(2)] zs by blast
qed

lemma source_not_empty:
  assumes "map (\<lambda>x. (job_in x, job_len x)) xs = source_areas data seg sz 0 (length xs)"
    and "length xs \<le> ceil_div sz seg" "0 < seg" "x \<in> set xs"
  shows "0 < job_len x"
proof -
  obtain i where i: "i < length xs" "x = xs ! i" using assms(4) by (auto simp: in_set_conv_nth)
  then have "i * seg < sz" using assms(2,3) less_ceil_div_iff [of seg i sz] by simp
  then show ?thesis using source_areas_nth(2) [OF assms(1) i(1)] i(2) assms(3) by simp
qed

lemma output_buffers_one:
  assumes "data_mbuf a cap sh (mbufs m d)" "0 < k" "k \<le> cap"
  shows "output_buffers m k (Some d) out = Some (OK, out @ [\<lparr>buf_data = a, buf_size = k, buf_capacity = k\<rparr>])"
  using assms
  by (subst output_buffers.simps) (simp add: data_mbuf_def min_def output_buffers.simps)

lemma compress_finish:
  assumes "codec_laws P c" "0 < unat (decompressed_seg_size c)"
    and pipe: "pipe P c (compress_mode c q0) dev_id qp_id (x # A) B C s"
    and jobs: "compress_jobs P c q0 m0 data input H dn (x # A @ B @ C) s"
    and st: "op_status (ops (mach (wld s)) (job_op x)) = RTE_COMP_OP_STATUS_SUCCESS"
  shows "\<exists>t. compress_callback (job_op x) s = Some (OK, t) \<and>
      compress_jobs P c q0 m0 data input H (dn @ [x]) (A @ B @ C) t \<and>
      qp t = qp s \<and> wld t = wld s \<and> offset t = offset s \<and> dmem t = dmem s"
proof -
  let ?m = "mach (wld s)" and ?k = "produced (ops (mach (wld s)) (job_op x))"
  note J = compress_jobsD [OF jobs]
  have ready: "job_ready (compress_mode c q0) ?m x" using pipeD(9) [OF pipe] by simp
  have "delivered P (compress_mode c q0) ?m x" using pipeD(10) [OF pipe] by simp
  then have D: "?k \<le> job_cap x"
    "mem_bytes ?m (job_out x) ?k = codec P (compress_xform c) (mem_bytes ?m (job_in x) (job_len x))"
    using st by (simp_all add: delivered_def compress_mode_def)
  have "0 < job_len x"
    by (rule source_not_empty [OF J(2,4) assms(2)]) simp
  then have "mem_bytes ?m (job_in x) (job_len x) \<noteq> []" by (simp add: mem_bytes_def)
  then have "codec P (compress_xform c) (mem_bytes ?m (job_in x) (job_len x)) \<noteq> []"
    using assms(1) by (simp add: codec_laws_def)
  then have "mem_bytes ?m (job_out x) ?k \<noteq> []" using D(2) by simp
  then have k: "0 < ?k" by (cases ?k) (simp_all add: mem_bytes_def)
  define b where "b = \<lparr>buf_data = job_out x, buf_size = ?k, buf_capacity = ?k\<rparr>"
  let ?t = "s\<lparr>compressed_buffers := compressed_buffers s @ [b]\<rparr>"
  have "data_mbuf (job_out x) (job_cap x) (dst_sh (compress_mode c q0)) (mbufs ?m (job_dst x))"
    "m_dst (ops ?m (job_op x)) = Some (job_dst x)" using ready by (simp_all add: job_ready_def)
  note dst = this
  have "compress_callback (job_op x) s = Some (OK, ?t)"
    unfolding compress_callback_def dst(2) output_buffers_one [OF dst(1) k D(1)] by (simp add: b_def)
  moreover have "output_of P (compress_xform c) ?m x b" using D by (simp add: output_of_def b_def)
  then have "list_all2 (output_of P (compress_xform c) ?m) (dn @ [x]) (compressed_buffers ?t)"
    using J(8) by (simp add: list_all2_appendI)
  then have "compress_jobs P c q0 m0 data input H (dn @ [x]) (A @ B @ C) ?t"
    using jobs unfolding compress_jobs_def Let_def by (simp add: foreign_def)
  ultimately show ?thesis by auto
qed

subsection \<open>The clean-up\<close>

definition compress_lost ::
  "('w, 'p) dpdk_scheme \<Rightarrow> configuration \<Rightarrow> addr \<Rightarrow> u8 list \<Rightarrow> memzone set \<Rightarrow> error \<Rightarrow> 'w qp_state \<Rightarrow> bool" where
  "compress_lost P c data input H e t \<longleftrightarrow>
     (\<exists>code msg. e = Status code msg \<and> code \<in> {IOError, OutOfMemory}) \<and>
     pending_operations (qp t) = [] \<and> held t = H \<and> dm_ok P c (dmem t, wld t) \<and>
     mem_bytes (mach (wld t)) data (length input) = input"

definition job_claim :: "job \<Rightarrow> claim" where
  "job_claim x = (job_op x, [job_src x], [job_dst x])"

lemma job_claims_ok:
  assumes "owns P m xs" "\<forall>x \<in> set xs. job_ready md m x"
  shows "claims_ok m (map job_claim xs)"
proof -
  have eq: "map claim_mbufs (map job_claim xs) = map job_mbufs xs" "map fst (map job_claim xs) = map job_op xs"
    by (simp_all add: claim_mbufs_def job_claim_def job_mbufs_def)
  have "chained m (m_src (ops m (job_op x))) [job_src x]" "chained m (m_dst (ops m (job_op x))) [job_dst x]"
    if "x \<in> set xs" for x
    using assms(2) that by (simp_all add: job_ready_def data_mbuf_def)
  then have "\<forall>(j, bs, ds) \<in> set (map job_claim xs).
      chained m (m_src (ops m j)) bs \<and> chained m (m_dst (ops m j)) ds"
    by (auto simp: job_claim_def)
  then show ?thesis using assms(1) unfolding claims_ok_def owns_def eq by blast
qed

lemma job_claim_addrs:
  assumes "\<forall>x \<in> set xs. job_ready md m x" "sh = Some (dst_sh md)"
  shows "claim_addrs m sh (map job_claim xs) = job_out ` set xs"
proof -
  have "shared_addrs m sh [job_dst x] = {job_out x}" if "x \<in> set xs" for x
  proof -
    have "data_mbuf (job_out x) (job_cap x) (dst_sh md) (mbufs m (job_dst x))"
      using assms(1) that by (simp add: job_ready_def)
    then show ?thesis using assms(2) by (auto simp: shared_addrs_def data_mbuf_def)
  qed
  then show ?thesis unfolding claim_addrs_def by (auto simp: job_claim_def)
qed

lemma compress_shinfo:
  assumes "statics q = statics q0" "qp_ready c q"
  shows "shared_info_compressed_mbuf q = Some (dst_sh (compress_mode c q0))"
    "shared_info_decompressed_mbuf q = Some (src_sh (compress_mode c q0))"
    "private_xform_compress q = Some (mode_xform (compress_mode c q0))"
  using assms by (auto simp: statics_def qp_ready_def compress_mode_def)

text \<open>
  The clean-up gives back every zone taken for the call: those of buffers that are finished and
  those of the pending operations, among them any that have not been given all their mbufs.
\<close>

lemma compress_releases:
  assumes "free_laws P" "dm_ok P c (dmem s, wld s)" "held s = H \<union> Z" "H \<inter> Z = {}"
    and "pending_operations (qp s) = map (\<lambda>r. Some (fst r)) rs" "claims_ok (mach (wld s)) rs"
    and "mz_addr ` Z = buf_data ` set (compressed_buffers s) \<union>
      claim_addrs (mach (wld s)) (shared_info_compressed_mbuf (qp s)) rs"
    and "mem_bytes (mach (wld s)) data (length input) = input" "code \<in> {IOError, OutOfMemory}"
  shows "twp (\<lambda>s. ReleaseAll P (compressed_buffers s) s)
    (\<lambda>_ t. compress_lost P c data input H (Status code msg) t) (\<lambda>_ _. False) s"
proof -
  obtain d m where R: "ReleaseAll P (compressed_buffers s) s = Some (OK,
      s\<lparr>qp := (qp s)\<lparr>pending_operations := []\<rparr>, dmem := d, wld := (wld s)\<lparr>mach := m\<rparr>\<rparr>)"
    "dm_ok P c (d, (wld s)\<lparr>mach := m\<rparr>)"
    "dm_held (d, wld s) = {z \<in> held s. mz_addr z \<notin> mz_addr ` Z}"
    "freed P (set (concat (map claim_mbufs rs))) (set (map fst rs)) (mach (wld s)) m"
    using ReleaseAll_ok [OF assms(1,6,2,5), of "compressed_buffers s"] assms(7) by auto
  have "{z \<in> held s. mz_addr z \<notin> mz_addr ` Z} = H"
  proof -
    have "y = z" if "y \<in> H" "z \<in> Z" "mz_addr y = mz_addr z" for y z
      using dm.held_addr [OF assms(2), of y z] that assms(3) by blast
    then show ?thesis using assms(3,4) by blast
  qed
  moreover have "bytes m = bytes (mach (wld s))" using R(4) by (simp add: freed_def same_memory_def)
  then have "mem_bytes m data (length input) = input" using assms(8) by (simp add: mem_bytes_def)
  ultimately show ?thesis
    using R(1-3) assms(9) by (simp add: twp_def pwp_def compress_lost_def dm_held_def)
qed

end
