(* ===== verification/Bitar_Compress_Batch.thy ===== *)
theory Bitar_Compress_Batch
  imports Bitar_Compress
begin

text \<open>
  One call of the assembler for compression: the batch it allocates, its sources, its
  destinations, and what is cleaned up when a destination cannot be had.
\<close>

subsection \<open>The sources\<close>

text \<open>
  \<open>u\<close> is the state in which the operations \<open>js\<close> of a fresh batch have their sources \<open>bs\<close> and are
  pending behind those of \<open>B\<close> and \<open>C\<close>; the mbufs \<open>ds\<close> are to become their destinations.
\<close>

definition sourced ::
  "('w, 'p) dpdk_scheme \<Rightarrow> configuration \<Rightarrow> mode \<Rightarrow> (addr \<times> nat) list \<Rightarrow> job list \<Rightarrow>
   op_ptr list \<Rightarrow> mbuf_ptr list \<Rightarrow> mbuf_ptr list \<Rightarrow> 'w qp_state \<Rightarrow> 'w qp_state \<Rightarrow> bool" where
  "sourced P c md ps C js bs ds s u \<longleftrightarrow>
     length bs = length js \<and> length ds = length js \<and> length C + length js \<le> unat (burst_size c) \<and>
     (\<exists>m1. fresh_batch P (length js) (2 * length js) js (bs @ ds) (mach (wld s)) m1 \<and>
        attached P M_SRC (src_sh md) js bs ps m1 (mach (wld u))) \<and>
     statics (qp u) = statics (qp s) \<and> num_ops_assembled (qp u) = num_ops_assembled (qp s) \<and>
     array_has (operations (qp u)) 0 (map job_op C @ js) \<and> array_has (mbuf_array (qp u)) (length js) ds \<and>
     pending_operations (qp u) = pending_operations (qp s) @ map Some js \<and>
     dmem u = dmem s \<and> (\<exists>m. wld u = (wld s)\<lparr>mach := m\<rparr>)"

lemma array_has_hd:
  assumes "array_has (operations (qp s)) i (j # js)"
  shows "operation_at i s = (Inr (Some j), s)"
  using array_has_nth [OF assms, of 0] by (auto simp: operation_at_def)

lemma fresh_sources:
  assumes "fresh_batch P n k js bs m m1"
  shows "\<forall>b \<in> set bs. fresh_mbuf (mbufs m1 b)" "\<forall>j \<in> set js. m_src (ops m1 j) = None"
    "\<forall>j \<in> set js. m_dst (ops m1 j) = None" "distinct js" "distinct bs" "length js = n" "length bs = k"
  using assms by (auto simp: fresh_batch_def fresh_op_def)

lemma split_mbufs:
  assumes "length ms = 2 * n"
  obtains bs ds where "ms = bs @ ds" "length bs = n" "length ds = n"
proof
  show "ms = take n ms @ drop n ms" "length (take n ms) = n" "length (drop n ms) = n"
    using assms by simp_all
qed

lemma compress_sources:
  assumes "mbuf_laws P" "max_sgl_segs c = 1" "qp_ready c (qp s)" "statics (qp s) = statics q0"
    and ops: "operations (qp s) = Some os" "array_has (Some os) 0 (map job_op C)"
      "unat (num_ops_assembled (qp s)) = length C"
    and mba: "mbuf_array (qp s) = Some ba"
    and fresh: "fresh_batch P n (2 * n) js ms (mach (wld s)) m1"
    and n: "0 < n" "length C + n \<le> unat (burst_size c)" "offset s + (n - 1) * unat (decompressed_seg_size c) < sz"
  defines "k \<equiv> num_ops_assembled (qp s)"
  defines "u0 \<equiv> s\<lparr>qp := (qp s)\<lparr>operations := Some (overwrite os (unat k) (map Some js)),
       mbuf_array := Some (overwrite ba 0 (map Some ms))\<rparr>, wld := (wld s)\<lparr>mach := m1\<rparr>\<rparr>"
  obtains bs ds u where
    "seq (operation_at (unat k)) (\<lambda>j. seq (push_pending j) (\<lambda>_. compress_src_loop P c data sz n n k j)) u0 = (OK, u)"
    "sourced P c (compress_mode c q0) (source_areas data (unat (decompressed_seg_size c)) sz (offset s) n) C js bs ds s u"
    "offset u = offset s + sum_list (map snd (pieces (unat (decompressed_seg_size c)) sz (offset s) n))"
    "compressed_buffers u = compressed_buffers s" "u = s\<lparr>qp := qp u, wld := wld u, offset := offset u\<rparr>"
proof -
  let ?seg = "unat (decompressed_seg_size c)" and ?md = "compress_mode c q0"
  note F = fresh_sources [OF fresh]
  obtain bs ds where ms: "ms = bs @ ds" "length bs = n" "length ds = n" by (rule split_mbufs [OF F(7)])
  obtain j0 js' where js: "js = j0 # js'" using F(6) n(1) by (cases js) auto
  have room: "length (map job_op C) + length js \<le> length os" "2 * n \<le> length ba"
    using assms(3) ops(1) mba n(2) F(6) by (auto simp: qp_ready_def)
  have st: "statics (qp u0) = statics (qp s)"
    using room F ops(1,3) mba by (simp add: u0_def k_def statics_def)
  have arr: "array_has (operations (qp u0)) 0 (map job_op C @ js)"
    using overwrite_append [OF ops(2) room(1)] ops(3) by (simp add: u0_def k_def)
  then have at: "array_has (operations (qp u0)) (unat k) js"
    using array_has_part(2) [OF arr] ops(3) by (simp add: k_def)
  have "array_has (mbuf_array (qp u0)) 0 (bs @ ds)"
    using array_has_overwrite [of 0 ms ba] room(2) F(7) ms(1) by (simp add: u0_def)
  note mb = array_has_part [OF this]
  let ?u1 = "u0\<lparr>qp := (qp u0)\<lparr>pending_operations := pending_operations (qp u0) @ [Some j0]\<rparr>\<rparr>"
  have sh: "shared_info_decompressed_mbuf (qp ?u1) = Some (src_sh ?md)"
    using compress_shinfo(2) [OF assms(4,3)] by (simp add: u0_def)
  have "unat k + n < 65536" using n(2) ops(3) unat_u16_less [of "burst_size c"] by (simp add: k_def)
  then have "\<exists>m. compress_src_loop P c data sz n n k (Some j0) ?u1 =
      (OK, ?u1\<lparr>qp := (qp ?u1)\<lparr>pending_operations := pending_operations (qp ?u1) @ map Some (tl js)\<rparr>,
             wld := (wld ?u1)\<lparr>mach := m\<rparr>,
             offset := offset ?u1 + sum_list (map snd (pieces ?seg sz (offset ?u1) n))\<rparr>) \<and>
    attached P M_SRC (src_sh ?md) js bs
      (map (\<lambda>(off, len). (data + off, len)) (pieces ?seg sz (offset ?u1) n)) (mach (wld ?u1)) m"
    using F ms at mb(1) sh n(1,3) js
    by (intro compress_src_loop_ok [OF assms(1,2)]) (simp_all add: u0_def)
  then obtain m where m: "compress_src_loop P c data sz n n k (Some j0) ?u1 =
      (OK, ?u1\<lparr>qp := (qp ?u1)\<lparr>pending_operations := pending_operations (qp ?u1) @ map Some (tl js)\<rparr>,
             wld := (wld ?u1)\<lparr>mach := m\<rparr>,
             offset := offset ?u1 + sum_list (map snd (pieces ?seg sz (offset ?u1) n))\<rparr>)"
    "attached P M_SRC (src_sh ?md) js bs (source_areas data ?seg sz (offset s) n) m1 m"
    by (auto simp: u0_def source_areas_def)
  let ?u = "s\<lparr>qp := (qp u0)\<lparr>pending_operations := pending_operations (qp s) @ map Some js\<rparr>,
      wld := (wld s)\<lparr>mach := m\<rparr>, offset := offset s + sum_list (map snd (pieces ?seg sz (offset s) n))\<rparr>"
  show ?thesis
  proof (rule that [of ?u bs ds])
    have "push_pending (Some j0) u0 = (OK, ?u1)" by (simp add: push_pending_def upd_qp_def)
    then show "seq (operation_at (unat k)) (\<lambda>j. seq (push_pending j)
        (\<lambda>_. compress_src_loop P c data sz n n k j)) u0 = (OK, ?u)"
      using array_has_hd [OF at [unfolded js]] m(1) js
      by (simp add: seq_def) (simp add: u0_def)
    show "sourced P c ?md (source_areas data ?seg sz (offset s) n) C js bs ds s ?u"
      unfolding sourced_def
    proof (intro conjI)
      have "fresh_batch P (length js) (2 * length js) js (bs @ ds) (mach (wld s)) m1"
        using fresh F(6) ms(1) by simp
      then show "\<exists>m1. fresh_batch P (length js) (2 * length js) js (bs @ ds) (mach (wld s)) m1 \<and>
          attached P M_SRC (src_sh ?md) js bs (source_areas data ?seg sz (offset s) n) m1 (mach (wld ?u))"
        using m(2) by auto
      show "\<exists>m. wld ?u = (wld s)\<lparr>mach := m\<rparr>" by auto
      show "statics (qp ?u) = statics (qp s)" using st by (simp add: statics_def)
    qed (use F ms n arr mb in \<open>simp_all add: u0_def\<close>)
  qed simp_all
qed

subsection \<open>The destinations\<close>

lemma attached_frame:
  assumes "attached P fld sh js bs ps m m'"
  shows "same_objects P m m'" "j \<notin> set js \<Longrightarrow> ops m' j = ops m j" "b \<notin> set bs \<Longrightarrow> mbufs m' b = mbufs m b"
  using assms by (simp_all add: attached_def)

lemma sourced_facts:
  assumes "sourced P c md ps C js bs ds s u"
  shows "distinct js" "distinct (bs @ ds)" "length bs = length js" "length ds = length js"
    "set js \<inter> live_ops P (hidden (mach (wld s))) = {}" "set (bs @ ds) \<inter> live_mbufs P (hidden (mach (wld s))) = {}"
    "live_ops P (hidden (mach (wld u))) = live_ops P (hidden (mach (wld s))) \<union> set js"
    "live_mbufs P (hidden (mach (wld u))) = live_mbufs P (hidden (mach (wld s))) \<union> set (bs @ ds)"
    "\<forall>d \<in> set ds. fresh_mbuf (mbufs (mach (wld u)) d)"
    "i < length js \<Longrightarrow> m_src (ops (mach (wld u)) (js ! i)) = Some (bs ! i)"
    "i < length js \<Longrightarrow> data_mbuf (fst (ps ! i)) (snd (ps ! i)) (src_sh md) (mbufs (mach (wld u)) (bs ! i))"
    "\<forall>j \<in> set js. m_dst (ops (mach (wld u)) j) = None"
    "keeps P (mach (wld s)) (mach (wld u))" "same_memory P (mach (wld s)) (mach (wld u))"
    "dmem u = dmem s" "wld u = (wld s)\<lparr>mach := mach (wld u)\<rparr>" "statics (qp u) = statics (qp s)"
proof -
  obtain m1 where F: "fresh_batch P (length js) (2 * length js) js (bs @ ds) (mach (wld s)) m1"
    and A: "attached P M_SRC (src_sh md) js bs ps m1 (mach (wld u))"
    using assms unfolding sourced_def by blast
  show len: "length bs = length js" "length ds = length js" and "dmem u = dmem s" "statics (qp u) = statics (qp s)"
    using assms by (simp_all add: sourced_def)
  show "wld u = (wld s)\<lparr>mach := mach (wld u)\<rparr>" using assms by (auto simp: sourced_def)
  show js: "distinct js" "distinct (bs @ ds)"
    and "set js \<inter> live_ops P (hidden (mach (wld s))) = {}" "set (bs @ ds) \<inter> live_mbufs P (hidden (mach (wld s))) = {}"
    using F unfolding fresh_batch_def by blast+
  note S = attached_frame [OF A]
  show "live_ops P (hidden (mach (wld u))) = live_ops P (hidden (mach (wld s))) \<union> set js"
    "live_mbufs P (hidden (mach (wld u))) = live_mbufs P (hidden (mach (wld s))) \<union> set (bs @ ds)"
    using F S(1) by (simp_all add: fresh_batch_def same_objects_def)
  show "\<forall>d \<in> set ds. fresh_mbuf (mbufs (mach (wld u)) d)"
  proof
    fix d assume d: "d \<in> set ds"
    then have "d \<notin> set bs" using js(2) by auto
    then show "fresh_mbuf (mbufs (mach (wld u)) d)" using S(3) F d by (simp add: fresh_batch_def)
  qed
  show "i < length js \<Longrightarrow> m_src (ops (mach (wld u)) (js ! i)) = Some (bs ! i)"
    "i < length js \<Longrightarrow> data_mbuf (fst (ps ! i)) (snd (ps ! i)) (src_sh md) (mbufs (mach (wld u)) (bs ! i))"
    using A by (simp_all add: attached_def)
  show "\<forall>j \<in> set js. m_dst (ops (mach (wld u)) j) = None"
  proof
    fix j assume "j \<in> set js"
    then obtain i where "i < length js" "j = js ! i" by (auto simp: in_set_conv_nth)
    then show "m_dst (ops (mach (wld u)) j) = None"
      using A F by (simp add: attached_def fresh_batch_def fresh_op_def)
  qed
  show "keeps P (mach (wld s)) (mach (wld u))"
    unfolding keeps_def
  proof (intro conjI ballI)
    fix b assume "b \<in> live_mbufs P (hidden (mach (wld s)))"
    then have "b \<notin> set (bs @ ds)" using F unfolding fresh_batch_def by blast
    then show "mbufs (mach (wld u)) b = mbufs (mach (wld s)) b" using S(3) F by (simp add: fresh_batch_def)
  next
    fix j assume "j \<in> live_ops P (hidden (mach (wld s)))"
    then have "j \<notin> set js" using F unfolding fresh_batch_def by blast
    then show "ops (mach (wld u)) j = ops (mach (wld s)) j" using S(2) F by (simp add: fresh_batch_def)
  qed (use F S(1) in \<open>auto simp: fresh_batch_def same_objects_def same_memory_def\<close>)
  show "same_memory P (mach (wld s)) (mach (wld u))"
    using F S(1) by (auto simp: fresh_batch_def same_objects_def same_memory_def)
qed

text \<open>The destinations of the first \<open>i\<close> operations leave everything else alone.\<close>

lemma took_zones_keeps:
  assumes "sourced P c md ps C js bs ds s u"
    and took: "took_zones P c sh xf (take i js) (take i ds) zs u t" "i \<le> length js"
  shows "keeps P (mach (wld s)) (mach (wld t))" "held t = held s \<union> set zs" "held s \<inter> set zs = {}" "distinct zs"
    "length zs = i" "dm_ok P c (dmem t, wld t)"
    "bytes (mach (wld t)) a = bytes (mach (wld s)) a \<or> a \<in> zones_bytes zs"
    "live_ops P (hidden (mach (wld t))) = live_ops P (hidden (mach (wld u)))"
    "live_mbufs P (hidden (mach (wld t))) = live_mbufs P (hidden (mach (wld u)))"
    "finished sh xf (take i js) (take i ds) (map zone_area zs) (mach (wld u)) (mach (wld t))"
    "t = u\<lparr>dmem := dmem t, wld := wld t\<rparr>" "foreign A u \<Longrightarrow> foreign A t"
proof -
  note S = sourced_facts [OF assms(1)]
  show fin: "finished sh xf (take i js) (take i ds) (map zone_area zs) (mach (wld u)) (mach (wld t))"
    and mem: "distinct zs" "length zs = i" "dm_ok P c (dmem t, wld t)" "t = u\<lparr>dmem := dmem t, wld := wld t\<rparr>"
    "foreign A u \<Longrightarrow> foreign A t"
    using took by (auto simp: took_zones_def)
  have step: "mem_step P (zones_bytes zs) (wld u) (wld t)" using took(1) by (simp add: took_zones_def)
  have held: "held u = held s" using S(15,16) by (simp add: dm_held_def)
  show "held t = held s \<union> set zs" "held s \<inter> set zs = {}" using took(1) held by (auto simp: took_zones_def)
  show "bytes (mach (wld t)) a = bytes (mach (wld s)) a \<or> a \<in> zones_bytes zs"
    using step S(14) by (auto simp: mem_step_def same_memory_def)
  show "live_ops P (hidden (mach (wld t))) = live_ops P (hidden (mach (wld u)))"
    "live_mbufs P (hidden (mach (wld t))) = live_mbufs P (hidden (mach (wld u)))"
    using step by (simp_all add: mem_step_def same_queues_def)
  show "keeps P (mach (wld s)) (mach (wld t))"
    unfolding keeps_def
  proof (intro conjI ballI)
    fix b assume b: "b \<in> live_mbufs P (hidden (mach (wld s)))"
    then have "b \<notin> set (take i ds)" using S(6) set_take_subset [of i ds] by auto
    then show "mbufs (mach (wld t)) b = mbufs (mach (wld s)) b" using fin S(13) b by (simp add: finished_def keeps_def)
  next
    fix j assume j: "j \<in> live_ops P (hidden (mach (wld s)))"
    then have "j \<notin> set (take i js)" using S(5) set_take_subset [of i js] by auto
    then show "ops (mach (wld t)) j = ops (mach (wld s)) j" using fin S(13) j by (simp add: finished_def keeps_def)
  qed (use step S(13) in \<open>auto simp: mem_step_def same_queues_def keeps_def\<close>)
qed

text \<open>Memory that the destinations do not touch: foreign areas and zones held before.\<close>

lemma zones_bytes_apart:
  assumes "dm_ok P c (dmem t, wld t)" "set zs \<subseteq> held t"
  shows "foreign A t \<Longrightarrow> A \<inter> zones_bytes zs = {}"
    and "z \<in> held t \<Longrightarrow> z \<notin> set zs \<Longrightarrow> zone_bytes z \<inter> zones_bytes zs = {}"
  using foreign_apart [OF assms(1)] dm_held_apart [OF assms(1)] assms(2)
  unfolding zones_bytes_def by blast+

lemma segments_left:
  assumes "0 < seg" "off = min sz (N * seg)" "n \<le> ceil_div (sz - off) seg" "0 < n"
  shows "N + n \<le> ceil_div sz seg" "min sz (off + n * seg) = min sz ((N + n) * seg)"
    "ceil_div (sz - off) seg = n + ceil_div (sz - min sz (off + n * seg)) seg"
proof -
  have lt: "(n - 1) * seg < sz - off"
    using assms(3,4) less_ceil_div_iff [OF assms(1), of "n - 1" "sz - off"] by linarith
  then have eq: "off = N * seg" using assms(2) by (simp add: min_def split: if_splits)
  have "(N + (n - 1)) * seg < sz" using lt eq by (simp add: algebra_simps)
  then have "N + (n - 1) < ceil_div sz seg" using less_ceil_div_iff [OF assms(1)] by blast
  then show "N + n \<le> ceil_div sz seg" using assms(4) by simp
  show "min sz (off + n * seg) = min sz ((N + n) * seg)" by (simp add: eq algebra_simps)
  show "ceil_div (sz - off) seg = n + ceil_div (sz - min sz (off + n * seg)) seg"
  proof (cases "off + n * seg \<le> sz")
    case True
    then obtain r where r: "sz = off + n * seg + r" using le_Suc_ex by blast
    have "ceil_div (n * seg + r) seg = n + ceil_div r seg"
    proof -
      have "n * seg + r + seg - 1 = (r + seg - 1) + n * seg" using assms(1) by simp
      then show ?thesis using assms(1) unfolding ceil_div_def by (simp only: div_mult_self1)
    qed
    then show ?thesis using r by simp
  next
    case False
    then have "sz - off \<le> n * seg" by simp
    then have "ceil_div (sz - off) seg \<le> n" using ceil_div_le_iff [OF assms(1)] by simp
    then show ?thesis using assms(1,3) False by simp
  qed
qed

lemma compress_extend:
  assumes seg: "0 < unat (decompressed_seg_size c)"
    and pipe: "pipe P c (compress_mode c q0) dev_id qp_id [] B C s"
    and jobs: "compress_jobs P c q0 m0 data input H dn (B @ C) s"
    and src: "sourced P c (compress_mode c q0)
      (source_areas data (unat (decompressed_seg_size c)) (length input) (offset s) n) C js bs ds s u"
    and u: "offset u = offset s + sum_list (map snd (pieces (unat (decompressed_seg_size c)) (length input) (offset s) n))"
      "compressed_buffers u = compressed_buffers s"
    and took: "took_zones P c (dst_sh (compress_mode c q0)) (Some (mode_xform (compress_mode c q0))) js ds zs u t"
    and k: "unat k = length C + n" and n: "length js = n" "0 < n"
      "n \<le> ceil_div (length input - offset s) (unat (decompressed_seg_size c))"
  obtains D where "pipe P c (compress_mode c q0) dev_id qp_id [] B (C @ D) (t\<lparr>qp := (qp t)\<lparr>num_ops_assembled := k\<rparr>\<rparr>)"
    "compress_jobs P c q0 m0 data input H dn (B @ C @ D) (t\<lparr>qp := (qp t)\<lparr>num_ops_assembled := k\<rparr>\<rparr>)" "length D = n"
    "offset t = min (length input) (offset s + n * unat (decompressed_seg_size c))"
    "took_spare P n s (t\<lparr>qp := (qp t)\<lparr>num_ops_assembled := k\<rparr>\<rparr>)"
proof -
  let ?seg = "unat (decompressed_seg_size c)" and ?sz = "length input" and ?md = "compress_mode c q0"
  let ?ps = "source_areas data ?seg ?sz (offset s) n" and ?t = "t\<lparr>qp := (qp t)\<lparr>num_ops_assembled := k\<rparr>\<rparr>"
  define D where "D = batch_jobs js bs ds ?ps (map zone_area zs)"
  note J = compress_jobsD [OF jobs] and S = sourced_facts [OF src]
  have "took_zones P c (dst_sh ?md) (Some (mode_xform ?md)) (take n js) (take n ds) zs u t"
    using took n(1) S(4) by simp
  note T = took_zones_keeps [OF src this] 
  have len: "length zs = length js" "length ?ps = length js" using T(5) n(1) by (simp_all add: source_areas_def)
  have D: "map (\<lambda>x. (job_in x, job_len x)) D = ?ps" "map (\<lambda>x. (job_out x, job_cap x)) D = map zone_area zs"
    "map job_op D = js" "length D = n"
    using batch_jobs_areas len n(1) by (simp_all add: D_def)
  note DM = batch_jobs_distinct [OF S(3,4,1,2), of ?ps "map zone_area zs", folded D_def]
  obtain zs0 where z0: "zone_jobs zs0 (dn @ B @ C)" "held s = H \<union> set zs0" "H \<inter> set zs0 = {}"
    by (rule compress_jobs_zones [OF jobs])
  have zD: "zone_jobs zs D" using D(2) T(4) n(1) by (simp add: zone_jobs_def)
  have apart0: "set zs0 \<inter> set zs = {}" using T(3) z0(2) n(1) by auto
  have ok: "dm_ok P c (dmem ?t, wld ?t)" using T(6) n(1) by simp
  have le: "length (dn @ B @ C) + n \<le> ceil_div ?sz ?seg"
    "min ?sz (offset s + n * ?seg) = min ?sz ((length (dn @ B @ C) + n) * ?seg)"
    using segments_left [OF seg J(3) n(3,2)] by simp_all
  have off: "offset t = min ?sz (offset s + n * ?seg)"
  proof -
    have "offset t = offset u" using T(11) n(1) by (metis le_refl qp_state.select_convs(4) qp_state.surjective qp_state.update_convs(2,3))
    then show ?thesis using u(1) pieces_sum [of "offset s" ?sz ?seg n] J(3) by simp
  qed
  have fg: "foreign {data ..< data + ?sz} t"
  proof -
    have "foreign {data ..< data + ?sz} u" using J(6) S(15) arg_cong [OF S(16), of allocated_memzones] by (simp add: foreign_def)
    then show ?thesis using T(12) n(1) by simp
  qed
  note far = zones_bytes_apart [OF T(6), of zs]
  have tu: "qp t = qp u" "compressed_buffers t = compressed_buffers s"
    using arg_cong [OF T(11), of qp] arg_cong [OF T(11), of compressed_buffers] u(2) n(1) by simp_all
  have same_zone: "bytes (mach (wld t)) a = bytes (mach (wld s)) a" if "z \<in> held s" "a \<in> zone_bytes z" for a z
  proof -
    have "z \<in> held t" "z \<notin> set zs" using that(1) T(2,3) n(1) by auto
    then have "a \<notin> zones_bytes zs" using far(2) that(2) T(2) n(1) by blast
    then show ?thesis using T(7) [of a] n(1) by simp
  qed
  have same_data: "mem_bytes (mach (wld t)) a l = mem_bytes (mach (wld s)) a l"
    if "{a ..< a + l} \<subseteq> {data ..< data + ?sz}" for a l
  proof (rule mem_bytes_cong)
    fix x assume "a \<le> x" "x < a + l"
    then have "x \<in> {data ..< data + ?sz}" using that by auto
    then have "x \<notin> zones_bytes zs" using far(1) fg T(2) n(1) by blast
    then show "bytes (mach (wld t)) x = bytes (mach (wld s)) x" using T(7) [of x] n(1) by simp
  qed
  have areas: "map (\<lambda>x. (job_in x, job_len x)) (dn @ B @ C @ D) =
      source_areas data ?seg ?sz 0 (length (dn @ B @ C @ D))"
    using J(2,3) D(1,4) pieces_append [of 0 ?sz ?seg "length (dn @ B @ C)" n]
    by (simp add: source_areas_def add.assoc)
  have outs: "list_all2 (output_of P (compress_xform c) (mach (wld t))) dn (compressed_buffers t)"
    unfolding list_all2_conv_all_nth
  proof (intro conjI allI impI)
    show "length dn = length (compressed_buffers t)" using list_all2_lengthD [OF J(8)] tu(2) by simp
    fix i assume i: "i < length dn"
    let ?x = "(dn @ B @ C) ! i"
    have x: "?x = dn ! i" "i < length (dn @ B @ C)" using i by (simp_all add: nth_append)
    have "?x \<in> set (dn @ B @ C)" using x(2) nth_mem by blast
    then have "job_source ?x \<subseteq> {data ..< data + ?sz}" by (rule source_inside [OF J(2)])
    then have ins: "{job_in (dn ! i) ..< job_in (dn ! i) + job_len (dn ! i)} \<subseteq> {data ..< data + ?sz}"
      by (simp add: job_source_def x(1))
    have "zs0 ! i \<in> held s" using z0(2) zone_jobs_nth(1) [OF z0(1) x(2)] by simp
    then have "bytes (mach (wld t)) a = bytes (mach (wld s)) a" if "a \<in> job_area (dn ! i)" for a
      using same_zone zone_jobs_nth(2) [OF z0(1) x(2)] that x(1) by auto
    then show "output_of P (compress_xform c) (mach (wld t)) (dn ! i) (compressed_buffers t ! i)"
      unfolding tu(2) by (intro output_of_bytes [OF list_all2_nthD [OF J(8) i] same_data [OF ins]])
  qed
  have zones: "zone_jobs (zs0 @ zs) (dn @ B @ C @ D)" "held t = H \<union> set (zs0 @ zs)" "H \<inter> set (zs0 @ zs) = {}"
    using zone_jobs_append [OF z0(1) zD apart0] z0(2,3) T(2,3) n(1) by auto
  have st: "statics (qp ?t) = statics (qp s)" using tu(1) S(17) by (simp add: statics_def)
  have cj: "compress_jobs P c q0 m0 data input H dn (B @ C @ D) ?t"
    unfolding compress_jobs_def Let_def
  proof (intro conjI)
    show "statics (qp ?t) = statics q0" using st J(1) by simp
    show "map (\<lambda>x. (job_in x, job_len x)) (dn @ B @ C @ D) =
      source_areas data ?seg ?sz 0 (length (dn @ B @ C @ D))" by (rule areas)
    show "offset ?t = min ?sz (length (dn @ B @ C @ D) * ?seg)" using off le(2) D(4) by (simp add: add.assoc)
    show "length (dn @ B @ C @ D) \<le> ceil_div ?sz ?seg" using le(1) D(4) by simp
    show "mem_bytes (mach (wld ?t)) data ?sz = input" using same_data [of data ?sz] J(5) by simp
    show "foreign {data ..< data + ?sz} ?t" using fg by (simp add: foreign_def)
    show "\<exists>zs. zone_jobs zs (dn @ B @ C @ D) \<and> held ?t = H \<union> set zs \<and> H \<inter> set zs = {}"
      using zones by (intro exI [of _ "zs0 @ zs"]) simp
    show "only_new_zones P m0 (held ?t - H) (mach (wld ?t))"
    proof (rule only_new_zones_step [OF J(9)])
      show "xforms P (hidden (mach (wld ?t))) = xforms P (hidden (mach (wld s)))"
        using T(1) n(1) by (simp add: keeps_def)
      show "held s - H \<subseteq> held ?t - H" using T(2) n(1) by auto
      fix a
      have "set zs \<subseteq> held ?t - H" using zones(2,3) by auto
      then show "bytes (mach (wld ?t)) a = bytes (mach (wld s)) a \<or> (\<exists>z \<in> held ?t - H. a \<in> zone_bytes z)"
        using T(7) [of a] n(1) by (auto simp: zones_bytes_def)
    qed
  qed (use ok outs in simp_all)
  have "pipe P c ?md dev_id qp_id [] B (C @ D) ?t"
  proof (rule pipe_extend [OF pipe st])
    show "keeps P (mach (wld s)) (mach (wld ?t))" using T(1) n(1) by simp
    show "pending_operations (qp ?t) = pending_operations (qp s) @ map (\<lambda>x. Some (job_op x)) D"
      using src tu(1) D(3) by (simp add: sourced_def) (metis (no_types, lifting) comp_apply list.map_comp map_eq_conv)
    show "array_has (operations (qp ?t)) 0 (map job_op (C @ D))"
      using src tu(1) D(3) by (simp add: sourced_def)
    show "unat (num_ops_assembled (qp ?t)) = length (C @ D)" using k D(4) by simp
    show "length (C @ D) \<le> unat (burst_size c)" using src D(4) n(1) by (simp add: sourced_def)
    show "owns P (mach (wld ?t)) D"
      using DM S(7,8) T(8,9) n(1) D(3) by (auto simp: owns_def)
    show "set (map job_op D) \<inter> live_ops P (hidden (mach (wld s))) = {}" using S(5) D(3) by simp
    show "set (concat (map job_mbufs D)) \<inter> live_mbufs P (hidden (mach (wld s))) = {}"
      unfolding DM(3) by (rule S(6))
    show "jobs_apart (B @ C @ D)" by (rule jobs_apart_subset [OF compress_jobs_apart [OF cj]]) auto
    obtain m1 where "attached P M_SRC (src_sh ?md) js bs ?ps m1 (mach (wld u))"
      using src unfolding sourced_def by blast
    from batch_ready [OF this _ S(3,4,1)] show "\<forall>x \<in> set D. job_ready ?md (mach (wld ?t)) x"
      using S(2) T(10) n(1) S(4) by (simp add: D_def)
  qed
  moreover have "took_spare P n s ?t"
  proof -
    have "took_spare P n u t" using took n(1) by (simp add: took_zones_def)
    then show ?thesis using S(14,15) by (simp add: took_spare_def same_memory_def)
  qed
  ultimately show ?thesis using that [of D] cj D(4) off by blast
qed

subsection \<open>When no destination can be had\<close>

lemma claims_ok_append:
  assumes "claims_ok m rs" "claims_ok m qs" "set (map fst rs) \<inter> set (map fst qs) = {}"
    and "set (concat (map claim_mbufs rs)) \<inter> set (concat (map claim_mbufs qs)) = {}"
  shows "claims_ok m (rs @ qs)"
  using assms unfolding claims_ok_def map_append concat_append distinct_append set_append by blast

text \<open>The claims of the operations that have a source and no destination yet.\<close>

definition source_claims :: "op_ptr list \<Rightarrow> mbuf_ptr list \<Rightarrow> nat \<Rightarrow> claim list" where
  "source_claims js bs i = map (\<lambda>l. (js ! l, [bs ! l], [])) [i..<length js]"

lemma source_claims_parts:
  assumes "length bs = length js"
  shows "map fst (source_claims js bs i) = drop i js" "concat (map claim_mbufs (source_claims js bs i)) = drop i bs"
proof -
  have d: "map ((!) xs) [i..<length xs] = drop i xs" for xs :: "nat list"
    by (rule nth_equalityI) simp_all
  show "map fst (source_claims js bs i) = drop i js" using d by (simp add: source_claims_def comp_def)
  have "concat (map (\<lambda>l. [bs ! l]) [i..<length js]) = map ((!) bs) [i..<length js]"
    by (induction "[i..<length js]" arbitrary: i) (simp_all add: concat_map_singleton)
  then show "concat (map claim_mbufs (source_claims js bs i)) = drop i bs"
    using d [of bs] assms by (simp add: source_claims_def comp_def claim_mbufs_def)
qed

lemma claim_addrs_append [simp]: "claim_addrs m sh (rs @ qs) = claim_addrs m sh rs \<union> claim_addrs m sh qs"
  by (simp add: claim_addrs_def)

lemma source_claims_addrs [simp]: "claim_addrs m sh (source_claims js bs i) = {}"
  by (simp add: claim_addrs_def source_claims_def shared_addrs_def)

lemma list_all2_outputs:
  "list_all2 (output_of P xf m) xs bufs \<Longrightarrow> buf_data ` set bufs = job_out ` set xs"
  by (induction rule: list_all2_induct) (simp_all add: output_of_def)

lemma compress_cleanup:
  assumes laws: "free_laws P"
    and pipe: "pipe P c (compress_mode c q0) dev_id qp_id [] B C s"
    and jobs: "compress_jobs P c q0 m0 data input H dn (B @ C) s"
    and src: "sourced P c (compress_mode c q0) ps C js bs ds s u" "length ps = length js"
    and u: "compressed_buffers u = compressed_buffers s" "u = s\<lparr>qp := qp u, wld := wld u, offset := offset u\<rparr>"
    and took: "took_zones P c (dst_sh (compress_mode c q0)) (Some (mode_xform (compress_mode c q0)))
      (take i js) (take i ds) zs u t" and i: "i \<le> length js"
    and code: "code \<in> {IOError, OutOfMemory}"
  shows "twp (\<lambda>s. ReleaseAll P (compressed_buffers s) s)
    (\<lambda>_ t. compress_lost P c data input H (Status code msg) t) (\<lambda>_ _. False) t"
proof -
  let ?md = "compress_mode c q0" and ?m = "mach (wld t)"
  note J = compress_jobsD [OF jobs] and S = sourced_facts [OF src(1)] and T = took_zones_keeps [OF src(1) took i]
  note P = pipeD [OF pipe]
  define D where "D = batch_jobs (take i js) (take i bs) (take i ds) (take i ps) (map zone_area zs)"
  have D: "map (\<lambda>x. (job_out x, job_cap x)) D = map zone_area zs" "map job_op D = take i js"
    using batch_jobs_areas T(5) i by (simp_all add: D_def)
  have part: "distinct (take i bs @ take i ds)"
    using S(2) by (auto dest!: in_set_takeD)
  have DM: "distinct (concat (map job_mbufs D))" "set (concat (map job_mbufs D)) = set (take i bs @ take i ds)"
    using batch_jobs_distinct(2,3) [OF _ _ _ part, of "take i js"] S(1,3,4) by (simp_all add: D_def)
  obtain zs0 where z0: "zone_jobs zs0 (dn @ B @ C)" "held s = H \<union> set zs0" "H \<inter> set zs0 = {}"
    by (rule compress_jobs_zones [OF jobs])
  have zones: "zone_jobs (zs0 @ zs) (dn @ B @ C @ D)"
    using zone_jobs_append [OF z0(1), of zs D] D(1) T(3,4) z0(2) by (auto simp: zone_jobs_def)
  have tu: "qp t = qp u" "compressed_buffers t = compressed_buffers s"
    using arg_cong [OF T(11), of qp] arg_cong [OF T(11), of compressed_buffers] u(1) by simp_all
  have ready_old: "\<forall>x \<in> set (B @ C). job_ready ?md ?m x"
    using keeps_ready [of P "mach (wld s)" "B @ C" _ ?m ?md] P(7,9) T(1) by auto
  have readyD: "\<forall>x \<in> set D. job_ready ?md ?m x"
  proof
    fix x assume "x \<in> set D"
    then obtain l where l: "l < i" "x = \<lparr>job_op = js ! l, job_src = bs ! l, job_dst = ds ! l, job_in = fst (ps ! l),
        job_len = snd (ps ! l), job_out = fst (map zone_area zs ! l), job_cap = snd (map zone_area zs ! l)\<rparr>"
      using i by (auto simp: D_def batch_jobs_def)
    have jl: "l < length js" using l(1) i by simp
    have "bs ! l \<in> set bs" using jl S(3) by simp
    then have "bs ! l \<notin> set (take i ds)" using S(2) by (auto dest: in_set_takeD)
    then have same: "mbufs ?m (bs ! l) = mbufs (mach (wld u)) (bs ! l)" using T(10) by (simp add: finished_def)
    have "ops ?m (js ! l) = completed (ds ! l) (mbufs (mach (wld u)) (bs ! l)) (Some (mode_xform ?md)) (ops (mach (wld u)) (js ! l))"
      "data_mbuf (fst (map zone_area zs ! l)) (snd (map zone_area zs ! l)) (dst_sh ?md) (mbufs ?m (ds ! l))"
      using T(10) l(1) i S(10) [OF jl] by (simp_all add: finished_def)
    then show "job_ready ?md ?m x"
      using S(10,11) [OF jl] same by (simp add: job_ready_def l(2) completed_def) (simp add: data_mbuf_def)
  qed
  have rest: "claims_ok ?m (source_claims js bs i)"
    unfolding claims_ok_def source_claims_parts [OF S(3)]
  proof (intro conjI)
    have "chained ?m (m_src (ops ?m (js ! l))) [bs ! l] \<and> chained ?m (m_dst (ops ?m (js ! l))) []"
      if l: "i \<le> l" "l < length js" for l
    proof -
      have "js ! l \<notin> set (take i js)"
        using S(1) l by (auto simp: in_set_conv_nth nth_eq_iff_index_eq)
      moreover have "bs ! l \<in> set bs" using l S(3) by simp
      then have "bs ! l \<notin> set (take i ds)" using S(2) by (auto dest: in_set_takeD)
      ultimately have "ops ?m (js ! l) = ops (mach (wld u)) (js ! l)" "mbufs ?m (bs ! l) = mbufs (mach (wld u)) (bs ! l)"
        using T(10) by (simp_all add: finished_def)
      then show ?thesis using S(10,11) [OF l(2)] S(12) l(2) by (simp add: data_mbuf_def)
    qed
    then show "\<forall>(j, bs, ds) \<in> set (source_claims js bs i).
        chained ?m (m_src (ops ?m j)) bs \<and> chained ?m (m_dst (ops ?m j)) ds"
      by (auto simp: source_claims_def)
  qed (use S(1,2) in simp_all)
  have old: "owns P (mach (wld s)) (B @ C)" using P(7) by simp
  have new: "owns P ?m D"
    using DM S(1,7,8) T(8,9) D(2) by (auto simp: owns_def dest!: in_set_takeD)
  have oldm: "set (concat (map job_mbufs (B @ C))) \<subseteq> live_mbufs P (hidden (mach (wld s)))"
    using old unfolding owns_def by blast
  have sub: "set (take i bs @ take i ds) \<subseteq> set (bs @ ds)" "set (drop i bs) \<subseteq> set (bs @ ds)"
    using set_take_subset [of i bs] set_take_subset [of i ds] set_drop_subset [of i bs] by auto
  have ownBCD: "owns P ?m ((B @ C) @ D)"
  proof -
    have "set (map job_op D) \<inter> set (map job_op (B @ C)) = {}"
      using S(5) old set_take_subset [of i js] unfolding D(2) owns_def by blast
    moreover have "set (concat (map job_mbufs D)) \<inter> set (concat (map job_mbufs (B @ C))) = {}"
      using S(6) oldm sub unfolding DM(2) by blast
    ultimately show ?thesis
      using keeps_owns [OF old T(1)] new
      unfolding owns_def map_append concat_append set_append distinct_append by blast
  qed
  let ?rs = "map job_claim ((B @ C) @ D) @ source_claims js bs i"
  have allready: "\<forall>x \<in> set ((B @ C) @ D). job_ready ?md ?m x" using ready_old readyD by auto
  have parts: "map fst (map job_claim xs) = map job_op xs"
    "concat (map claim_mbufs (map job_claim xs)) = concat (map job_mbufs xs)" for xs
    by (simp_all add: job_claim_def claim_mbufs_def job_mbufs_def [abs_def] comp_def)
  have ok: "claims_ok ?m ?rs"
  proof (rule claims_ok_append [OF job_claims_ok [OF ownBCD allready] rest], goal_cases)
    case 1
    have "set (take i js) \<inter> set (drop i js) = {}" using S(1) by (rule set_take_disj_set_drop_if_distinct) simp
    moreover have "set (map job_op (B @ C)) \<inter> set (drop i js) = {}"
      using S(5) old set_drop_subset [of i js] unfolding owns_def by blast
    ultimately show ?case unfolding parts source_claims_parts [OF S(3)] map_append set_append D(2) by blast
  next
    case 2
    have "set (take i bs @ take i ds) \<inter> set (drop i bs) = {}"
    proof -
      have "set (take i bs) \<inter> set (drop i bs) = {}"
        using S(2) by (intro set_take_disj_set_drop_if_distinct) simp_all
      moreover have "set (take i ds) \<inter> set (drop i bs) = {}"
        using S(2) set_take_subset [of i ds] set_drop_subset [of i bs] by auto
      ultimately show ?thesis by auto
    qed
    moreover have "set (concat (map job_mbufs (B @ C))) \<inter> set (drop i bs) = {}"
      using S(6) oldm sub by blast
    ultimately show ?case
      unfolding parts source_claims_parts [OF S(3)] map_append concat_append set_append DM(2) by blast
  qed
  have fg: "foreign {data ..< data + length input} t"
  proof -
    have "foreign {data ..< data + length input} u"
      using J(6) S(15) arg_cong [OF S(16), of allocated_memzones] by (simp add: foreign_def)
    then show ?thesis by (rule T(12))
  qed
  have input: "mem_bytes ?m data (length input) = input"
  proof -
    have "mem_bytes ?m data (length input) = mem_bytes (mach (wld s)) data (length input)"
    proof (rule mem_bytes_cong)
      fix x assume "data \<le> x" "x < data + length input"
      then have "x \<notin> zones_bytes zs" using zones_bytes_apart(1) [OF T(6) _ fg] T(2) by fastforce
      then show "bytes ?m x = bytes (mach (wld s)) x" using T(7) [of x] by simp
    qed
    then show ?thesis using J(5) by simp
  qed
  have sh: "shared_info_compressed_mbuf (qp t) = Some (dst_sh ?md)"
    using compress_shinfo(1) [of "qp u" q0 c] S(17) J(1) qp_ready_cong [OF S(17), of c] P(1) tu(1) by simp
  show ?thesis
  proof (rule compress_releases [OF laws T(6) _ _ _ ok _ input code])
    show "held t = H \<union> set (zs0 @ zs)" "H \<inter> set (zs0 @ zs) = {}" using T(2,3) z0(2,3) by auto
    have "pending_operations (qp t) = map Some (map job_op (B @ C) @ js)"
      using src(1) P(2) tu(1) by (simp add: sourced_def comp_def)
    also have "map job_op (B @ C) @ js = map fst ?rs"
      unfolding map_append parts source_claims_parts [OF S(3)] D(2) by simp
    finally show "pending_operations (qp t) = map (\<lambda>r. Some (fst r)) ?rs" by (simp add: comp_def)
    have "job_out ` set (dn @ B @ C @ D) = mz_addr ` set (zs0 @ zs)" by (rule zone_jobs_outs [OF zones])
    then show "mz_addr ` set (zs0 @ zs) = buf_data ` set (compressed_buffers t) \<union>
        claim_addrs ?m (shared_info_compressed_mbuf (qp t)) ?rs"
      using list_all2_outputs [OF J(8)] tu(2) job_claim_addrs [OF allready sh] by (simp add: image_Un Un_assoc)
  qed
qed

end
