(* ===== verification/Bitar_Compress_Call.thy ===== *)
theory Bitar_Compress_Call
  imports Bitar_Compress_Batch
begin

text \<open>
  \<open>Compress\<close> as a whole: the assembler, the client of \<open>Bitar_Bursts\<close> it makes with the
  callback and the clean-up, and what a call does.
\<close>

subsection \<open>The assembler\<close>

lemma wp_seqI: "wp m (\<lambda>x. wp (f x) Q E) E s \<Longrightarrow> wp (seq m f) Q E s"
  by simp

lemma wp_step: "m s = (Inr x, t) \<Longrightarrow> wp (f x) Q E t \<Longrightarrow> wp (seq m f) Q E s"
  by (simp add: wp_def seq_def)

lemma compress_stuck_releases:
  assumes "free_laws P" "stuck P c (compress_mode c q0) xs s" "compress_jobs P c q0 m0 data input H dn xs s"
    and code: "code \<in> {IOError, OutOfMemory}"
  shows "twp (\<lambda>s. ReleaseAll P (compressed_buffers s) s)
    (\<lambda>_ t. compress_lost P c data input H (Status code msg) t) (\<lambda>_ _. False) s"
proof -
  let ?md = "compress_mode c q0"
  note J = compress_jobsD [OF assms(3)]
  have S: "qp_ready c (qp s)" "pending_operations (qp s) = map (\<lambda>x. Some (job_op x)) xs"
    "owns P (mach (wld s)) xs" "\<forall>x \<in> set xs. job_ready ?md (mach (wld s)) x"
    using assms(2) by (simp_all add: stuck_def)
  obtain zs where zs: "zone_jobs zs (dn @ xs)" "held s = H \<union> set zs" "H \<inter> set zs = {}"
    by (rule compress_jobs_zones [OF assms(3)])
  show ?thesis
  proof (rule compress_releases [OF assms(1) J(7) zs(2,3) _ job_claims_ok [OF S(3,4)] _ J(5) code])
    show "pending_operations (qp s) = map (\<lambda>r. Some (fst r)) (map job_claim xs)"
      using S(2) by (simp add: job_claim_def)
    show "mz_addr ` set zs = buf_data ` set (compressed_buffers s) \<union>
        claim_addrs (mach (wld s)) (shared_info_compressed_mbuf (qp s)) (map job_claim xs)"
      using zone_jobs_outs [OF zs(1)] list_all2_outputs [OF J(8)]
        job_claim_addrs [OF S(4) compress_shinfo(1) [OF J(1) S(1)]] by (simp add: image_Un)
  qed
qed

text \<open>The number of segments of the next batch, in the integers of the code.\<close>

lemma ceil_div_min: "0 < seg \<Longrightarrow> ceil_div (min r (k * seg)) seg = min (ceil_div r seg) k"
proof -
  assume seg: "0 < seg"
  have "ceil_div (min r (k * seg)) seg \<le> x \<longleftrightarrow> min (ceil_div r seg) k \<le> x" for x
  proof -
    have "k * seg \<le> x * seg \<longleftrightarrow> k \<le> x" using seg by simp
    then show ?thesis using ceil_div_le_iff [OF seg, of "min r (k * seg)" x] ceil_div_le_iff [OF seg, of r x]
      by (simp add: min_le_iff_disj)
  qed
  then show ?thesis by (meson order_refl order_antisym)
qed

lemma batch_size:
  fixes seg :: u16 and r k :: nat
  assumes "0 < seg" "k < 65536"
  defines "w \<equiv> word_of_int ((min (int r) (int k * uint seg) + uint seg - 1) div uint seg) :: u32"
  shows "unat w = min (ceil_div r (unat seg)) k" "unat (w * 2) = 2 * min (ceil_div r (unat seg)) k"
    "unat (ucast w :: u16) = min (ceil_div r (unat seg)) k"
proof -
  let ?n = "min (ceil_div r (unat seg)) k"
  have s: "0 < unat seg" using assms(1) by (simp add: word_less_nat_alt)
  have u: "uint seg = int (unat seg)" by simp
  have div: "(min (int r) (int k * int g) + int g - 1) div int g = int (ceil_div (min r (k * g)) g)"
    if "0 < g" for g
  proof -
    have "min (int r) (int k * int g) = int (min r (k * g))" by (simp add: min_def flip: of_nat_mult)
    moreover have "int a + int g - 1 = int (a + g - 1)" for a using that by (simp add: of_nat_diff)
    ultimately show ?thesis by (simp only: ceil_div_def zdiv_int)
  qed
  have "(min (int r) (int k * uint seg) + uint seg - 1) div uint seg = int (ceil_div (min r (k * unat seg)) (unat seg))"
    unfolding u by (rule div [OF s])
  also have "ceil_div (min r (k * unat seg)) (unat seg) = ?n" by (rule ceil_div_min [OF s])
  finally have w: "w = word_of_nat ?n" by (simp add: w_def)
  have n: "?n < 65536" using assms(2) by simp
  show uw: "unat w = ?n" using n by (simp add: w unat_of_nat take_bit_nat_eq_self)
  show "unat (w * 2) = 2 * ?n"
  proof -
    have "unat (w * 2) = (?n * 2) mod 2 ^ 32" unfolding uw [symmetric] by (simp add: unat_word_ariths)
    moreover have "?n * 2 < 2 ^ 32" using n by simp
    ultimately show ?thesis by (simp only: mod_less mult.commute)
  qed
  show "unat (ucast w :: u16) = ?n"
    using n by (simp add: unsigned_ucast_eq uw take_bit_nat_eq_self)
qed

text \<open>The assembler adds a batch behind \<open>C\<close>, or the clean-up has run.\<close>

definition left_to_compress :: "configuration \<Rightarrow> u8 list \<Rightarrow> 'w qp_state \<Rightarrow> nat" where
  "left_to_compress c input s = ceil_div (length input - offset s) (unat (decompressed_seg_size c))"

definition compress_laws :: "('w, 'p) dpdk_scheme \<Rightarrow> configuration \<Rightarrow> bool" where
  "compress_laws P c \<longleftrightarrow> alloc_laws P \<and> free_laws P \<and> mbuf_laws P \<and> zone_frame_laws P \<and> burst_laws P \<and>
     codec_laws P c \<and> status_encoding_laws (status_codes P)"

text \<open>
  Configurations with one mbuf per operation whose burst of segments fits an \<open>int\<close>, as the
  code computes it.
\<close>

definition one_segment :: "configuration \<Rightarrow> bool" where
  "one_segment c \<longleftrightarrow> max_sgl_segs c = 1 \<and> 0 < burst_size c \<and> 0 < decompressed_seg_size c \<and>
     unat (burst_size c) * unat (decompressed_seg_size c) < 2 ^ 31"

text \<open>The code of the assembler from the allocation on, for \<open>n\<close> mbufs and \<open>k\<close> operations.\<close>

definition compress_batch ::
  "('w, 'p) dpdk_scheme \<Rightarrow> configuration \<Rightarrow> addr \<Rightarrow> nat \<Rightarrow> u32 \<Rightarrow> u16 \<Rightarrow> u16 \<Rightarrow> ('w qp_state, int) code" where
  "compress_batch P c data sz n num_ops num =
     seq (BulkAllocate P num_ops (n * 2)) (\<lambda>code.
      seq (not_ok_returns code) (\<lambda>_.
      seq (operation_at (unat num)) (\<lambda>j.
      seq (push_pending j) (\<lambda>_.
      seq (compress_src_loop P c data sz (unat n) (unat n) num j) (\<lambda>_.
      seq (operation_at (unat num)) (\<lambda>j.
      seq (compress_dst_loop P c (unat n) (unat n) num j) (\<lambda>k.
      seq (upd_qp (num_ops_assembled_update (\<lambda>_. k))) (\<lambda>_.
      return (uint k)))))))))"

lemma compress_destinations:
  assumes laws: "mbuf_laws P" "zone_frame_laws P" "max_sgl_segs c = 1"
    and "qp_ready c (qp s)" "statics (qp s) = statics q0" "dm_ok P c (dmem s, wld s)"
    and src: "sourced P c (compress_mode c q0) ps C js bs ds s u" "0 < length js"
    and num: "unat num = length C"
  shows "wp (seq (operation_at (unat num)) (\<lambda>j. compress_dst_loop P c (length js) (length js) num j))
    (\<lambda>k t. unat k = length C + length js \<and>
       (\<exists>zs. took_zones P c (dst_sh (compress_mode c q0)) (Some (mode_xform (compress_mode c q0))) js ds zs u t))
    (\<lambda>e t. e = Status IOError '''' \<and> spare u < length js \<and> (\<exists>i zs. i < length js \<and>
       took_zones P c (dst_sh (compress_mode c q0)) (Some (mode_xform (compress_mode c q0))) (take i js) (take i ds) zs u t)) u"
proof -
  note S = sourced_facts [OF src(1)]
  have U: "array_has (operations (qp u)) 0 (map job_op C @ js)" "array_has (mbuf_array (qp u)) (length js) ds"
    "length C + length js \<le> unat (burst_size c)"
    using src(1) by (simp_all add: sourced_def)
  have ops: "array_has (operations (qp u)) (unat num) js" using array_has_part(2) [OF U(1)] num by simp
  obtain j0 js' where js: "js = j0 # js'" using src(2) by (cases js) auto
  have at: "operation_at (unat num) u = (Inr (Some j0), u)" by (rule array_has_hd [OF ops [unfolded js]])
  have st: "statics (qp u) = statics q0" and ready: "qp_ready c (qp u)"
    using S(17) assms(4,5) qp_ready_cong [OF S(17)] by simp_all
  have room: "\<exists>os. operations (qp u) = Some os \<and> unat num + length js < length os"
    using ready U(3) num by (auto simp: qp_ready_def)
  have dm: "dm_ok P c (dmem u, wld u)"
  proof -
    have "dm_ok P c (dmem s, (wld s)\<lparr>mach := mach (wld u)\<rparr>)"
      using S(14) by (intro dm_ok_same_objects [OF assms(6)]) (simp add: same_memory_def)
    then show ?thesis using S(15,16) by simp
  qed
  have mat: "array_has (mbuf_array (qp u)) (length js - length js + length js) ds" using U(2) by simp
  have lt: "unat num + length js < 65536" using num U(3) unat_u16_less [of "burst_size c"] by simp
  have hd: "0 < length js \<longrightarrow> Some j0 = Some (hd js)" by (simp add: js)
  have srcs: "\<forall>j \<in> set js. \<exists>b. m_src (ops (mach (wld u)) j) = Some b \<and> b \<notin> set ds"
  proof
    fix j assume "j \<in> set js"
    then obtain i where i: "i < length js" "j = js ! i" by (auto simp: in_set_conv_nth)
    have "bs ! i \<in> set bs" using i(1) S(3) by simp
    then have "bs ! i \<notin> set ds" using S(2) by auto
    then show "\<exists>b. m_src (ops (mach (wld u)) j) = Some b \<and> b \<notin> set ds" using S(10) i by auto
  qed
  have dist: "distinct ds" using S(2) by simp
  note W = compress_dst_loop_ok [OF laws refl S(4) order.refl S(1) dist ops mat compress_shinfo(1) [OF st ready]
      lt room S(9,12) srcs dm hd, unfolded compress_shinfo(3) [OF st ready]]
  show ?thesis
    unfolding wp_simps wp_eq(1) [of "operation_at (unat num)" u, OF at]
    by (rule wp_mono [OF W]) (use num in auto)
qed

lemma compress_batch_ok:
  fixes P :: "('w, 'p) dpdk_scheme"
  assumes laws: "compress_laws P c" and c: "one_segment c"
    and pipe: "pipe P c (compress_mode c q0) dev_id qp_id [] B C s"
    and jobs: "compress_jobs P c q0 m0 data input H dn (B @ C) s"
    and n: "unat w = n" "unat (w * 2) = 2 * n" "unat no = n" "0 < n"
      "n \<le> ceil_div (length input - offset s) (unat (decompressed_seg_size c))"
      "length C + n \<le> unat (burst_size c)"
  shows "wp (compress_batch P c data (length input) w no (num_ops_assembled (qp s)))
    (\<lambda>k t. \<exists>D. k = int (length (C @ D)) \<and> D \<noteq> [] \<and> pipe P c (compress_mode c q0) dev_id qp_id [] B (C @ D) t \<and>
       compress_jobs P c q0 m0 data input H dn (B @ C @ D) t \<and>
       left_to_compress c input s = length D + left_to_compress c input t \<and> took_spare P (length D) s t)
    (\<lambda>e t. \<exists>code. code \<noteq> SC_OK \<and> e = Status code '''' \<and> \<not> (faultless P \<and> n \<le> spare s) \<and>
      twp (\<lambda>s. ReleaseAll P (compressed_buffers s) s)
        (\<lambda>_ t. compress_lost P c data input H (Status code msg) t) (\<lambda>_ _. False) t) s"
proof -
  let ?seg = "unat (decompressed_seg_size c)" and ?sz = "length input" and ?md = "compress_mode c q0"
  let ?num = "num_ops_assembled (qp s)"
  note J = compress_jobsD [OF jobs] and pp = pipeD [OF pipe]
  have L: "alloc_laws P" "free_laws P" "mbuf_laws P" "zone_frame_laws P" using laws by (simp_all add: compress_laws_def)
  have cc: "max_sgl_segs c = 1" "0 < ?seg" using c by (simp_all add: one_segment_def word_less_nat_alt)
  obtain os ba op mp where Q: "operations (qp s) = Some os" "mbuf_array (qp s) = Some ba"
    "operation_pool (qp s) = Some op" "mbuf_pool (qp s) = Some mp"
    "length C + n \<le> length os" "2 * n \<le> length ba"
    using pp(1) n(6) by (auto simp: qp_ready_def)
  note bulk = BulkAllocate_ok [OF L(1) Q(3,4,1) _ Q(2), of no "w * 2"]
  show ?thesis
    unfolding compress_batch_def wp_simps
  proof (rule wp_mono [OF bulk], goal_cases)
    case 1
    then show ?case using pp(5) n(3) Q(5) by simp
  next
    case 2
    then show ?case using n(2) Q(6) by simp
  next
    case (3 code t)
    then show ?case
    proof (elim disjE conjE exE)
      fix os' m assume code: "code = OutOfMemory" and fault: "\<not> faultless P"
        and t: "t = s\<lparr>qp := (qp s)\<lparr>operations := Some os'\<rparr>, wld := (wld s)\<lparr>mach := m\<rparr>\<rparr>"
        and m: "length os' = length os" "keeps P (mach (wld s)) m" "same_memory P (mach (wld s)) m"
      have st: "statics (qp t) = statics (qp s)" using m(1) Q(1) by (simp add: t statics_def)
      have "quiet P [] s t" using st m(3) by (simp add: t quiet_def same_memory_def)
      then have "compress_jobs P c q0 m0 data input H dn (B @ C) t"
        using compress_jobs_quiet [OF jobs] quiet_mono by fastforce
      moreover have "stuck P c ?md (B @ C) t"
        unfolding stuck_def
      proof (intro conjI ballI)
        have old: "owns P (mach (wld s)) (B @ C)" using pp(7) by simp
        show "qp_ready c (qp t)" using qp_ready_cong [OF st] pp(1) by simp
        show "owns P (mach (wld t)) (B @ C)" using keeps_owns [OF old m(2)] by (simp add: t)
        fix x assume x: "x \<in> set (B @ C)"
        have "job_ready ?md (mach (wld s)) x" using pp(9) x by simp
        then show "job_ready ?md (mach (wld t)) x" using keeps_ready [OF old x m(2)] by (simp add: t)
      qed (use pp(2) in \<open>simp add: t\<close>)
      ultimately have "twp (\<lambda>s. ReleaseAll P (compressed_buffers s) s)
          (\<lambda>_ t. compress_lost P c data input H (Status code msg) t) (\<lambda>_ _. False) t"
        using compress_stuck_releases [OF L(2)] code by blast
      then show ?thesis using code fault by (auto simp: not_ok_returns_def)
    next
      fix js ms m1 assume code: "code = SC_OK"
        and t: "t = s\<lparr>qp := (qp s)\<lparr>operations := Some (overwrite os (unat ?num) (map Some js)),
            mbuf_array := Some (overwrite ba 0 (map Some ms))\<rparr>, wld := (wld s)\<lparr>mach := m1\<rparr>\<rparr>"
        and fresh: "fresh_batch P (unat no) (unat (w * 2)) js ms (mach (wld s)) m1"
      have fr: "fresh_batch P n (2 * n) js ms (mach (wld s)) m1" using fresh n(2,3) by simp
      have arr: "array_has (Some os) 0 (map job_op C)" using pp(4) Q(1) by simp
      have lt: "offset s + (n - 1) * ?seg < ?sz"
        using n(4,5) less_ceil_div_iff [OF cc(2), of "n - 1" "?sz - offset s"] by linarith
      obtain bs ds u where src: "seq (operation_at (unat ?num)) (\<lambda>j. seq (push_pending j)
            (\<lambda>_. compress_src_loop P c data ?sz n n ?num j)) t = (OK, u)"
        "sourced P c ?md (source_areas data ?seg ?sz (offset s) n) C js bs ds s u"
        "offset u = offset s + sum_list (map snd (pieces ?seg ?sz (offset s) n))"
        "compressed_buffers u = compressed_buffers s" "u = s\<lparr>qp := qp u, wld := wld u, offset := offset u\<rparr>"
        by (rule compress_sources [OF L(3) cc(1) pp(1) J(1) Q(1) arr pp(5) Q(2) fr n(4,6) lt, folded t])
      have len: "length js = n" using fr by (simp add: fresh_batch_def)
      let ?R = "\<lambda>k t. \<exists>D. k = int (length (C @ D)) \<and> D \<noteq> [] \<and> pipe P c ?md dev_id qp_id [] B (C @ D) t \<and>
         compress_jobs P c q0 m0 data input H dn (B @ C @ D) t \<and>
         left_to_compress c input s = length D + left_to_compress c input t \<and> took_spare P (length D) s t"
      let ?E = "\<lambda>e t. \<exists>code. code \<noteq> SC_OK \<and> e = Status code '''' \<and> \<not> (faultless P \<and> n \<le> spare s) \<and>
        twp (\<lambda>s. ReleaseAll P (compressed_buffers s) s)
          (\<lambda>_ t. compress_lost P c data input H (Status code msg) t) (\<lambda>_ _. False) t"
      have rest: "wp (seq (operation_at (unat ?num)) (\<lambda>j. seq (compress_dst_loop P c n n ?num j)
          (\<lambda>k. seq (upd_qp (num_ops_assembled_update (\<lambda>_. k))) (\<lambda>_. return (uint k))))) ?R ?E u"
      proof -
        have pos: "0 < length js" using len n(4) by simp
        note D = compress_destinations [OF L(3,4) cc(1) pp(1) J(1,7) src(2) pos pp(5), unfolded len]
        have "wp (seq (seq (operation_at (unat ?num)) (\<lambda>j. compress_dst_loop P c n n ?num j))
          (\<lambda>k. seq (upd_qp (num_ops_assembled_update (\<lambda>_. k))) (\<lambda>_. return (uint k)))) ?R ?E u"
        proof (rule wp_seqI, rule wp_mono [OF D], elim conjE exE)
          fix k :: u16 and v zs assume k: "unat k = length C + n"
            and took: "took_zones P c (dst_sh ?md) (Some (mode_xform ?md)) js ds zs u v"
          let ?v = "v\<lparr>qp := (qp v)\<lparr>num_ops_assembled := k\<rparr>\<rparr>"
          obtain D where D: "pipe P c ?md dev_id qp_id [] B (C @ D) ?v"
            "compress_jobs P c q0 m0 data input H dn (B @ C @ D) ?v" "length D = n"
            "offset v = min ?sz (offset s + n * ?seg)" "took_spare P n s ?v"
            by (rule compress_extend [OF cc(2) pipe jobs src(2-4) took k len n(4,5)])
          have "left_to_compress c input s = length D + left_to_compress c input ?v"
            using segments_left(3) [OF cc(2) J(3) n(5,4)] D(3,4) by (simp add: left_to_compress_def)
          moreover have "uint k = int (length (C @ D))" using k D(3) by (metis length_append uint_nat)
          moreover have "D \<noteq> []" using D(3) n(4) by auto
          ultimately show "wp (seq (upd_qp (num_ops_assembled_update (\<lambda>_. k))) (\<lambda>_. return (uint k))) ?R ?E v"
            using D by (auto simp: upd_qp_def)
        next
          fix e v
          assume "e = Status IOError '''' \<and> spare u < n \<and> (\<exists>i zs. i < n \<and>
              took_zones P c (dst_sh ?md) (Some (mode_xform ?md)) (take i js) (take i ds) zs u v)"
          then obtain i zs where e: "e = Status IOError ''''" and i: "i < n" and out: "spare u < n"
            and took: "took_zones P c (dst_sh ?md) (Some (mode_xform ?md)) (take i js) (take i ds) zs u v" by blast
          have "length (source_areas data ?seg ?sz (offset s) n) = length js" "i \<le> length js"
            using len i by (simp_all add: source_areas_def)
          from compress_cleanup [OF L(2) pipe jobs src(2) this(1) src(4,5) took this(2), of IOError msg]
          moreover have "spare s < n" using out sourced_facts(15) [OF src(2)] by simp
          ultimately show "?E e v" using e by auto
        qed
        then show ?thesis by (simp only: seq_assoc)
      qed
      let ?fill = "seq (operation_at (unat ?num)) (\<lambda>j. seq (push_pending j) (\<lambda>_. compress_src_loop P c data ?sz n n ?num j))"
      have "wp (seq ?fill (\<lambda>_. seq (operation_at (unat ?num)) (\<lambda>j. seq (compress_dst_loop P c n n ?num j)
          (\<lambda>k. seq (upd_qp (num_ops_assembled_update (\<lambda>_. k))) (\<lambda>_. return (uint k)))))) ?R ?E t"
        by (rule wp_seqI, subst wp_eq(1) [of ?fill t, OF src(1)], rule rest)
      then have "wp (seq (operation_at (unat ?num)) (\<lambda>j. seq (push_pending j) (\<lambda>_. seq (compress_src_loop P c data ?sz n n ?num j)
          (\<lambda>_. seq (operation_at (unat ?num)) (\<lambda>j. seq (compress_dst_loop P c n n ?num j)
          (\<lambda>k. seq (upd_qp (num_ops_assembled_update (\<lambda>_. k))) (\<lambda>_. return (uint k)))))))) ?R ?E t"
        by (simp only: seq_assoc)
      note fill_rest = this [unfolded wp_simps]
      have ok: "not_ok_returns SC_OK t = (OK, t)" by (simp add: not_ok_returns_def)
      show ?thesis
        unfolding code n(1) wp_eq(1) [of "not_ok_returns SC_OK" t, OF ok] by (rule fill_rest)
    qed
  qed simp
qed

lemma ceil_div_one [simp]: "(w + 1 - 1) div (1 :: 'a :: len word) = w"
  by simp

lemma int32_ok_nat: "n < 2 ^ 31 \<Longrightarrow> int32_ok (int n)"
  by (simp add: int32_ok_def)

lemma seq_get: "seq (get f) g s = g (f s) s"
  by (simp add: seq_def get_def)

lemma seq_guard: "b \<Longrightarrow> seq (guard b f) g s = g () s"
  by (simp add: seq_def guard_def return_def)

lemma negative_codes_cong: "f s = g s \<Longrightarrow> negative_codes enc f s = negative_codes enc g s"
  by (simp add: negative_codes_def)

lemma burst_fits_int:
  fixes b num seg :: u16
  assumes "unat b * unat seg < 2 ^ 31" "num < b"
  shows "int32_ok (uint b - uint num)" "int32_ok ((uint b - uint num) * uint seg)"
    "uint b - uint num = int (unat b - unat num)"
proof -
  have le: "unat num < unat b" using assms(2) by (simp add: word_less_nat_alt)
  show eq: "uint b - uint num = int (unat b - unat num)" using le by (simp add: of_nat_diff)
  have "unat b < 65536" by (rule unat_u16_less)
  then show "int32_ok (uint b - uint num)" unfolding eq by (intro int32_ok_nat) simp
  have "(unat b - unat num) * unat seg \<le> unat b * unat seg" by simp
  then have "(unat b - unat num) * unat seg < 2 ^ 31" using assms(1) by linarith
  moreover have "(uint b - uint num) * uint seg = int ((unat b - unat num) * unat seg)"
    unfolding eq by simp
  ultimately show "int32_ok ((uint b - uint num) * uint seg)" by (metis int32_ok_nat)
qed

lemma AssembleFrom_decompressed_batch:
  assumes "one_segment c" "offset s < sz" "num_ops_assembled (qp s) < burst_size c"
  obtains w no where "AssembleFrom_decompressed P c data sz s =
      negative_codes (status_codes P) (compress_batch P c data sz w no (num_ops_assembled (qp s))) s"
    "unat w = min (ceil_div (sz - offset s) (unat (decompressed_seg_size c)))
       (unat (burst_size c) - unat (num_ops_assembled (qp s)))"
    "unat (w * 2) = 2 * unat w" "unat no = unat w"
proof -
  let ?seg = "decompressed_seg_size c" and ?num = "num_ops_assembled (qp s)"
  have c: "max_sgl_segs c = 1" "0 < ?seg" "unat (burst_size c) * unat ?seg < 2 ^ 31"
    using assms(1) by (simp_all add: one_segment_def)
  note F = burst_fits_int [OF c(3) assms(3)]
  let ?r = "sz - offset s" and ?k = "unat (burst_size c) - unat ?num"
  define w :: u32 where "w = word_of_int ((min (int ?r) (int ?k * uint ?seg) + uint ?seg - 1) div uint ?seg)"
  have k: "?k < 65536" using unat_u16_less [of "burst_size c"] by linarith
  note W = batch_size [OF c(2) k, of ?r, folded w_def]
  have r: "int sz - int (offset s) = int ?r" using assms(2) by (simp add: of_nat_diff)
  have num: "\<not> (int ?r \<le> 0 \<or> burst_size c \<le> ?num)" using assms(2,3) by simp
  have one: "uint (max_sgl_segs c) = 1" "(ucast (max_sgl_segs c) :: u32) = 1" by (simp_all add: c(1))
  have pos: "?seg \<noteq> 0 \<and> max_sgl_segs c \<noteq> 0" using c(1,2) by simp
  have fits: "int32_ok (int ?k) \<and> int32_ok (int ?k * uint ?seg)" using F(1,2) unfolding F(3) by blast
  have "AssembleFrom_decompressed P c data sz s =
      negative_codes (status_codes P) (compress_batch P c data sz w (ucast w) ?num) s"
    unfolding AssembleFrom_decompressed_def
    by (rule negative_codes_cong)
      (simp only: seq_get Let_def num if_False one seq_guard [OF fits] seq_guard [OF pos] compress_batch_def
        mult_1_right F(3) r w_def [symmetric] ceil_div_one)
  then show ?thesis using that [of w "ucast w"] W by simp
qed

lemma nothing_to_compress:
  assumes "length input \<le> offset s \<or> burst_size c \<le> num_ops_assembled (qp s)"
  shows "AssembleFrom_decompressed P c data (length input) s =
    negative_codes (status_codes P) (return (uint (num_ops_assembled (qp s)))) s"
proof -
  have "int (length input) - int (offset s) \<le> 0 \<or> burst_size c \<le> num_ops_assembled (qp s)"
    using assms by linarith
  then show ?thesis
    unfolding AssembleFrom_decompressed_def
    by (intro negative_codes_cong) (simp only: seq_get Let_def if_True)
qed

lemma twp_total_cong: "f s = f' s \<Longrightarrow> twp (pseq (total f) g) Q E s = twp (pseq (total f') g) Q E s"
  by (simp add: twp_def pwp_def pseq_def total_def)

lemma compress_assembles:
  fixes P :: "('w, 'p) dpdk_scheme"
  assumes laws: "compress_laws P c" and c: "one_segment c"
    and pipe: "pipe P c (compress_mode c q0) dev_id qp_id [] B C s"
    and jobs: "compress_jobs P c q0 m0 data input H dn (B @ C) s"
  shows "twp (pseq (total (AssembleFrom_decompressed P c data (length input)))
      (negative_else (status_codes P) msg (\<lambda>s. ReleaseAll P (compressed_buffers s) s)))
    (\<lambda>k t. \<exists>D. k = int (length (C @ D)) \<and> pipe P c (compress_mode c q0) dev_id qp_id [] B (C @ D) t \<and>
       compress_jobs P c q0 m0 data input H dn (B @ C @ D) t \<and>
       left_to_compress c input s = length D + left_to_compress c input t \<and>
       (C @ D = [] \<longrightarrow> left_to_compress c input t = 0) \<and> (D = [] \<longrightarrow> t = s) \<and> took_spare P (length D) s t)
    (\<lambda>e t. \<not> (faultless P \<and> left_to_compress c input s \<le> spare s) \<and> compress_lost P c data input H e t) s"
proof -
  let ?seg = "unat (decompressed_seg_size c)" and ?sz = "length input" and ?num = "num_ops_assembled (qp s)"
  let ?els = "\<lambda>s. ReleaseAll P (compressed_buffers s) s"
  let ?Q = "\<lambda>k t. \<exists>D. k = int (length (C @ D)) \<and> pipe P c (compress_mode c q0) dev_id qp_id [] B (C @ D) t \<and>
       compress_jobs P c q0 m0 data input H dn (B @ C @ D) t \<and>
       left_to_compress c input s = length D + left_to_compress c input t \<and>
       (C @ D = [] \<longrightarrow> left_to_compress c input t = 0) \<and> (D = [] \<longrightarrow> t = s) \<and> took_spare P (length D) s t"
  let ?fine = "faultless P \<and> left_to_compress c input s \<le> spare s"
  have enc: "status_encoding_laws (status_codes P)" using laws by (simp add: compress_laws_def)
  have seg: "0 < ?seg" "0 < burst_size c" using c by (simp_all add: one_segment_def word_less_nat_alt)
  have num: "unat ?num = length C" by (rule pipeD(5) [OF pipe])
  show ?thesis
  proof (cases "?sz \<le> offset s \<or> burst_size c \<le> ?num")
    case True
    have zero: "left_to_compress c input s = 0" if "C = []"
    proof -
      have "?num = 0" using num that by (simp add: unat_eq_0)
      then have "?sz \<le> offset s" using True seg(2) by auto
      then show ?thesis using seg(1) by (simp add: left_to_compress_def ceil_div_def)
    qed
    show ?thesis
      unfolding twp_total_cong [of "AssembleFrom_decompressed P c data ?sz" s "negative_codes (status_codes P) (return (uint ?num))",
        OF nothing_to_compress [OF True]]
    proof (rule assemble_else [OF enc])
      have "?Q (uint ?num) s" using num pipe jobs zero
        by (intro exI [of _ "[]"]) (simp add: took_spare_0 flip: num)
      then show "wp (return (uint ?num)) (\<lambda>n t. 0 \<le> n \<and> ?Q n t)
        (\<lambda>e t. \<exists>code. code \<noteq> SC_OK \<and> e = Status code '''' \<and>
          twp ?els (\<lambda>_ t. \<not> ?fine \<and> compress_lost P c data input H (Status code msg) t) (\<lambda>_ _. False) t) s" by simp
    qed
  next
    case False
    then have lt: "offset s < ?sz" "?num < burst_size c" by (simp_all add: not_le)
    obtain w no where A: "AssembleFrom_decompressed P c data ?sz s =
      negative_codes (status_codes P) (compress_batch P c data ?sz w no ?num) s"
      "unat w = min (ceil_div (?sz - offset s) ?seg) (unat (burst_size c) - unat ?num)"
      "unat (w * 2) = 2 * unat w" "unat no = unat w"
      by (rule AssembleFrom_decompressed_batch [OF c lt])
    have pos: "0 < unat w"
      using A(2) lt seg(1) less_ceil_div_iff [OF seg(1), of 0 "?sz - offset s"]
      by (simp add: word_less_nat_alt)
    have fit: "length C + unat w \<le> unat (burst_size c)"
      using A(2) lt(2) num by (simp add: word_less_nat_alt)
    show ?thesis
      unfolding twp_total_cong [of "AssembleFrom_decompressed P c data ?sz" s
        "negative_codes (status_codes P) (compress_batch P c data ?sz w no ?num)", OF A(1)]
    proof (rule assemble_else [OF enc], rule wp_mono)
      show "wp (compress_batch P c data ?sz w no ?num)
        (\<lambda>k t. \<exists>D. k = int (length (C @ D)) \<and> D \<noteq> [] \<and> pipe P c (compress_mode c q0) dev_id qp_id [] B (C @ D) t \<and>
           compress_jobs P c q0 m0 data input H dn (B @ C @ D) t \<and>
           left_to_compress c input s = length D + left_to_compress c input t \<and> took_spare P (length D) s t)
        (\<lambda>e t. \<exists>code. code \<noteq> SC_OK \<and> e = Status code '''' \<and> \<not> (faultless P \<and> unat w \<le> spare s) \<and>
          twp ?els (\<lambda>_ t. compress_lost P c data input H (Status code msg) t) (\<lambda>_ _. False) t) s"
        using A(2) by (intro compress_batch_ok [OF laws c pipe jobs refl A(3,4) pos _ fit]) simp
    next
      fix k t assume "\<exists>D. k = int (length (C @ D)) \<and> D \<noteq> [] \<and> pipe P c (compress_mode c q0) dev_id qp_id [] B (C @ D) t \<and>
           compress_jobs P c q0 m0 data input H dn (B @ C @ D) t \<and>
           left_to_compress c input s = length D + left_to_compress c input t \<and> took_spare P (length D) s t"
      then obtain D where "k = int (length (C @ D))" "D \<noteq> []" "pipe P c (compress_mode c q0) dev_id qp_id [] B (C @ D) t"
         "compress_jobs P c q0 m0 data input H dn (B @ C @ D) t"
         "left_to_compress c input s = length D + left_to_compress c input t" "took_spare P (length D) s t" by blast
      then show "0 \<le> k \<and> ?Q k t" by (intro conjI exI [of _ D]) simp_all
    next
      fix e t assume "\<exists>code. code \<noteq> SC_OK \<and> e = Status code '''' \<and> \<not> (faultless P \<and> unat w \<le> spare s) \<and>
          twp ?els (\<lambda>_ t. compress_lost P c data input H (Status code msg) t) (\<lambda>_ _. False) t"
      then obtain code where e: "code \<noteq> SC_OK" "e = Status code ''''" "\<not> (faultless P \<and> unat w \<le> spare s)"
        and rel: "twp ?els (\<lambda>_ t. compress_lost P c data input H (Status code msg) t) (\<lambda>_ _. False) t" by blast
      have "unat w \<le> left_to_compress c input s" using A(2) by (simp add: left_to_compress_def)
      then have "\<not> ?fine" using e(3) by linarith
      then have "twp ?els (\<lambda>_ t. \<not> ?fine \<and> compress_lost P c data input H (Status code msg) t) (\<lambda>_ _. False) t"
        by (intro twp_mono [OF rel]) simp_all
      then show "\<exists>code. code \<noteq> SC_OK \<and> e = Status code '''' \<and>
          twp ?els (\<lambda>_ t. \<not> ?fine \<and> compress_lost P c data input H (Status code msg) t) (\<lambda>_ _. False) t"
        using e(1,2) by blast
    qed
  qed
qed

subsection \<open>The call\<close>

text \<open>
  A queue pair at rest: it has its arrays and pools, nothing is assembled, pending or with the
  device, and its private transformation is the one for the direction.
\<close>

definition at_rest ::
  "('w, 'p) dpdk_scheme \<Rightarrow> configuration \<Rightarrow> mode \<Rightarrow> u8 \<Rightarrow> u16 \<Rightarrow> 'w qp_state \<Rightarrow> bool" where
  "at_rest P c md dev_id qp_id s \<longleftrightarrow>
     qp_ready c (qp s) \<and> pending_operations (qp s) = [] \<and> num_ops_assembled (qp s) = 0 \<and>
     inflight P (hidden (mach (wld s))) dev_id qp_id = [] \<and>
     xforms P (hidden (mach (wld s))) (mode_xform md) = Some (mode_codec md)"

lemma at_rest_pipe: "at_rest P c md dev_id qp_id s \<longleftrightarrow> pipe P c md dev_id qp_id [] [] [] s"
proof -
  have "qp_ready c (qp s) \<Longrightarrow> array_has (operations (qp s)) 0 []"
    by (auto simp: qp_ready_def array_has_def)
  then show ?thesis
    by (auto simp: at_rest_def pipe_def owns_def jobs_apart_def unat_eq_0)
qed

text \<open>
  What success takes besides a faultless device: the output of the codec for a segment fits a
  memzone, and there is a free memzone for each segment that is left.
\<close>

definition compress_fits :: "('w, 'p) dpdk_scheme \<Rightarrow> configuration \<Rightarrow> bool" where
  "compress_fits P c \<longleftrightarrow> (\<forall>xs. length xs \<le> unat (decompressed_seg_size c) \<longrightarrow>
     length (codec P (compress_xform c) xs) \<le> unat (compressed_seg_size c))"

definition narrow :: "device_memory \<Rightarrow> bool" where
  "narrow dm \<longleftrightarrow> (\<forall>z. Some z \<in> set (dm_all dm) \<longrightarrow> mz_len z < 65536)"

definition roomy ::
  "('w, 'p) dpdk_scheme \<Rightarrow> memzone set \<Rightarrow> memzone_ptr set \<Rightarrow> configuration \<Rightarrow> u8 list \<Rightarrow> 'w qp_state \<Rightarrow> bool" where
  "roomy P L Z c input s \<longleftrightarrow> left_to_compress c input s \<le> spare s \<and> narrow (dmem s) \<and>
     set (dm_all (dmem s)) = Z \<and> live_zones P (hidden (mach (wld s))) = L"

lemma roomy_spare:
  assumes "roomy P L Z c input s" "took_spare P n s t" "left_to_compress c input s = n + left_to_compress c input t"
  shows "roomy P L Z c input t"
  using assms by (auto simp: roomy_def narrow_def took_spare_def)

lemma compress_jobs_fit:
  assumes jobs: "compress_jobs P c q0 m0 data input H dn xs s" and "narrow (dmem s)" "compress_fits P c"
    and x: "x \<in> set xs"
  shows "job_fits P (compress_mode c q0) (mach (wld s)) x"
proof -
  note J = compress_jobsD [OF jobs]
  obtain zs where zs: "zone_jobs zs (dn @ xs)" "held s = H \<union> set zs" by (rule compress_jobs_zones [OF jobs])
  obtain i where i: "i < length (dn @ xs)" "x = (dn @ xs) ! i"
    using x by (metis Un_iff in_set_conv_nth set_append)
  note Z = zone_jobs_nth [OF zs(1) i(1)]
  have held: "zs ! i \<in> held s" using zs(2) Z(1) by simp
  then have "Some (zs ! i) \<in> set (dm_all (dmem s))" by (simp add: dm_held_def dm_all_def)
  then have "mz_len (zs ! i) < 65536" using assms(2) by (simp add: narrow_def)
  then have "job_cap x = mz_len (zs ! i)"
    using Z(4) i(2) by (simp add: zone_area_def unat_of_nat take_bit_nat_eq_self)
  moreover have "unat (compressed_seg_size c) \<le> mz_len (zs ! i)" by (rule dm_own_held(2) [OF J(7) held])
  moreover have "job_len x \<le> unat (decompressed_seg_size c)"
    using source_areas_nth(2) [OF J(2) i(1)] i(2) by simp
  ultimately show ?thesis
    using assms(3) unfolding job_fits_def compress_fits_def compress_mode_def
    by (metis (no_types, lifting) le_trans length_mem_bytes mode.select_convs(4))
qed

text \<open>
  The client \<open>Compress\<close> is: the laws of the library and the configuration give those of a
  client of the bursts.
\<close>

locale compress_client =
  fixes P :: "('w, 'p) dpdk_scheme" and c :: configuration and q0 :: queue_pair_memory and m0 :: "'w machine"
    and dev_id :: u8 and qp_id :: u16 and data :: addr and input :: "u8 list" and H :: "memzone set"
    and L :: "memzone set" and Z :: "memzone_ptr set" and smooth :: bool
  assumes library: "compress_laws P c" and config: "one_segment c"
    and device: "smooth \<Longrightarrow> faultless P" "smooth \<Longrightarrow> compress_fits P c"

sublocale compress_client \<subseteq> bursts: burst_client P c "compress_mode c q0" dev_id qp_id compress_callback
  "pseq (total (AssembleFrom_decompressed P c data (length input)))
     (negative_else (status_codes P) ''Failed to assemble compression operations for queue pair ''
        (\<lambda>s. ReleaseAll P (compressed_buffers s) s))"
  "\<lambda>s. ReleaseAll P (compressed_buffers s) s"
  "\<lambda>dn xs s. compress_jobs P c q0 m0 data input H dn xs s \<and> (smooth \<longrightarrow> roomy P L Z c input s)"
  "left_to_compress c input" "\<lambda>e t. \<not> smooth \<and> compress_lost P c data input H e t" smooth
proof
  show "burst_laws P" "free_laws P" using library by (simp_all add: compress_laws_def)
  show "0 < burst_size c" using config by (simp add: one_segment_def)
  show "compress_jobs P c q0 m0 data input H dn xs t \<and> (smooth \<longrightarrow> roomy P L Z c input t)"
    if "compress_jobs P c q0 m0 data input H dn xs s \<and> (smooth \<longrightarrow> roomy P L Z c input s)" "quiet P xs s t" for dn xs s t
    using compress_jobs_quiet [OF conjunct1 [OF that(1)] that(2)] that(1) quiet_other(1,7,8) [OF that(2)]
    by (simp add: roomy_def left_to_compress_def)
  show "smooth \<Longrightarrow> faultless P" by (rule device)
  show "job_fits P (compress_mode c q0) (mach (wld s)) x"
    if smooth "compress_jobs P c q0 m0 data input H dn xs s \<and> (smooth \<longrightarrow> roomy P L Z c input s)" "x \<in> set xs"
    for dn xs s x
    using that device(2) by (intro compress_jobs_fit [of P c q0 m0 data input H dn xs]) (simp_all add: roomy_def)
  show "left_to_compress c input t = left_to_compress c input s" if "quiet P xs s t" for xs s t
    using quiet_other(1) [OF that] by (simp add: left_to_compress_def)
next
  fix x A B C s dn
  assume "pipe P c (compress_mode c q0) dev_id qp_id (x # A) B C s"
    and jobs: "compress_jobs P c q0 m0 data input H dn (x # A @ B @ C) s \<and> (smooth \<longrightarrow> roomy P L Z c input s)"
    and "op_status (ops (mach (wld s)) (job_op x)) = RTE_COMP_OP_STATUS_SUCCESS"
  moreover have "codec_laws P c" "0 < unat (decompressed_seg_size c)"
    using library config by (simp_all add: compress_laws_def one_segment_def word_less_nat_alt)
  ultimately show "\<exists>t. compress_callback (job_op x) s = Some (OK, t) \<and>
      (compress_jobs P c q0 m0 data input H (dn @ [x]) (A @ B @ C) t \<and> (smooth \<longrightarrow> roomy P L Z c input t)) \<and>
      qp t = qp s \<and> wld t = wld s \<and> left_to_compress c input t = left_to_compress c input s"
    using compress_finish [of P c q0 dev_id qp_id x A B C s m0 data input H dn]
    by (auto simp: left_to_compress_def roomy_def)
next
  fix B C s dn
  assume pipe: "pipe P c (compress_mode c q0) dev_id qp_id [] B C s"
    and jobs: "compress_jobs P c q0 m0 data input H dn (B @ C) s \<and> (smooth \<longrightarrow> roomy P L Z c input s)"
  show "twp (pseq (total (AssembleFrom_decompressed P c data (length input)))
      (negative_else (status_codes P) ''Failed to assemble compression operations for queue pair ''
         (\<lambda>s. ReleaseAll P (compressed_buffers s) s)))
    (\<lambda>n t. \<exists>D. n = int (length (C @ D)) \<and> pipe P c (compress_mode c q0) dev_id qp_id [] B (C @ D) t \<and>
       (compress_jobs P c q0 m0 data input H dn (B @ C @ D) t \<and> (smooth \<longrightarrow> roomy P L Z c input t)) \<and>
       left_to_compress c input s = length D + left_to_compress c input t \<and>
       (C @ D = [] \<longrightarrow> left_to_compress c input t = 0) \<and> (D = [] \<longrightarrow> t = s))
    (\<lambda>e t. \<not> smooth \<and> compress_lost P c data input H e t) s"
  proof (rule twp_mono [OF compress_assembles [OF library config pipe conjunct1 [OF jobs]]], elim exE conjE)
    fix n t D assume D: "n = int (length (C @ D))" "pipe P c (compress_mode c q0) dev_id qp_id [] B (C @ D) t"
      "compress_jobs P c q0 m0 data input H dn (B @ C @ D) t"
      "left_to_compress c input s = length D + left_to_compress c input t"
      "C @ D = [] \<longrightarrow> left_to_compress c input t = 0" "D = [] \<longrightarrow> t = s" "took_spare P (length D) s t"
    have "smooth \<longrightarrow> roomy P L Z c input t" using jobs roomy_spare [OF _ D(7,4)] by blast
    then show "\<exists>D. n = int (length (C @ D)) \<and> pipe P c (compress_mode c q0) dev_id qp_id [] B (C @ D) t \<and>
       (compress_jobs P c q0 m0 data input H dn (B @ C @ D) t \<and> (smooth \<longrightarrow> roomy P L Z c input t)) \<and>
       left_to_compress c input s = length D + left_to_compress c input t \<and>
       (C @ D = [] \<longrightarrow> left_to_compress c input t = 0) \<and> (D = [] \<longrightarrow> t = s)"
      using D by blast
  next
    fix e t assume "\<not> (faultless P \<and> left_to_compress c input s \<le> spare s) \<and> compress_lost P c data input H e t"
    then show "\<not> smooth \<and> compress_lost P c data input H e t" using jobs device(1) by (auto simp: roomy_def)
  qed
next
  fix xs s dn
  assume st: "stuck P c (compress_mode c q0) xs s" and "\<not> smooth"
    and "compress_jobs P c q0 m0 data input H dn xs s \<and> (smooth \<longrightarrow> roomy P L Z c input s)" and "xs \<noteq> []"
  then have jobs: "compress_jobs P c q0 m0 data input H dn xs s" by blast
  have "free_laws P" using library by (simp add: compress_laws_def)
  from compress_stuck_releases [OF this st jobs, of IOError "''''"]
  show "twp (\<lambda>s. ReleaseAll P (compressed_buffers s) s)
      (\<lambda>_ t. \<forall>msg. \<not> smooth \<and> compress_lost P c data input H (Status IOError msg) t) (\<lambda>_ _. False) s"
    using \<open>\<not> smooth\<close> by (auto elim!: twp_mono simp: compress_lost_def)
qed

text \<open>The memzone behind a compressed buffer.\<close>

definition filled :: "memzone \<Rightarrow> buffer \<Rightarrow> bool" where
  "filled z b \<longleftrightarrow> buf_data b = mz_addr z \<and> buf_size b < 65536 \<and>
     {buf_data b ..< buf_data b + buf_size b} \<subseteq> zone_bytes z"

definition compressed_to ::
  "('w, 'p) dpdk_scheme \<Rightarrow> configuration \<Rightarrow> 'w machine \<Rightarrow> addr \<Rightarrow> u8 list \<Rightarrow> memzone set \<Rightarrow> 'w qp_state \<Rightarrow> bool" where
  "compressed_to P c m0 data input H t \<longleftrightarrow>
     map (\<lambda>b. mem_bytes (mach (wld t)) (buf_data b) (buf_size b)) (compressed_buffers t) =
       map (codec P (compress_xform c)) (segments (unat (decompressed_seg_size c)) input) \<and>
     mem_bytes (mach (wld t)) data (length input) = input \<and>
     foreign {data ..< data + length input} t \<and> dm_ok P c (dmem t, wld t) \<and>
     only_new_zones P m0 (held t - H) (mach (wld t)) \<and>
     (\<exists>zs. distinct zs \<and> held t = H \<union> set zs \<and> H \<inter> set zs = {} \<and>
        list_all2 filled zs (compressed_buffers t))"

lemma compressed_to_jobs:
  assumes "compress_jobs P c q0 m0 data input H dn [] t" "left_to_compress c input t = 0"
    and seg: "0 < unat (decompressed_seg_size c)"
  shows "compressed_to P c m0 data input H t"
proof -
  let ?seg = "unat (decompressed_seg_size c)" and ?sz = "length input" and ?bufs = "compressed_buffers t"
  let ?m = "mach (wld t)"
  note J = compress_jobsD [OF assms(1), simplified]
  have "?sz \<le> offset t"
    using assms(2) less_ceil_div_iff [OF seg, of 0 "?sz - offset t"] by (simp add: left_to_compress_def)
  then have "?sz \<le> length dn * ?seg" using J(3) by simp
  then have n: "length dn = ceil_div ?sz ?seg"
    using J(4) ceil_div_le_iff [OF seg, of ?sz "length dn"] by simp
  have len: "length ?bufs = length dn" using list_all2_lengthD [OF J(8)] by simp
  have bytes: "map (\<lambda>b. mem_bytes ?m (buf_data b) (buf_size b)) ?bufs = map (codec P (compress_xform c)) (segments ?seg input)"
  proof (rule nth_equalityI)
    show "length (map (\<lambda>b. mem_bytes ?m (buf_data b) (buf_size b)) ?bufs) = length (map (codec P (compress_xform c)) (segments ?seg input))"
      using len n by (simp add: segments_def)
    fix i assume "i < length (map (\<lambda>b. mem_bytes ?m (buf_data b) (buf_size b)) ?bufs)"
    then have i: "i < length dn" "i < length ?bufs" using len by simp_all
    note A = source_areas_nth [OF J(2) i(1)]
    have lt: "i * ?seg < ?sz" using i(1) n less_ceil_div_iff [OF seg, of i ?sz] by simp
    have "mem_bytes ?m (job_in (dn ! i)) (job_len (dn ! i)) = take (min ?seg (?sz - i * ?seg)) (drop (i * ?seg) input)"
      using mem_bytes_slice [of "i * ?seg" "min ?seg (?sz - i * ?seg)" ?sz ?m data] J(5) A lt by simp
    also have "\<dots> = take ?seg (drop (i * ?seg) input)" by (simp add: min_def)
    finally have "mem_bytes ?m (buf_data (?bufs ! i)) (buf_size (?bufs ! i)) =
        codec P (compress_xform c) (take ?seg (drop (i * ?seg) input))"
      using list_all2_nthD [OF J(8) i(1)] unfolding output_of_def by metis
    then show "map (\<lambda>b. mem_bytes ?m (buf_data b) (buf_size b)) ?bufs ! i = map (codec P (compress_xform c)) (segments ?seg input) ! i"
      using i n by (simp add: segments_def)
  qed
  obtain zs where z: "zone_jobs zs dn" "held t = H \<union> set zs" "H \<inter> set zs = {}"
    using compress_jobs_zones [OF assms(1)] by auto
  have zn: "filled (zs ! i) (?bufs ! i)" if i: "i < length dn" for i
  proof -
    have o: "output_of P (compress_xform c) ?m (dn ! i) (?bufs ! i)" by (rule list_all2_nthD [OF J(8) i])
    note Z = zone_jobs_nth [OF z(1) i]
    have "snd (zone_area (zs ! i)) < 65536" using unat_u16_less by (simp add: zone_area_def)
    moreover have "job_cap (dn ! i) = snd (zone_area (zs ! i))" by (rule Z(4))
    moreover have "{buf_data (?bufs ! i) ..< buf_data (?bufs ! i) + buf_size (?bufs ! i)} \<subseteq> job_area (dn ! i)"
      using o by (auto simp: output_of_def job_area_def)
    ultimately show ?thesis using o Z(2,3) by (auto simp: output_of_def filled_def)
  qed
  have "length zs = length ?bufs" using zone_jobs_length [OF z(1)] len by simp
  then have "list_all2 filled zs ?bufs"
    using zn len by (simp add: list_all2_conv_all_nth)
  moreover have "distinct zs" using z(1) by (simp add: zone_jobs_def)
  ultimately show ?thesis
    unfolding compressed_to_def using bytes J(5,6,7,9) z(2,3) by blast
qed

lemma compress_jobs_init:
  assumes "dm_ok P c (dmem s, wld s)" "offset s = 0" "compressed_buffers s = []"
    and "mem_bytes (mach (wld s)) data (length input) = input" "foreign {data ..< data + length input} s"
  shows "compress_jobs P c (qp s) (mach (wld s)) data input (held s) [] [] s"
  using assms by (auto simp: compress_jobs_def source_areas_def zone_jobs_def only_new_zones_refl)

lemma compress_run_bursts:
  "compress_run P c dev_id qp_id data sz = run_bursts
     (pseq (total (AssembleFrom_decompressed P c data sz))
        (negative_else (status_codes P) ''Failed to assemble compression operations for queue pair ''
           (\<lambda>s. ReleaseAll P (compressed_buffers s) s)))
     (burst_enqueue P dev_id qp_id ''Failed to enqueue compression operations to compress device ''
        (\<lambda>s. ReleaseAll P (compressed_buffers s) s))
     (burst_dequeue P c dev_id qp_id compress_callback ''Failed to dequeue compression operations from compress device ''
        (\<lambda>s. ReleaseAll P (compressed_buffers s) s))
     (burst_dequeue P c dev_id qp_id compress_callback ''Failed to dequeue pending compression operations from compress device ''
        (\<lambda>s. ReleaseAll P (compressed_buffers s) s))"
  unfolding compress_run_def Let_def burst_enqueue_def [abs_def] burst_dequeue_def by (rule refl)

context compress_client begin

lemma run:
  assumes rest: "at_rest P c (compress_mode c q0) dev_id qp_id s"
    and jobs: "compress_jobs P c q0 m0 data input H [] [] s" "smooth \<longrightarrow> roomy P L Z c input s"
  shows "pwp (compress_run P c dev_id qp_id data (length input))
      (\<lambda>_ t. at_rest P c (compress_mode c q0) dev_id qp_id t \<and> statics (qp t) = statics q0 \<and>
         compressed_to P c m0 data input H t \<and> (smooth \<longrightarrow> roomy P L Z c input t))
      (\<lambda>e t. \<not> smooth \<and> compress_lost P c data input H e t) s"
    and "prompt P patience \<Longrightarrow> compress_run P c dev_id qp_id data (length input) s \<noteq> None"
proof -
  note R = bursts.run_bursts_jobs [OF rest [unfolded at_rest_pipe] conjI [OF jobs] compress_run_bursts]
  show "prompt P patience \<Longrightarrow> compress_run P c dev_id qp_id data (length input) s \<noteq> None" by (rule R(2))
  have seg: "0 < unat (decompressed_seg_size c)" using config by (simp add: one_segment_def word_less_nat_alt)
  show "pwp (compress_run P c dev_id qp_id data (length input))
      (\<lambda>_ t. at_rest P c (compress_mode c q0) dev_id qp_id t \<and> statics (qp t) = statics q0 \<and>
         compressed_to P c m0 data input H t \<and> (smooth \<longrightarrow> roomy P L Z c input t))
      (\<lambda>e t. \<not> smooth \<and> compress_lost P c data input H e t) s"
  proof (rule pwp_mono [OF R(1)])
    fix t assume "left_to_compress c input t = 0 \<and>
      (\<exists>dn. pipe P c (compress_mode c q0) dev_id qp_id [] [] [] t \<and>
         compress_jobs P c q0 m0 data input H dn [] t \<and> (smooth \<longrightarrow> roomy P L Z c input t))"
    then obtain dn where t: "left_to_compress c input t = 0" "pipe P c (compress_mode c q0) dev_id qp_id [] [] [] t"
      "compress_jobs P c q0 m0 data input H dn [] t" "smooth \<longrightarrow> roomy P L Z c input t" by blast
    show "at_rest P c (compress_mode c q0) dev_id qp_id t \<and> statics (qp t) = statics q0 \<and>
        compressed_to P c m0 data input H t \<and> (smooth \<longrightarrow> roomy P L Z c input t)"
      using compressed_to_jobs [OF t(3,1) seg] compress_jobsD(1) [OF t(3)] t(2,4) at_rest_pipe by blast
  qed
qed

end

text \<open>
  The same for a device that is ready for calls on a queue pair, and to compress the bytes of a
  buffer.
\<close>

definition calls_ready ::
  "('w, 'p) dpdk_scheme \<Rightarrow> configuration \<Rightarrow> u16 \<Rightarrow> device_memory \<Rightarrow> 'w dev_state \<Rightarrow> bool" where
  "calls_ready P c qp_id dm s \<longleftrightarrow>
     device_configuration (dev s) = Some c \<and> device_mem (dev s) = Some dm \<and>
     kStarted \<le> device_state (dev s) \<and> qp_id < num_qps (dev s) \<and> unat qp_id < length (qp_memory (dev s)) \<and>
     (\<forall>mode \<in> {compress_mode, decompress_mode}.
        at_rest P c (mode c (qp_memory (dev s) ! unat qp_id)) (device_id (dev s)) qp_id
          (qp_view (dev s) (unat qp_id) dm (env s))) \<and>
     dm_ok P c (dm, env s)"

definition compress_ready ::
  "('w, 'p) dpdk_scheme \<Rightarrow> configuration \<Rightarrow> u16 \<Rightarrow> buffer \<Rightarrow> u8 list \<Rightarrow> device_memory \<Rightarrow> 'w dev_state \<Rightarrow> bool" where
  "compress_ready P c qp_id b input dm s \<longleftrightarrow> calls_ready P c qp_id dm s \<and>
     input \<noteq> [] \<and> buf_size b = length input \<and> mem_bytes (mach (env s)) (buf_data b) (length input) = input \<and>
     foreign {buf_data b ..< buf_data b + length input} (qp_view (dev s) (unat qp_id) dm (env s))"

lemma calls_ready_guard:
  "calls_ready P c qp_id dm s \<Longrightarrow> EntryGuard (dev s) qp_id = OK"
  by (simp add: calls_ready_def EntryGuard_def at_rest_def qp_view_def has_pending_operations_def not_le not_less)

lemma calls_readyD:
  assumes "calls_ready P c qp_id dm s"
  shows "device_configuration (dev s) = Some c" "device_mem (dev s) = Some dm"
    "qp_id < num_qps (dev s)" "unat qp_id < length (qp_memory (dev s))" "dm_ok P c (dm, env s)"
    "at_rest P c (compress_mode c (qp_memory (dev s) ! unat qp_id)) (device_id (dev s)) qp_id
       (qp_view (dev s) (unat qp_id) dm (env s))"
    "at_rest P c (decompress_mode c (qp_memory (dev s) ! unat qp_id)) (device_id (dev s)) qp_id
       (qp_view (dev s) (unat qp_id) dm (env s))"
  using assms by (simp_all add: calls_ready_def)

text \<open>After a run that leaves the queue pair at rest, the device is ready for calls again.\<close>

lemma calls_ready_store:
  assumes ready: "calls_ready P c qp_id dm s" and rest: "at_rest P c md (device_id (dev s)) qp_id t"
    and "statics (qp t) = statics (qp (qp_view (dev s) (unat qp_id) dm (env s)))"
    and "xforms P (hidden (mach (wld t))) = xforms P (hidden (mach (env s)))" "dm_ok P c (dmem t, wld t)"
  shows "calls_ready P c qp_id (dmem t) (qp_store (unat qp_id) t s)"
proof -
  let ?i = "unat qp_id" and ?v = "qp_view (dev s) (unat qp_id) dm (env s)" and ?t = "qp_store (unat qp_id) t s"
  note R = calls_readyD [OF ready]
  have q: "qp_memory (dev ?t) ! ?i = qp t" using R(4) by (simp add: qp_store_def)
  have view: "qp (qp_view (dev ?t) ?i (dmem t) (env ?t)) = qp t" "wld (qp_view (dev ?t) ?i (dmem t) (env ?t)) = wld t"
    using q by (simp_all add: qp_view_def) (simp add: qp_store_def)
  have m: "compress_mode c (qp t) = compress_mode c (qp ?v)" "decompress_mode c (qp t) = decompress_mode c (qp ?v)"
    using assms(3) by (simp_all add: statics_def compress_mode_def decompress_mode_def)
  have qv: "qp ?v = qp_memory (dev s) ! ?i" "wld ?v = env s" by (simp_all add: qp_view_def)
  have "at_rest P c (mode c (qp_memory (dev ?t) ! ?i)) (device_id (dev ?t)) qp_id (qp_view (dev ?t) ?i (dmem t) (env ?t))"
    if "mode = compress_mode \<or> mode = decompress_mode" for mode
  proof -
    have "mode c (qp t) = mode c (qp_memory (dev s) ! ?i)" using that m qv(1) by auto
    moreover have "at_rest P c (mode c (qp_memory (dev s) ! ?i)) (device_id (dev s)) qp_id ?v" using that R(6,7) by auto
    moreover have "device_id (dev ?t) = device_id (dev s)" by (simp add: qp_store_def)
    ultimately show ?thesis
      using rest assms(4) unfolding at_rest_def view q qv by simp
  qed
  then have "\<forall>mode \<in> {compress_mode, decompress_mode}.
      at_rest P c (mode c (qp_memory (dev ?t) ! ?i)) (device_id (dev ?t)) qp_id (qp_view (dev ?t) ?i (dmem t) (env ?t))"
    by blast
  then show ?thesis
    unfolding calls_ready_def using R ready assms(5)
    by (simp add: calls_ready_def) (simp add: qp_store_def num_qps_def)
qed

lemma with_qp_memory_pwp:
  assumes "i < length (qp_memory (dev s))" "device_mem (dev s) = Some dm"
  shows "pwp (with_qp_memory i f) Q E s = pwp f (\<lambda>x q. Q (x, q) (qp_store i q s)) (\<lambda>e q. E e (qp_store i q s)) (qp_view (dev s) i dm (env s))"
    "with_qp_memory i f s = None \<longleftrightarrow> f (qp_view (dev s) i dm (env s)) = None"
  using assms by (auto simp: with_qp_memory_def pwp_def split: option.splits sum.splits)

lemma Compress_unfold:
  assumes "compress_ready P c qp_id b input dm s" "0 < decompressed_seg_size c"
  shows "Compress P qp_id (Some b) s =
    pseq (with_qp_memory (unat qp_id) (compress_run P c (device_id (dev s)) qp_id (buf_data b) (length input)))
      (\<lambda>(_, q). total (return (compressed_buffers q))) s"
proof -
  have ready: "calls_ready P c qp_id dm s" using assms(1) by (simp add: compress_ready_def)
  have "buf_size b \<noteq> 0" "buf_size b = length input" "device_configuration (dev s) = Some c"
    using assms(1) calls_readyD(1) [OF ready] by (simp_all add: compress_ready_def)
  moreover have "decompressed_seg_size c \<noteq> 0" using assms(2) by simp
  ultimately show ?thesis
    using calls_ready_guard [OF ready]
    by (simp add: Compress_def pseq_def total_def seq_def get_def deref_def guard_def return_def)
qed

lemma qp_view_store:
  "unat qp_id < length (qp_memory (dev s)) \<Longrightarrow>
   qp_view (dev (qp_store (unat qp_id) q s)) (unat qp_id) (dmem q) (env (qp_store (unat qp_id) q s)) =
     q\<lparr>offset := 0, index := 0, compressed_buffers := [], decompressed_buffer_size := 0\<rparr>"
  by (simp add: qp_view_def qp_store_def)

text \<open>
  What a call returns: on success, one buffer for each segment of the input, in order, holding
  the output of the codec for it, in memory taken from the device memory; on an error nothing
  is pending and all memory taken for the call is back in the device memory.
\<close>

lemma pseq_total_None: "pseq m (\<lambda>(x, q). total (return (f x q))) s = None \<longleftrightarrow> m s = None"
  by (auto simp: pseq_def total_def return_def split: option.splits prod.splits sum.splits)

lemma Compress_call:
  assumes ready: "compress_ready P c qp_id b input dm s" and seg: "0 < decompressed_seg_size c"
  shows "pwp (Compress P qp_id (Some b)) Q E s =
      pwp (compress_run P c (device_id (dev s)) qp_id (buf_data b) (length input))
        (\<lambda>_ q. Q (compressed_buffers q) (qp_store (unat qp_id) q s))
        (\<lambda>e q. E e (qp_store (unat qp_id) q s)) (qp_view (dev s) (unat qp_id) dm (env s))"
    and "Compress P qp_id (Some b) s = None \<longleftrightarrow>
      compress_run P c (device_id (dev s)) qp_id (buf_data b) (length input)
        (qp_view (dev s) (unat qp_id) dm (env s)) = None"
proof -
  let ?run = "compress_run P c (device_id (dev s)) qp_id (buf_data b) (length input)"
  let ?call = "pseq (with_qp_memory (unat qp_id) ?run) (\<lambda>(_, q). total (return (compressed_buffers q)))"
  have eq: "Compress P qp_id (Some b) s = ?call s" by (rule Compress_unfold [OF ready seg])
  have R: "unat qp_id < length (qp_memory (dev s))" "device_mem (dev s) = Some dm"
    using ready by (simp_all add: compress_ready_def calls_ready_def)
  note W = with_qp_memory_pwp [OF R]
  show "Compress P qp_id (Some b) s = None \<longleftrightarrow> ?run (qp_view (dev s) (unat qp_id) dm (env s)) = None"
    unfolding eq pseq_total_None by (rule W(2))
  have "pwp (Compress P qp_id (Some b)) Q E s = pwp ?call Q E s" by (simp only: pwp_def eq)
  then show "pwp (Compress P qp_id (Some b)) Q E s = pwp ?run
        (\<lambda>_ q. Q (compressed_buffers q) (qp_store (unat qp_id) q s))
        (\<lambda>e q. E e (qp_store (unat qp_id) q s)) (qp_view (dev s) (unat qp_id) dm (env s))"
    by (simp add: W(1))
qed

definition compress_smooth :: "('w, 'p) dpdk_scheme \<Rightarrow> configuration \<Rightarrow> u8 list \<Rightarrow> device_memory \<Rightarrow> bool" where
  "compress_smooth P c input dm \<longleftrightarrow> faultless P \<and> compress_fits P c \<and> narrow dm \<and>
     ceil_div (length input) (unat (decompressed_seg_size c)) \<le> length (memzone_pool dm)"

lemma Compress_ok:
  assumes laws: "compress_laws P c" "one_segment c" and ready: "compress_ready P c qp_id b input dm s"
  shows "pwp (Compress P qp_id (Some b))
      (\<lambda>bufs t. \<exists>dm' zs.
         map (\<lambda>b. mem_bytes (mach (env t)) (buf_data b) (buf_size b)) bufs =
           map (codec P (compress_xform c)) (segments (unat (decompressed_seg_size c)) input) \<and>
         compress_ready P c qp_id b input dm' t \<and>
         list_all2 filled zs bufs \<and> distinct zs \<and> set zs \<inter> dm_held (dm, env s) = {} \<and>
         dm_held (dm', env t) = dm_held (dm, env s) \<union> set zs \<and>
         only_new_zones P (mach (env s)) (set zs) (mach (env t)) \<and>
         (compress_smooth P c input dm \<longrightarrow> set (dm_all dm') = set (dm_all dm) \<and>
            live_zones P (hidden (mach (env t))) = live_zones P (hidden (mach (env s)))))
      (\<lambda>e t. \<not> compress_smooth P c input dm \<and> (\<exists>dm' code msg. e = Status code msg \<and> code \<in> {IOError, OutOfMemory} \<and>
         EntryGuard (dev t) qp_id = OK \<and> device_mem (dev t) = Some dm' \<and> dm_ok P c (dm', env t) \<and>
         dm_held (dm', env t) = dm_held (dm, env s) \<and>
         mem_bytes (mach (env t)) (buf_data b) (length input) = input)) s"
    and "prompt P patience \<Longrightarrow> Compress P qp_id (Some b) s \<noteq> None"
proof -
  let ?v = "qp_view (dev s) (unat qp_id) dm (env s)" and ?i = "unat qp_id" and ?data = "buf_data b"
  have cr: "calls_ready P c qp_id dm s" using ready by (simp add: compress_ready_def)
  note CR = calls_readyD [OF cr]
  have R: "device_mem (dev s) = Some dm" "?i < length (qp_memory (dev s))" "buf_size b = length input"
    "at_rest P c (compress_mode c (qp ?v)) (device_id (dev s)) qp_id ?v" "dm_ok P c (dmem ?v, wld ?v)"
    "foreign {?data ..< ?data + length input} ?v" "mem_bytes (mach (wld ?v)) ?data (length input) = input"
    using ready CR by (simp_all add: compress_ready_def qp_view_def)
  let ?smooth = "compress_smooth P c input dm"
  have client: "compress_client P c ?smooth" using laws by unfold_locales (simp_all add: compress_smooth_def)
  have roomy: "?smooth \<longrightarrow> roomy P (live_zones P (hidden (mach (env s)))) (set (dm_all dm)) c input ?v"
    by (simp add: compress_smooth_def roomy_def left_to_compress_def qp_view_def)
  have init: "compress_jobs P c (qp ?v) (mach (env s)) ?data input (held ?v) [] [] ?v"
    using compress_jobs_init [OF R(5) _ _ R(7,6)] by (simp add: qp_view_def)
  have H: "held ?v = dm_held (dm, env s)" by (simp add: qp_view_def)
  note run = compress_client.run [OF client R(4) init roomy, unfolded H]
  have seg: "0 < decompressed_seg_size c" using laws(2) by (simp add: one_segment_def)
  show "Compress P qp_id (Some b) s \<noteq> None" if "prompt P patience"
    using run(2) [OF that] Compress_call(2) [OF ready seg] by simp
  show "pwp (Compress P qp_id (Some b))
      (\<lambda>bufs t. \<exists>dm' zs.
         map (\<lambda>b. mem_bytes (mach (env t)) (buf_data b) (buf_size b)) bufs =
           map (codec P (compress_xform c)) (segments (unat (decompressed_seg_size c)) input) \<and>
         compress_ready P c qp_id b input dm' t \<and>
         list_all2 filled zs bufs \<and> distinct zs \<and> set zs \<inter> dm_held (dm, env s) = {} \<and>
         dm_held (dm', env t) = dm_held (dm, env s) \<union> set zs \<and>
         only_new_zones P (mach (env s)) (set zs) (mach (env t)) \<and>
         (compress_smooth P c input dm \<longrightarrow> set (dm_all dm') = set (dm_all dm) \<and>
            live_zones P (hidden (mach (env t))) = live_zones P (hidden (mach (env s)))))
      (\<lambda>e t. \<not> ?smooth \<and> (\<exists>dm' code msg. e = Status code msg \<and> code \<in> {IOError, OutOfMemory} \<and>
         EntryGuard (dev t) qp_id = OK \<and> device_mem (dev t) = Some dm' \<and> dm_ok P c (dm', env t) \<and>
         dm_held (dm', env t) = dm_held (dm, env s) \<and>
         mem_bytes (mach (env t)) (buf_data b) (length input) = input)) s"
    unfolding Compress_call(1) [OF ready seg]
  proof (rule pwp_mono [OF run(1)])
    fix t assume t: "at_rest P c (compress_mode c (qp ?v)) (device_id (dev s)) qp_id t \<and>
        statics (qp t) = statics (qp ?v) \<and> compressed_to P c (mach (env s)) ?data input (dm_held (dm, env s)) t \<and>
        (?smooth \<longrightarrow> roomy P (live_zones P (hidden (mach (env s)))) (set (dm_all dm)) c input t)"
    then have "compressed_to P c (mach (env s)) ?data input (dm_held (dm, env s)) t" by blast
    note C = this [unfolded compressed_to_def]
    obtain zs where zs: "list_all2 filled zs (compressed_buffers t)" "distinct zs"
      "held t = dm_held (dm, env s) \<union> set zs" "dm_held (dm, env s) \<inter> set zs = {}" using C by blast
    let ?t = "qp_store ?i t s"
    have new: "held t - dm_held (dm, env s) = set zs" using zs(3,4) by blast
    then have only: "only_new_zones P (mach (env s)) (set zs) (mach (wld t))" using C by metis
    have "compress_ready P c qp_id b input (dmem t) ?t"
      unfolding compress_ready_def qp_view_store [OF R(2)]
    proof (intro conjI)
      show "calls_ready P c qp_id (dmem t) ?t"
        using t C only by (intro calls_ready_store [OF cr, of "compress_mode c (qp ?v)"]) (simp_all add: only_new_zones_def)
      show "foreign {?data ..< ?data + length input}
        (t\<lparr>offset := 0, index := 0, compressed_buffers := [], decompressed_buffer_size := 0\<rparr>)"
        using C by (simp add: foreign_def)
    qed (use C ready in \<open>simp_all add: compress_ready_def qp_store_def num_qps_def\<close>)
    then show "\<exists>dm' zs.
         map (\<lambda>b. mem_bytes (mach (env ?t)) (buf_data b) (buf_size b)) (compressed_buffers t) =
           map (codec P (compress_xform c)) (segments (unat (decompressed_seg_size c)) input) \<and>
         compress_ready P c qp_id b input dm' ?t \<and>
         list_all2 filled zs (compressed_buffers t) \<and> distinct zs \<and> set zs \<inter> dm_held (dm, env s) = {} \<and>
         dm_held (dm', env ?t) = dm_held (dm, env s) \<union> set zs \<and>
         only_new_zones P (mach (env s)) (set zs) (mach (env ?t)) \<and>
         (?smooth \<longrightarrow> set (dm_all dm') = set (dm_all dm) \<and>
            live_zones P (hidden (mach (env ?t))) = live_zones P (hidden (mach (env s))))"
      using C zs only t by (intro exI [of _ "dmem t"] exI [of _ zs]) (auto simp: qp_store_def roomy_def)
  next
    fix e t assume lost: "\<not> ?smooth \<and> compress_lost P c ?data input (dm_held (dm, env s)) e t"
    let ?t = "qp_store ?i t s"
    have "EntryGuard (dev ?t) qp_id = OK"
      using calls_ready_guard [OF cr] lost R(2)
      by (simp add: EntryGuard_def qp_store_def num_qps_def compress_lost_def has_pending_operations_def
        split: if_splits)
    then show "\<not> ?smooth \<and> (\<exists>dm' code msg. e = Status code msg \<and> code \<in> {IOError, OutOfMemory} \<and>
         EntryGuard (dev ?t) qp_id = OK \<and> device_mem (dev ?t) = Some dm' \<and> dm_ok P c (dm', env ?t) \<and>
         dm_held (dm', env ?t) = dm_held (dm, env s) \<and>
         mem_bytes (mach (env ?t)) ?data (length input) = input)"
      using lost by (auto simp: compress_lost_def qp_store_def)
  qed
qed

end
