(* ===== verification/Bitar_Sim_Device.thy ===== *)
theory Bitar_Sim_Device
  imports Bitar_Compress_Call
begin

text \<open>
  The stand-in of \<open>Bitar_Sim\<close> with pools, queue pairs and a device behind them: operations
  are processed in the order in which they are enqueued when they are dequeued, and the codec
  puts a byte before the data, or takes it away. As there, it is no part of the model; it
  shows that the laws can hold together, and the witnesses run on it. Chaining mbufs always
  fails, so it serves configurations with one mbuf per operation.
\<close>

record dev_sim = sim +
  sim_mbufs :: "mbuf_ptr list"
  sim_ops :: "op_ptr list"
  sim_queues :: "u8 \<Rightarrow> u16 \<Rightarrow> op_ptr list"
  sim_xforms :: "rte_comp_xform list"

definition fresh_ids :: "nat list \<Rightarrow> nat \<Rightarrow> nat list" where
  "fresh_ids ids n = (let b = Suc (foldr max ids 0) in [b..<b + n])"

lemma fresh_ids: "length (fresh_ids ids n) = n" "distinct (fresh_ids ids n)" "set (fresh_ids ids n) \<inter> set ids = {}"
proof -
  have "i \<le> foldr max ids 0" if "i \<in> set ids" for i
    using that by (induction ids) (auto simp: le_max_iff_disj)
  then show "set (fresh_ids ids n) \<inter> set ids = {}" by (fastforce simp: fresh_ids_def Let_def)
qed (simp_all add: fresh_ids_def Let_def)

subsection \<open>Pools\<close>

definition sim_empty_mbuf :: mbuf where
  "sim_empty_mbuf = \<lparr>buf_addr = 0, buf_len = 0, data_off = 0, data_len = 0, pkt_len = 0, next_seg = None, shinfo = None\<rparr>"

definition sim_empty_op :: comp_op where
  "sim_empty_op = \<lparr>m_src = None, m_dst = None, src_offset = 0, src_length = 0, dst_offset = 0,
     flush_flag = RTE_COMP_FLUSH_NONE, input_chksum = 0, private_xform = None,
     op_status = RTE_COMP_OP_STATUS_NOT_PROCESSED, produced = 0\<rparr>"

definition sim_mbuf_alloc :: "pool_ptr \<Rightarrow> nat \<Rightarrow> dev_sim machine \<Rightarrow> mbuf_ptr list option \<times> dev_sim machine" where
  "sim_mbuf_alloc pool n m =
     (let bs = fresh_ids (sim_mbufs (hidden m)) n in
      (Some bs, m\<lparr>mbufs := (\<lambda>b. if b \<in> set bs then sim_empty_mbuf else mbufs m b),
                  hidden := (hidden m)\<lparr>sim_mbufs := bs @ sim_mbufs (hidden m)\<rparr>\<rparr>))"

definition sim_op_alloc :: "pool_ptr \<Rightarrow> nat \<Rightarrow> dev_sim machine \<Rightarrow> op_ptr list option \<times> dev_sim machine" where
  "sim_op_alloc pool n m =
     (let js = fresh_ids (sim_ops (hidden m)) n in
      (Some js, m\<lparr>ops := (\<lambda>j. if j \<in> set js then sim_empty_op else ops m j),
                  hidden := (hidden m)\<lparr>sim_ops := js @ sim_ops (hidden m)\<rparr>\<rparr>))"

text \<open>The segments of a chain, if it ends.\<close>

partial_function (option) sim_segments :: "'w machine \<Rightarrow> mbuf_ptr option \<Rightarrow> mbuf_ptr list option" where
  "sim_segments m p =
     (case p of None \<Rightarrow> Some []
      | Some b \<Rightarrow>
          Option.bind (sim_segments m (next_seg (mbufs m b))) (\<lambda>bs. Some (b # bs)))"

declare sim_segments.simps [code]

lemma sim_segments_chained: "chained m p bs \<Longrightarrow> sim_segments m p = Some bs"
  by (induction bs arbitrary: p) (subst sim_segments.simps; simp)+

definition sim_drop_mbufs :: "mbuf_ptr list \<Rightarrow> dev_sim machine \<Rightarrow> dev_sim machine" where
  "sim_drop_mbufs bs m =
     m\<lparr>hidden := (hidden m)\<lparr>sim_mbufs := filter (\<lambda>b. b \<notin> set bs) (sim_mbufs (hidden m))\<rparr>\<rparr>"

definition sim_mbuf_free :: "mbuf_ptr option \<Rightarrow> dev_sim machine \<Rightarrow> dev_sim machine" where
  "sim_mbuf_free p m = (case sim_segments m p of None \<Rightarrow> m | Some bs \<Rightarrow> sim_drop_mbufs bs m)"

definition sim_op_free :: "op_ptr \<Rightarrow> dev_sim machine \<Rightarrow> dev_sim machine" where
  "sim_op_free j m =
     m\<lparr>hidden := (hidden m)\<lparr>sim_ops := filter (\<lambda>i. i \<noteq> j) (sim_ops (hidden m))\<rparr>\<rparr>"

subsection \<open>Mbufs\<close>

definition sim_attach :: "mbuf_ptr \<Rightarrow> addr \<Rightarrow> addr \<Rightarrow> u16 \<Rightarrow> shinfo_ptr \<Rightarrow> dev_sim machine \<Rightarrow> dev_sim machine" where
  "sim_attach b a iova len sh m =
     m\<lparr>mbufs := (mbufs m)(b := (mbufs m b)\<lparr>buf_addr := a, buf_len := unat len, data_off := 0,
          data_len := 0, shinfo := Some sh\<rparr>)\<rparr>"

definition sim_append :: "mbuf_ptr \<Rightarrow> u16 \<Rightarrow> dev_sim machine \<Rightarrow> addr option \<times> dev_sim machine" where
  "sim_append b len m =
     (if data_off (mbufs m b) + data_len (mbufs m b) + unat len \<le> buf_len (mbufs m b)
      then (Some (buf_addr (mbufs m b) + data_off (mbufs m b) + data_len (mbufs m b)),
            m\<lparr>mbufs := (mbufs m)(b := (mbufs m b)
                \<lparr>data_len := data_len (mbufs m b) + unat len, pkt_len := pkt_len (mbufs m b) + unat len\<rparr>)\<rparr>)
      else (None, m))"

subsection \<open>The device\<close>

fun sim_codec :: "rte_comp_xform \<Rightarrow> u8 list \<Rightarrow> u8 list" where
  "sim_codec (Compress_xform h l w c) xs = 120 # xs"
| "sim_codec (Decompress_xform c w) xs = tl xs"

text \<open>
  Where an operation writes and what, if it has all its parts and the output fits; and what
  becomes of the operation.
\<close>

definition sim_output :: "dev_sim machine \<Rightarrow> op_ptr \<Rightarrow> (addr \<times> u8 list) option" where
  "sim_output m j =
     (let p = ops m j in
      case (m_src p, m_dst p, private_xform p) of
        (Some b, Some d, Some x) \<Rightarrow>
          if x < length (sim_xforms (hidden m)) then
            (let out = sim_codec (sim_xforms (hidden m) ! x)
                   (mem_bytes m (buf_addr (mbufs m b) + data_off (mbufs m b) + src_offset p) (src_length p))
             in if length out \<le> data_len (mbufs m d) - dst_offset p
                then Some (buf_addr (mbufs m d) + data_off (mbufs m d) + dst_offset p, out) else None)
          else None
      | _ \<Rightarrow> None)"

definition sim_finish :: "dev_sim machine \<Rightarrow> op_ptr \<Rightarrow> comp_op" where
  "sim_finish m j =
     (case sim_output m j of
        None \<Rightarrow> (ops m j)\<lparr>op_status := RTE_COMP_OP_STATUS_ERROR, produced := 0\<rparr>
      | Some (a, out) \<Rightarrow> (ops m j)\<lparr>op_status := RTE_COMP_OP_STATUS_SUCCESS, produced := length out\<rparr>)"

definition sim_writes :: "dev_sim machine \<Rightarrow> addr \<Rightarrow> op_ptr \<Rightarrow> bool" where
  "sim_writes m x j = (case sim_output m j of None \<Rightarrow> False | Some (a, out) \<Rightarrow> a \<le> x \<and> x < a + length out)"

definition sim_written :: "dev_sim machine \<Rightarrow> op_ptr list \<Rightarrow> addr \<Rightarrow> u8" where
  "sim_written m js x =
     (case find (sim_writes m x) js of
        None \<Rightarrow> bytes m x
      | Some j \<Rightarrow> (case sim_output m j of None \<Rightarrow> bytes m x | Some (a, out) \<Rightarrow> out ! (x - a)))"

definition sim_process :: "op_ptr list \<Rightarrow> dev_sim machine \<Rightarrow> dev_sim machine" where
  "sim_process js m =
     m\<lparr>bytes := sim_written m js, ops := (\<lambda>j. if j \<in> set js then sim_finish m j else ops m j)\<rparr>"

definition sim_set_queue :: "op_ptr list \<Rightarrow> u8 \<Rightarrow> u16 \<Rightarrow> dev_sim machine \<Rightarrow> dev_sim machine" where
  "sim_set_queue js dev_id qp_id m =
     m\<lparr>hidden := (hidden m)\<lparr>sim_queues := set_inflight js dev_id qp_id (sim_queues (hidden m))\<rparr>\<rparr>"

definition sim_enqueue :: "u8 \<Rightarrow> u16 \<Rightarrow> op_ptr option list \<Rightarrow> dev_sim machine \<Rightarrow> u16 \<times> dev_sim machine" where
  "sim_enqueue dev_id qp_id js m =
     (let n = min 65535 (length js) in
      (word_of_nat n,
       sim_set_queue (sim_queues (hidden m) dev_id qp_id @ take n (map the js)) dev_id qp_id m))"

definition sim_dequeue :: "u8 \<Rightarrow> u16 \<Rightarrow> u16 \<Rightarrow> dev_sim machine \<Rightarrow> op_ptr list \<times> dev_sim machine" where
  "sim_dequeue dev_id qp_id n m =
     (let queue = sim_queues (hidden m) dev_id qp_id; js = take (unat n) queue in
      (js, sim_set_queue (drop (length js) queue) dev_id qp_id (sim_process js m)))"

definition sim_xform_create ::
  "u8 \<Rightarrow> rte_comp_xform \<Rightarrow> dev_sim machine \<Rightarrow> (int \<times> xform_ptr option) \<times> dev_sim machine" where
  "sim_xform_create dev_id xf m =
     ((0, Some (length (sim_xforms (hidden m)))),
      m\<lparr>hidden := (hidden m)\<lparr>sim_xforms := sim_xforms (hidden m) @ [xf]\<rparr>\<rparr>)"

definition sim_zmalloc :: "nat \<Rightarrow> int \<Rightarrow> dev_sim machine \<Rightarrow> addr option \<times> dev_sim machine" where
  "sim_zmalloc n socket m = (case sim_malloc n 0 m of (a, m) \<Rightarrow> (Some a, m))"

definition sim_xform_at :: "rte_comp_xform list \<Rightarrow> xform_ptr \<Rightarrow> rte_comp_xform option" where
  "sim_xform_at xfs x = (if x < length xfs then Some (xfs ! x) else None)"

definition sim_dpdk :: "dev_sim dpdk" where
  "sim_dpdk =
     \<lparr>NDEBUG = True, zero_size_area = sim_zero_area,
      rte_memzone_reserve_aligned = sim_reserve, rte_memzone_free = sim_free_zone,
      rte_malloc = sim_malloc, rte_realloc = sim_realloc, rte_free = sim_free, rte_memcpy = sim_memcpy,
      live_zones = (\<lambda>h. set (sim_zones h)), live_mallocs = (\<lambda>h. map_of (sim_mallocs h)),
      status_codes = \<lparr>StatusCode_int = sim_StatusCode_int, StatusCode_of = sim_StatusCode_of\<rparr>,
      rte_mem_virt2iova = (\<lambda>a. a),
      rte_pktmbuf_chain = (\<lambda>h t m. (- 75, m)),
      rte_pktmbuf_attach_extbuf = sim_attach,
      rte_mbuf_ext_refcnt_update = (\<lambda>sh k m. m), rte_mbuf_ext_refcnt_set = (\<lambda>sh k m. m),
      rte_pktmbuf_append = sim_append,
      rte_pktmbuf_free = sim_mbuf_free, rte_pktmbuf_free_seg = (\<lambda>b. sim_drop_mbufs [b]),
      rte_pktmbuf_alloc_bulk = sim_mbuf_alloc, rte_comp_op_bulk_alloc = sim_op_alloc,
      rte_comp_op_free = sim_op_free,
      rte_pktmbuf_pool_create = (\<lambda>n cache socket m. (Some 0, m)),
      rte_comp_op_pool_create = (\<lambda>n cache socket m. (Some 1, m)),
      rte_zmalloc_socket = sim_zmalloc, sizeof_shared_info = 24,
      rte_compressdev_private_xform_create = sim_xform_create,
      rte_compressdev_socket_id = (\<lambda>d. 0), rte_compressdev_max_nb_queue_pairs = (\<lambda>d. 0),
      rte_compressdev_capability_get = (\<lambda>d. Some \<lparr>ff_oop_sgl_in_sgl_out = False, ff_huffman_fixed = True,
        ff_huffman_dynamic = True,
        cap_window_size = \<lparr>range_min = 8, range_max = 15, range_increment = 1\<rparr>\<rparr>),
      rte_compressdev_configure = (\<lambda>d socket n m. (0, m)),
      rte_compressdev_queue_pair_setup = (\<lambda>d q n socket m. (0, sim_set_queue [] d q m)),
      rte_compressdev_start = (\<lambda>d m. (0, m)), rte_compressdev_stop = (\<lambda>d m. m),
      rte_compressdev_close = (\<lambda>d m. m),
      rte_compressdev_stats_get = (\<lambda>d m. \<lparr>enqueue_err_count = 0, dequeue_err_count = 0\<rparr>),
      rte_compressdev_enqueue_burst = sim_enqueue, rte_compressdev_dequeue_burst = sim_dequeue,
      live_mbufs = (\<lambda>h. set (sim_mbufs h)), live_ops = (\<lambda>h. set (sim_ops h)),
      inflight = sim_queues,
      xforms = (\<lambda>h. sim_xform_at (sim_xforms h)),
      codec = sim_codec\<rparr>"

subsection \<open>The laws\<close>

named_theorems sim_defs \<open>the definitions of the stand-in's functions\<close>

lemmas [sim_defs] = sim_dpdk_def same_memory_def same_objects_def same_queues_def Let_def

lemma sim_dpdk_memory: "memzone_laws sim_dpdk" "memcpy_laws sim_dpdk" "malloc_laws sim_dpdk"
proof -
  have "memzone_laws sim_dpdk = memzone_laws (sim_memory True :: dev_sim dpdk_memory)"
    by (simp add: memzone_laws_def sim_dpdk_def sim_memory_def)
  then show "memzone_laws sim_dpdk" by (simp add: sim_memzone_laws)
  have "memcpy_laws sim_dpdk = memcpy_laws (sim_memory True :: dev_sim dpdk_memory)"
    by (simp add: memcpy_laws_def sim_dpdk_def sim_memory_def)
  then show "memcpy_laws sim_dpdk" by (simp add: sim_memcpy_laws)
  have "malloc_laws sim_dpdk = malloc_laws (sim_memory True :: dev_sim dpdk_memory)"
    by (simp add: malloc_laws_def sim_dpdk_def sim_memory_def)
  then show "malloc_laws sim_dpdk" by (simp add: sim_malloc_laws)
qed

lemma sim_alloc_laws: "alloc_laws sim_dpdk"
  unfolding alloc_laws_def
  using fresh_ids
  by (auto simp: sim_defs sim_mbuf_alloc_def sim_op_alloc_def fresh_mbuf_def fresh_op_def
      sim_empty_mbuf_def sim_empty_op_def)

lemma sim_free_laws: "free_laws sim_dpdk"
  unfolding free_laws_def
  by (auto simp: sim_defs sim_mbuf_free_def sim_drop_mbufs_def sim_op_free_def sim_segments_chained)

lemma sim_mbuf_laws: "mbuf_laws sim_dpdk"
  unfolding mbuf_laws_def
  by (auto simp: sim_defs sim_attach_def sim_append_def)

lemma sim_zone_frame_laws: "zone_frame_laws sim_dpdk"
  unfolding zone_frame_laws_def
  by (simp add: sim_defs sim_reserve_def sim_free_zone_def)

lemma sim_codec_laws: "codec_laws sim_dpdk c"
  by (simp add: codec_laws_def sim_dpdk_def compress_xform_def decompress_xform_def)


lemma sim_writes_dst:
  assumes "sim_writes m x j"
  shows "x \<in> dst_area m j"
  using assms
  by (auto simp: sim_writes_def sim_output_def dst_area_def mbuf_bytes_def Let_def
      split: option.splits if_splits)

lemma sim_written_outside:
  assumes "x \<notin> dst_bytes m js"
  shows "sim_written m js x = bytes m x"
proof -
  have "find (sim_writes m x) js = None"
    using assms sim_writes_dst by (auto simp: find_None_iff dst_bytes_def)
  then show ?thesis by (simp add: sim_written_def)
qed

lemma sim_written_by:
  assumes "apart m hs" "set js \<subseteq> set hs" "j \<in> set js" "sim_output m j = Some (a, out)" "i < length out"
  shows "sim_written m js (a + i) = out ! i"
proof -
  have w: "sim_writes m (a + i) j" using assms(4,5) by (simp add: sim_writes_def)
  have "find (sim_writes m (a + i)) js = Some j"
  proof -
    have "k = j" if "k \<in> set js" "sim_writes m (a + i) k" for k
      using sim_writes_dst [OF w] sim_writes_dst [OF that(2)] assms(1,2,3) that(1)
      unfolding apart_def by blast
    then show ?thesis using w assms(3) by (metis find_None_iff find_Some_iff not_None_eq nth_mem)
  qed
  then show ?thesis using assms(4) by (simp add: sim_written_def)
qed

lemma sim_source_same:
  assumes "apart m hs" "set js \<subseteq> set hs" "j \<in> set js" "m_src (ops m j) = Some b" "n \<le> data_len (mbufs m b)"
  shows "mem_bytes (sim_set_queue q dev_id qp_id (sim_process js m)) (buf_addr (mbufs m b) + data_off (mbufs m b)) n =
    mem_bytes m (buf_addr (mbufs m b) + data_off (mbufs m b)) n"
proof (rule mem_bytes_cong)
  fix y assume y: "buf_addr (mbufs m b) + data_off (mbufs m b) \<le> y" "y < buf_addr (mbufs m b) + data_off (mbufs m b) + n"
  have "y \<in> src_area m j" using y assms(4,5) by (simp add: src_area_def mbuf_bytes_def)
  then have "y \<notin> dst_bytes m js" using assms(1-3) unfolding apart_def dst_bytes_def by blast
  then show "bytes (sim_set_queue q dev_id qp_id (sim_process js m)) y = bytes m y"
    by (simp add: sim_set_queue_def sim_process_def sim_written_outside)
qed

lemma sim_processed:
  assumes "apart m hs" "set js \<subseteq> set hs" "j \<in> set js"
  shows "processed sim_dpdk (sim_set_queue q dev_id qp_id (sim_process js m)) j"
proof -
  let ?m = "sim_set_queue q dev_id qp_id (sim_process js m)"
  have same: "mbufs ?m = mbufs m" "ops ?m j = sim_finish m j" "bytes ?m = sim_written m js"
    "sim_xforms (hidden ?m) = sim_xforms (hidden m)"
    using assms(3) by (simp_all add: sim_set_queue_def sim_process_def)
  show ?thesis
    unfolding processed_def
  proof (intro allI impI)
    fix b d x xf
    assume p: "m_src (ops ?m j) = Some b" "m_dst (ops ?m j) = Some d"
      "next_seg (mbufs ?m b) = None" "next_seg (mbufs ?m d) = None"
      "src_offset (ops ?m j) = 0" "dst_offset (ops ?m j) = 0" "src_length (ops ?m j) \<le> data_len (mbufs ?m b)"
      "flush_flag (ops ?m j) = RTE_COMP_FLUSH_FINAL" "private_xform (ops ?m j) = Some x"
      "xforms sim_dpdk (hidden ?m) x = Some xf" "op_status (ops ?m j) = RTE_COMP_OP_STATUS_SUCCESS"
    obtain a out where o: "sim_output m j = Some (a, out)"
      using p(11) same(2) by (auto simp: sim_finish_def split: option.splits)
    have op: "ops ?m j = (ops m j)\<lparr>op_status := RTE_COMP_OP_STATUS_SUCCESS, produced := length out\<rparr>"
      using same(2) o by (simp add: sim_finish_def)
    let ?n = "src_length (ops m j)" and ?s = "buf_addr (mbufs m b) + data_off (mbufs m b)"
    have x: "x < length (sim_xforms (hidden m))" "xf = sim_xforms (hidden m) ! x"
      using p(10) same(4) by (auto simp: sim_dpdk_def sim_xform_at_def split: if_splits)
    have P: "m_src (ops m j) = Some b" "m_dst (ops m j) = Some d" "src_offset (ops m j) = 0"
      "dst_offset (ops m j) = 0" "?n \<le> data_len (mbufs m b)" "private_xform (ops m j) = Some x"
      using p op same(1) by simp_all
    have out: "out = sim_codec xf (mem_bytes m ?s ?n)" "length out \<le> data_len (mbufs m d)"
      "a = buf_addr (mbufs m d) + data_off (mbufs m d)"
      using o P x by (simp_all add: sim_output_def Let_def split: if_splits)
    have "mem_bytes ?m ?s ?n = mem_bytes m ?s ?n" by (rule sim_source_same [OF assms P(1,5)])
    moreover have "mem_bytes ?m a (length out) = out"
      by (rule nth_equalityI)
        (simp_all add: mem_bytes_def same(3) sim_written_by [OF assms o])
    ultimately show "produced (ops ?m j) \<le> data_len (mbufs ?m d) \<and>
        mem_bytes ?m (buf_addr (mbufs ?m d) + data_off (mbufs ?m d)) (produced (ops ?m j)) =
        codec sim_dpdk xf (mem_bytes ?m (buf_addr (mbufs ?m b) + data_off (mbufs ?m b)) (src_length (ops ?m j)))"
      using out op same(1) by (simp add: sim_dpdk_def)
  qed
qed

lemma sim_succeeded:
  assumes "apart m hs" "set js \<subseteq> set hs" "j \<in> set js"
  shows "succeeded sim_dpdk (sim_set_queue q dev_id qp_id (sim_process js m)) j"
proof -
  let ?m = "sim_set_queue q dev_id qp_id (sim_process js m)"
  have same: "mbufs ?m = mbufs m" "ops ?m j = sim_finish m j" "sim_xforms (hidden ?m) = sim_xforms (hidden m)"
    using assms(3) by (simp_all add: sim_set_queue_def sim_process_def)
  have fin: "m_src (sim_finish m j) = m_src (ops m j)" "m_dst (sim_finish m j) = m_dst (ops m j)"
    "src_offset (sim_finish m j) = src_offset (ops m j)" "dst_offset (sim_finish m j) = dst_offset (ops m j)"
    "src_length (sim_finish m j) = src_length (ops m j)" "private_xform (sim_finish m j) = private_xform (ops m j)"
    by (simp_all add: sim_finish_def split: option.split)
  show ?thesis
    unfolding succeeded_def
  proof (intro allI impI)
    fix b d x xf
    assume p: "m_src (ops ?m j) = Some b" "m_dst (ops ?m j) = Some d"
      "next_seg (mbufs ?m b) = None" "next_seg (mbufs ?m d) = None"
      "src_offset (ops ?m j) = 0" "dst_offset (ops ?m j) = 0" "src_length (ops ?m j) \<le> data_len (mbufs ?m b)"
      "flush_flag (ops ?m j) = RTE_COMP_FLUSH_FINAL" "private_xform (ops ?m j) = Some x"
      "xforms sim_dpdk (hidden ?m) x = Some xf"
      "length (codec sim_dpdk xf (mem_bytes ?m (buf_addr (mbufs ?m b) + data_off (mbufs ?m b)) (src_length (ops ?m j))))
          \<le> data_len (mbufs ?m d)"
    have x: "x < length (sim_xforms (hidden m))" "xf = sim_xforms (hidden m) ! x"
      using p(10) same(3) by (auto simp: sim_dpdk_def sim_xform_at_def split: if_splits)
    have P: "m_src (ops m j) = Some b" "m_dst (ops m j) = Some d" "src_offset (ops m j) = 0"
      "dst_offset (ops m j) = 0" "src_length (ops m j) \<le> data_len (mbufs m b)" "private_xform (ops m j) = Some x"
      using p same(1,2) fin by simp_all
    have "length (sim_codec xf (mem_bytes m (buf_addr (mbufs m b) + data_off (mbufs m b)) (src_length (ops m j))))
        \<le> data_len (mbufs m d)"
      using p(11) same(1,2) fin sim_source_same [OF assms P(1,5)] by (simp add: sim_dpdk_def)
    then have "\<exists>a out. sim_output m j = Some (a, out)"
      using P x by (simp add: sim_output_def Let_def)
    then show "op_status (ops ?m j) = RTE_COMP_OP_STATUS_SUCCESS"
      using same(2) by (auto simp: sim_finish_def)
  qed
qed

text \<open>The stand-in makes no errors.\<close>

lemma sim_faultless: "faultless sim_dpdk"
  unfolding faultless_def
proof (intro conjI allI impI ballI)
  fix dev_id qp_id n m js m' j
  assume deq: "rte_compressdev_dequeue_burst sim_dpdk dev_id qp_id n m = (js, m')"
    and apart: "apart m (inflight sim_dpdk (hidden m) dev_id qp_id)" and j: "j \<in> set js"
  let ?q = "sim_queues (hidden m) dev_id qp_id"
  have js: "js = take (unat n) ?q" "m' = sim_set_queue (drop (length js) ?q) dev_id qp_id (sim_process js m)"
    using deq by (auto simp: sim_dpdk_def sim_dequeue_def Let_def)
  have "apart m ?q" using apart by (simp add: sim_dpdk_def)
  moreover have "set js \<subseteq> set ?q" using js(1) by (simp add: set_take_subset)
  ultimately show "succeeded sim_dpdk m' j"
    unfolding js(2) using j by (rule sim_succeeded)
qed (simp_all add: sim_dpdk_def sim_op_alloc_def sim_mbuf_alloc_def Let_def)

lemma sim_burst_laws: "burst_laws sim_dpdk"
  unfolding burst_laws_def
proof (intro conjI allI impI)
  fix dev_id qp_id js m n m'
  assume enq: "rte_compressdev_enqueue_burst sim_dpdk dev_id qp_id (map Some js) m = (n, m')"
  let ?k = "min 65535 (length js)"
  have n: "n = word_of_nat ?k" "m' = sim_set_queue (sim_queues (hidden m) dev_id qp_id @ take ?k js) dev_id qp_id m"
    using enq by (simp_all add: sim_dpdk_def sim_enqueue_def Let_def)
  have "unat n = ?k" unfolding n(1) by (simp add: unat_of_nat take_bit_nat_eq_self)
  then show "let held = inflight sim_dpdk (hidden m) dev_id qp_id @ take (unat n) js in
         unat n \<le> length js \<and> ops m' = ops m \<and> burst_frame sim_dpdk held m m' \<and>
         inflight sim_dpdk (hidden m') = set_inflight held dev_id qp_id (inflight sim_dpdk (hidden m))"
    using n(2) by (simp add: sim_dpdk_def sim_set_queue_def burst_frame_def Let_def)
next
  fix dev_id qp_id n m js m'
  assume deq: "rte_compressdev_dequeue_burst sim_dpdk dev_id qp_id n m = (js, m')"
  let ?q = "sim_queues (hidden m) dev_id qp_id"
  have js: "js = take (unat n) ?q" "m' = sim_set_queue (drop (length js) ?q) dev_id qp_id (sim_process js m)"
    using deq by (auto simp: sim_dpdk_def sim_dequeue_def Let_def)
  have sub: "set js \<subseteq> set ?q" using js(1) by (simp add: set_take_subset)
  have frame: "bytes m' x = bytes m x" if "x \<notin> dst_bytes m ?q" for x
  proof -
    have "x \<notin> dst_bytes m js" using that sub by (auto simp: dst_bytes_def)
    then show ?thesis using js(2) by (simp add: sim_set_queue_def sim_process_def sim_written_outside)
  qed
  have fin: "\<exists>st k. sim_finish m j = (ops m j)\<lparr>op_status := st, produced := k\<rparr>" for j
    by (auto simp: sim_finish_def split: option.splits)
  have proc: "processed sim_dpdk m' j" if "apart m ?q" "j \<in> set js" for j
    unfolding js(2) by (rule sim_processed [OF that(1) sub that(2)])
  show "let held = inflight sim_dpdk (hidden m) dev_id qp_id in
         length js \<le> unat n \<and> burst_frame sim_dpdk held m m' \<and>
         held = js @ drop (length js) held \<and>
         inflight sim_dpdk (hidden m') = set_inflight (drop (length js) held) dev_id qp_id (inflight sim_dpdk (hidden m)) \<and>
         (\<forall>j. j \<notin> set js \<longrightarrow> ops m' j = ops m j) \<and>
         (\<forall>j \<in> set js. \<exists>st k. ops m' j = (ops m j)\<lparr>op_status := st, produced := k\<rparr>) \<and>
         (distinct held \<longrightarrow> apart m held \<longrightarrow> (\<forall>j \<in> set js. processed sim_dpdk m' j))"
    using frame fin proc js
    by (simp add: sim_dpdk_def sim_set_queue_def sim_process_def burst_frame_def Let_def min_def)
qed

lemma sim_prompt: "prompt sim_dpdk (\<lambda>_. 0)"
proof -
  have "js = []" if "word_of_nat (min 65535 (length js)) = (0 :: u16)" for js :: "op_ptr list"
  proof -
    have "unat (word_of_nat (min 65535 (length js)) :: u16) = min 65535 (length js)"
      by (simp add: unat_of_nat take_bit_nat_eq_self)
    then show ?thesis using that by (simp add: min_def split: if_splits)
  qed
  then show ?thesis
    by (auto simp: prompt_def sim_dpdk_def sim_enqueue_def sim_dequeue_def Let_def unat_eq_0)
qed

end
