(* ===== verification/Bitar_Setup.thy ===== *)
theory Bitar_Setup
  imports Bitar_Device_Control Bitar_Compress_Call
begin

text \<open>
  \<open>Initialize\<close>: a device that has been initialised is ready for calls on all its queue pairs,
  and one whose initialisation has failed refuses every call.
\<close>

subsection \<open>What the documentation promises of the functions called once\<close>

text \<open>
  Creating pools, allocating memory and configuring a device free no memzone and no block and
  forget no private transform; the queue pairs hold what they held, but for one that is set
  up, which is empty. New blocks are new, and a private transform that is created stands for
  the transform it is made from.
\<close>

definition only_adds :: "('w, 'p) dpdk_scheme \<Rightarrow> 'w machine \<Rightarrow> 'w machine \<Rightarrow> bool" where
  "only_adds P m m' \<longleftrightarrow>
     live_zones P (hidden m') = live_zones P (hidden m) \<and>
     (\<forall>a. live_mallocs P (hidden m) a \<noteq> None \<longrightarrow> live_mallocs P (hidden m') a \<noteq> None) \<and>
     xforms P (hidden m) \<subseteq>\<^sub>m xforms P (hidden m')"

lemma only_adds_refl [simp]: "only_adds P m m"
  by (simp add: only_adds_def)

lemma only_adds_trans: "only_adds P m m' \<Longrightarrow> only_adds P m' m'' \<Longrightarrow> only_adds P m m''"
  unfolding only_adds_def by (metis map_le_trans)

definition setup_laws :: "('w, 'p) dpdk_scheme \<Rightarrow> bool" where
  "setup_laws P \<longleftrightarrow>
     (\<forall>n k socket m p m'. rte_pktmbuf_pool_create P n k socket m = (p, m') \<longrightarrow>
        only_adds P m m' \<and> inflight P (hidden m') = inflight P (hidden m)) \<and>
     (\<forall>n k socket m p m'. rte_comp_op_pool_create P n k socket m = (p, m') \<longrightarrow>
        only_adds P m m' \<and> inflight P (hidden m') = inflight P (hidden m)) \<and>
     (\<forall>n socket m p m'. rte_zmalloc_socket P n socket m = (p, m') \<longrightarrow>
        only_adds P m m' \<and> inflight P (hidden m') = inflight P (hidden m) \<and>
        (\<forall>a. p = Some a \<longrightarrow> live_mallocs P (hidden m) a = None \<and> live_mallocs P (hidden m') a \<noteq> None)) \<and>
     (\<forall>sh k m. only_adds P m (rte_mbuf_ext_refcnt_set P sh k m) \<and>
        inflight P (hidden (rte_mbuf_ext_refcnt_set P sh k m)) = inflight P (hidden m)) \<and>
     (\<forall>d xf m r p m'. rte_compressdev_private_xform_create P d xf m = ((r, p), m') \<longrightarrow>
        only_adds P m m' \<and> inflight P (hidden m') = inflight P (hidden m) \<and>
        (0 \<le> r \<longrightarrow> (\<exists>x. p = Some x \<and> xforms P (hidden m') x = Some xf))) \<and>
     (\<forall>d socket n m r m'. rte_compressdev_configure P d socket n m = (r, m') \<longrightarrow> only_adds P m m') \<and>
     (\<forall>d q n socket m r m'. rte_compressdev_queue_pair_setup P d q n socket m = (r, m') \<longrightarrow>
        only_adds P m m' \<and>
        (0 \<le> r \<longrightarrow> inflight P (hidden m') = set_inflight [] d q (inflight P (hidden m)))) \<and>
     (\<forall>d m r m'. rte_compressdev_start P d m = (r, m') \<longrightarrow>
        only_adds P m m' \<and> inflight P (hidden m') = inflight P (hidden m))"

lemma setup_lawsD:
  assumes "setup_laws P"
  shows "rte_pktmbuf_pool_create P n k socket m = (p, m') \<Longrightarrow> only_adds P m m'"
    "rte_comp_op_pool_create P n k socket m = (p, m') \<Longrightarrow> only_adds P m m'"
    "rte_zmalloc_socket P n' socket m = (p, m') \<Longrightarrow> only_adds P m m'"
    "rte_zmalloc_socket P n' socket m = (Some a, m') \<Longrightarrow>
       live_mallocs P (hidden m) a = None \<and> live_mallocs P (hidden m') a \<noteq> None"
    "only_adds P m (rte_mbuf_ext_refcnt_set P sh i m)"
    "rte_compressdev_private_xform_create P d xf m = ((r, px), m') \<Longrightarrow> only_adds P m m'"
    "rte_compressdev_private_xform_create P d xf m = ((r, px), m') \<Longrightarrow> 0 \<le> r \<Longrightarrow>
       \<exists>x. px = Some x \<and> xforms P (hidden m') x = Some xf"
    "rte_compressdev_configure P d socket q m = (r, m') \<Longrightarrow> only_adds P m m'"
    "rte_compressdev_queue_pair_setup P d q n' socket m = (r, m') \<Longrightarrow> only_adds P m m'"
    "rte_compressdev_queue_pair_setup P d q n' socket m = (r, m') \<Longrightarrow> 0 \<le> r \<Longrightarrow>
       inflight P (hidden m') = set_inflight [] d q (inflight P (hidden m))"
    "rte_compressdev_start P d m = (r, m') \<Longrightarrow> only_adds P m m'"
    "rte_compressdev_start P d m = (r, m') \<Longrightarrow> inflight P (hidden m') = inflight P (hidden m)"
proof -
  note L = assms [unfolded setup_laws_def]
  note L2 = L [THEN conjunct2] and L3 = L [THEN conjunct2, THEN conjunct2]
  note L4 = L3 [THEN conjunct2] and L5 = L3 [THEN conjunct2, THEN conjunct2]
  note L6 = L5 [THEN conjunct2] and L7 = L5 [THEN conjunct2, THEN conjunct2]
  note L8 = L7 [THEN conjunct2]
  show "rte_pktmbuf_pool_create P n k socket m = (p, m') \<Longrightarrow> only_adds P m m'"
    using L [THEN conjunct1] by blast
  show "rte_comp_op_pool_create P n k socket m = (p, m') \<Longrightarrow> only_adds P m m'"
    using L2 [THEN conjunct1] by blast
  show "rte_zmalloc_socket P n' socket m = (p, m') \<Longrightarrow> only_adds P m m'"
    "rte_zmalloc_socket P n' socket m = (Some a, m') \<Longrightarrow>
       live_mallocs P (hidden m) a = None \<and> live_mallocs P (hidden m') a \<noteq> None"
    using L3 [THEN conjunct1] by blast+
  show "only_adds P m (rte_mbuf_ext_refcnt_set P sh i m)" using L4 [THEN conjunct1] by blast
  show "rte_compressdev_private_xform_create P d xf m = ((r, px), m') \<Longrightarrow> only_adds P m m'"
    "rte_compressdev_private_xform_create P d xf m = ((r, px), m') \<Longrightarrow> 0 \<le> r \<Longrightarrow>
       \<exists>x. px = Some x \<and> xforms P (hidden m') x = Some xf"
    using L5 [THEN conjunct1] by blast+
  show "rte_compressdev_configure P d socket q m = (r, m') \<Longrightarrow> only_adds P m m'"
    using L6 [THEN conjunct1] by blast
  show "rte_compressdev_queue_pair_setup P d q n' socket m = (r, m') \<Longrightarrow> only_adds P m m'"
    "rte_compressdev_queue_pair_setup P d q n' socket m = (r, m') \<Longrightarrow> 0 \<le> r \<Longrightarrow>
       inflight P (hidden m') = set_inflight [] d q (inflight P (hidden m))"
    using L7 [THEN conjunct1] by blast+
  show "rte_compressdev_start P d m = (r, m') \<Longrightarrow> only_adds P m m'"
    "rte_compressdev_start P d m = (r, m') \<Longrightarrow> inflight P (hidden m') = inflight P (hidden m)"
    using L8 by blast+
qed

subsection \<open>Preallocate of a queue pair\<close>

text \<open>The sizes of the arrays, for chains of one mbuf.\<close>

lemma unat_u32_add: "unat (x + y :: u32) = unat x + unat y" if "unat x + unat y < 2 ^ 32"
  using that by (simp add: unat_word_ariths)

lemma array_sizes:
  assumes "max_sgl_segs c = 1"
  shows "unat (num_mbufs_in_burst c) = 2 * unat (burst_size c)"
    and "2 * unat (burst_size c) \<le> unat (ucast (burst_size c) + num_ops_in_pool rc c)"
proof -
  let ?b = "unat (burst_size c)" and ?n = "num_mbufs_in_burst c" and ?pool = "num_mbufs_in_pool rc c"
  have b: "?b < 65536" by (rule unat_u16_less)
  have ub: "unat (ucast (burst_size c) :: u32) = ?b" using b by (simp add: unsigned_ucast_eq take_bit_nat_eq_self)
  have "?n = ucast (burst_size c) + ucast (burst_size c)" using assms by (simp add: num_mbufs_in_burst_def)
  then show n: "unat ?n = 2 * ?b" using b unat_u32_add [of "ucast (burst_size c)" "ucast (burst_size c)"] ub by simp
  have le: "unat (min x y) \<le> unat x" "unat (min x y) \<le> unat y" for x y :: u32
    by (simp_all add: min_def word_le_nat_alt)
  have two: "?n * word_of_nat kCacheSizeAmplifier = ?n + ?n" by (simp add: kCacheSizeAmplifier_def)
  have cache: "unat (mbuf_pool_cache_size rc c) \<le> 4 * ?b"
    using le(1) [of "?n + ?n"] unat_u32_add [of ?n ?n] n b by (simp add: mbuf_pool_cache_size_def two)
  have inflight: "unat (num_inflight_mbufs c) \<le> 8192"
    using le(2) [of "?n * word_of_nat kMaxInflightOps" "word_of_nat kMaxInflightMbufs"]
    by (simp add: num_inflight_mbufs_def kMaxInflightMbufs_def kMaxInflightOps_def)
  have sum1: "unat (num_inflight_mbufs c + mbuf_pool_cache_size rc c) =
      unat (num_inflight_mbufs c) + unat (mbuf_pool_cache_size rc c)"
    using cache inflight b by (intro unat_u32_add) simp
  have sum: "unat ?pool = unat (num_inflight_mbufs c) + unat (mbuf_pool_cache_size rc c) + 2 * ?b"
    unfolding num_mbufs_in_pool_def using cache inflight b sum1 n by (subst unat_u32_add) simp_all
  have "num_ops_in_pool rc c = ?pool div 2" using assms by (simp add: num_ops_in_pool_def)
  then have ops: "unat (num_ops_in_pool rc c) = unat ?pool div 2" by (simp add: unat_div_distrib)
  then have "?b \<le> unat (num_ops_in_pool rc c)" using sum by simp
  moreover have "unat (num_ops_in_pool rc c) < 2 ^ 31" using ops sum cache inflight b by simp
  ultimately show "2 * ?b \<le> unat (ucast (burst_size c) + num_ops_in_pool rc c)"
    using ub b by (subst unat_u32_add) simp_all
qed

text \<open>
  The steps of \<open>Preallocate\<close>: they change the queue pair memory and add to the machine. What
  an allocation stores is the new pointer, or \<open>Preallocate\<close> ends.
\<close>

definition set_up_from :: "('w, 'p) dpdk_scheme \<Rightarrow> 'w qp_state \<Rightarrow> 'w qp_state \<Rightarrow> bool" where
  "set_up_from P s t \<longleftrightarrow> only_adds P (mach (wld s)) (mach (wld t)) \<and>
     t = s\<lparr>qp := qp t, wld := (wld s)\<lparr>mach := mach (wld t)\<rparr>\<rparr>"

lemma set_up_step:
  assumes "set_up_from P s t" "only_adds P (mach (wld t)) m"
  shows "set_up_from P s (t\<lparr>wld := (wld t)\<lparr>mach := m\<rparr>, qp := q\<rparr>)"
proof -
  have t: "t = s\<lparr>qp := qp t, wld := (wld s)\<lparr>mach := mach (wld t)\<rparr>\<rparr>" using assms(1) by (simp add: set_up_from_def)
  have "t\<lparr>wld := (wld t)\<lparr>mach := m\<rparr>, qp := q\<rparr> = s\<lparr>qp := q, wld := (wld s)\<lparr>mach := m\<rparr>\<rparr>"
    by (subst t, subst (2) t) simp
  moreover have "only_adds P (mach (wld s)) m"
    using assms only_adds_trans unfolding set_up_from_def by blast
  ultimately show ?thesis by (simp add: set_up_from_def)
qed

lemma set_up_refl: "set_up_from P s s"
  by (simp add: set_up_from_def)

lemma wp_allocate:
  assumes "set_up_from P s t" "\<And>p m'. f (mach (wld t)) = (p, m') \<Longrightarrow> only_adds P (mach (wld t)) m'"
    and k: "\<And>a u. f (mach (wld t)) = (Some a, mach (wld u)) \<Longrightarrow> set_up_from P s u \<Longrightarrow>
      qp u = g (Some a) (qp t) \<Longrightarrow> wp (k (Some a) ()) Q (\<lambda>_. set_up_from P s) u"
  shows "wp (seq (on_mach f) (\<lambda>p. seq (upd_qp (g p)) (\<lambda>_. seq (non_null msg p) (k p)))) Q (\<lambda>_. set_up_from P s) t"
proof -
  obtain p m' where f: "f (mach (wld t)) = (p, m')" by fastforce
  let ?u = "t\<lparr>wld := (wld t)\<lparr>mach := m'\<rparr>, qp := g p (qp t)\<rparr>"
  have u: "set_up_from P s ?u" by (rule set_up_step [OF assms(1) assms(2) [OF f]])
  show ?thesis
  proof (cases p)
    case None
    then show ?thesis using f u by (simp add: wp_def seq_def on_mach_def upd_qp_def non_null_def)
  next
    case (Some a)
    have "wp (k (Some a) ()) Q (\<lambda>_. set_up_from P s) ?u" using f u Some by (intro k) simp_all
    then show ?thesis using f Some by (simp add: wp_def seq_def on_mach_def upd_qp_def non_null_def)
  qed
qed

lemma wp_shared_info:
  assumes laws: "setup_laws P" and t: "set_up_from P s t"
    and k: "\<And>a u. live_mallocs P (hidden (mach (wld t))) a = None \<Longrightarrow>
      live_mallocs P (hidden (mach (wld u))) a \<noteq> None \<Longrightarrow> set_up_from P s u \<Longrightarrow>
      qp u = g (Some a) (qp t) \<Longrightarrow> wp (k ()) Q (\<lambda>_. set_up_from P s) u"
  shows "wp (seq (alloc_shared_info P socket msg g) k) Q (\<lambda>_. set_up_from P s) t"
  unfolding alloc_shared_info_def seq_assoc
proof (rule wp_allocate [OF t setup_lawsD(3) [OF laws]])
  fix a u assume z: "rte_zmalloc_socket P (sizeof_shared_info P) socket (mach (wld t)) = (Some a, mach (wld u))"
    and u: "set_up_from P s u" "qp u = g (Some a) (qp t)"
  let ?m = "rte_mbuf_ext_refcnt_set P a 0 (mach (wld u))" and ?v = "\<lambda>m. u\<lparr>wld := (wld u)\<lparr>mach := m\<rparr>, qp := qp u\<rparr>"
  note Z = setup_lawsD(4) [OF laws z]
  have add: "only_adds P (mach (wld u)) ?m" by (rule setup_lawsD(5) [OF laws])
  have v: "set_up_from P s (?v ?m)" by (rule set_up_step [OF u(1) add])
  have "live_mallocs P (hidden ?m) a \<noteq> None" using Z add by (simp add: only_adds_def)
  then have "wp (k ()) Q (\<lambda>_. set_up_from P s) (?v ?m)" using Z v u(2) by (intro k) simp_all
  moreover have "?v m = u\<lparr>wld := (wld u)\<lparr>mach := m\<rparr>\<rparr>" for m by (cases u) simp
  ultimately show "wp (seq (do_mach (rte_mbuf_ext_refcnt_set P (the (Some a)) 0)) k) Q (\<lambda>_. set_up_from P s) u"
    by (simp add: do_mach_def)
qed

lemma wp_private_xform:
  assumes laws: "setup_laws P" and t: "set_up_from P s t"
    and k: "\<And>x u. xforms P (hidden (mach (wld u))) x = Some xf \<Longrightarrow> only_adds P (mach (wld t)) (mach (wld u)) \<Longrightarrow>
      set_up_from P s u \<Longrightarrow> qp u = g (Some x) (qp t) \<Longrightarrow> Q () u"
  shows "wp (create_private_xform P xf msg g) Q (\<lambda>_. set_up_from P s) t"
proof -
  obtain r p m' where x: "rte_compressdev_private_xform_create P (qm_device_id (qp t)) xf (mach (wld t)) = ((r, p), m')"
    by (metis surj_pair)
  note X = setup_lawsD(6,7) [OF laws x]
  show ?thesis
  proof (cases "r < 0")
    case True
    have "t\<lparr>wld := (wld t)\<lparr>mach := m'\<rparr>, qp := qp t\<rparr> = t\<lparr>wld := (wld t)\<lparr>mach := m'\<rparr>\<rparr>"
      by (cases t) simp
    then show ?thesis
      using set_up_step [OF t X(1), of "qp t"] x True
      by (simp add: create_private_xform_def wp_def seq_def on_mach_def get_def throw_def)
  next
    case False
    then obtain a where a: "p = Some a" "xforms P (hidden m') a = Some xf" using X(2) by auto
    have "Q () (t\<lparr>wld := (wld t)\<lparr>mach := m'\<rparr>, qp := g (Some a) (qp t)\<rparr>)"
      by (intro k set_up_step [OF t X(1)]) (simp_all add: a X(1))
    then show ?thesis
      using x a(1) False
      by (simp add: create_private_xform_def wp_def seq_def on_mach_def get_def upd_qp_def)
  qed
qed

text \<open>
  A queue pair memory after \<open>Preallocate\<close>: it is ready, idle, and its private transforms are
  registered for the transforms of the configuration.
\<close>

definition qp_idle :: "('w, 'p) dpdk_scheme \<Rightarrow> configuration \<Rightarrow> queue_pair_memory \<Rightarrow> 'w machine \<Rightarrow> bool" where
  "qp_idle P c q m \<longleftrightarrow> qp_ready c q \<and> pending_operations q = [] \<and> num_ops_assembled q = 0 \<and>
     xforms P (hidden m) (the (private_xform_compress q)) = Some (compress_xform c) \<and>
     xforms P (hidden m) (the (private_xform_decompress q)) = Some (decompress_xform c)"

lemma only_adds_xform:
  "only_adds P m m' \<Longrightarrow> xforms P (hidden m) x = Some xf \<Longrightarrow> xforms P (hidden m') x = Some xf"
  unfolding only_adds_def map_le_def by (metis domI)

lemma qp_idle_mono: "qp_idle P c q m \<Longrightarrow> only_adds P m m' \<Longrightarrow> qp_idle P c q m'"
  unfolding qp_idle_def only_adds_def map_le_def by (metis domI)

lemma wp_guarded:
  "set_up_from P s t \<Longrightarrow> (b \<Longrightarrow> wp (k ()) Q (\<lambda>_. set_up_from P s) t) \<Longrightarrow>
   wp (seq (guard b ft) k) Q (\<lambda>_. set_up_from P s) t"
  by simp

lemma qp_Preallocate_ready:
  assumes laws: "setup_laws P" and c: "max_sgl_segs c = 1" "burst_size c \<noteq> 0"
    and new: "qp s = new_QueuePairMemory d i"
  shows "wp (qp_Preallocate P rc c) (\<lambda>_ t. set_up_from P s t \<and> qp_idle P c (qp t) (mach (wld t)))
    (\<lambda>_. set_up_from P s) s"
proof -
  note size = array_sizes [OF c(1)]
  have b: "0 < unat (burst_size c)" using c(2) by (simp add: unat_gt_0)
  let ?n = "unat (ucast (burst_size c) + num_ops_in_pool rc c)" and ?k = "unat (num_mbufs_in_burst c)"
  have lt: "unat (burst_size c) < ?n" using size(2) [of rc] b by linarith
  show ?thesis
    unfolding qp_Preallocate_def Let_def wp_simps(1) [of "get _"] wp_simps(4)
    apply (split if_split)
    apply (intro conjI impI)
     apply (simp add: set_up_refl)
    apply (rule wp_guarded [OF set_up_refl])
    apply (rule wp_allocate [OF set_up_refl setup_lawsD(1) [OF laws]], assumption)
    apply (rule wp_guarded, assumption)
    apply (erule wp_allocate, rule setup_lawsD(2) [OF laws], assumption)
    apply (erule wp_allocate, rule setup_lawsD(3) [OF laws], assumption)
    apply (erule wp_allocate, rule setup_lawsD(3) [OF laws], assumption)
    apply (erule wp_shared_info [OF laws])
    apply (erule wp_shared_info [OF laws])
    apply (rule wp_seqI)
    apply (erule wp_private_xform [OF laws])
    apply (erule wp_private_xform [OF laws])
    apply (rule conjI, assumption)
    apply (use size lt in \<open>auto simp: qp_idle_def qp_ready_def new new_QueuePairMemory_def dest: only_adds_xform\<close>)
    done
qed

subsection \<open>Initialize\<close>

lemma dm_ok_only_adds:
  assumes "dm_ok P c (d, w)" "only_adds P (mach w) m"
  shows "dm_ok P c (d, w\<lparr>mach := m\<rparr>)"
proof -
  have "mz_ok P (w\<lparr>mach := m\<rparr>)" using assms by (simp add: dm_ok_def mz_ok_def only_adds_def)
  then show ?thesis
    using assms(1) own_zone_cong [of "w\<lparr>mach := m\<rparr>" w] by (simp add: dm_ok_def)
qed

text \<open>
  From \<open>s\<close> to \<open>t\<close> queue pair memories may have been made and the machine added to.
\<close>

definition dev_set_up_from :: "('w, 'p) dpdk_scheme \<Rightarrow> 'w dev_state \<Rightarrow> 'w dev_state \<Rightarrow> bool" where
  "dev_set_up_from P s t \<longleftrightarrow> only_adds P (mach (env s)) (mach (env t)) \<and>
     env t = (env s)\<lparr>mach := mach (env t)\<rparr> \<and>
     dev t = (dev s)\<lparr>qp_memory := qp_memory (dev t)\<rparr>"

lemma dev_set_up_refl [simp]: "dev_set_up_from P s s"
  by (simp add: dev_set_up_from_def)

lemma dev_set_up_trans:
  assumes "dev_set_up_from P s t" "dev_set_up_from P t u"
  shows "dev_set_up_from P s u"
proof -
  have "env u = (env s)\<lparr>mach := mach (env u)\<rparr>"
    using assms unfolding dev_set_up_from_def by (metis world.update_convs(1) world.fold_congs(1) world.surjective world.select_convs(1))
  moreover have "dev u = (dev s)\<lparr>qp_memory := qp_memory (dev u)\<rparr>"
    using assms unfolding dev_set_up_from_def by (metis (mono_tags, lifting) compress_device.surjective compress_device.update_convs(6))
  ultimately show ?thesis
    using assms only_adds_trans unfolding dev_set_up_from_def by blast
qed

lemma dev_set_upD:
  assumes "dev_set_up_from P s t"
  shows "device_id (dev t) = device_id (dev s)" "num_qps (dev t) = num_qps (dev s)"
    "device_configuration (dev t) = device_configuration (dev s)" "device_mem (dev t) = device_mem (dev s)"
    "allocated_memzones (env t) = allocated_memzones (env s)" "only_adds P (mach (env s)) (mach (env t))"
    "dm_ok P c (d, env s) \<Longrightarrow> dm_ok P c (d, env t)" "device_state (dev t) = device_state (dev s)"
proof -
  have d: "dev t = (dev s)\<lparr>qp_memory := qp_memory (dev t)\<rparr>"
    and e: "env t = (env s)\<lparr>mach := mach (env t)\<rparr>" and a: "only_adds P (mach (env s)) (mach (env t))"
    using assms by (simp_all add: dev_set_up_from_def)
  show "device_state (dev t) = device_state (dev s)" using arg_cong [OF d, of device_state] by simp
  show "device_id (dev t) = device_id (dev s)" using arg_cong [OF d, of device_id] by simp
  show "num_qps (dev t) = num_qps (dev s)" using arg_cong [OF d, of worker_lcores] by (simp add: num_qps_def)
  show "device_configuration (dev t) = device_configuration (dev s)"
    using arg_cong [OF d, of device_configuration] by simp
  show "device_mem (dev t) = device_mem (dev s)" using arg_cong [OF d, of device_mem] by simp
  show "allocated_memzones (env t) = allocated_memzones (env s)" using arg_cong [OF e, of allocated_memzones] by simp
  show "only_adds P (mach (env s)) (mach (env t))" by (rule a)
  show "dm_ok P c (d, env t)" if "dm_ok P c (d, env s)"
    using dm_ok_only_adds [OF that a] e by simp
qed

text \<open>One queue pair memory is made and preallocated.\<close>

lemma preallocate_one:
  assumes laws: "setup_laws P" and c: "max_sgl_segs c = 1" "burst_size c \<noteq> 0"
    and dm: "device_mem (dev s) = Some dm"
    and new: "qp_memory (dev s) = qs @ [new_QueuePairMemory d i]"
  shows "pwp (with_qp_memory (length qs) (total (qp_Preallocate P rc c)))
    (\<lambda>_ t. dev_set_up_from P s t \<and> (\<exists>q. qp_memory (dev t) = qs @ [q] \<and> qp_idle P c q (mach (env t))))
    (\<lambda>_ t. dev_set_up_from P s t) s"
proof -
  let ?v = "qp_view (dev s) (length qs) dm (env s)"
  have lt: "length qs < length (qp_memory (dev s))" using new by simp
  have nw: "qp ?v = new_QueuePairMemory d i" using new by (simp add: qp_view_def)
  have st: "dev_set_up_from P s (qp_store (length qs) t s)" "qp_memory (dev (qp_store (length qs) t s)) = qs @ [qp t]"
    if "set_up_from P ?v t" for t
  proof -
    have t: "t = ?v\<lparr>qp := qp t, wld := (wld ?v)\<lparr>mach := mach (wld t)\<rparr>\<rparr>" "only_adds P (mach (wld ?v)) (mach (wld t))"
      using that by (simp_all add: set_up_from_def)
    have "dmem t = dm" using arg_cong [OF t(1), of dmem] by (simp add: qp_view_def)
    moreover have "wld t = (env s)\<lparr>mach := mach (wld t)\<rparr>" using arg_cong [OF t(1), of wld] by (simp add: qp_view_def)
    moreover have "only_adds P (mach (env s)) (mach (wld t))" using t(2) by (simp add: qp_view_def)
    ultimately show "dev_set_up_from P s (qp_store (length qs) t s)"
      using dm by (simp add: dev_set_up_from_def qp_store_def)
    show "qp_memory (dev (qp_store (length qs) t s)) = qs @ [qp t]" using new by (simp add: qp_store_def)
  qed
  show ?thesis
    unfolding with_qp_memory_pwp(1) [OF lt dm] pwp_simps
  proof (rule wp_mono [OF qp_Preallocate_ready [OF laws c nw]])
    fix t assume t: "set_up_from P ?v t \<and> qp_idle P c (qp t) (mach (wld t))"
    then show "dev_set_up_from P s (qp_store (length qs) t s) \<and>
        (\<exists>q. qp_memory (dev (qp_store (length qs) t s)) = qs @ [q] \<and> qp_idle P c q (mach (env (qp_store (length qs) t s))))"
      using st [of t] by (simp add: qp_store_def)
  qed (use st in blast)
qed

definition all_idle :: "('w, 'p) dpdk_scheme \<Rightarrow> configuration \<Rightarrow> 'w dev_state \<Rightarrow> bool" where
  "all_idle P c s \<longleftrightarrow> (\<forall>q \<in> set (qp_memory (dev s)). qp_idle P c q (mach (env s)))"

lemma preallocate_qps_ready:
  assumes laws: "setup_laws P" and c: "max_sgl_segs c = 1" "burst_size c \<noteq> 0"
    and "device_mem (dev s) = Some dm" "all_idle P c s"
  shows "pwp (preallocate_qps P rc c left i)
    (\<lambda>_ t. dev_set_up_from P s t \<and> length (qp_memory (dev t)) = length (qp_memory (dev s)) + left \<and> all_idle P c t)
    (\<lambda>_ t. dev_set_up_from P s t) s"
  using assms(4,5)
proof (induction left arbitrary: i s)
  case 0
  then show ?case by (simp add: pwp_def total_def return_def)
next
  case (Suc left)
  let ?qs = "qp_memory (dev s)" and ?q = "new_QueuePairMemory (device_id (dev s)) i"
  let ?s = "s\<lparr>dev := (dev s)\<lparr>qp_memory := ?qs @ [?q]\<rparr>\<rparr>"
  have dm: "device_mem (dev ?s) = Some dm" using Suc.prems by simp
  have new: "qp_memory (dev ?s) = ?qs @ [?q]" by simp
  have s: "dev_set_up_from P s ?s" by (simp add: dev_set_up_from_def)
  have one: "pwp (\<lambda>s. with_qp_memory (length (qp_memory (dev s)) - 1) (total (qp_Preallocate P rc c)) s) Q E ?s =
      pwp (with_qp_memory (length ?qs) (total (qp_Preallocate P rc c))) Q E ?s" for Q E
    by (simp add: pwp_def)
  have "pwp (\<lambda>s. with_qp_memory (length (qp_memory (dev s)) - 1) (total (qp_Preallocate P rc c)) s)
      (\<lambda>_. pwp (preallocate_qps P rc c left (i + 1))
        (\<lambda>_ t. dev_set_up_from P s t \<and> length (qp_memory (dev t)) = length ?qs + Suc left \<and> all_idle P c t)
        (\<lambda>_ t. dev_set_up_from P s t))
      (\<lambda>_ t. dev_set_up_from P s t) ?s"
    unfolding one
  proof (rule pwp_mono [OF preallocate_one [OF laws c dm new]])
    fix t assume t: "dev_set_up_from P ?s t \<and> (\<exists>q. qp_memory (dev t) = ?qs @ [q] \<and> qp_idle P c q (mach (env t)))"
    then have st: "dev_set_up_from P s t" using dev_set_up_trans [OF s] by blast
    have "all_idle P c t"
      using t Suc.prems(2) dev_set_upD(6) [OF st] by (auto simp: all_idle_def intro: qp_idle_mono)
    moreover have "device_mem (dev t) = Some dm" using dev_set_upD(4) [OF st] Suc.prems(1) by simp
    ultimately have IH: "pwp (preallocate_qps P rc c left (i + 1))
        (\<lambda>_ u. dev_set_up_from P t u \<and> length (qp_memory (dev u)) = length (qp_memory (dev t)) + left \<and> all_idle P c u)
        (\<lambda>_ u. dev_set_up_from P t u) t" using Suc.IH by blast
    show "pwp (preallocate_qps P rc c left (i + 1))
        (\<lambda>_ t. dev_set_up_from P s t \<and> length (qp_memory (dev t)) = length ?qs + Suc left \<and> all_idle P c t)
        (\<lambda>_ t. dev_set_up_from P s t) t"
      by (rule pwp_mono [OF IH]) (use t dev_set_up_trans [OF st] in auto)
  qed (use dev_set_up_trans [OF s] in blast)
  then show ?case by (simp add: upd_dev_def)
qed

text \<open>The queue pairs that are set up are empty.\<close>

lemma setup_queue_pairs_empty:
  assumes laws: "setup_laws P" and "unat i + left < 2 ^ 16"
    and "\<forall>q < i. inflight P (hidden (mach (env s))) (device_id (dev s)) q = []"
  shows "wp (setup_queue_pairs P socket left i)
    (\<lambda>_ t. dev t = dev s \<and> dev_set_up_from P s t \<and>
       (\<forall>q. unat q < unat i + left \<longrightarrow> inflight P (hidden (mach (env t))) (device_id (dev s)) q = []))
    (\<lambda>_ t. dev t = dev s \<and> dev_set_up_from P s t) s"
  using assms(2,3)
proof (induction left arbitrary: i s)
  case 0
  then show ?case by (simp add: word_less_nat_alt)
next
  case (Suc left)
  let ?d = "device_id (dev s)"
  obtain r m where su: "rte_compressdev_queue_pair_setup P ?d i kMaxInflightOps socket (mach (env s)) = (r, m)"
    by fastforce
  let ?s = "s\<lparr>env := (env s)\<lparr>mach := m\<rparr>\<rparr>"
  have s: "dev_set_up_from P s ?s" using setup_lawsD(9) [OF laws su] by (simp add: dev_set_up_from_def)
  have i1: "unat (i + 1) = Suc (unat i)" using Suc.prems(1) by (simp add: unat_word_ariths)
  have step: "wp (setup_queue_pairs P socket left (i + 1))
    (\<lambda>_ t. dev t = dev s \<and> dev_set_up_from P s t \<and>
       (\<forall>q. unat q < unat i + Suc left \<longrightarrow> inflight P (hidden (mach (env t))) ?d q = []))
    (\<lambda>_ t. dev t = dev s \<and> dev_set_up_from P s t) ?s" if "0 \<le> r"
  proof -
    have "inflight P (hidden m) = set_inflight [] ?d i (inflight P (hidden (mach (env s))))"
      by (rule setup_lawsD(10) [OF laws su that])
    then have "\<forall>q < i + 1. inflight P (hidden (mach (env ?s))) (device_id (dev ?s)) q = []"
      using Suc.prems(2) i1 by (auto simp: set_inflight_def word_less_nat_alt less_Suc_eq word_unat_eq_iff)
    moreover have "unat (i + 1) + left < 2 ^ 16" using Suc.prems(1) i1 by simp
    ultimately have IH: "wp (setup_queue_pairs P socket left (i + 1))
      (\<lambda>_ t. dev t = dev ?s \<and> dev_set_up_from P ?s t \<and>
       (\<forall>q. unat q < unat (i + 1) + left \<longrightarrow> inflight P (hidden (mach (env t))) (device_id (dev ?s)) q = []))
      (\<lambda>_ t. dev t = dev ?s \<and> dev_set_up_from P ?s t) ?s" using Suc.IH by blast
    show ?thesis by (rule wp_mono [OF IH]) (use dev_set_up_trans [OF s] i1 in auto)
  qed
  show ?case
  proof (cases "r < 0")
    case True
    then show ?thesis using su s by (simp add: wp_def seq_def get_def dev_mach_def throw_def)
  next
    case False
    show ?thesis
    proof (cases "LcoreOf (dev ?s) i")
      case (Inl e)
      then show ?thesis using su s False by (simp add: wp_def seq_def get_def dev_mach_def)
    next
      case (Inr l)
      have "setup_queue_pairs P socket (Suc left) i s = setup_queue_pairs P socket left (i + 1) ?s"
        using su False Inr by (simp add: seq_def get_def dev_mach_def)
      then show ?thesis using step False by (simp only: wp_def)
    qed
  qed
qed

text \<open>
  A device that is ready for calls: started, with a device memory in order, none of whose
  memzones is in use, and all its queue pairs idle and empty.
\<close>

definition device_ready :: "('w, 'p) dpdk_scheme \<Rightarrow> configuration \<Rightarrow> device_memory \<Rightarrow> 'w dev_state \<Rightarrow> bool" where
  "device_ready P c dm s \<longleftrightarrow>
     device_state (dev s) = kStarted \<and> device_configuration (dev s) = Some c \<and>
     device_mem (dev s) = Some dm \<and> dm_ok P c (dm, env s) \<and>
     length (qp_memory (dev s)) = unat (num_qps (dev s)) \<and> all_idle P c s \<and>
     (\<forall>q < num_qps (dev s). inflight P (hidden (mach (env s))) (device_id (dev s)) q = [])"

text \<open>A device that refuses every call.\<close>

definition refuses :: "'w dev_state \<Rightarrow> bool" where
  "refuses s \<longleftrightarrow> (\<forall>q. EntryGuard (dev s) q = Inl (Status Invalid ''Compress device ''))"

lemma refuses_below: "device_state (dev s) < kStarted \<Longrightarrow> refuses s"
  by (simp add: refuses_def EntryGuard_def)

lemma dm_books_machine: "dm_books c w0 d w \<Longrightarrow> dm_books c w0 d (w\<lparr>mach := m\<rparr>)"
  by (simp add: dm_books_def bytes_allocated_def)

text \<open>The device memory is what \<open>Preallocate\<close> has made.\<close>

definition preallocated ::
  "('w, 'p) dpdk_scheme \<Rightarrow> configuration \<Rightarrow> u8 \<Rightarrow> 'w world \<Rightarrow> device_memory \<Rightarrow> bool" where
  "preallocated P c dev_id w0 dm \<longleftrightarrow> (\<exists>w. dm_Preallocate P c (new_DeviceMemory dev_id) w0 = (OK, dm, w))"

lemma PreAllocateMemory_ready:
  assumes laws: "setup_laws P" and c: "max_sgl_segs c = 1" "burst_size c \<noteq> 0" "0 < compressed_seg_size c"
    and s: "device_mem (dev s) = None" "qp_memory (dev s) = []" "mz_ok P (env s)"
  shows "pwp (PreAllocateMemory P rc c)
    (\<lambda>_ t. \<exists>dm. device_mem (dev t) = Some dm \<and> dm_ok P c (dm, env t) \<and> occupied_memzones dm = [] \<and>
       dm_books c (env s) dm (env t) \<and> all_idle P c t \<and> length (qp_memory (dev t)) = unat (num_qps (dev s)) \<and>
       dev t = (dev s)\<lparr>device_mem := Some dm, qp_memory := qp_memory (dev t)\<rparr> \<and>
       preallocated P c (device_id (dev s)) (env s) dm)
    (\<lambda>_ t. device_state (dev t) = device_state (dev s)) s"
proof -
  let ?new = "new_DeviceMemory (device_id (dev s))"
  obtain r dm w where p: "dm_Preallocate P c ?new (env s) = (r, dm, w)" by (cases "dm_Preallocate P c ?new (env s)")
  note D = dm_Preallocate_ok [OF p s(3) c(2,3)]
  let ?t = "s\<lparr>dev := (dev s)\<lparr>device_mem := Some dm\<rparr>, env := w\<rparr>"
  have run: "pwp (PreAllocateMemory P rc c) Q E s =
      (case r of Inl e \<Rightarrow> E e ?t | Inr _ \<Rightarrow> pwp (preallocate_qps P rc c (unat (num_qps (dev s))) 0) Q E ?t)" for Q E
    using s(1) p by (cases r)
      (simp_all add: PreAllocateMemory_def replace_device_memory_def preallocate_device_memory_def wp_def num_qps_def)
  show ?thesis
  proof (cases r)
    case (Inl e)
    then show ?thesis unfolding run by simp
  next
    case (Inr x)
    have "device_mem (dev ?t) = Some dm" "all_idle P c ?t" using s(2) by (simp_all add: all_idle_def)
    note Q = preallocate_qps_ready [OF laws c(1,2) this]
    show ?thesis
      unfolding run Inr sum.case
    proof (rule pwp_mono [OF Q])
      fix t assume t: "dev_set_up_from P ?t t \<and>
         length (qp_memory (dev t)) = length (qp_memory (dev ?t)) + unat (num_qps (dev s)) \<and> all_idle P c t"
      then have st: "dev_set_up_from P ?t t" by blast
      have "dm_ok P c (dm, env t)" using D(1) by (intro dev_set_upD(7) [OF st]) simp
      moreover have "dev t = (dev s)\<lparr>device_mem := Some dm, qp_memory := qp_memory (dev t)\<rparr>"
        using st by (simp add: dev_set_up_from_def)
      moreover have "env t = w\<lparr>mach := mach (env t)\<rparr>" using st by (simp add: dev_set_up_from_def)
      then have "dm_books c (env s) dm (env t)" using dm_books_machine [OF D(2)] by metis
      ultimately show "\<exists>dm. device_mem (dev t) = Some dm \<and> dm_ok P c (dm, env t) \<and> occupied_memzones dm = [] \<and>
         dm_books c (env s) dm (env t) \<and> all_idle P c t \<and> length (qp_memory (dev t)) = unat (num_qps (dev s)) \<and>
         dev t = (dev s)\<lparr>device_mem := Some dm, qp_memory := qp_memory (dev t)\<rparr> \<and>
         preallocated P c (device_id (dev s)) (env s) dm"
        using t s(2) D(3) dev_set_upD(4) [OF st] p Inr by (intro exI [of _ dm]) (simp add: preallocated_def)
    qed (use dev_set_upD(8) in fastforce)
  qed
qed

text \<open>The hardware part of \<open>Initialize\<close>.\<close>

definition start_device :: "('w, 'p) dpdk_scheme \<Rightarrow> ('w dev_state, unit) code" where
  "start_device P =
     seq (get (\<lambda>s. device_id (dev s))) (\<lambda>dev_id.
      seq (get (\<lambda>s. num_qps (dev s))) (\<lambda>n.
      let socket = rte_compressdev_socket_id P dev_id in
      seq (dev_mach (rte_compressdev_configure P dev_id socket n)) (\<lambda>ret.
      if ret < 0 then throw (Status Invalid ''Device configuration failed'')
      else
      seq (set_state kConfigured) (\<lambda>_.
      seq (setup_queue_pairs P socket (unat n) 0) (\<lambda>_.
      seq (dev_mach (rte_compressdev_start P dev_id)) (\<lambda>ret.
      if ret < 0 then throw (Status Invalid ''Failed to start device '')
      else set_state kStarted))))))"

lemma wp_dev [simp]:
  "wp (dev_mach f) Q E s = (case f (mach (env s)) of (x, m) \<Rightarrow> Q x (s\<lparr>env := (env s)\<lparr>mach := m\<rparr>\<rparr>))"
  "wp (set_state st) Q' E' s = Q' () (s\<lparr>dev := (dev s)\<lparr>device_state := st\<rparr>\<rparr>)"
  "wp (upd_dev g) Q' E' s = Q' () (s\<lparr>dev := g (dev s)\<rparr>)"
  by (simp_all add: dev_mach_def set_state_def upd_dev_def wp_def split: prod.splits)

lemma start_device_ready:
  assumes laws: "setup_laws P" and low: "device_state (dev s) < kStarted"
  shows "wp (start_device P)
    (\<lambda>_ t. dev t = (dev s)\<lparr>device_state := kStarted\<rparr> \<and> only_adds P (mach (env s)) (mach (env t)) \<and>
       env t = (env s)\<lparr>mach := mach (env t)\<rparr> \<and>
       (\<forall>q < num_qps (dev s). inflight P (hidden (mach (env t))) (device_id (dev s)) q = []))
    (\<lambda>_ t. device_state (dev t) < kStarted) s"
proof -
  let ?d = "device_id (dev s)" and ?n = "num_qps (dev s)"
  let ?socket = "rte_compressdev_socket_id P ?d"
  obtain r m where cf: "rte_compressdev_configure P ?d ?socket ?n (mach (env s)) = (r, m)" by fastforce
  let ?u = "s\<lparr>env := (env s)\<lparr>mach := m\<rparr>, dev := (dev s)\<lparr>device_state := kConfigured\<rparr>\<rparr>"
  have num: "num_qps (dev ?u) = ?n" by (simp add: num_qps_def)
  have conf: "kConfigured < kStarted" by (simp add: less_DeviceState_def)
  have "unat (0 :: u16) + unat ?n < 2 ^ 16" using unat_u16_less [of ?n] by simp
  moreover have "\<forall>q < 0. inflight P (hidden (mach (env ?u))) (device_id (dev ?u)) q = []" by simp
  ultimately have Q: "wp (setup_queue_pairs P ?socket (unat ?n) 0)
    (\<lambda>_ t. dev t = dev ?u \<and> dev_set_up_from P ?u t \<and>
       (\<forall>q. unat q < unat (0 :: u16) + unat ?n \<longrightarrow> inflight P (hidden (mach (env t))) (device_id (dev ?u)) q = []))
    (\<lambda>_ t. dev t = dev ?u \<and> dev_set_up_from P ?u t) ?u"
    by (rule setup_queue_pairs_empty [OF laws])
  have run: "wp (start_device P) R E s =
     (if r < 0 then E (Status Invalid ''Device configuration failed'') (s\<lparr>env := (env s)\<lparr>mach := m\<rparr>\<rparr>)
      else wp (setup_queue_pairs P ?socket (unat ?n) 0)
        (\<lambda>_. wp (seq (dev_mach (rte_compressdev_start P ?d)) (\<lambda>ret.
           if ret < 0 then throw (Status Invalid ''Failed to start device '') else set_state kStarted)) R E) E ?u)" for R E
    using cf by (simp add: start_device_def Let_def)
  show ?thesis
  proof (cases "r < 0")
    case True
    then show ?thesis unfolding run using low by simp
  next
    case False
    show ?thesis
      unfolding run if_not_P [OF False]
    proof (rule wp_mono [OF Q])
      fix t assume t: "dev t = dev ?u \<and> dev_set_up_from P ?u t \<and>
       (\<forall>q. unat q < unat (0 :: u16) + unat ?n \<longrightarrow> inflight P (hidden (mach (env t))) (device_id (dev ?u)) q = [])"
      obtain r' m' where st: "rte_compressdev_start P ?d (mach (env t)) = (r', m')" by fastforce
      have "only_adds P (mach (env s)) m" by (rule setup_lawsD(8) [OF laws cf])
      moreover have "only_adds P m (mach (env t))" using t by (simp add: dev_set_up_from_def)
      ultimately have add: "only_adds P (mach (env s)) m'"
        using setup_lawsD(11) [OF laws st] only_adds_trans by blast
      have "inflight P (hidden m') = inflight P (hidden (mach (env t)))" by (rule setup_lawsD(12) [OF laws st])
      moreover have "env t = (env s)\<lparr>mach := mach (env t)\<rparr>" using t by (simp add: dev_set_up_from_def)
      then have "(env t)\<lparr>mach := m'\<rparr> = (env s)\<lparr>mach := m'\<rparr>" by (metis world.surjective world.update_convs(1) world.fold_congs(1))
      ultimately show "wp (seq (dev_mach (rte_compressdev_start P ?d)) (\<lambda>ret.
           if ret < 0 then throw (Status Invalid ''Failed to start device '') else set_state kStarted))
         (\<lambda>_ t. dev t = (dev s)\<lparr>device_state := kStarted\<rparr> \<and> only_adds P (mach (env s)) (mach (env t)) \<and>
            env t = (env s)\<lparr>mach := mach (env t)\<rparr> \<and>
            (\<forall>q < ?n. inflight P (hidden (mach (env t))) ?d q = []))
         (\<lambda>_ t. device_state (dev t) < kStarted) t"
        using st add t conf
        by (simp add: word_less_nat_alt)
    qed (use conf in simp)
  qed
qed

lemma Initialize_unfold:
  "pwp (Initialize P rc (Some c0)) Q E s =
     (if config_type c0 \<noteq> kBlueFieldConfigurationTypeName then E (Status Invalid ''Configuration of type '') s
      else (case ValidateConfiguration P rc ((dev s)\<lparr>device_configuration := Some c0\<rparr>) c0 of
          None \<Rightarrow> True
        | Some (r, c) \<Rightarrow>
            (case r of
               Inl e \<Rightarrow> E e (s\<lparr>dev := (dev s)\<lparr>device_configuration := Some c\<rparr>\<rparr>)
             | Inr _ \<Rightarrow> pwp (pseq (PreAllocateMemory P rc c) (\<lambda>_. total (start_device P))) Q E
                 (s\<lparr>dev := (dev s)\<lparr>device_configuration := Some c\<rparr>\<rparr>))))"
proof -
  let ?valid = "\<lambda>s :: 'a dev_state. case device_configuration (dev s) of
             None \<Rightarrow> Some (Inl (Fault NullDereference), s)
           | Some c \<Rightarrow>
               map_option (\<lambda>(r, c). (r, s\<lparr>dev := (dev s)\<lparr>device_configuration := Some c\<rparr>\<rparr>))
                 (ValidateConfiguration P rc (dev s) c)"
  let ?alloc = "\<lambda>s. case device_configuration (dev s) of
             None \<Rightarrow> Some (Inl (Fault NullDereference), s)
           | Some c \<Rightarrow> PreAllocateMemory P rc c s"
  have eq: "Initialize P rc (Some c0) = pseq (total (set_configuration (Some c0))) (\<lambda>_. pseq ?valid
      (\<lambda>_. pseq ?alloc (\<lambda>_. total (start_device P))))"
    by (simp only: Initialize_def start_device_def)
  have alloc: "pwp ?alloc Q E s = pwp (PreAllocateMemory P rc c) Q E s"
    if "device_configuration (dev s) = Some c" for c s and Q :: "unit \<Rightarrow> 'a dev_state \<Rightarrow> bool" and E
    using that by (simp add: pwp_def)
  show ?thesis
  proof (cases "config_type c0 = kBlueFieldConfigurationTypeName")
    case False
    then show ?thesis unfolding eq by (simp add: set_configuration_def)
  next
    case True
    let ?s = "\<lambda>c. s\<lparr>dev := (dev s)\<lparr>device_configuration := Some c\<rparr>\<rparr>"
    have "pwp (Initialize P rc (Some c0)) Q E s = pwp ?valid
        (\<lambda>_. pwp ?alloc (\<lambda>_. wp (start_device P) Q E) E) E (?s c0)"
      unfolding eq using True by (simp add: set_configuration_def pwp_simps(1) [abs_def])
    also have "\<dots> = (case ValidateConfiguration P rc (dev (?s c0)) c0 of None \<Rightarrow> True
        | Some (r, c) \<Rightarrow> (case r of Inl e \<Rightarrow> E e (?s c)
             | Inr _ \<Rightarrow> pwp ?alloc (\<lambda>_. wp (start_device P) Q E) E (?s c)))"
      by (simp add: pwp_def split: option.splits sum.splits prod.splits)
    finally show ?thesis
      using True alloc [of "?s _"] by (simp split: option.splits sum.splits prod.splits)
  qed
qed

lemma Initialize_ready:
  assumes laws: "setup_laws P" and s: "device_mem (dev s) = None" "qp_memory (dev s) = []"
      "device_state (dev s) < kStarted" "mz_ok P (env s)"
    and c0: "max_sgl_segs c0 \<le> 1" "0 < compressed_seg_size c0"
  shows "pwp (Initialize P rc (Some c0))
    (\<lambda>_ t. \<exists>cap dm. rte_compressdev_capability_get P (device_id (dev s)) = Some cap \<and>
       acceptable P rc (dev s) cap c0 \<and> device_ready P (normalised cap c0) dm t \<and>
       occupied_memzones dm = [] \<and> dm_books c0 (env s) dm (env t) \<and> device_id (dev t) = device_id (dev s) \<and>
       worker_lcores (dev t) = worker_lcores (dev s) \<and>
       preallocated P (normalised cap c0) (device_id (dev s)) (env s) dm)
    (\<lambda>_ t. refuses t) s"
  unfolding Initialize_unfold
proof (split if_split, intro conjI impI)
  show "refuses s" by (rule refuses_below [OF s(3)])
  let ?v = "ValidateConfiguration P rc ((dev s)\<lparr>device_configuration := Some c0\<rparr>) c0"
  let ?s = "\<lambda>c. s\<lparr>dev := (dev s)\<lparr>device_configuration := Some c\<rparr>\<rparr>"
  let ?Q = "\<lambda>t. \<exists>cap dm. rte_compressdev_capability_get P (device_id (dev s)) = Some cap \<and>
       acceptable P rc (dev s) cap c0 \<and> device_ready P (normalised cap c0) dm t \<and>
       occupied_memzones dm = [] \<and> dm_books c0 (env s) dm (env t) \<and> device_id (dev t) = device_id (dev s) \<and>
       worker_lcores (dev t) = worker_lcores (dev s) \<and>
       preallocated P (normalised cap c0) (device_id (dev s)) (env s) dm"
  have refuse: "refuses (?s c)" for c using s(3) by (intro refuses_below) simp
  have run: "pwp (pseq (PreAllocateMemory P rc c) (\<lambda>_. total (start_device P))) (\<lambda>_. ?Q) (\<lambda>_. refuses) (?s c)"
    if v: "?v = Some (OK, c)" for c
  proof -
    obtain cap where cap: "rte_compressdev_capability_get P (device_id (dev s)) = Some cap"
      "acceptable P rc ((dev s)\<lparr>device_configuration := Some c0\<rparr>) cap c0" "c = normalised cap c0"
      using v unfolding ValidateConfiguration_iff by auto
    have acc: "acceptable P rc (dev s) cap c0" using cap(2) by (simp add: acceptable_def num_qps_def)
    have c: "max_sgl_segs c = 1" "burst_size c \<noteq> 0" "0 < compressed_seg_size c"
    proof -
      have "max_sgl_segs c0 = 0 \<or> max_sgl_segs c0 = 1" using c0(1) by (metis (no_types, opaque_lifting) order_antisym word_coorder.extremum word_gt_0 word_le_sub1 inc_le linorder_not_less add_0)
      then show "max_sgl_segs c = 1" by (auto simp: cap(3) normalised_def)
      show "burst_size c \<noteq> 0" "0 < compressed_seg_size c"
        using acc c0(2) by (simp_all add: cap(3) normalised_def acceptable_def)
    qed
    have "device_mem (dev (?s c)) = None" "qp_memory (dev (?s c)) = []" "mz_ok P (env (?s c))" using s by simp_all
    note M = PreAllocateMemory_ready [OF laws c this]
    show ?thesis
      unfolding pwp_simps
    proof (rule pwp_mono [OF M], elim exE conjE)
      fix t dm assume dm: "device_mem (dev t) = Some dm" "dm_ok P c (dm, env t)" "occupied_memzones dm = []"
        and books: "dm_books c (env (?s c)) dm (env t)"
        and idle: "all_idle P c t" "length (qp_memory (dev t)) = unat (num_qps (dev (?s c)))"
        and dev: "dev t = (dev (?s c))\<lparr>device_mem := Some dm, qp_memory := qp_memory (dev t)\<rparr>"
        and pre: "preallocated P c (device_id (dev (?s c))) (env (?s c)) dm"
      have same: "device_id (dev t) = device_id (dev s)" "worker_lcores (dev t) = worker_lcores (dev s)"
        "device_configuration (dev t) = Some c" "device_state (dev t) < kStarted"
        using arg_cong [OF dev, of device_id] arg_cong [OF dev, of worker_lcores]
          arg_cong [OF dev, of device_configuration] arg_cong [OF dev, of device_state] s(3) by simp_all
      show "wp (start_device P) (\<lambda>_. ?Q) (\<lambda>_. refuses) t"
      proof (rule wp_mono [OF start_device_ready [OF laws same(4)]])
        fix u :: "'a dev_state" assume u: "dev u = (dev t)\<lparr>device_state := kStarted\<rparr> \<and> only_adds P (mach (env t)) (mach (env u)) \<and>
         env u = (env t)\<lparr>mach := mach (env u)\<rparr> \<and>
         (\<forall>q < num_qps (dev t). inflight P (hidden (mach (env u))) (device_id (dev t)) q = [])"
        then have add: "only_adds P (mach (env t)) (mach (env u))" by blast
        have "dm_ok P c (dm, (env t)\<lparr>mach := mach (env u)\<rparr>)" by (rule dm_ok_only_adds [OF dm(2) add])
        then have "dm_ok P c (dm, env u)" using u by metis
        moreover have "all_idle P c u" using idle(1) u qp_idle_mono [OF _ add] by (simp add: all_idle_def)
        ultimately have "device_ready P c dm u"
          using u same dm(1) idle(2) by (simp add: device_ready_def num_qps_def)
        moreover have "dm_books c (env s) dm (env u)"
          using dm_books_machine [OF books, of "mach (env u)"] u by (metis dev_state.select_convs(2) dev_state.surjective dev_state.update_convs(1))
        then have "dm_books c0 (env s) dm (env u)" by (simp add: dm_books_def cap(3) normalised_def)
        ultimately show "?Q u" using u same cap(1,3) acc dm(3) pre by auto
      qed (rule refuses_below)
    qed (rule refuses_below, use s(3) in simp)
  qed
  show "case ?v of None \<Rightarrow> True | Some (r, c) \<Rightarrow> (case r of Inl e \<Rightarrow> refuses (?s c)
     | Inr _ \<Rightarrow> pwp (pseq (PreAllocateMemory P rc c) (\<lambda>_. total (start_device P))) (\<lambda>_. ?Q) (\<lambda>_. refuses) (?s c))"
    using refuse run by (cases ?v) (auto split: sum.splits)
qed

end
