(* ===== verification/Bitar_Sim_Calls.thy ===== *)
theory Bitar_Sim_Calls
  imports Bitar_Sim_Device Bitar_Setup
begin

text \<open>
  The stand-in keeps the laws \<open>Compress\<close>, \<open>Decompress\<close> and \<open>Initialize\<close> rely on, and
  \<open>Initialize\<close> on it brings up a device with one queue pair, on which the witnesses of the
  calls run.
\<close>

lemma sim_status_laws: "status_encoding_laws (status_codes sim_dpdk)"
  using sim_status_encoding_laws by (simp add: sim_dpdk_def sim_status_encoding_def)

lemma sim_compress_laws: "compress_laws sim_dpdk c"
  by (simp add: compress_laws_def sim_alloc_laws sim_free_laws sim_mbuf_laws sim_zone_frame_laws
      sim_burst_laws sim_codec_laws sim_status_laws)

lemma sim_setup_laws: "setup_laws sim_dpdk"
proof -
  have grow: "sim_xform_at xfs \<subseteq>\<^sub>m sim_xform_at (xfs @ [xf])" "sim_xform_at (xfs @ [xf]) (length xfs) = Some xf" for xfs xf
    by (auto simp: map_le_def sim_xform_at_def nth_append split: if_splits)
  have new: "map_of bs (blocks_top bs) = None" for bs
    using blocks_top_above [of bs "blocks_top bs"] by (cases "map_of bs (blocks_top bs)") simp_all
  show ?thesis
    unfolding setup_laws_def only_adds_def
    using grow new
    by (auto simp: sim_dpdk_def sim_zmalloc_def sim_malloc_def sim_xform_create_def sim_set_queue_def Let_def)
qed

subsection \<open>Initialize succeeds\<close>

lemma sim_setup [simp]:
  "rte_pktmbuf_pool_create sim_dpdk n k socket = (\<lambda>m. (Some 0, m))"
  "rte_comp_op_pool_create sim_dpdk n k socket = (\<lambda>m. (Some 1, m))"
  "rte_zmalloc_socket sim_dpdk b socket = sim_zmalloc b socket"
  "rte_mbuf_ext_refcnt_set sim_dpdk sh i = (\<lambda>m. m)"
  "rte_compressdev_private_xform_create sim_dpdk d xf = sim_xform_create d xf"
  "rte_compressdev_socket_id sim_dpdk d = 0"
  "rte_compressdev_configure sim_dpdk d socket q = (\<lambda>m. (0, m))"
  "rte_compressdev_queue_pair_setup sim_dpdk d qp_id j socket = (\<lambda>m. (0, sim_set_queue [] d qp_id m))"
  "rte_compressdev_start sim_dpdk d = (\<lambda>m. (0, m))"
  by (simp_all add: sim_dpdk_def)

text \<open>No step of \<open>Preallocate\<close> fails.\<close>

lemma wp_guard_ok: "b \<Longrightarrow> wp (k ()) Q E s \<Longrightarrow> wp (seq (guard b f) k) Q E s"
  by simp

lemma wp_found:
  assumes "\<And>m. fst (f m) \<noteq> None" "\<And>a t. wp (k (Some a) ()) Q E t"
  shows "wp (seq (on_mach f) (\<lambda>p. seq (upd_qp (g p)) (\<lambda>_. seq (non_null msg p) (k p)))) Q E s"
proof -
  obtain p m where f: "f (mach (wld s)) = (p, m)" by fastforce
  then obtain a where "p = Some a" using assms(1) [of "mach (wld s)"] by auto
  then show ?thesis using assms(2) f by (simp add: wp_def seq_def on_mach_def upd_qp_def non_null_def)
qed

lemma sim_zmalloc_found: "fst (sim_zmalloc n socket m) \<noteq> None"
  by (simp add: sim_zmalloc_def sim_malloc_def Let_def)

lemma wp_shared_info_found:
  assumes "\<And>t. wp (k ()) Q E t"
  shows "wp (seq (alloc_shared_info sim_dpdk socket msg g) k) Q E s"
  unfolding alloc_shared_info_def seq_assoc sim_setup
  by (rule wp_found [OF sim_zmalloc_found]) (use assms in \<open>simp add: do_mach_def\<close>)

lemma wp_xform_create:
  assumes "\<And>t. Q () t"
  shows "wp (create_private_xform sim_dpdk xf msg g) Q E s"
  using assms
  by (simp add: create_private_xform_def sim_xform_create_def on_mach_def upd_qp_def get_def wp_def seq_def)

lemma sim_qp_Preallocate:
  assumes c: "max_sgl_segs c = 1"
  shows "wp (qp_Preallocate sim_dpdk rc c) (\<lambda>_ _. True) (\<lambda>_ _. False) s"
proof -
  have b: "0 \<le> uint (burst_size c)" "uint (burst_size c) < 65536" using uint_bounded [of "burst_size c"] by simp_all
  have "int32_ok n" if "0 \<le> n" "n < 131072" for n :: int using that by (simp add: int32_ok_def)
  then have i: "int32_ok (uint (burst_size c))" "int32_ok (uint (burst_size c) * 2)" using b by simp_all
  show ?thesis
    unfolding qp_Preallocate_def Let_def wp_simps(1) [of "get _"] wp_simps(4) sim_setup
    apply (subst if_not_P, simp)
    apply (rule wp_guard_ok, use i c in simp)
    apply (rule wp_found, simp)
    apply (rule wp_guard_ok, use c in simp)
    apply (rule wp_found, simp)
    apply (rule wp_found [OF sim_zmalloc_found])
    apply (rule wp_found [OF sim_zmalloc_found])
    apply (rule wp_shared_info_found)+
    apply (rule wp_seqI)
    apply (rule wp_xform_create)+
    apply (rule TrueI)
    done
qed



lemma sim_preallocate_qps:
  assumes c: "max_sgl_segs c = 1" and dm: "device_mem (dev s) = Some dm" and empty: "qp_memory (dev s) = []"
  shows "twp (preallocate_qps sim_dpdk rc c 1 0) (\<lambda>_ t. worker_lcores (dev t) = worker_lcores (dev s))
    (\<lambda>_ _. False) s"
proof -
  let ?s = "s\<lparr>dev := (dev s)\<lparr>qp_memory := [new_QueuePairMemory (device_id (dev s)) 0]\<rparr>\<rparr>"
  have s: "0 < length (qp_memory (dev ?s))" "device_mem (dev ?s) = Some dm" using dm by simp_all
  let ?with = "with_qp_memory 0 (total (qp_Preallocate sim_dpdk rc c))"
  have "pwp ?with (\<lambda>_ t. worker_lcores (dev t) = worker_lcores (dev s)) (\<lambda>_ _. False) ?s"
    unfolding with_qp_memory_pwp(1) [OF s] pwp_simps
    by (rule wp_mono [OF sim_qp_Preallocate [OF c]]) (simp_all add: qp_store_def)
  moreover have "?with ?s \<noteq> None" unfolding with_qp_memory_pwp(2) [OF s] by (simp add: total_def)
  ultimately have "twp ?with (\<lambda>_ t. worker_lcores (dev t) = worker_lcores (dev s)) (\<lambda>_ _. False) ?s"
    by (simp add: twp_def)
  moreover have "twp (\<lambda>s. with_qp_memory (length (qp_memory (dev s)) - 1) f s) Q E ?s = twp (with_qp_memory 0 f) Q E ?s"
    for f and Q :: "unit \<times> dev_sim qp_state \<Rightarrow> dev_sim dev_state \<Rightarrow> bool" and E by (simp add: twp_def pwp_def)
  ultimately show ?thesis
    using empty by (simp add: upd_dev_def)
qed

lemma sim_setup_queue_pairs:
  assumes "worker_lcores (dev s) \<noteq> []"
  shows "wp (setup_queue_pairs sim_dpdk socket 1 0) (\<lambda>_ _. True) (\<lambda>_ _. False) s"
  using assms by (simp add: LcoreOf_def wp_def seq_def get_def dev_mach_def return_def)

lemma sim_start_device:
  assumes "length (worker_lcores (dev s)) = 1"
  shows "wp (start_device sim_dpdk) (\<lambda>_ _. True) (\<lambda>_ _. False) s"
proof -
  have n: "num_qps (dev s) = 1" using assms by (simp add: num_qps_def)
  let ?u = "s\<lparr>dev := (dev s)\<lparr>device_state := kConfigured\<rparr>\<rparr>"
  have "worker_lcores (dev ?u) \<noteq> []" using assms by auto
  then have "wp (setup_queue_pairs sim_dpdk 0 1 0) (\<lambda>_ _. True) (\<lambda>_ _. False) ?u" by (rule sim_setup_queue_pairs)
  then have "wp (seq (setup_queue_pairs sim_dpdk 0 1 0) (\<lambda>_.
      seq (dev_mach (\<lambda>m. (0, m))) (\<lambda>ret. if ret < (0 :: int) then throw (Status Invalid ''Failed to start device '')
      else set_state kStarted))) (\<lambda>_ _. True) (\<lambda>_ _. False) ?u"
    unfolding wp_simps by (rule wp_mono) simp_all
  then show ?thesis
    by (simp add: start_device_def Let_def n)
qed


text \<open>
  A process that holds one buffer of its own, of 8192 bytes, and a device with one queue pair
  in it.
\<close>

definition sim_zone :: memzone where
  "sim_zone = \<lparr>mz_addr = 72, mz_iova = 72, mz_len = 8192\<rparr>"

definition sim_process_start :: "dev_sim world" where
  "sim_process_start =
     \<lparr>mach = \<lparr>bytes = (\<lambda>_. 0), mbufs = (\<lambda>_. sim_empty_mbuf), ops = (\<lambda>_. sim_empty_op),
        hidden = \<lparr>sim_zones = [sim_zone], sim_mallocs = [], sim_mbufs = [], sim_ops = [],
          sim_queues = (\<lambda>_ _. []), sim_xforms = []\<rparr>\<rparr>,
      allocated_memzones = [72 \<mapsto> sim_zone], pool_stats = (\<lambda>_. []), num_maybe_not_ok = 0\<rparr>"

definition sim_device :: "dev_sim dev_state" where
  "sim_device = \<lparr>dev = new_CompressDevice 0 [1], env = sim_process_start\<rparr>"

lemma sim_device_sel [simp]:
  "device_mem (dev sim_device) = None" "qp_memory (dev sim_device) = []" "device_state (dev sim_device) < kStarted"
  "worker_lcores (dev sim_device) = [1]" "device_id (dev sim_device) = 0" "env sim_device = sim_process_start"
  by (simp_all add: sim_device_def new_CompressDevice_def less_DeviceState_def)

lemma sim_process_ok: "mz_ok sim_dpdk sim_process_start"
proof -
  have P: "zero_size_area sim_dpdk = 64" "live_zones sim_dpdk h = set (sim_zones h)" for h
    by (simp_all add: sim_dpdk_def sim_zero_area_def)
  show ?thesis
    by (auto simp: mz_ok_def sim_dpdk_memory sim_process_start_def sim_zone_def P zone_bytes_def split: if_splits)
qed

definition sim_capability :: rte_compressdev_capability where
  "sim_capability = \<lparr>ff_oop_sgl_in_sgl_out = False, ff_huffman_fixed = True, ff_huffman_dynamic = True,
     cap_window_size = \<lparr>range_min = 8, range_max = 15, range_increment = 1\<rparr>\<rparr>"

lemma sim_capability: "rte_compressdev_capability_get sim_dpdk d = Some sim_capability"
  by (simp add: sim_dpdk_def sim_capability_def)

lemma sim_acceptable: "acceptable sim_dpdk dpdk_default_config (dev sim_device) sim_capability sim_configuration"
  unfolding acceptable_def
  by (simp add: sim_dpdk_def sim_capability_def sim_configuration_def initial_configuration_def
      kDefaultSegSize_def kMinSegSize_def kMaxSegSize_def kMinPreallocateMemzones_def dpdk_default_config_def
      kMaxMbufDataSize_def kExpanseRatio_num_def kExpanseRatio_den_def)


definition sim_configured :: configuration where
  "sim_configured = normalised sim_capability sim_configuration"

lemma sim_configured_sel [simp]:
  "max_sgl_segs sim_configured = 1" "burst_size sim_configured = 32" "decompressed_seg_size sim_configured = 2048"
  "compressed_seg_size sim_configured = 4096" "max_preallocate_memzones sim_configured = 20"
  by (simp_all add: sim_configured_def normalised_def)

lemma sim_PreAllocateMemory:
  assumes c: "max_sgl_segs c = 1" "burst_size c \<noteq> 0" "0 < compressed_seg_size c" "max_preallocate_memzones c = 20"
    and s: "mz_ok sim_dpdk (env s)" "device_mem (dev s) = None" "qp_memory (dev s) = []" "length (worker_lcores (dev s)) = 1"
  shows "twp (PreAllocateMemory sim_dpdk rc c) (\<lambda>_ t. length (worker_lcores (dev t)) = 1) (\<lambda>_ _. False) s"
proof -
  have P: "reserves_as_sim sim_dpdk" by (simp add: reserves_as_sim_def sim_dpdk_def)
  obtain dm w where D: "dm_Preallocate sim_dpdk c (new_DeviceMemory (device_id (dev s))) (env s) = (OK, dm, w)"
    by (rule sim_dm_Preallocate [OF P s(1) c(2-4)])
  let ?t = "s\<lparr>dev := (dev s)\<lparr>device_mem := Some dm\<rparr>, env := w\<rparr>"
  have num: "num_qps (dev ?t) = 1" using s(4) by (simp add: num_qps_def)
  have "twp (preallocate_qps sim_dpdk rc c 1 0) (\<lambda>_ t. worker_lcores (dev t) = worker_lcores (dev ?t)) (\<lambda>_ _. False) ?t"
    by (rule sim_preallocate_qps [where dm = dm, OF c(1)]) (simp_all add: s)
  then have "twp (preallocate_qps sim_dpdk rc c 1 0) (\<lambda>_ t. length (worker_lcores (dev t)) = 1) (\<lambda>_ _. False) ?t"
    by (rule twp_mono) (simp_all add: s(4))
  then show ?thesis
    using D s num
    by (simp add: PreAllocateMemory_def replace_device_memory_def preallocate_device_memory_def wp_def Let_def)
qed

text \<open>The memzones of the stand-in have the length that is asked for.\<close>

lemma sim_AllocateOne_len:
  assumes "mz_ok P w" "reserves_as_sim P" "AllocateOne P sz w = (Inr p, w')" "0 < sz"
  shows "mz_ok P w'" "p = Some z \<Longrightarrow> mz_len z = unat sz"
  by (rule AllocateOne_reserved [OF assms(1,4,3)], assumption)
    (rule AllocateOne_reserved [OF assms(1,4,3)],
      use assms(2) in \<open>auto simp: reserves_as_sim_def sim_reserve_def Let_def split: if_splits\<close>)

lemma sim_preallocate_len:
  assumes "reserves_as_sim P" "0 < compressed_seg_size c" "mz_ok P w" "preallocate_loop P c d w = (r, d', w')"
    and "\<forall>z. Some z \<in> set (memzone_pool d) \<longrightarrow> mz_len z = unat (compressed_seg_size c)"
  shows "\<forall>z. Some z \<in> set (memzone_pool d') \<longrightarrow> mz_len z = unat (compressed_seg_size c)"
  using assms(3-)
proof (induction "unat (max_preallocate_memzones c) - length (memzone_pool d)" arbitrary: d w)
  case 0
  then show ?case by (subst (asm) preallocate_loop.simps) auto
next
  case (Suc n)
  obtain x w1 where a: "AllocateOne P (compressed_seg_size c) w = (x, w1)" by fastforce
  have lt: "length (memzone_pool d) < unat (max_preallocate_memzones c)" using Suc.hyps(2) by simp
  show ?case
  proof (cases x)
    case (Inl e)
    then have "d' = d" using Suc.prems(2) lt a
      by (subst (asm) preallocate_loop.simps) (auto split: error.splits status_code.splits if_splits)
    then show ?thesis using Suc.prems(3) by simp
  next
    case (Inr p)
    note len = sim_AllocateOne_len [OF Suc.prems(1) assms(1) a [unfolded Inr] assms(2)]
    have "preallocate_loop P c (d\<lparr>memzone_pool := p # memzone_pool d\<rparr>) w1 = (r, d', w')"
      using Suc.prems(2) lt a Inr by (subst (asm) preallocate_loop.simps) simp
    from Suc.hyps(1) [OF _ len(1) this] show ?thesis using Suc.hyps(2) Suc.prems(3) len(2) by auto
  qed
qed

lemma sim_narrow:
  assumes "preallocated sim_dpdk c dev_id w0 dm" "0 < compressed_seg_size c" "occupied_memzones dm = []"
    and ok: "mz_ok sim_dpdk w0"
  shows "narrow dm"
proof -
  obtain w where "dm_Preallocate sim_dpdk c (new_DeviceMemory dev_id) w0 = (OK, dm, w)"
    using assms(1) by (auto simp: preallocated_def)
  then obtain r d w1 where d: "preallocate_loop sim_dpdk c (new_DeviceMemory dev_id) w0 = (r, d, w1)"
    "memzone_pool dm = memzone_pool d"
    by (auto simp: dm_Preallocate_def Let_def split: prod.splits sum.splits if_splits)
  have P: "reserves_as_sim sim_dpdk" by (simp add: reserves_as_sim_def sim_dpdk_def)
  have "\<forall>z. Some z \<in> set (memzone_pool d) \<longrightarrow> mz_len z = unat (compressed_seg_size c)"
    by (rule sim_preallocate_len [OF P assms(2) ok d(1)]) (simp add: new_DeviceMemory_def)
  then show ?thesis using d(2) assms(3) unat_u16_less [of "compressed_seg_size c"] by (auto simp: narrow_def dm_all_def)
qed

lemma sim_compress_fits:
  "decompressed_seg_size c < compressed_seg_size c \<Longrightarrow> compress_fits sim_dpdk c"
  by (auto simp: compress_fits_def sim_dpdk_def compress_xform_def word_less_nat_alt)

lemma sim_Initialize_any:
  assumes s: "mz_ok sim_dpdk (env s)" "device_mem (dev s) = None" "qp_memory (dev s) = []" "device_state (dev s) < kStarted"
      "length (worker_lcores (dev s)) = 1"
    and c: "acceptable sim_dpdk rc (dev s) sim_capability c" "max_preallocate_memzones c = 20" "max_sgl_segs c \<le> 1"
      "0 < compressed_seg_size c"
  obtains t where "Initialize sim_dpdk rc (Some c) s = Some (OK, t)"
proof -
  have type: "config_type c = kBlueFieldConfigurationTypeName" and burst: "burst_size c \<noteq> 0"
    using c(1) by (simp_all add: acceptable_def)
  let ?c = "normalised sim_capability c"
  have c': "max_sgl_segs ?c = 1" "burst_size ?c \<noteq> 0" "0 < compressed_seg_size ?c" "max_preallocate_memzones ?c = 20"
  proof -
    have "max_sgl_segs c = 0 \<or> max_sgl_segs c = 1"
      using c(3) unfolding word_le_nat_alt word_unat_eq_iff by (simp add: le_Suc_eq)
    then show "max_sgl_segs ?c = 1" by (auto simp: normalised_def)
  qed (use c(2,4) burst in \<open>simp_all add: normalised_def\<close>)
  let ?s = "\<lambda>c. s\<lparr>dev := (dev s)\<lparr>device_configuration := Some c\<rparr>\<rparr>"
  have "acceptable sim_dpdk rc (dev (?s c)) sim_capability c"
    using c(1) by (simp add: acceptable_def num_qps_def)
  then have v: "ValidateConfiguration sim_dpdk rc (dev (?s c)) c = Some (OK, ?c)"
    unfolding ValidateConfiguration_iff by (simp add: sim_capability)
  let ?valid = "\<lambda>s :: dev_sim dev_state. case device_configuration (dev s) of
             None \<Rightarrow> Some (Inl (Fault NullDereference), s)
           | Some c \<Rightarrow>
               map_option (\<lambda>(r, c). (r, s\<lparr>dev := (dev s)\<lparr>device_configuration := Some c\<rparr>\<rparr>))
                 (ValidateConfiguration sim_dpdk rc (dev s) c)"
  let ?alloc = "\<lambda>s. case device_configuration (dev s) of
             None \<Rightarrow> Some (Inl (Fault NullDereference), s)
           | Some c \<Rightarrow> PreAllocateMemory sim_dpdk rc c s"
  have eq: "Initialize sim_dpdk rc (Some c) =
    pseq (total (set_configuration (Some c))) (\<lambda>_. pseq ?valid
      (\<lambda>_. pseq ?alloc (\<lambda>_. total (start_device sim_dpdk))))"
    by (simp only: Initialize_def start_device_def)
  have "twp (PreAllocateMemory sim_dpdk rc ?c) (\<lambda>_ t. length (worker_lcores (dev t)) = 1) (\<lambda>_ _. False) (?s ?c)"
    by (rule sim_PreAllocateMemory) (simp_all add: s c')
  then have "twp (PreAllocateMemory sim_dpdk rc ?c)
     (\<lambda>_. twp (total (start_device sim_dpdk)) (\<lambda>_ _. True) (\<lambda>_ _. False)) (\<lambda>_ _. False) (?s ?c)"
    by (rule twp_mono) (simp_all add: sim_start_device)
  then have "twp ?alloc (\<lambda>_. twp (total (start_device sim_dpdk)) (\<lambda>_ _. True) (\<lambda>_ _. False)) (\<lambda>_ _. False) (?s ?c)"
    by (simp add: twp_def pwp_def)
  then have "twp (Initialize sim_dpdk rc (Some c)) (\<lambda>_ _. True) (\<lambda>_ _. False) s"
    unfolding eq using type v s(4) by (simp add: set_configuration_def twp_eq(1) [of ?valid])
  then show thesis by (rule twp_cases) (use that in auto)
qed

lemma sim_Initialize:
  obtains t where "Initialize sim_dpdk dpdk_default_config (Some sim_configuration) sim_device = Some (OK, t)"
  by (rule sim_Initialize_any [OF _ _ _ _ _ sim_acceptable]) (simp_all add: sim_process_ok)

end
