(* ===== verification/Bitar_Decompress.thy ===== *)
theory Bitar_Decompress
  imports Bitar_Compress_Call
begin

text \<open>
  \<open>Decompress\<close> as a client of the bursts of \<open>Bitar_Bursts\<close>: every compressed buffer goes
  through the device into its own part of the output buffer, of one segment each, and the
  sizes are added up.
\<close>

subsection \<open>The invariant of Decompress\<close>

text \<open>
  From \<open>s0\<close> to \<open>s\<close> the device memory, the memzones and the bytes outside \<open>A\<close> are the same.
\<close>

definition untouched :: "('w, 'p) dpdk_scheme \<Rightarrow> addr set \<Rightarrow> 'w qp_state \<Rightarrow> 'w qp_state \<Rightarrow> bool" where
  "untouched P A s0 s \<longleftrightarrow>
     statics (qp s) = statics (qp s0) \<and> dmem s = dmem s0 \<and>
     allocated_memzones (wld s) = allocated_memzones (wld s0) \<and>
     live_zones P (hidden (mach (wld s))) = live_zones P (hidden (mach (wld s0))) \<and>
     xforms P (hidden (mach (wld s))) = xforms P (hidden (mach (wld s0))) \<and>
     (\<forall>a. a \<notin> A \<longrightarrow> bytes (mach (wld s)) a = bytes (mach (wld s0)) a)"

definition output_area :: "configuration \<Rightarrow> buffer list \<Rightarrow> addr \<Rightarrow> addr set" where
  "output_area c bufs data = {data ..< data + length bufs * unat (decompressed_seg_size c)}"

definition buffer_bytes :: "buffer \<Rightarrow> addr set" where
  "buffer_bytes b = {fst (buffer_area b) ..< fst (buffer_area b) + snd (buffer_area b)}"

definition unpacked_bytes :: "('w, 'p) dpdk_scheme \<Rightarrow> configuration \<Rightarrow> 'w machine \<Rightarrow> job \<Rightarrow> u8 list" where
  "unpacked_bytes P c m x = codec P (decompress_xform c) (mem_bytes m (job_in x) (job_len x))"

definition unpacked :: "('w, 'p) dpdk_scheme \<Rightarrow> configuration \<Rightarrow> 'w machine \<Rightarrow> job \<Rightarrow> bool" where
  "unpacked P c m x \<longleftrightarrow> length (unpacked_bytes P c m x) \<le> job_cap x \<and>
     mem_bytes m (job_out x) (length (unpacked_bytes P c m x)) = unpacked_bytes P c m x"

definition decompress_jobs ::
  "('w, 'p) dpdk_scheme \<Rightarrow> configuration \<Rightarrow> 'w qp_state \<Rightarrow> buffer list \<Rightarrow> addr \<Rightarrow>
   job list \<Rightarrow> job list \<Rightarrow> 'w qp_state \<Rightarrow> bool" where
  "decompress_jobs P c s0 bufs data dn xs s \<longleftrightarrow>
     (let seg = unat (decompressed_seg_size c); n = length (dn @ xs) in
      untouched P (output_area c bufs data) s0 s \<and>
      map (\<lambda>x. (job_in x, job_len x)) (dn @ xs) = map buffer_area (take n bufs) \<and>
      map (\<lambda>x. (job_out x, job_cap x)) (dn @ xs) = map (\<lambda>i. (data + i * seg, seg)) [0..<n] \<and>
      index s = n \<and> offset s = n * seg \<and> n \<le> length bufs \<and>
      (\<forall>x \<in> set dn. unpacked P c (mach (wld s)) x) \<and>
      decompressed_buffer_size s = (\<Sum>x\<leftarrow>dn. int (length (unpacked_bytes P c (mach (wld s)) x))))"

lemma decompress_jobsD:
  assumes "decompress_jobs P c s0 bufs data dn xs s"
  shows "untouched P (output_area c bufs data) s0 s"
    "map (\<lambda>x. (job_in x, job_len x)) (dn @ xs) = map buffer_area (take (length (dn @ xs)) bufs)"
    "map (\<lambda>x. (job_out x, job_cap x)) (dn @ xs) =
       map (\<lambda>i. (data + i * unat (decompressed_seg_size c), unat (decompressed_seg_size c))) [0..<length (dn @ xs)]"
    "index s = length (dn @ xs)" "offset s = length (dn @ xs) * unat (decompressed_seg_size c)"
    "length (dn @ xs) \<le> length bufs" "x \<in> set dn \<Longrightarrow> unpacked P c (mach (wld s)) x"
    "decompressed_buffer_size s = (\<Sum>x\<leftarrow>dn. int (length (unpacked_bytes P c (mach (wld s)) x)))"
  using assms unfolding decompress_jobs_def Let_def by blast+

text \<open>The output buffer is apart from the compressed buffers.\<close>

definition apart_output :: "configuration \<Rightarrow> buffer list \<Rightarrow> addr \<Rightarrow> bool" where
  "apart_output c bufs data \<longleftrightarrow> (\<forall>b \<in> set bufs. buffer_bytes b \<inter> output_area c bufs data = {})"

lemma decompress_nth:
  assumes "decompress_jobs P c s0 bufs data dn xs s" "i < length (dn @ xs)"
  defines "x \<equiv> (dn @ xs) ! i"
  shows "job_source x = buffer_bytes (bufs ! i)"
    "job_out x = data + i * unat (decompressed_seg_size c)" "job_cap x = unat (decompressed_seg_size c)"
    "job_in x = fst (buffer_area (bufs ! i))" "job_len x = snd (buffer_area (bufs ! i))"
    "job_area x \<subseteq> output_area c bufs data" "i < length bufs"
proof -
  note J = decompress_jobsD [OF assms(1)]
  show i: "i < length bufs" using J(6) assms(2) by simp
  have "(job_in x, job_len x) = map buffer_area (take (length (dn @ xs)) bufs) ! i"
    using arg_cong [OF J(2), of "\<lambda>l. l ! i"] assms(2) unfolding x_def by (simp del: map_append)
  also have "\<dots> = buffer_area (bufs ! i)" using i assms(2) by simp
  finally have b: "(job_in x, job_len x) = buffer_area (bufs ! i)" .
  then show "job_in x = fst (buffer_area (bufs ! i))" "job_len x = snd (buffer_area (bufs ! i))"
    by (metis fst_conv, metis snd_conv)
  then show "job_source x = buffer_bytes (bufs ! i)" by (simp add: job_source_def buffer_bytes_def)
  let ?seg = "unat (decompressed_seg_size c)"
  have "(job_out x, job_cap x) = map (\<lambda>i. (data + i * ?seg, ?seg)) [0..<length (dn @ xs)] ! i"
    using arg_cong [OF J(3), of "\<lambda>l. l ! i"] assms(2) unfolding x_def by (simp del: map_append)
  then show o: "job_out x = data + i * ?seg" "job_cap x = ?seg" using assms(2) by simp_all
  have "(i + 1) * ?seg \<le> length bufs * ?seg" by (rule mult_le_mono1) (use i in simp)
  then show "job_area x \<subseteq> output_area c bufs data" by (auto simp: job_area_def output_area_def o)
qed

lemma slots_apart:
  fixes i k :: nat
  assumes "i \<noteq> k"
  shows "{d + i * n ..< d + i * n + n} \<inter> {d + k * n ..< d + k * n + n} = {}"
proof -
  have "{d + i * n ..< d + i * n + n} \<inter> {d + k * n ..< d + k * n + n} = {}" if "i < k" for i k :: nat
  proof -
    have "(i + 1) * n \<le> k * n" by (rule mult_le_mono1) (use that in simp)
    then show ?thesis by auto
  qed
  then show ?thesis using assms by (metis Int_commute linorder_neqE_nat)
qed

lemma decompress_apart_nth:
  assumes "decompress_jobs P c s0 bufs data dn xs s" "i < length (dn @ xs)" "k < length (dn @ xs)"
  shows "i \<noteq> k \<Longrightarrow> job_area ((dn @ xs) ! i) \<inter> job_area ((dn @ xs) ! k) = {}"
    and "apart_output c bufs data \<Longrightarrow> job_source ((dn @ xs) ! i) \<inter> output_area c bufs data = {}"
proof -
  note I = decompress_nth [OF assms(1,2)] and K = decompress_nth [OF assms(1,3)]
  show "job_area ((dn @ xs) ! i) \<inter> job_area ((dn @ xs) ! k) = {}" if "i \<noteq> k"
    unfolding job_area_def I(2,3) K(2,3) by (rule slots_apart [OF that])
  show "job_source ((dn @ xs) ! i) \<inter> output_area c bufs data = {}" if "apart_output c bufs data"
    using that I(7) unfolding I(1) apart_output_def by simp
qed

lemma decompress_jobs_apart:
  assumes "decompress_jobs P c s0 bufs data dn xs s" "apart_output c bufs data"
  shows "jobs_apart (dn @ xs)"
  unfolding jobs_apart_def
proof (intro ballI conjI impI)
  fix x y assume "x \<in> set (dn @ xs)" "y \<in> set (dn @ xs)"
  then obtain i k where i: "i < length (dn @ xs)" "x = (dn @ xs) ! i" and k: "k < length (dn @ xs)" "y = (dn @ xs) ! k"
    by (metis in_set_conv_nth)
  show "job_source x \<inter> job_area y = {}"
    using decompress_apart_nth(2) [OF assms(1) i(1) i(1) assms(2)] decompress_nth(6) [OF assms(1) k(1)] i(2) k(2)
    by blast
  show "x \<noteq> y \<Longrightarrow> job_area x \<inter> job_area y = {}"
    using decompress_apart_nth(1) [OF assms(1) i(1) k(1)] i(2) k(2) by blast
qed

lemma decompress_source_same:
  assumes jobs: "decompress_jobs P c s0 bufs data dn xs s" and apart: "apart_output c bufs data"
    and x: "x \<in> set (dn @ xs)" and same: "\<And>a. a \<notin> output_area c bufs data \<Longrightarrow> bytes m' a = bytes m a"
  shows "mem_bytes m' (job_in x) (job_len x) = mem_bytes m (job_in x) (job_len x)"
proof (rule mem_bytes_cong)
  fix a assume a: "job_in x \<le> a" "a < job_in x + job_len x"
  obtain i where i: "i < length (dn @ xs)" "x = (dn @ xs) ! i" using x by (metis in_set_conv_nth)
  have "a \<in> job_source x" using a by (simp add: job_source_def)
  then have "a \<notin> output_area c bufs data"
    using decompress_apart_nth(2) [OF jobs i(1) i(1) apart] i(2) by blast
  then show "bytes m' a = bytes m a" by (rule same)
qed

lemma untouched_trans:
  assumes "untouched P A s0 s" "statics (qp t) = statics (qp s)" "dmem t = dmem s"
    "allocated_memzones (wld t) = allocated_memzones (wld s)"
    "live_zones P (hidden (mach (wld t))) = live_zones P (hidden (mach (wld s)))"
    "xforms P (hidden (mach (wld t))) = xforms P (hidden (mach (wld s)))"
    "\<And>a. a \<notin> A \<Longrightarrow> bytes (mach (wld t)) a = bytes (mach (wld s)) a"
  shows "untouched P A s0 t"
  using assms by (simp add: untouched_def)

lemma decompress_areas:
  assumes "decompress_jobs P c s0 bufs data dn xs s"
  shows "areas xs \<subseteq> output_area c bufs data"
proof -
  have "job_area x \<subseteq> output_area c bufs data" if "x \<in> set xs" for x
  proof -
    have "x \<in> set (dn @ xs)" using that by simp
    then obtain i where "i < length (dn @ xs)" "x = (dn @ xs) ! i" by (metis in_set_conv_nth)
    then show ?thesis using decompress_nth(6) [OF assms, of i] by simp
  qed
  then show ?thesis by (auto simp: areas_def)
qed

lemma unpacked_same:
  assumes "unpacked P c m x" "mem_bytes m' (job_in x) (job_len x) = mem_bytes m (job_in x) (job_len x)"
    and "\<And>a. a \<in> job_area x \<Longrightarrow> bytes m' a = bytes m a"
  shows "unpacked P c m' x" "unpacked_bytes P c m' x = unpacked_bytes P c m x"
proof -
  show out: "unpacked_bytes P c m' x = unpacked_bytes P c m x" using assms(2) by (simp add: unpacked_bytes_def)
  have "mem_bytes m' (job_out x) (length (unpacked_bytes P c m x)) = mem_bytes m (job_out x) (length (unpacked_bytes P c m x))"
    using assms(1,3) by (intro mem_bytes_cong) (simp add: unpacked_def job_area_def)
  then show "unpacked P c m' x" using assms(1) unfolding unpacked_def out by simp
qed

lemma decompress_jobs_quiet:
  assumes jobs: "decompress_jobs P c s0 bufs data dn xs s" and q: "quiet P xs s t" and apart: "apart_output c bufs data"
  shows "decompress_jobs P c s0 bufs data dn xs t"
proof -
  note J = decompress_jobsD [OF jobs] and Q = quiet_other [OF q]
  have bytes: "bytes (mach (wld t)) a = bytes (mach (wld s)) a" if "a \<notin> areas xs" for a
    using q that by (simp add: quiet_def)
  have out: "bytes (mach (wld t)) a = bytes (mach (wld s)) a" if "a \<notin> output_area c bufs data" for a
    using bytes that decompress_areas [OF jobs] by blast
  have un: "unpacked P c (mach (wld t)) x \<and> unpacked_bytes P c (mach (wld t)) x = unpacked_bytes P c (mach (wld s)) x"
    if x: "x \<in> set dn" for x
  proof -
    have "x \<in> set (dn @ xs)" using x by simp
    note src = decompress_source_same [OF jobs apart this, of "mach (wld t)" "mach (wld s)", OF out]
    obtain i where i: "i < length dn" "x = dn ! i" using x by (metis in_set_conv_nth)
    have "bytes (mach (wld t)) a = bytes (mach (wld s)) a" if a: "a \<in> job_area x" for a
    proof (rule bytes)
      show "a \<notin> areas xs"
      proof
        assume "a \<in> areas xs"
        then obtain k where k: "k < length xs" "a \<in> job_area (xs ! k)" by (auto simp: areas_def in_set_conv_nth)
        have "job_area ((dn @ xs) ! i) \<inter> job_area ((dn @ xs) ! (length dn + k)) = {}"
          using i(1) k(1) by (intro decompress_apart_nth(1) [OF jobs]) auto
        then show False using a k i by (auto simp: nth_append)
      qed
    qed
    then show ?thesis using unpacked_same [OF J(7) [OF x] src] by blast
  qed
  have "untouched P (output_area c bufs data) s0 t"
    using q Q out by (intro untouched_trans [OF J(1)]) (simp_all add: quiet_def)
  moreover have "(\<Sum>x\<leftarrow>dn. int (length (unpacked_bytes P c (mach (wld t)) x))) =
      (\<Sum>x\<leftarrow>dn. int (length (unpacked_bytes P c (mach (wld s)) x)))"
    using un by (intro arg_cong [where f = sum_list] map_cong) auto
  ultimately show ?thesis
    unfolding decompress_jobs_def Let_def Q(1,2,4) using J(2-6,8) un by simp
qed

lemma decompress_finish:
  assumes pipe: "pipe P c (decompress_mode c q0) dev_id qp_id (x # A) B C s"
    and jobs: "decompress_jobs P c s0 bufs data dn (x # A @ B @ C) s"
    and st: "op_status (ops (mach (wld s)) (job_op x)) = RTE_COMP_OP_STATUS_SUCCESS"
  shows "\<exists>t. decompress_callback (job_op x) s = Some (OK, t) \<and>
      decompress_jobs P c s0 bufs data (dn @ [x]) (A @ B @ C) t \<and> qp t = qp s \<and> wld t = wld s \<and> index t = index s"
proof -
  let ?m = "mach (wld s)" and ?k = "produced (ops (mach (wld s)) (job_op x))"
  note J = decompress_jobsD [OF jobs]
  have "delivered P (decompress_mode c q0) ?m x" using pipeD(10) [OF pipe] by simp
  then have D: "?k \<le> job_cap x" "mem_bytes ?m (job_out x) ?k = unpacked_bytes P c ?m x"
    using st by (simp_all add: delivered_def decompress_mode_def unpacked_bytes_def)
  have k: "length (unpacked_bytes P c ?m x) = ?k" by (simp flip: D(2))
  then have un: "unpacked P c ?m x" using D by (simp add: unpacked_def)
  let ?t = "s\<lparr>decompressed_buffer_size := decompressed_buffer_size s + int ?k\<rparr>"
  have "decompress_callback (job_op x) s = Some (OK, ?t)"
    by (simp add: decompress_callback_def total_def modify_def)
  moreover have "decompress_jobs P c s0 bufs data (dn @ [x]) (A @ B @ C) ?t"
    using J un k unfolding decompress_jobs_def Let_def untouched_def by simp
  ultimately show ?thesis by auto
qed

subsection \<open>One call of the assembler\<close>

lemma decompress_shinfo:
  assumes "statics q = statics q0" "qp_ready c q"
  shows "shared_info_decompressed_mbuf q = Some (dst_sh (decompress_mode c q0))"
    "shared_info_compressed_mbuf q = Some (src_sh (decompress_mode c q0))"
    "private_xform_decompress q = Some (mode_xform (decompress_mode c q0))"
  using assms by (auto simp: statics_def qp_ready_def decompress_mode_def)

lemma decompress_sources:
  assumes "mbuf_laws P" "max_sgl_segs c = 1" "qp_ready c (qp s)" "statics (qp s) = statics q0"
    and ops: "operations (qp s) = Some os" "array_has (Some os) 0 (map job_op C)"
      "unat (num_ops_assembled (qp s)) = length C"
    and mba: "mbuf_array (qp s) = Some ba"
    and fresh: "fresh_batch P n (2 * n) js ms (mach (wld s)) m1"
    and n: "0 < n" "length C + n \<le> unat (burst_size c)" "index s + n \<le> length bufs"
  defines "k \<equiv> num_ops_assembled (qp s)"
  defines "u0 \<equiv> s\<lparr>qp := (qp s)\<lparr>operations := Some (overwrite os (unat k) (map Some js)),
       mbuf_array := Some (overwrite ba 0 (map Some ms))\<rparr>, wld := (wld s)\<lparr>mach := m1\<rparr>\<rparr>"
  obtains bs ds u where
    "seq (operation_at (unat k)) (\<lambda>j. seq (push_pending j) (\<lambda>_. decompress_src_loop P c bufs n n k j)) u0 = (OK, u)"
    "sourced P c (decompress_mode c q0) (map buffer_area (take n (drop (index s) bufs))) C js bs ds s u"
    "index u = index s + n" "u = s\<lparr>qp := qp u, wld := wld u, index := index u\<rparr>"
proof -
  let ?md = "decompress_mode c q0" and ?ps = "map buffer_area (take n (drop (index s) bufs))"
  note F = fresh_sources [OF fresh]
  obtain bs ds where ms: "ms = bs @ ds" "length bs = n" "length ds = n" by (rule split_mbufs [OF F(7)])
  obtain j0 js' where js: "js = j0 # js'" using F(6) n(1) by (cases js) auto
  have room: "length (map job_op C) + length js \<le> length os" "2 * n \<le> length ba"
    using assms(3) ops(1) mba n(2) F(6) by (auto simp: qp_ready_def)
  have st: "statics (qp u0) = statics (qp s)"
    using room F ops(1,3) mba by (simp add: u0_def k_def statics_def)
  have arr: "array_has (operations (qp u0)) 0 (map job_op C @ js)"
    using overwrite_append [OF ops(2) room(1)] ops(3) by (simp add: u0_def k_def)
  then have at: "array_has (operations (qp u0)) (unat k) js"
    using array_has_part(2) [OF arr] ops(3) by (simp add: k_def)
  have "array_has (mbuf_array (qp u0)) 0 (bs @ ds)"
    using array_has_overwrite [of 0 ms ba] room(2) F(7) ms(1) by (simp add: u0_def)
  note mb = array_has_part [OF this]
  let ?u1 = "u0\<lparr>qp := (qp u0)\<lparr>pending_operations := pending_operations (qp u0) @ [Some j0]\<rparr>\<rparr>"
  have sh: "shared_info_compressed_mbuf (qp ?u1) = Some (src_sh ?md)"
    using decompress_shinfo(2) [OF assms(4,3)] by (simp add: u0_def)
  have "unat k + n < 65536" using n(2) ops(3) unat_u16_less [of "burst_size c"] by (simp add: k_def)
  then have "\<exists>m. decompress_src_loop P c bufs n n k (Some j0) ?u1 =
      (OK, ?u1\<lparr>qp := (qp ?u1)\<lparr>pending_operations := pending_operations (qp ?u1) @ map Some (tl js)\<rparr>,
             wld := (wld ?u1)\<lparr>mach := m\<rparr>, index := index ?u1 + n\<rparr>) \<and>
    attached P M_SRC (src_sh ?md) js bs (map buffer_area (take n (drop (index ?u1) bufs))) (mach (wld ?u1)) m"
    using F ms at mb(1) sh n(1,3) js
    by (intro decompress_src_loop_ok [OF assms(1,2)]) (simp_all add: u0_def)
  then obtain m where m: "decompress_src_loop P c bufs n n k (Some j0) ?u1 =
      (OK, ?u1\<lparr>qp := (qp ?u1)\<lparr>pending_operations := pending_operations (qp ?u1) @ map Some (tl js)\<rparr>,
             wld := (wld ?u1)\<lparr>mach := m\<rparr>, index := index ?u1 + n\<rparr>)"
    "attached P M_SRC (src_sh ?md) js bs ?ps m1 m"
    by (auto simp: u0_def)
  let ?u = "s\<lparr>qp := (qp u0)\<lparr>pending_operations := pending_operations (qp s) @ map Some js\<rparr>,
      wld := (wld s)\<lparr>mach := m\<rparr>, index := index s + n\<rparr>"
  show ?thesis
  proof (rule that [of ?u bs ds])
    have "push_pending (Some j0) u0 = (OK, ?u1)" by (simp add: push_pending_def upd_qp_def)
    then show "seq (operation_at (unat k)) (\<lambda>j. seq (push_pending j)
        (\<lambda>_. decompress_src_loop P c bufs n n k j)) u0 = (OK, ?u)"
      using array_has_hd [OF at [unfolded js]] m(1) js
      by (simp add: seq_def) (simp add: u0_def)
    show "sourced P c ?md ?ps C js bs ds s ?u"
      unfolding sourced_def
    proof (intro conjI)
      have "fresh_batch P (length js) (2 * length js) js (bs @ ds) (mach (wld s)) m1"
        using fresh F(6) ms(1) by simp
      then show "\<exists>m1. fresh_batch P (length js) (2 * length js) js (bs @ ds) (mach (wld s)) m1 \<and>
          attached P M_SRC (src_sh ?md) js bs ?ps m1 (mach (wld ?u))"
        using m(2) by auto
      show "\<exists>m. wld ?u = (wld s)\<lparr>mach := m\<rparr>" by auto
      show "statics (qp ?u) = statics (qp s)" using st by (simp add: statics_def)
    qed (use F ms n arr mb in \<open>simp_all add: u0_def\<close>)
  qed simp_all
qed

lemma decompress_destinations:
  assumes laws: "mbuf_laws P" "max_sgl_segs c = 1"
    and "qp_ready c (qp s)" "statics (qp s) = statics q0"
    and src: "sourced P c (decompress_mode c q0) ps C js bs ds s u" "0 < length js"
    and num: "unat num = length C" and room: "offset u + length js * unat (decompressed_seg_size c) \<le> sz"
  defines "seg \<equiv> unat (decompressed_seg_size c)"
  obtains k m where
    "seq (operation_at (unat num)) (\<lambda>j. decompress_dst_loop P c data sz (length js) (length js) num j) u =
       (Inr k, u\<lparr>wld := (wld u)\<lparr>mach := m\<rparr>, offset := offset u + length js * seg\<rparr>)"
    "unat k = length C + length js" "same_objects P (mach (wld u)) m"
    "finished (dst_sh (decompress_mode c q0)) (Some (mode_xform (decompress_mode c q0))) js ds
       (map (\<lambda>t. (data + (offset u + t * seg), seg)) [0..<length js]) (mach (wld u)) m"
proof -
  note S = sourced_facts [OF src(1)]
  have U: "array_has (operations (qp u)) 0 (map job_op C @ js)" "array_has (mbuf_array (qp u)) (length js) ds"
    "length C + length js \<le> unat (burst_size c)"
    using src(1) by (simp_all add: sourced_def)
  have ops: "array_has (operations (qp u)) (unat num) js" using array_has_part(2) [OF U(1)] num by simp
  obtain j0 js' where js: "js = j0 # js'" using src(2) by (cases js) auto
  have at: "operation_at (unat num) u = (Inr (Some j0), u)" by (rule array_has_hd [OF ops [unfolded js]])
  have st: "statics (qp u) = statics q0" and ready: "qp_ready c (qp u)"
    using S(17) assms(3,4) qp_ready_cong [OF S(17)] by simp_all
  have big: "\<exists>os. operations (qp u) = Some os \<and> unat num + length js < length os"
    using ready U(3) num by (auto simp: qp_ready_def)
  have mat: "array_has (mbuf_array (qp u)) (length js - length js + length js) ds" using U(2) by simp
  have lt: "unat num + length js < 65536" using num U(3) unat_u16_less [of "burst_size c"] by simp
  have hd: "0 < length js \<longrightarrow> Some j0 = Some (hd js)" by (simp add: js)
  have srcs: "\<forall>j \<in> set js. \<exists>b. m_src (ops (mach (wld u)) j) = Some b \<and> b \<notin> set ds"
  proof
    fix j assume "j \<in> set js"
    then obtain i where i: "i < length js" "j = js ! i" by (auto simp: in_set_conv_nth)
    have "bs ! i \<in> set bs" using i(1) S(3) by simp
    then have "bs ! i \<notin> set ds" using S(2) by auto
    then show "\<exists>b. m_src (ops (mach (wld u)) j) = Some b \<and> b \<notin> set ds" using S(10) i by auto
  qed
  have dist: "distinct ds" using S(2) by simp
  obtain m where m: "decompress_dst_loop P c data sz (length js) (length js) num (Some j0) u =
      (Inr (num + word_of_nat (length js)), u\<lparr>wld := (wld u)\<lparr>mach := m\<rparr>, offset := offset u + length js * seg\<rparr>)"
    "same_objects P (mach (wld u)) m"
    "finished (dst_sh (decompress_mode c q0)) (Some (mode_xform (decompress_mode c q0))) js ds
       (map (\<lambda>t. (data + (offset u + t * seg), seg)) [0..<length js]) (mach (wld u)) m"
    using decompress_dst_loop_ok [OF laws refl S(4) order.refl S(1) dist ops mat decompress_shinfo(1) [OF st ready]
      lt big S(9,12) srcs hd room] decompress_shinfo(3) [OF st ready] by (auto simp: seg_def)
  have "unat (num + word_of_nat (length js)) = length C + length js"
    using lt num by (simp add: unat_word_ariths unat_of_nat)
  then show ?thesis using m at by (intro that [of "num + word_of_nat (length js)" m]) (simp_all add: seq_def)
qed

lemma same_memory_jobs:
  assumes jobs: "decompress_jobs P c s0 bufs data dn xs s" and mem: "same_memory P (mach (wld s)) (mach (wld t))"
    and same: "statics (qp t) = statics (qp s)" "dmem t = dmem s" "allocated_memzones (wld t) = allocated_memzones (wld s)"
      "index t = index s" "offset t = offset s" "decompressed_buffer_size t = decompressed_buffer_size s"
  shows "decompress_jobs P c s0 bufs data dn xs t"
proof -
  note J = decompress_jobsD [OF jobs]
  have B: "mem_bytes (mach (wld t)) a n = mem_bytes (mach (wld s)) a n" for a n
    using mem by (simp add: same_memory_def mem_bytes_def)
  have U: "unpacked_bytes P c (mach (wld t)) = unpacked_bytes P c (mach (wld s))"
    by (simp add: fun_eq_iff unpacked_bytes_def B)
  have "untouched P (output_area c bufs data) s0 t"
    using same mem by (intro untouched_trans [OF J(1)]) (simp_all add: same_memory_def)
  then show ?thesis
    unfolding decompress_jobs_def Let_def U unpacked_def B same(4,5,6) using J by (simp add: unpacked_def)
qed

lemma take_drop_more: "N + n \<le> length xs \<Longrightarrow> take N xs @ take n (drop N xs) = take (N + n) xs"
  by (simp add: take_add)

lemma slots_more: "map f [0..<N] @ map (\<lambda>t. f (N + t)) [0..<n] = map f [0..<N + n]"
proof -
  have "map (\<lambda>t. f (N + t)) [0..<n] = map f [N..<N + n]"
    by (rule nth_equalityI) simp_all
  then show ?thesis by (simp add: upt_add_eq_append [of 0 N n])
qed

lemma decompress_extend:
  assumes apart: "apart_output c bufs data"
    and pipe: "pipe P c (decompress_mode c q0) dev_id qp_id [] B C s"
    and jobs: "decompress_jobs P c s0 bufs data dn (B @ C) s"
    and src: "sourced P c (decompress_mode c q0) (map buffer_area (take n (drop (index s) bufs))) C js bs ds s u"
    and u: "index u = index s + n" "u = s\<lparr>qp := qp u, wld := wld u, index := index u\<rparr>"
    and m: "same_objects P (mach (wld u)) m"
      "finished (dst_sh (decompress_mode c q0)) (Some (mode_xform (decompress_mode c q0))) js ds
       (map (\<lambda>t. (data + (offset u + t * unat (decompressed_seg_size c)), unat (decompressed_seg_size c))) [0..<n])
       (mach (wld u)) m"
    and k: "unat k = length C + n" and n: "length js = n" "index s + n \<le> length bufs"
  defines "t \<equiv> u\<lparr>qp := (qp u)\<lparr>num_ops_assembled := k\<rparr>, wld := (wld u)\<lparr>mach := m\<rparr>,
      offset := offset u + n * unat (decompressed_seg_size c)\<rparr>"
  obtains D where "pipe P c (decompress_mode c q0) dev_id qp_id [] B (C @ D) t"
    "decompress_jobs P c s0 bufs data dn (B @ C @ D) t" "length D = n"
proof -
  let ?seg = "unat (decompressed_seg_size c)" and ?md = "decompress_mode c q0" and ?N = "length (dn @ B @ C)"
  let ?ps = "map buffer_area (take n (drop (index s) bufs))"
  let ?qs = "map (\<lambda>t. (data + (offset u + t * ?seg), ?seg)) [0..<n]"
  define D where "D = batch_jobs js bs ds ?ps ?qs"
  note J = decompress_jobsD [OF jobs] and S = sourced_facts [OF src]
  have len: "length ?ps = length js" "length ?qs = length js" using n by simp_all
  have D: "map (\<lambda>x. (job_in x, job_len x)) D = ?ps" "map (\<lambda>x. (job_out x, job_cap x)) D = ?qs"
    "map job_op D = js" "length D = n"
    using batch_jobs_areas len n(1) by (simp_all add: D_def)
  note DM = batch_jobs_distinct [OF S(3,4,1,2), of ?ps ?qs, folded D_def]
  have off: "offset u = ?N * ?seg" "offset u = offset s" "decompressed_buffer_size u = decompressed_buffer_size s"
    using arg_cong [OF u(2), of offset] arg_cong [OF u(2), of decompressed_buffer_size] J(5) by simp_all
  have keep: "keeps P (mach (wld s)) m" and mem: "same_memory P (mach (wld s)) m"
  proof -
    show mem: "same_memory P (mach (wld s)) m"
      using S(14) m(1) same_memory_trans unfolding same_objects_def by blast
    show "keeps P (mach (wld s)) m"
      unfolding keeps_def
    proof (intro conjI ballI)
      fix b assume b: "b \<in> live_mbufs P (hidden (mach (wld s)))"
      then have "b \<notin> set ds" using S(6) by auto
      then show "mbufs m b = mbufs (mach (wld s)) b" using m(2) S(13) b by (simp add: finished_def keeps_def)
    next
      fix j assume j: "j \<in> live_ops P (hidden (mach (wld s)))"
      then have "j \<notin> set js" using S(5) by auto
      then show "ops m j = ops (mach (wld s)) j" using m(2) S(13) j by (simp add: finished_def keeps_def)
    qed (use m(1) S(13) in \<open>auto simp: same_objects_def same_memory_def keeps_def\<close>)
  qed
  have st: "statics (qp t) = statics (qp s)" using S(17) by (simp add: t_def statics_def)
  have al: "allocated_memzones (wld t) = allocated_memzones (wld s)"
    using arg_cong [OF S(16), of allocated_memzones] by (simp add: t_def)
  have mt: "mach (wld t) = m" by (simp add: t_def)
  have B: "mem_bytes m a l = mem_bytes (mach (wld s)) a l" for a l
    using mem by (simp add: same_memory_def mem_bytes_def)
  have U: "unpacked_bytes P c m = unpacked_bytes P c (mach (wld s))"
    by (simp add: fun_eq_iff unpacked_bytes_def B)
  have cj: "decompress_jobs P c s0 bufs data dn (B @ C @ D) t"
    unfolding decompress_jobs_def Let_def mt
  proof (intro conjI ballI)
    show "untouched P (output_area c bufs data) s0 t"
      using mem S(15) by (intro untouched_trans [OF J(1) st _ al]) (simp_all add: t_def same_memory_def)
    have N: "length (dn @ B @ C @ D) = ?N + n" using D(4) by simp
    have idx: "index s = ?N" using J(4) .
    have "map (\<lambda>x. (job_in x, job_len x)) ((dn @ B @ C) @ D) =
        map buffer_area (take ?N bufs @ take n (drop ?N bufs))"
      using J(2) D(1) idx by simp
    also have "\<dots> = map buffer_area (take (?N + n) bufs)" by (subst take_drop_more) (use n(2) idx in simp_all)
    finally show "map (\<lambda>x. (job_in x, job_len x)) (dn @ B @ C @ D) = map buffer_area (take (length (dn @ B @ C @ D)) bufs)"
      unfolding N by (simp only: append_assoc)
    have "?qs = map (\<lambda>t. (data + (?N + t) * ?seg, ?seg)) [0..<n]"
      unfolding off(1) by (simp add: algebra_simps)
    then have "map (\<lambda>x. (job_out x, job_cap x)) ((dn @ B @ C) @ D) =
        map (\<lambda>i. (data + i * ?seg, ?seg)) [0..<?N] @ map (\<lambda>t. (data + (?N + t) * ?seg, ?seg)) [0..<n]"
      unfolding map_append [of _ "dn @ B @ C"] J(3) D(2) by simp
    also have "\<dots> = map (\<lambda>i. (data + i * ?seg, ?seg)) [0..<?N + n]"
      by (rule slots_more [of "\<lambda>i. (data + i * ?seg, ?seg)"])
    finally show "map (\<lambda>x. (job_out x, job_cap x)) (dn @ B @ C @ D) =
        map (\<lambda>i. (data + i * ?seg, ?seg)) [0..<length (dn @ B @ C @ D)]"
      unfolding N by (simp only: append_assoc)
    show "index t = length (dn @ B @ C @ D)" using u(1) idx N by (simp add: t_def)
    show "offset t = length (dn @ B @ C @ D) * ?seg" unfolding N by (simp add: t_def off(1) algebra_simps)
    show "length (dn @ B @ C @ D) \<le> length bufs" using n(2) idx unfolding N by simp
    show "unpacked P c m x" if "x \<in> set dn" for x
      using J(7) [OF that] unfolding unpacked_def U B .
    show "decompressed_buffer_size t = (\<Sum>x\<leftarrow>dn. int (length (unpacked_bytes P c m x)))"
      unfolding U using J(8) off(3) by (simp add: t_def)
  qed
  have "pipe P c ?md dev_id qp_id [] B (C @ D) t"
  proof (rule pipe_extend [OF pipe st])
    show "keeps P (mach (wld s)) (mach (wld t))" unfolding mt by (rule keep)
    show "pending_operations (qp t) = pending_operations (qp s) @ map (\<lambda>x. Some (job_op x)) D"
      using src D(3) by (simp add: sourced_def t_def) (metis (no_types, lifting) comp_apply list.map_comp map_eq_conv)
    show "array_has (operations (qp t)) 0 (map job_op (C @ D))"
      using src D(3) by (simp add: sourced_def t_def)
    show "unat (num_ops_assembled (qp t)) = length (C @ D)" using k D(4) by (simp add: t_def)
    show "length (C @ D) \<le> unat (burst_size c)" using src D(4) n(1) by (simp add: sourced_def)
    show "owns P (mach (wld t)) D"
      using DM S(7,8) m(1) D(3) unfolding mt by (auto simp: owns_def same_objects_def)
    show "set (map job_op D) \<inter> live_ops P (hidden (mach (wld s))) = {}" using S(5) D(3) by simp
    show "set (concat (map job_mbufs D)) \<inter> live_mbufs P (hidden (mach (wld s))) = {}"
      unfolding DM(3) by (rule S(6))
    show "jobs_apart (B @ C @ D)" by (rule jobs_apart_subset [OF decompress_jobs_apart [OF cj apart]]) auto
    obtain m1 where "attached P M_SRC (src_sh ?md) js bs ?ps m1 (mach (wld u))"
      using src unfolding sourced_def by blast
    from batch_ready [OF this m(2) S(3,4,1)] show "\<forall>x \<in> set D. job_ready ?md (mach (wld t)) x"
      using S(2) unfolding mt by (simp add: D_def)
  qed
  then show ?thesis using that [of D] cj D(4) by blast
qed

text \<open>
  After an error nothing is cleaned up: memory outside the output buffer is as it was, and the
  operations under way stay pending. Only an allocation can fail with nothing pending.
\<close>

definition decompress_lost ::
  "('w, 'p) dpdk_scheme \<Rightarrow> configuration \<Rightarrow> 'w qp_state \<Rightarrow> buffer list \<Rightarrow> addr \<Rightarrow> error \<Rightarrow> 'w qp_state \<Rightarrow> bool" where
  "decompress_lost P c s0 bufs data e t \<longleftrightarrow>
     (\<exists>code msg. e = Status code msg \<and>
        (code = IOError \<and> has_pending_operations (qp t) \<or> code = OutOfMemory)) \<and>
     untouched P (output_area c bufs data) s0 t"

definition left_to_decompress :: "buffer list \<Rightarrow> 'w qp_state \<Rightarrow> nat" where
  "left_to_decompress bufs s = length bufs - index s"

text \<open>The code of the assembler from the allocation on, for \<open>n\<close> mbufs and \<open>k\<close> operations.\<close>

definition decompress_batch ::
  "('w, 'p) dpdk_scheme \<Rightarrow> configuration \<Rightarrow> buffer list \<Rightarrow> addr \<Rightarrow> nat \<Rightarrow> u32 \<Rightarrow> u16 \<Rightarrow> u16 \<Rightarrow> ('w qp_state, int) code" where
  "decompress_batch P c bufs data sz n num_ops num =
     seq (BulkAllocate P num_ops (n * 2)) (\<lambda>code.
      seq (not_ok_returns code) (\<lambda>_.
      seq (operation_at (unat num)) (\<lambda>j.
      seq (push_pending j) (\<lambda>_.
      seq (decompress_src_loop P c bufs (unat n) (unat n) num j) (\<lambda>_.
      seq (operation_at (unat num)) (\<lambda>j.
      seq (decompress_dst_loop P c data sz (unat n) (unat n) num j) (\<lambda>k.
      seq (upd_qp (num_ops_assembled_update (\<lambda>_. k))) (\<lambda>_.
      return (uint k)))))))))"

lemma decompress_batch_ok:
  fixes P :: "('w, 'p) dpdk_scheme"
  assumes laws: "compress_laws P c" and c: "one_segment c" and apart: "apart_output c bufs data"
    and room: "length bufs * unat (decompressed_seg_size c) \<le> sz"
    and pipe: "pipe P c (decompress_mode c q0) dev_id qp_id [] B C s"
    and jobs: "decompress_jobs P c s0 bufs data dn (B @ C) s" and q0: "statics (qp s0) = statics q0"
    and n: "unat w = n" "unat (w * 2) = 2 * n" "unat no = n" "0 < n"
      "index s + n \<le> length bufs" "length C + n \<le> unat (burst_size c)"
  shows "wp (decompress_batch P c bufs data sz w no (num_ops_assembled (qp s)))
    (\<lambda>k t. \<exists>D. k = int (length (C @ D)) \<and> D \<noteq> [] \<and> pipe P c (decompress_mode c q0) dev_id qp_id [] B (C @ D) t \<and>
       decompress_jobs P c s0 bufs data dn (B @ C @ D) t \<and>
       left_to_decompress bufs s = length D + left_to_decompress bufs t)
    (\<lambda>e t. \<exists>code. code \<noteq> SC_OK \<and> e = Status code '''' \<and> \<not> faultless P \<and>
      decompress_lost P c s0 bufs data (Status code msg) t) s"
proof -
  let ?seg = "unat (decompressed_seg_size c)" and ?md = "decompress_mode c q0"
  let ?num = "num_ops_assembled (qp s)"
  note J = decompress_jobsD [OF jobs] and pp = pipeD [OF pipe]
  have L: "alloc_laws P" "free_laws P" "mbuf_laws P" using laws by (simp_all add: compress_laws_def)
  have cc: "max_sgl_segs c = 1" using c by (simp add: one_segment_def)
  have st0: "statics (qp s) = statics q0" using J(1) q0 by (simp add: untouched_def)
  obtain os ba op mp where Q: "operations (qp s) = Some os" "mbuf_array (qp s) = Some ba"
    "operation_pool (qp s) = Some op" "mbuf_pool (qp s) = Some mp"
    "length C + n \<le> length os" "2 * n \<le> length ba"
    using pp(1) n(6) by (auto simp: qp_ready_def)
  note bulk = BulkAllocate_ok [OF L(1) Q(3,4,1) _ Q(2), of no "w * 2"]
  let ?R = "\<lambda>k t. \<exists>D. k = int (length (C @ D)) \<and> D \<noteq> [] \<and> pipe P c ?md dev_id qp_id [] B (C @ D) t \<and>
       decompress_jobs P c s0 bufs data dn (B @ C @ D) t \<and>
       left_to_decompress bufs s = length D + left_to_decompress bufs t"
  let ?E = "\<lambda>e t. \<exists>code. code \<noteq> SC_OK \<and> e = Status code '''' \<and> \<not> faultless P \<and>
      decompress_lost P c s0 bufs data (Status code msg) t"
  show ?thesis
    unfolding decompress_batch_def wp_simps
  proof (rule wp_mono [OF bulk], goal_cases)
    case 1
    then show ?case using pp(5) n(3) Q(5) by simp
  next
    case 2
    then show ?case using n(2) Q(6) by simp
  next
    case (3 code t)
    then show ?case
    proof (elim disjE conjE exE)
      fix os' m assume code: "code = OutOfMemory" and fault: "\<not> faultless P"
        and t: "t = s\<lparr>qp := (qp s)\<lparr>operations := Some os'\<rparr>, wld := (wld s)\<lparr>mach := m\<rparr>\<rparr>"
        and m: "length os' = length os" "keeps P (mach (wld s)) m" "same_memory P (mach (wld s)) m"
      have "untouched P (output_area c bufs data) s0 t"
        using m Q(1) by (intro untouched_trans [OF J(1)]) (simp_all add: t statics_def same_memory_def)
      then have "decompress_lost P c s0 bufs data (Status code msg) t"
        using code by (simp add: decompress_lost_def)
      then show ?thesis using code fault by (auto simp: not_ok_returns_def)
    next
      fix js ms m1 assume code: "code = SC_OK"
        and t: "t = s\<lparr>qp := (qp s)\<lparr>operations := Some (overwrite os (unat ?num) (map Some js)),
            mbuf_array := Some (overwrite ba 0 (map Some ms))\<rparr>, wld := (wld s)\<lparr>mach := m1\<rparr>\<rparr>"
        and fresh: "fresh_batch P (unat no) (unat (w * 2)) js ms (mach (wld s)) m1"
      have fr: "fresh_batch P n (2 * n) js ms (mach (wld s)) m1" using fresh n(2,3) by simp
      have arr: "array_has (Some os) 0 (map job_op C)" using pp(4) Q(1) by simp
      obtain bs ds u where src: "seq (operation_at (unat ?num)) (\<lambda>j. seq (push_pending j)
            (\<lambda>_. decompress_src_loop P c bufs n n ?num j)) t = (OK, u)"
        "sourced P c ?md (map buffer_area (take n (drop (index s) bufs))) C js bs ds s u"
        "index u = index s + n" "u = s\<lparr>qp := qp u, wld := wld u, index := index u\<rparr>"
        by (rule decompress_sources [OF L(3) cc pp(1) st0 Q(1) arr pp(5) Q(2) fr n(4,6,5), folded t])
      have len: "length js = n" using fr by (simp add: fresh_batch_def)
      have pos: "0 < length js" using len n(4) by simp
      have off: "offset u = offset s" using arg_cong [OF src(4), of offset] by simp
      have "(index s + n) * ?seg \<le> length bufs * ?seg" using n(5) by (rule mult_le_mono1)
      then have fits: "offset u + length js * ?seg \<le> sz"
        using room J(4,5) len by (simp add: off algebra_simps)
      obtain k m where dst: "seq (operation_at (unat ?num)) (\<lambda>j. decompress_dst_loop P c data sz n n ?num j) u =
          (Inr k, u\<lparr>wld := (wld u)\<lparr>mach := m\<rparr>, offset := offset u + n * ?seg\<rparr>)"
        "unat k = length C + n" "same_objects P (mach (wld u)) m"
        "finished (dst_sh ?md) (Some (mode_xform ?md)) js ds
           (map (\<lambda>t. (data + (offset u + t * ?seg), ?seg)) [0..<n]) (mach (wld u)) m"
        by (rule decompress_destinations [OF L(3) cc pp(1) st0 src(2) pos pp(5) fits, unfolded len])
      let ?v = "u\<lparr>qp := (qp u)\<lparr>num_ops_assembled := k\<rparr>, wld := (wld u)\<lparr>mach := m\<rparr>, offset := offset u + n * ?seg\<rparr>"
      obtain D where D: "pipe P c ?md dev_id qp_id [] B (C @ D) ?v"
        "decompress_jobs P c s0 bufs data dn (B @ C @ D) ?v" "length D = n"
        by (rule decompress_extend [OF apart pipe jobs src(2-4) dst(3,4,2) len n(5)])
      have "left_to_decompress bufs s = length D + left_to_decompress bufs ?v"
        using D(3) src(3) n(5) by (simp add: left_to_decompress_def)
      moreover have "uint k = int (length (C @ D))" using dst(2) D(3) by (metis length_append uint_nat)
      moreover have "D \<noteq> []" using D(3) n(4) by auto
      ultimately have R: "?R (uint k) ?v" using D(1,2) by blast
      let ?dst = "seq (operation_at (unat ?num)) (\<lambda>j. decompress_dst_loop P c data sz n n ?num j)"
      have fin: "wp (seq (upd_qp (num_ops_assembled_update (\<lambda>_. k))) (\<lambda>_. return (uint k))) ?R ?E
          (u\<lparr>wld := (wld u)\<lparr>mach := m\<rparr>, offset := offset u + n * ?seg\<rparr>)"
      proof -
        let ?u = "u\<lparr>wld := (wld u)\<lparr>mach := m\<rparr>, offset := offset u + n * ?seg\<rparr>"
        have step: "upd_qp (num_ops_assembled_update (\<lambda>_. k)) (u\<lparr>wld := (wld u)\<lparr>mach := m\<rparr>, offset := offset u + n * ?seg\<rparr>) =
            (OK, ?v)" by (cases u) (simp add: upd_qp_def)
        show ?thesis
          by (rule wp_seqI, subst wp_eq(1) [of "upd_qp (num_ops_assembled_update (\<lambda>_. k))" ?u, OF step]) (use R in simp)
      qed
      have "wp (seq ?dst (\<lambda>k. seq (upd_qp (num_ops_assembled_update (\<lambda>_. k))) (\<lambda>_. return (uint k)))) ?R ?E u"
        by (rule wp_seqI, subst wp_eq(1) [of ?dst u, OF dst(1)], rule fin)
      then have rest: "wp (seq (operation_at (unat ?num)) (\<lambda>j. seq (decompress_dst_loop P c data sz n n ?num j)
          (\<lambda>k. seq (upd_qp (num_ops_assembled_update (\<lambda>_. k))) (\<lambda>_. return (uint k))))) ?R ?E u"
        by (simp only: seq_assoc)
      let ?fill = "seq (operation_at (unat ?num)) (\<lambda>j. seq (push_pending j) (\<lambda>_. decompress_src_loop P c bufs n n ?num j))"
      have "wp (seq ?fill (\<lambda>_. seq (operation_at (unat ?num)) (\<lambda>j. seq (decompress_dst_loop P c data sz n n ?num j)
          (\<lambda>k. seq (upd_qp (num_ops_assembled_update (\<lambda>_. k))) (\<lambda>_. return (uint k)))))) ?R ?E t"
        by (rule wp_seqI, subst wp_eq(1) [of ?fill t, OF src(1)], rule rest)
      then have "wp (seq (operation_at (unat ?num)) (\<lambda>j. seq (push_pending j) (\<lambda>_. seq (decompress_src_loop P c bufs n n ?num j)
          (\<lambda>_. seq (operation_at (unat ?num)) (\<lambda>j. seq (decompress_dst_loop P c data sz n n ?num j)
          (\<lambda>k. seq (upd_qp (num_ops_assembled_update (\<lambda>_. k))) (\<lambda>_. return (uint k)))))))) ?R ?E t"
        by (simp only: seq_assoc)
      note fill_rest = this [unfolded wp_simps]
      have ok: "not_ok_returns SC_OK t = (OK, t)" by (simp add: not_ok_returns_def)
      show ?thesis
        unfolding code n(1) wp_eq(1) [of "not_ok_returns SC_OK" t, OF ok] by (rule fill_rest)
    qed
  qed simp
qed

end
