(* ===== verification/Bitar_Decompress_Call.thy ===== *)
theory Bitar_Decompress_Call
  imports Bitar_Decompress
begin

text \<open>
  \<open>Decompress\<close> as a whole: the assembler, the client of \<open>Bitar_Bursts\<close> it makes with the
  callback, and what a call does.
\<close>

subsection \<open>The assembler\<close>

lemma min_word:
  fixes k r :: nat
  assumes "k < 65536"
  defines "w \<equiv> word_of_int (min (int k) (int r)) :: u32"
  shows "unat w = min k r" "unat (w * 2) = 2 * min k r" "unat (ucast w :: u16) = min k r"
proof -
  have m: "min k r < 65536" using assms(1) by simp
  have w: "w = word_of_nat (min k r)" by (simp add: w_def flip: of_nat_min)
  show u: "unat w = min k r" using m by (simp add: w unat_of_nat take_bit_nat_eq_self)
  show "unat (w * 2) = 2 * min k r"
  proof -
    have "unat (w * 2) = (min k r * 2) mod 2 ^ 32" unfolding u [symmetric] by (simp add: unat_word_ariths)
    moreover have "min k r * 2 < 2 ^ 32" using m by simp
    ultimately show ?thesis by (simp only: mod_less mult.commute)
  qed
  show "unat (ucast w :: u16) = min k r" using m by (simp add: unsigned_ucast_eq u take_bit_nat_eq_self)
qed

lemma AssembleFrom_compressed_batch:
  assumes "max_sgl_segs c = 1" "index s < length bufs" "num_ops_assembled (qp s) < burst_size c"
  obtains w no where "AssembleFrom_compressed P c bufs data sz s =
      negative_codes (status_codes P) (decompress_batch P c bufs data sz w no (num_ops_assembled (qp s))) s"
    "unat w = min (unat (burst_size c) - unat (num_ops_assembled (qp s))) (length bufs - index s)"
    "unat (w * 2) = 2 * unat w" "unat no = unat w"
proof -
  let ?num = "num_ops_assembled (qp s)"
  let ?r = "length bufs - index s" and ?k = "unat (burst_size c) - unat ?num"
  have le: "unat ?num \<le> unat (burst_size c)" using assms(3) by (simp add: word_less_nat_alt)
  have k: "?k < 65536" using unat_u16_less [of "burst_size c"] by linarith
  have cap: "uint (burst_size c) - uint ?num = int ?k" using le by (simp add: of_nat_diff)
  define w :: u32 where "w = word_of_int (min (int ?k) (int ?r))"
  note W = min_word [OF k, of ?r, folded w_def]
  have r: "int (length bufs) - int (index s) = int ?r" using assms(2) by (simp add: of_nat_diff)
  have num: "\<not> (int ?r \<le> 0 \<or> burst_size c \<le> ?num)" using assms(2,3) by simp
  have one: "uint (max_sgl_segs c) = 1" "(ucast (max_sgl_segs c) :: u32) = 1" by (simp_all add: assms(1))
  have pos: "max_sgl_segs c \<noteq> 0" using assms(1) by simp
  have fits: "int32_ok (int ?k)" using k by (intro int32_ok_nat) simp
  have "AssembleFrom_compressed P c bufs data sz s =
      negative_codes (status_codes P) (decompress_batch P c bufs data sz w (ucast w) ?num) s"
    unfolding AssembleFrom_compressed_def
    by (rule negative_codes_cong)
      (simp only: seq_get Let_def r num if_False one mult_1_right cap seq_guard [OF fits] seq_guard [OF pos]
        decompress_batch_def w_def [symmetric] ceil_div_one)
  then show ?thesis using that [of w "ucast w"] W by simp
qed

lemma nothing_to_decompress:
  assumes "length bufs \<le> index s \<or> burst_size c \<le> num_ops_assembled (qp s)"
  shows "AssembleFrom_compressed P c bufs data sz s =
    negative_codes (status_codes P) (return (uint (num_ops_assembled (qp s)))) s"
proof -
  have "int (length bufs) - int (index s) \<le> 0 \<or> burst_size c \<le> num_ops_assembled (qp s)"
    using assms by linarith
  then show ?thesis
    unfolding AssembleFrom_compressed_def
    by (intro negative_codes_cong) (simp only: seq_get Let_def if_True)
qed

abbreviation nothing :: "('s, unit) pcode" where
  "nothing \<equiv> total (return ())"

lemma decompress_assembles:
  fixes P :: "('w, 'p) dpdk_scheme"
  assumes laws: "compress_laws P c" and c: "one_segment c" and apart: "apart_output c bufs data"
    and room: "length bufs * unat (decompressed_seg_size c) \<le> sz"
    and pipe: "pipe P c (decompress_mode c q0) dev_id qp_id [] B C s"
    and jobs: "decompress_jobs P c s0 bufs data dn (B @ C) s" and q0: "statics (qp s0) = statics q0"
  shows "twp (pseq (total (AssembleFrom_compressed P c bufs data sz))
      (negative_else (status_codes P) msg nothing))
    (\<lambda>k t. \<exists>D. k = int (length (C @ D)) \<and> pipe P c (decompress_mode c q0) dev_id qp_id [] B (C @ D) t \<and>
       decompress_jobs P c s0 bufs data dn (B @ C @ D) t \<and>
       left_to_decompress bufs s = length D + left_to_decompress bufs t \<and>
       (C @ D = [] \<longrightarrow> left_to_decompress bufs t = 0) \<and> (D = [] \<longrightarrow> t = s))
    (\<lambda>e t. \<not> faultless P \<and> decompress_lost P c s0 bufs data e t) s"
proof -
  let ?num = "num_ops_assembled (qp s)"
  let ?Q = "\<lambda>k t. \<exists>D. k = int (length (C @ D)) \<and> pipe P c (decompress_mode c q0) dev_id qp_id [] B (C @ D) t \<and>
       decompress_jobs P c s0 bufs data dn (B @ C @ D) t \<and>
       left_to_decompress bufs s = length D + left_to_decompress bufs t \<and>
       (C @ D = [] \<longrightarrow> left_to_decompress bufs t = 0) \<and> (D = [] \<longrightarrow> t = s)"
  have enc: "status_encoding_laws (status_codes P)" using laws by (simp add: compress_laws_def)
  have cc: "max_sgl_segs c = 1" "0 < burst_size c" using c by (simp_all add: one_segment_def)
  have num: "unat ?num = length C" by (rule pipeD(5) [OF pipe])
  show ?thesis
  proof (cases "length bufs \<le> index s \<or> burst_size c \<le> ?num")
    case True
    have zero: "left_to_decompress bufs s = 0" if "C = []"
    proof -
      have "?num = 0" using num that by (simp add: unat_eq_0)
      then show ?thesis using True cc(2) by (auto simp: left_to_decompress_def)
    qed
    show ?thesis
      unfolding twp_total_cong [of "AssembleFrom_compressed P c bufs data sz" s
          "negative_codes (status_codes P) (return (uint ?num))", OF nothing_to_decompress [OF True]]
    proof (rule assemble_else [OF enc])
      have "?Q (uint ?num) s" using num pipe jobs zero by (intro exI [of _ "[]"]) (simp flip: num)
      then show "wp (return (uint ?num)) (\<lambda>n t. 0 \<le> n \<and> ?Q n t)
        (\<lambda>e t. \<exists>code. code \<noteq> SC_OK \<and> e = Status code '''' \<and>
          twp nothing (\<lambda>_ t. \<not> faultless P \<and> decompress_lost P c s0 bufs data (Status code msg) t) (\<lambda>_ _. False) t) s" by simp
    qed
  next
    case False
    then have lt: "index s < length bufs" "?num < burst_size c" by (simp_all add: not_le)
    obtain w no where A: "AssembleFrom_compressed P c bufs data sz s =
      negative_codes (status_codes P) (decompress_batch P c bufs data sz w no ?num) s"
      "unat w = min (unat (burst_size c) - unat ?num) (length bufs - index s)"
      "unat (w * 2) = 2 * unat w" "unat no = unat w"
      by (rule AssembleFrom_compressed_batch [OF cc(1) lt])
    have pos: "0 < unat w" using A(2) lt by (simp add: word_less_nat_alt)
    have fit: "length C + unat w \<le> unat (burst_size c)" "index s + unat w \<le> length bufs"
      using A(2) lt num by (simp_all add: word_less_nat_alt)
    show ?thesis
      unfolding twp_total_cong [of "AssembleFrom_compressed P c bufs data sz" s
        "negative_codes (status_codes P) (decompress_batch P c bufs data sz w no ?num)", OF A(1)]
    proof (rule assemble_else [OF enc], rule wp_mono)
      show "wp (decompress_batch P c bufs data sz w no ?num)
        (\<lambda>k t. \<exists>D. k = int (length (C @ D)) \<and> D \<noteq> [] \<and> pipe P c (decompress_mode c q0) dev_id qp_id [] B (C @ D) t \<and>
           decompress_jobs P c s0 bufs data dn (B @ C @ D) t \<and>
           left_to_decompress bufs s = length D + left_to_decompress bufs t)
        (\<lambda>e t. \<exists>code. code \<noteq> SC_OK \<and> e = Status code '''' \<and> \<not> faultless P \<and>
          decompress_lost P c s0 bufs data (Status code msg) t) s"
        by (rule decompress_batch_ok [OF laws c apart room pipe jobs q0 refl A(3,4) pos fit(2,1)])
    next
      fix k t assume "\<exists>D. k = int (length (C @ D)) \<and> D \<noteq> [] \<and> pipe P c (decompress_mode c q0) dev_id qp_id [] B (C @ D) t \<and>
           decompress_jobs P c s0 bufs data dn (B @ C @ D) t \<and>
           left_to_decompress bufs s = length D + left_to_decompress bufs t"
      then obtain D where "k = int (length (C @ D))" "D \<noteq> []" "pipe P c (decompress_mode c q0) dev_id qp_id [] B (C @ D) t"
         "decompress_jobs P c s0 bufs data dn (B @ C @ D) t"
         "left_to_decompress bufs s = length D + left_to_decompress bufs t" by blast
      then show "0 \<le> k \<and> ?Q k t" by (intro conjI exI [of _ D]) simp_all
    qed simp
  qed
qed

subsection \<open>The client\<close>

text \<open>What success takes besides a faultless device: the output for each buffer fits its segment.\<close>

definition outputs_fit :: "('w, 'p) dpdk_scheme \<Rightarrow> configuration \<Rightarrow> 'w machine \<Rightarrow> buffer list \<Rightarrow> bool" where
  "outputs_fit P c m bufs \<longleftrightarrow> (\<forall>b \<in> set bufs.
     length (codec P (decompress_xform c) (mem_bytes m (fst (buffer_area b)) (snd (buffer_area b))))
       \<le> unat (decompressed_seg_size c))"

lemma decompress_jobs_fit:
  assumes jobs: "decompress_jobs P c s0 bufs data dn xs s" and apart: "apart_output c bufs data"
    and fit: "outputs_fit P c (mach (wld s0)) bufs" and x: "x \<in> set xs"
  shows "job_fits P (decompress_mode c q0) (mach (wld s)) x"
proof -
  obtain i where i: "i < length (dn @ xs)" "x = (dn @ xs) ! i"
    using x by (metis Un_iff in_set_conv_nth set_append)
  note I = decompress_nth [OF jobs i(1), folded i(2)]
  have same: "mem_bytes (mach (wld s)) (job_in x) (job_len x) = mem_bytes (mach (wld s0)) (job_in x) (job_len x)"
    by (rule decompress_source_same [OF jobs apart])
      (use x decompress_jobsD(1) [OF jobs] in \<open>simp_all add: untouched_def\<close>)
  have "bufs ! i \<in> set bufs" using I(7) by simp
  then show ?thesis
    using fit I(3-5) unfolding job_fits_def same outputs_fit_def by (simp add: decompress_mode_def)
qed

locale decompress_client =
  fixes P :: "('w, 'p) dpdk_scheme" and c :: configuration and s0 :: "'w qp_state"
    and dev_id :: u8 and qp_id :: u16 and bufs :: "buffer list" and data :: addr and sz :: nat
    and smooth :: bool
  assumes library: "compress_laws P c" and config: "one_segment c" and apart: "apart_output c bufs data"
    and room: "length bufs * unat (decompressed_seg_size c) \<le> sz"
    and device: "smooth \<Longrightarrow> faultless P" "smooth \<Longrightarrow> outputs_fit P c (mach (wld s0)) bufs"

sublocale decompress_client \<subseteq> bursts: burst_client P c "decompress_mode c (qp s0)" dev_id qp_id decompress_callback
  "pseq (total (AssembleFrom_compressed P c bufs data sz))
     (negative_else (status_codes P) ''Failed to assemble decompression operations for queue pair '' nothing)"
  nothing "decompress_jobs P c s0 bufs data" "left_to_decompress bufs"
  "\<lambda>e t. \<not> smooth \<and> decompress_lost P c s0 bufs data e t" smooth
proof
  show "smooth \<Longrightarrow> faultless P" by (rule device)
  show "job_fits P (decompress_mode c (qp s0)) (mach (wld s)) x"
    if smooth "decompress_jobs P c s0 bufs data dn xs s" "x \<in> set xs" for dn xs s x
    by (rule decompress_jobs_fit [OF that(2) apart device(2) [OF that(1)] that(3)])
  show "burst_laws P" "free_laws P" using library by (simp_all add: compress_laws_def)
  show "0 < burst_size c" using config by (simp add: one_segment_def)
  show "decompress_jobs P c s0 bufs data dn xs t"
    if "decompress_jobs P c s0 bufs data dn xs s" "quiet P xs s t" for dn xs s t
    by (rule decompress_jobs_quiet [OF that apart])
  show "left_to_decompress bufs t = left_to_decompress bufs s" if "quiet P xs s t" for xs s t
    using quiet_other(2) [OF that] by (simp add: left_to_decompress_def)
next
  fix x A B C s dn
  assume "pipe P c (decompress_mode c (qp s0)) dev_id qp_id (x # A) B C s"
    "decompress_jobs P c s0 bufs data dn (x # A @ B @ C) s"
    "op_status (ops (mach (wld s)) (job_op x)) = RTE_COMP_OP_STATUS_SUCCESS"
  from decompress_finish [OF this]
  show "\<exists>t. decompress_callback (job_op x) s = Some (OK, t) \<and>
      decompress_jobs P c s0 bufs data (dn @ [x]) (A @ B @ C) t \<and>
      qp t = qp s \<and> wld t = wld s \<and> left_to_decompress bufs t = left_to_decompress bufs s"
    by (auto simp: left_to_decompress_def)
next
  fix B C s dn
  assume "pipe P c (decompress_mode c (qp s0)) dev_id qp_id [] B C s" "decompress_jobs P c s0 bufs data dn (B @ C) s"
  note A = decompress_assembles [OF library config apart room this refl]
  show "twp (pseq (total (AssembleFrom_compressed P c bufs data sz))
      (negative_else (status_codes P) ''Failed to assemble decompression operations for queue pair '' nothing))
    (\<lambda>n t. \<exists>D. n = int (length (C @ D)) \<and> pipe P c (decompress_mode c (qp s0)) dev_id qp_id [] B (C @ D) t \<and>
       decompress_jobs P c s0 bufs data dn (B @ C @ D) t \<and>
       left_to_decompress bufs s = length D + left_to_decompress bufs t \<and>
       (C @ D = [] \<longrightarrow> left_to_decompress bufs t = 0) \<and> (D = [] \<longrightarrow> t = s))
    (\<lambda>e t. \<not> smooth \<and> decompress_lost P c s0 bufs data e t) s"
    by (rule twp_mono [OF A]) (use device(1) in auto)
next
  fix xs s dn
  assume st: "stuck P c (decompress_mode c (qp s0)) xs s" and jobs: "decompress_jobs P c s0 bufs data dn xs s"
    and "xs \<noteq> []" "\<not> smooth"
  then have "has_pending_operations (qp s)" by (simp add: stuck_def has_pending_operations_def)
  then show "twp nothing (\<lambda>_ t. \<forall>msg. \<not> smooth \<and> decompress_lost P c s0 bufs data (Status IOError msg) t)
      (\<lambda>_ _. False) s"
    using decompress_jobsD(1) [OF jobs] \<open>\<not> smooth\<close> by (simp add: decompress_lost_def)
qed

subsection \<open>The call\<close>

definition stored :: "'w machine \<Rightarrow> buffer \<Rightarrow> u8 list" where
  "stored m b = mem_bytes m (buf_data b) (buf_size b)"

text \<open>
  What \<open>Decompress\<close> leaves in the output buffer at \<open>data\<close>: the output for every compressed buffer
  at the start of its segment.
\<close>

definition decompressed_to ::
  "('w, 'p) dpdk_scheme \<Rightarrow> configuration \<Rightarrow> 'w machine \<Rightarrow> buffer list \<Rightarrow> addr \<Rightarrow> 'w machine \<Rightarrow> bool" where
  "decompressed_to P c m0 bufs data m \<longleftrightarrow>
     (\<forall>i < length bufs.
        let out = codec P (decompress_xform c) (stored m0 (bufs ! i)) in
        length out \<le> unat (decompressed_seg_size c) \<and>
        mem_bytes m (data + i * unat (decompressed_seg_size c)) (length out) = out)"

definition decompressed_size :: "('w, 'p) dpdk_scheme \<Rightarrow> configuration \<Rightarrow> 'w machine \<Rightarrow> buffer list \<Rightarrow> int" where
  "decompressed_size P c m0 bufs = (\<Sum>b\<leftarrow>bufs. int (length (codec P (decompress_xform c) (stored m0 b))))"

lemma decompressed_to_jobs:
  assumes jobs: "decompress_jobs P c s0 bufs data dn [] t" and zero: "left_to_decompress bufs t = 0"
    and apart: "apart_output c bufs data" and small: "\<forall>b \<in> set bufs. buf_size b < 65536"
  shows "decompressed_to P c (mach (wld s0)) bufs data (mach (wld t))"
    "decompressed_buffer_size t = decompressed_size P c (mach (wld s0)) bufs"
    "untouched P (output_area c bufs data) s0 t"
proof -
  note J = decompress_jobsD [OF jobs, simplified]
  show un: "untouched P (output_area c bufs data) s0 t" by (rule J(1))
  have n: "length dn = length bufs" using zero J(4,6) by (simp add: left_to_decompress_def)
  have area: "buffer_area b = (buf_data b, buf_size b)" if "b \<in> set bufs" for b
    using small that by (simp add: buffer_area_def unat_of_nat take_bit_nat_eq_self)
  have out: "unpacked_bytes P c (mach (wld t)) (dn ! i) = codec P (decompress_xform c) (stored (mach (wld s0)) (bufs ! i))"
    if i: "i < length bufs" for i
  proof -
    have i': "i < length (dn @ [])" "dn ! i \<in> set (dn @ [])" using i n by simp_all
    note I = decompress_nth [OF jobs i'(1), simplified]
    have "mem_bytes (mach (wld t)) (job_in (dn ! i)) (job_len (dn ! i)) =
        mem_bytes (mach (wld s0)) (job_in (dn ! i)) (job_len (dn ! i))"
      by (rule decompress_source_same [OF jobs apart i'(2)]) (use un in \<open>simp add: untouched_def\<close>)
    then show ?thesis using I(4,5) area i by (simp add: unpacked_bytes_def stored_def)
  qed
  show "decompressed_to P c (mach (wld s0)) bufs data (mach (wld t))"
    unfolding decompressed_to_def Let_def
  proof (intro allI impI)
    fix i assume i: "i < length bufs"
    have i': "i < length (dn @ [])" "dn ! i \<in> set dn" using i n by simp_all
    show "length (codec P (decompress_xform c) (stored (mach (wld s0)) (bufs ! i))) \<le> unat (decompressed_seg_size c) \<and>
        mem_bytes (mach (wld t)) (data + i * unat (decompressed_seg_size c))
          (length (codec P (decompress_xform c) (stored (mach (wld s0)) (bufs ! i)))) =
        codec P (decompress_xform c) (stored (mach (wld s0)) (bufs ! i))"
      using J(7) [OF i'(2)] decompress_nth(2,3) [OF jobs i'(1), simplified] out [OF i] by (simp add: unpacked_def)
  qed
  have "map (\<lambda>x. int (length (unpacked_bytes P c (mach (wld t)) x))) dn =
      map (\<lambda>b. int (length (codec P (decompress_xform c) (stored (mach (wld s0)) b)))) bufs"
    by (rule nth_equalityI) (use n out in simp_all)
  then show "decompressed_buffer_size t = decompressed_size P c (mach (wld s0)) bufs"
    using J(8) by (simp add: decompressed_size_def)
qed

lemma decompress_jobs_init:
  "index s = 0 \<Longrightarrow> offset s = 0 \<Longrightarrow> decompressed_buffer_size s = 0 \<Longrightarrow> decompress_jobs P c s bufs data [] [] s"
  by (simp add: decompress_jobs_def untouched_def)

lemma decompress_run_bursts:
  "decompress_run P c dev_id qp_id bufs data sz = run_bursts
     (pseq (total (AssembleFrom_compressed P c bufs data sz))
        (negative_else (status_codes P) ''Failed to assemble decompression operations for queue pair '' nothing))
     (burst_enqueue P dev_id qp_id ''Failed to enqueue decompression operations to compress device '' nothing)
     (burst_dequeue P c dev_id qp_id decompress_callback
        ''Failed to dequeue decompression operations from compress device '' nothing)
     (burst_dequeue P c dev_id qp_id decompress_callback
        ''Failed to dequeue pending decompression operations from compress device '' nothing)"
  unfolding decompress_run_def Let_def burst_enqueue_def [abs_def] burst_dequeue_def by (rule refl)

context decompress_client begin

lemma run:
  assumes rest: "at_rest P c (decompress_mode c (qp s0)) dev_id qp_id s0"
    and start: "index s0 = 0" "offset s0 = 0" "decompressed_buffer_size s0 = 0"
    and small: "\<forall>b \<in> set bufs. buf_size b < 65536"
  shows "pwp (decompress_run P c dev_id qp_id bufs data sz)
      (\<lambda>_ t. at_rest P c (decompress_mode c (qp s0)) dev_id qp_id t \<and>
         decompressed_to P c (mach (wld s0)) bufs data (mach (wld t)) \<and>
         decompressed_buffer_size t = decompressed_size P c (mach (wld s0)) bufs \<and>
         untouched P (output_area c bufs data) s0 t)
      (\<lambda>e t. \<not> smooth \<and> decompress_lost P c s0 bufs data e t) s0"
    and "prompt P patience \<Longrightarrow> decompress_run P c dev_id qp_id bufs data sz s0 \<noteq> None"
proof -
  note R = bursts.run_bursts_jobs [OF rest [unfolded at_rest_pipe] decompress_jobs_init [OF start] decompress_run_bursts]
  show "prompt P patience \<Longrightarrow> decompress_run P c dev_id qp_id bufs data sz s0 \<noteq> None" by (rule R(2))
  show "pwp (decompress_run P c dev_id qp_id bufs data sz)
      (\<lambda>_ t. at_rest P c (decompress_mode c (qp s0)) dev_id qp_id t \<and>
         decompressed_to P c (mach (wld s0)) bufs data (mach (wld t)) \<and>
         decompressed_buffer_size t = decompressed_size P c (mach (wld s0)) bufs \<and>
         untouched P (output_area c bufs data) s0 t)
      (\<lambda>e t. \<not> smooth \<and> decompress_lost P c s0 bufs data e t) s0"
  proof (rule pwp_mono [OF R(1)])
    fix t assume "left_to_decompress bufs t = 0 \<and>
      (\<exists>dn. pipe P c (decompress_mode c (qp s0)) dev_id qp_id [] [] [] t \<and> decompress_jobs P c s0 bufs data dn [] t)"
    then obtain dn where t: "left_to_decompress bufs t = 0" "pipe P c (decompress_mode c (qp s0)) dev_id qp_id [] [] [] t"
      "decompress_jobs P c s0 bufs data dn [] t" by blast
    show "at_rest P c (decompress_mode c (qp s0)) dev_id qp_id t \<and>
         decompressed_to P c (mach (wld s0)) bufs data (mach (wld t)) \<and>
         decompressed_buffer_size t = decompressed_size P c (mach (wld s0)) bufs \<and>
         untouched P (output_area c bufs data) s0 t"
      using decompressed_to_jobs [OF t(3,1) apart small] t(2) at_rest_pipe by blast
  qed
qed

end

definition decompress_ready ::
  "('w, 'p) dpdk_scheme \<Rightarrow> configuration \<Rightarrow> u16 \<Rightarrow> buffer list \<Rightarrow> buffer \<Rightarrow> device_memory \<Rightarrow> 'w dev_state \<Rightarrow> bool" where
  "decompress_ready P c qp_id bufs b dm s \<longleftrightarrow> calls_ready P c qp_id dm s \<and>
     bufs \<noteq> [] \<and> length bufs * unat (decompressed_seg_size c) \<le> buf_capacity b \<and>
     (\<forall>b \<in> set bufs. buf_size b < 65536) \<and> apart_output c bufs (buf_data b)"

lemma Decompress_call:
  fixes s :: "'w dev_state"
  assumes ready: "decompress_ready P c qp_id bufs b dm s"
  shows "pwp (Decompress P qp_id bufs (Some b)) Q E s =
      pwp (decompress_run P c (device_id (dev s)) qp_id bufs (buf_data b) (buf_capacity b))
        (\<lambda>_ q. Q (Some (decompressed_buffer_size q)) (qp_store (unat qp_id) q s))
        (\<lambda>e q. E e (qp_store (unat qp_id) q s)) (qp_view (dev s) (unat qp_id) dm (env s))"
    and "Decompress P qp_id bufs (Some b) s = None \<longleftrightarrow>
      decompress_run P c (device_id (dev s)) qp_id bufs (buf_data b) (buf_capacity b)
        (qp_view (dev s) (unat qp_id) dm (env s)) = None"
proof -
  let ?run = "decompress_run P c (device_id (dev s)) qp_id bufs (buf_data b) (buf_capacity b)"
  let ?call = "pseq (with_qp_memory (unat qp_id) ?run) (\<lambda>(_, q). total (return (Some (decompressed_buffer_size q))))"
  have cr: "calls_ready P c qp_id dm s" using ready by (simp add: decompress_ready_def)
  note R = calls_readyD [OF cr]
  have "(length bufs * unat (decompressed_seg_size c)) mod 2 ^ 64 \<le> length bufs * unat (decompressed_seg_size c)"
    by (rule mod_less_eq_dividend)
  also have "\<dots> \<le> buf_capacity b" using ready by (simp add: decompress_ready_def)
  finally have cap: "\<not> buf_capacity b < (length bufs * unat (decompressed_seg_size c)) mod 2 ^ 64"
    by (rule leD)
  have eq: "Decompress P qp_id bufs (Some b) s = ?call s"
    using ready R(1) cap calls_ready_guard [OF cr]
    by (simp add: Decompress_def pseq_def total_def seq_def get_def deref_def return_def Let_def decompress_ready_def)
  note W = with_qp_memory_pwp [OF R(4,2)]
  show "Decompress P qp_id bufs (Some b) s = None \<longleftrightarrow> ?run (qp_view (dev s) (unat qp_id) dm (env s)) = None"
    unfolding eq pseq_total_None by (rule W(2))
  have "pwp (Decompress P qp_id bufs (Some b)) Q E s = pwp ?call Q E s" by (simp only: pwp_def eq)
  then show "pwp (Decompress P qp_id bufs (Some b)) Q E s = pwp ?run
        (\<lambda>_ q. Q (Some (decompressed_buffer_size q)) (qp_store (unat qp_id) q s))
        (\<lambda>e q. E e (qp_store (unat qp_id) q s)) (qp_view (dev s) (unat qp_id) dm (env s))"
    by (simp add: W(1))
qed

definition decompress_smooth :: "('w, 'p) dpdk_scheme \<Rightarrow> configuration \<Rightarrow> 'w machine \<Rightarrow> buffer list \<Rightarrow> bool" where
  "decompress_smooth P c m bufs \<longleftrightarrow> faultless P \<and> (\<forall>b \<in> set bufs.
     length (codec P (decompress_xform c) (stored m b)) \<le> unat (decompressed_seg_size c))"

lemma Decompress_ok:
  assumes laws: "compress_laws P c" "one_segment c" and ready: "decompress_ready P c qp_id bufs b dm s"
  shows "pwp (Decompress P qp_id bufs (Some b))
      (\<lambda>r t. r = Some (decompressed_size P c (mach (env s)) bufs) \<and>
         decompressed_to P c (mach (env s)) bufs (buf_data b) (mach (env t)) \<and>
         (\<forall>a. a \<notin> output_area c bufs (buf_data b) \<longrightarrow> bytes (mach (env t)) a = bytes (mach (env s)) a) \<and>
         allocated_memzones (env t) = allocated_memzones (env s) \<and>
         decompress_ready P c qp_id bufs b dm t)
      (\<lambda>e t. \<not> decompress_smooth P c (mach (env s)) bufs \<and> (\<exists>code msg. e = Status code msg \<and>
           (code = IOError \<and> EntryGuard (dev t) qp_id = Inl (Status Cancelled ''Queue pair '') \<or> code = OutOfMemory)) \<and>
         (\<forall>a. a \<notin> output_area c bufs (buf_data b) \<longrightarrow> bytes (mach (env t)) a = bytes (mach (env s)) a) \<and>
         allocated_memzones (env t) = allocated_memzones (env s) \<and>
         device_mem (dev t) = Some dm \<and> dm_ok P c (dm, env t)) s"
    and "prompt P patience \<Longrightarrow> Decompress P qp_id bufs (Some b) s \<noteq> None"
proof -
  let ?v = "qp_view (dev s) (unat qp_id) dm (env s)" and ?i = "unat qp_id" and ?data = "buf_data b"
  have cr: "calls_ready P c qp_id dm s" using ready by (simp add: decompress_ready_def)
  note CR = calls_readyD [OF cr]
  let ?smooth = "decompress_smooth P c (mach (env s)) bufs"
  have small: "\<forall>b \<in> set bufs. buf_size b < 65536" using ready by (simp add: decompress_ready_def)
  have area: "buffer_area b = (buf_data b, buf_size b)" if "b \<in> set bufs" for b
    using small that by (simp add: buffer_area_def unat_of_nat take_bit_nat_eq_self)
  have client: "decompress_client P c ?v bufs ?data (buf_capacity b) ?smooth"
    using laws ready area
    by unfold_locales (simp_all add: decompress_ready_def decompress_smooth_def outputs_fit_def stored_def qp_view_def)
  have rest: "at_rest P c (decompress_mode c (qp ?v)) (device_id (dev s)) qp_id ?v"
    using CR(7) by (simp add: qp_view_def)
  have w: "wld ?v = env s" "dmem ?v = dm" by (simp_all add: qp_view_def)
  have start: "index ?v = 0" "offset ?v = 0" "decompressed_buffer_size ?v = 0" by (simp_all add: qp_view_def)
  note run = decompress_client.run [OF client rest start small, unfolded w]
  show "Decompress P qp_id bufs (Some b) s \<noteq> None" if "prompt P patience"
    using run(2) [OF that] Decompress_call(2) [OF ready] by simp
  have ok: "dm_ok P c (dmem t, wld t) \<and> dmem t = dm"
    if "untouched P A ?v t" for A and t :: "'a qp_state"
  proof -
    have u: "allocated_memzones (wld t) = allocated_memzones (env s)" "dmem t = dm"
      "live_zones P (hidden (mach (wld t))) = live_zones P (hidden (mach (env s)))"
      using that by (simp_all add: untouched_def w)
    have "mz_ok P (wld t)" using CR(5) u by (simp add: dm_ok_def mz_ok_def)
    then show ?thesis using CR(5) own_zone_cong [OF u(1)] u(2) by (simp add: dm_ok_def)
  qed
  show "pwp (Decompress P qp_id bufs (Some b))
      (\<lambda>r t. r = Some (decompressed_size P c (mach (env s)) bufs) \<and>
         decompressed_to P c (mach (env s)) bufs (buf_data b) (mach (env t)) \<and>
         (\<forall>a. a \<notin> output_area c bufs (buf_data b) \<longrightarrow> bytes (mach (env t)) a = bytes (mach (env s)) a) \<and>
         allocated_memzones (env t) = allocated_memzones (env s) \<and>
         decompress_ready P c qp_id bufs b dm t)
      (\<lambda>e t. \<not> ?smooth \<and> (\<exists>code msg. e = Status code msg \<and>
           (code = IOError \<and> EntryGuard (dev t) qp_id = Inl (Status Cancelled ''Queue pair '') \<or> code = OutOfMemory)) \<and>
         (\<forall>a. a \<notin> output_area c bufs (buf_data b) \<longrightarrow> bytes (mach (env t)) a = bytes (mach (env s)) a) \<and>
         allocated_memzones (env t) = allocated_memzones (env s) \<and>
         device_mem (dev t) = Some dm \<and> dm_ok P c (dm, env t)) s"
    unfolding Decompress_call(1) [OF ready]
  proof (rule pwp_mono [OF run(1)])
    fix t assume t: "at_rest P c (decompress_mode c (qp ?v)) (device_id (dev s)) qp_id t \<and>
         decompressed_to P c (mach (env s)) bufs ?data (mach (wld t)) \<and>
         decompressed_buffer_size t = decompressed_size P c (mach (env s)) bufs \<and>
         untouched P (output_area c bufs ?data) ?v t"
    then have un: "untouched P (output_area c bufs ?data) ?v t" by blast
    let ?t = "qp_store ?i t s"
    have "calls_ready P c qp_id (dmem t) ?t"
      by (rule calls_ready_store [OF cr, of "decompress_mode c (qp ?v)"])
        (use t ok [OF un, THEN conjunct1] un in \<open>simp_all add: untouched_def w\<close>)
    then have "decompress_ready P c qp_id bufs b dm ?t"
      using ready ok [OF un] by (simp add: decompress_ready_def)
    then show "Some (decompressed_buffer_size t) = Some (decompressed_size P c (mach (env s)) bufs) \<and>
         decompressed_to P c (mach (env s)) bufs ?data (mach (env ?t)) \<and>
         (\<forall>a. a \<notin> output_area c bufs ?data \<longrightarrow> bytes (mach (env ?t)) a = bytes (mach (env s)) a) \<and>
         allocated_memzones (env ?t) = allocated_memzones (env s) \<and>
         decompress_ready P c qp_id bufs b dm ?t"
      using t un by (simp add: untouched_def w) (simp add: qp_store_def)
  next
    fix e t assume lost: "\<not> ?smooth \<and> decompress_lost P c ?v bufs ?data e t"
    then have un: "untouched P (output_area c bufs ?data) ?v t" by (simp add: decompress_lost_def)
    let ?t = "qp_store ?i t s"
    have "EntryGuard (dev ?t) qp_id = Inl (Status Cancelled ''Queue pair '')" if "has_pending_operations (qp t)"
      using calls_ready_guard [OF cr] that CR(4)
      by (simp add: EntryGuard_def qp_store_def num_qps_def split: if_splits)
    then show "\<not> ?smooth \<and> (\<exists>code msg. e = Status code msg \<and>
           (code = IOError \<and> EntryGuard (dev ?t) qp_id = Inl (Status Cancelled ''Queue pair '') \<or> code = OutOfMemory)) \<and>
         (\<forall>a. a \<notin> output_area c bufs ?data \<longrightarrow> bytes (mach (env ?t)) a = bytes (mach (env s)) a) \<and>
         allocated_memzones (env ?t) = allocated_memzones (env s) \<and>
         device_mem (dev ?t) = Some dm \<and> dm_ok P c (dm, env ?t)"
      using lost un ok [OF un] by (auto simp: decompress_lost_def untouched_def w qp_store_def)
  qed
qed

end
