(* ===== verification/Bitar_Calls.thy ===== *)
theory Bitar_Calls
  imports Bitar_Sim_Calls Bitar_Decompress_Call
begin

text \<open>
  What the users of a compress device may rely on: the properties of \<open>Initialize\<close>,
  \<open>Compress\<close> and \<open>Decompress\<close>, with a device of the stand-in to show that they apply.
\<close>

subsection \<open>From Initialize to calls\<close>

lemma device_ready_calls:
  assumes "device_ready P c dm s" "qp_id < num_qps (dev s)"
  shows "calls_ready P c qp_id dm s"
proof -
  have lt: "unat qp_id < length (qp_memory (dev s))"
    using assms by (simp add: device_ready_def word_less_nat_alt)
  then have "qp_idle P c (qp_memory (dev s) ! unat qp_id) (mach (env s))"
    using assms(1) by (simp add: device_ready_def all_idle_def)
  then show ?thesis
    using assms lt
    by (auto simp: calls_ready_def device_ready_def at_rest_def qp_idle_def qp_view_def compress_mode_def
        decompress_mode_def)
qed

text \<open>A memzone that was there before the device is none of the device's.\<close>

lemma dm_books_foreign:
  assumes "dm_books c w0 dm (env t)" "allocated_memzones w0 (mz_addr z) = Some z" "A \<subseteq> zone_bytes z"
  shows "foreign A (qp_view (dev t) i dm (env t))"
proof -
  have "Some z \<notin> set (dm_all dm)" using assms(1,2) by (auto simp: dm_books_def)
  moreover have "\<forall>y. Some y \<in> set (dm_all dm) \<longrightarrow> mz_addr y \<noteq> mz_addr z"
    using assms(1,2) by (auto simp: dm_books_def)
  then have "allocated_memzones (env t) (mz_addr z) = Some z"
    using assms(1,2) by (simp add: dm_books_def)
  ultimately show ?thesis using assms(3) unfolding foreign_def qp_view_def by auto
qed

text \<open>The bytes of the process may be changed between the calls.\<close>

definition with_bytes :: "(addr \<Rightarrow> u8) \<Rightarrow> 'w dev_state \<Rightarrow> 'w dev_state" where
  "with_bytes f s = s\<lparr>env := (env s)\<lparr>mach := (mach (env s))\<lparr>bytes := f\<rparr>\<rparr>\<rparr>"

lemma calls_ready_bytes:
  assumes "calls_ready P c qp_id dm s"
  shows "calls_ready P c qp_id dm (with_bytes f s)"
proof -
  let ?t = "with_bytes f s"
  have e: "dev ?t = dev s" "allocated_memzones (env ?t) = allocated_memzones (env s)"
    "hidden (mach (env ?t)) = hidden (mach (env s))" by (simp_all add: with_bytes_def)
  have "mz_ok P (env ?t)" using assms e by (simp add: calls_ready_def dm_ok_def mz_ok_def)
  then have "dm_ok P c (dm, env ?t)"
    using assms own_zone_cong [OF e(2)] by (simp add: calls_ready_def dm_ok_def)
  then show ?thesis using assms e by (simp add: calls_ready_def at_rest_def qp_view_def)
qed

text \<open>The abstract content of compressed buffers: the segments of the input, each through the codec.\<close>

definition compressed_form :: "('w, 'p) dpdk_scheme \<Rightarrow> configuration \<Rightarrow> u8 list \<Rightarrow> u8 list list" where
  "compressed_form P c input =
     map (codec P (compress_xform c)) (segments (unat (decompressed_seg_size c)) input)"

text \<open>The bytes are back when each segment is back at its place.\<close>

lemma segments_back:
  assumes seg: "0 < seg" and there: "\<And>i. i < length (segments seg xs) \<Longrightarrow>
      mem_bytes m (data + i * seg) (length (segments seg xs ! i)) = segments seg xs ! i"
  shows "mem_bytes m data (length xs) = xs"
proof -
  let ?ys = "mem_bytes m data (length xs)"
  have "segments seg ?ys = segments seg xs"
  proof (rule nth_equalityI)
    show "length (segments seg ?ys) = length (segments seg xs)" by (simp add: segments_def)
    fix i assume "i < length (segments seg ?ys)"
    then have i: "i < length (segments seg xs)" by (simp add: segments_def)
    then have lt: "i * seg < length xs" using less_ceil_div_iff [OF seg] by (simp add: segments_def)
    have n: "length (segments seg xs ! i) = min (length xs - i * seg) seg" using i by (simp add: segments_def)
    have "segments seg ?ys ! i = take seg (drop (i * seg) ?ys)" using i by (simp add: segments_def)
    also have "\<dots> = take (min (length xs - i * seg) seg) (drop (i * seg) ?ys)" by (simp add: min_def)
    also have "\<dots> = mem_bytes m (data + i * seg) (min (length xs - i * seg) seg)"
      using lt by (subst mem_bytes_slice [of "i * seg" _ "length xs"]) simp_all
    also have "\<dots> = segments seg xs ! i" using there [OF i] n by simp
    finally show "segments seg ?ys ! i = segments seg xs ! i" .
  qed
  then show ?thesis using concat_segments [OF seg] by metis
qed

lemma sum_segments: "0 < seg \<Longrightarrow> (\<Sum>x\<leftarrow>segments seg xs. int (length x)) = int (length xs)"
proof -
  have "(\<Sum>x\<leftarrow>xss. int (length x)) = int (length (concat xss))" for xss :: "'a list list"
    by (induction xss) simp_all
  then show "0 < seg \<Longrightarrow> ?thesis" by (simp add: concat_segments)
qed

lemma decompressed_back:
  assumes "codec_laws P c" and seg: "0 < unat (decompressed_seg_size c)"
    and bufs: "map (stored m0) bufs = compressed_form P c input"
  shows "decompressed_size P c m0 bufs = int (length input)"
    "decompressed_to P c m0 bufs data m \<Longrightarrow> mem_bytes m data (length input) = input"
proof -
  let ?seg = "unat (decompressed_seg_size c)" and ?out = "\<lambda>b. codec P (decompress_xform c) (stored m0 b)"
  have outs: "map ?out bufs = segments ?seg input"
  proof -
    have "map ?out bufs = map (codec P (decompress_xform c)) (map (stored m0) bufs)" by simp
    also have "\<dots> = map (\<lambda>x. codec P (decompress_xform c) (codec P (compress_xform c) x)) (segments ?seg input)"
      unfolding bufs compressed_form_def by simp
    also have "\<dots> = segments ?seg input" using assms(1) by (simp add: codec_laws_def)
    finally show ?thesis .
  qed
  have "decompressed_size P c m0 bufs = (\<Sum>x\<leftarrow>map ?out bufs. int (length x))"
    by (simp add: decompressed_size_def comp_def)
  then show "decompressed_size P c m0 bufs = int (length input)" unfolding outs using sum_segments [OF seg] by metis
  assume to: "decompressed_to P c m0 bufs data m"
  show "mem_bytes m data (length input) = input"
  proof (rule segments_back [OF seg])
    fix i assume "i < length (segments ?seg input)"
    then have i: "i < length bufs" using arg_cong [OF outs, of length] by simp
    have "segments ?seg input ! i = ?out (bufs ! i)" unfolding outs [symmetric] using i by simp
    then show "mem_bytes m (data + i * ?seg) (length (segments ?seg input ! i)) = segments ?seg input ! i"
      using to i by (simp add: decompressed_to_def Let_def)
  qed
qed

text \<open>After \<open>Preallocate\<close> there are at least as many free memzones as the code insists on.\<close>

lemma preallocated_pool:
  assumes "preallocated P c i w0 dm" "mz_ok P w0" "burst_size c \<noteq> 0" "0 < compressed_seg_size c"
    "kMinPreallocateMemzones \<le> unat (max_preallocate_memzones c)"
  shows "kMinPreallocateMemzones \<le> length (memzone_pool dm)"
  using assms by (auto simp: preallocated_def intro: dm_Preallocate_ok(6))

text \<open>A call that returns, and can fail only when a condition does not hold.\<close>

lemma returns_success:
  assumes "\<exists>r t. f = Some (r, t) \<and> (case r of Inr x \<Rightarrow> Q x t | Inl e \<Rightarrow> \<not> smooth \<and> E e)" smooth
  obtains x t where "f = Some (Inr x, t)" "Q x t"
proof -
  obtain r t where rt: "f = Some (r, t)" "case r of Inr x \<Rightarrow> Q x t | Inl e \<Rightarrow> \<not> smooth \<and> E e"
    using assms(1) by blast
  then show thesis using that assms(2) by (cases r) simp_all
qed

subsection \<open>A device of the stand-in that is ready\<close>

lemma sim_one_segment: "one_segment sim_configured"
  by (simp add: one_segment_def)

text \<open>\<open>Initialize\<close> on the stand-in brings up a device that is ready for calls.\<close>

lemma sim_Initialized:
  obtains t dm where "Initialize sim_dpdk dpdk_default_config (Some sim_configuration) sim_device = Some (OK, t)"
    "device_ready sim_dpdk sim_configured dm t" "dm_books sim_configuration sim_process_start dm (env t)"
    "occupied_memzones dm = []" "num_qps (dev t) = 1" "narrow dm" "20 \<le> length (memzone_pool dm)"
    "worker_lcores (dev t) = [1]" "device_id (dev t) = 0"
proof -
  obtain t where I: "Initialize sim_dpdk dpdk_default_config (Some sim_configuration) sim_device = Some (OK, t)"
    by (rule sim_Initialize)
  have start: "mz_ok sim_dpdk (env sim_device)" "max_sgl_segs sim_configuration \<le> 1" "0 < compressed_seg_size sim_configuration"
    by (simp_all add: sim_process_ok)
  from pwp_Inr [OF Initialize_ready [OF sim_setup_laws sim_device_sel(1-3) start] I]
  obtain cap dm where cap: "rte_compressdev_capability_get sim_dpdk 0 = Some cap"
    and D: "device_ready sim_dpdk (normalised cap sim_configuration) dm t" "occupied_memzones dm = []"
      "dm_books sim_configuration sim_process_start dm (env t)" "worker_lcores (dev t) = [1]" "device_id (dev t) = 0"
      "preallocated sim_dpdk (normalised cap sim_configuration) 0 sim_process_start dm" by auto
  have c: "normalised cap sim_configuration = sim_configured"
    using cap by (simp add: sim_capability sim_configured_def)
  have pool: "narrow dm" "20 \<le> length (memzone_pool dm)"
    using sim_narrow [OF D(6) _ D(2) sim_process_ok] preallocated_pool [OF D(6) sim_process_ok]
    by (simp_all add: c kMinPreallocateMemzones_def)
  show thesis by (rule that [OF I]) (use D c pool in \<open>simp_all add: num_qps_def\<close>)
qed

text \<open>With the bytes 1, 2 and 3 in the buffer of the process.\<close>

definition sim_input :: "addr \<Rightarrow> u8" where
  "sim_input a = (if a = 72 then 1 else if a = 73 then 2 else if a = 74 then 3 else 0)"

abbreviation sim_area :: "nat \<Rightarrow> buffer" where
  "sim_area n \<equiv> \<lparr>buf_data = 72, buf_size = n, buf_capacity = n\<rparr>"

abbreviation sim_bytes :: "nat \<Rightarrow> u8 list" where
  "sim_bytes n \<equiv> map sim_input [72..<72 + n]"

lemma sim_bytes_3: "sim_bytes 3 = [1, 2, 3]"
  by (simp add: sim_input_def upt_rec)

lemma sim_compress_ready:
  assumes "0 < n" "n \<le> 2048"
  obtains s dm where "compress_ready sim_dpdk sim_configured 0 (sim_area n) (sim_bytes n) dm s" "dm_held (dm, env s) = {}"
    "compress_smooth sim_dpdk sim_configured (sim_bytes n) dm"
proof -
  obtain t dm where t: "device_ready sim_dpdk sim_configured dm t" "dm_books sim_configuration sim_process_start dm (env t)"
    "occupied_memzones dm = []" "num_qps (dev t) = 1" "narrow dm" "20 \<le> length (memzone_pool dm)"
    by (rule sim_Initialized)
  let ?s = "with_bytes sim_input t"
  have "calls_ready sim_dpdk sim_configured 0 dm t" using t(1,4) by (intro device_ready_calls) simp_all
  then have ready: "calls_ready sim_dpdk sim_configured 0 dm ?s" by (rule calls_ready_bytes)
  have "allocated_memzones sim_process_start (mz_addr sim_zone) = Some sim_zone" "{72 ..< 72 + n} \<subseteq> zone_bytes sim_zone"
    using assms by (auto simp: sim_process_start_def sim_zone_def zone_bytes_def)
  from dm_books_foreign [OF t(2) this, of 0] have "foreign {72 ..< 72 + n} (qp_view (dev ?s) 0 dm (env ?s))"
    by (simp add: foreign_def qp_view_def with_bytes_def)
  moreover have "mem_bytes (mach (env ?s)) 72 n = sim_bytes n"
    by (rule nth_equalityI) (simp_all add: mem_bytes_def with_bytes_def)
  ultimately have "compress_ready sim_dpdk sim_configured 0 (sim_area n) (sim_bytes n) dm ?s"
    unfolding compress_ready_def using ready assms by simp
  moreover have "dm_held (dm, env ?s) = {}" using t(3) by (simp add: dm_held_def)
  moreover have "compress_smooth sim_dpdk sim_configured (sim_bytes n) dm"
  proof -
    have "ceil_div n 2048 \<le> 1" using assms(2) by (simp add: ceil_div_le_iff)
    then have "ceil_div n 2048 \<le> length (memzone_pool dm)" using t(6) by linarith
    then show ?thesis using t(5) by (simp add: compress_smooth_def sim_faultless sim_compress_fits)
  qed
  ultimately show thesis by (rule that)
qed

text \<open>Both kinds of clients of the bursts on the stand-in.\<close>

interpretation sim_compress: compress_client sim_dpdk sim_configured q0 m0 dev_id qp_id data input H L Z True
  for q0 m0 dev_id qp_id data input H L Z
  by unfold_locales (simp_all add: sim_compress_laws sim_one_segment sim_faultless sim_compress_fits)

lemma sim_outputs_fit: "outputs_fit sim_dpdk sim_configured m [sim_area 3]"
  by (simp add: outputs_fit_def buffer_area_def sim_dpdk_def decompress_xform_def unat_of_nat take_bit_nat_eq_self)

interpretation sim_decompress: decompress_client sim_dpdk sim_configured s0 dev_id qp_id "[sim_area 3]" 4096 2048 True
  for s0 dev_id qp_id
  by unfold_locales (simp_all add: sim_compress_laws sim_one_segment sim_faultless sim_outputs_fit apart_output_def
      buffer_bytes_def buffer_area_def output_area_def unat_of_nat take_bit_nat_eq_self)

interpretation sim_bursts: burst_client sim_dpdk sim_configured "compress_mode sim_configured q0" dev_id qp_id
  compress_callback
  "pseq (total (AssembleFrom_decompressed sim_dpdk sim_configured data (length input)))
     (negative_else (status_codes sim_dpdk) ''Failed to assemble compression operations for queue pair ''
        (\<lambda>s. ReleaseAll sim_dpdk (compressed_buffers s) s))"
  "\<lambda>s. ReleaseAll sim_dpdk (compressed_buffers s) s"
  "\<lambda>dn xs s. compress_jobs sim_dpdk sim_configured q0 m0 data input H dn xs s \<and> (True \<longrightarrow> roomy sim_dpdk L Z sim_configured input s)"
  "left_to_compress sim_configured input"
  "\<lambda>e t. \<not> True \<and> compress_lost sim_dpdk sim_configured data input H e t" True
  for q0 m0 dev_id qp_id data input H L Z
  by (rule sim_compress.bursts.burst_client_axioms)

subsection \<open>Initialize\<close>

text \<open>
  C11. \<open>Initialize\<close> on a new device either makes it ready for calls on every queue pair, with a
  device memory of its own of which nothing is in use and with the configuration it has
  normalised and found acceptable, or leaves it refusing every call.
\<close>

theorem Initialize_makes_ready:
  assumes "setup_laws P" "device_mem (dev s) = None" "qp_memory (dev s) = []" "device_state (dev s) < kStarted"
    and "mz_ok P (env s)" "max_sgl_segs c \<le> 1" "0 < compressed_seg_size c"
    and "Initialize P rc (Some c) s = Some (r, t)"
  shows "case r of
      Inl e \<Rightarrow> \<forall>qp_id. EntryGuard (dev t) qp_id = Inl (Status Invalid ''Compress device '')
    | Inr _ \<Rightarrow> \<exists>cap dm. rte_compressdev_capability_get P (device_id (dev s)) = Some cap \<and>
        acceptable P rc (dev s) cap c \<and> occupied_memzones dm = [] \<and> dm_books c (env s) dm (env t) \<and>
        (\<forall>qp_id. qp_id < num_qps (dev s) \<longrightarrow> calls_ready P (normalised cap c) qp_id dm t)"
proof (cases r)
  case (Inl e)
  then show ?thesis
    using pwp_Inl [OF Initialize_ready [OF assms(1-7)]] assms(8) by (auto simp: refuses_def)
next
  case (Inr x)
  then obtain cap dm where "rte_compressdev_capability_get P (device_id (dev s)) = Some cap"
    "acceptable P rc (dev s) cap c" "occupied_memzones dm = []" "dm_books c (env s) dm (env t)"
    "device_ready P (normalised cap c) dm t" "worker_lcores (dev t) = worker_lcores (dev s)"
    using pwp_Inr [OF Initialize_ready [OF assms(1-7)]] assms(8) by blast
  moreover from this have "num_qps (dev t) = num_qps (dev s)" by (simp add: num_qps_def)
  ultimately show ?thesis using Inr device_ready_calls [of P "normalised cap c" dm t] by auto
qed

theorem Initialize_makes_ready_witness:
  "\<exists>t dm. Initialize sim_dpdk dpdk_default_config (Some sim_configuration) sim_device = Some (OK, t) \<and>
     calls_ready sim_dpdk sim_configured 0 dm t"
proof -
  obtain t where I: "Initialize sim_dpdk dpdk_default_config (Some sim_configuration) sim_device = Some (OK, t)"
    by (rule sim_Initialize)
  have start: "mz_ok sim_dpdk (env sim_device)" "max_sgl_segs sim_configuration \<le> 1" "0 < compressed_seg_size sim_configuration"
    by (simp_all add: sim_process_ok)
  have "0 < num_qps (dev sim_device)" by (simp add: num_qps_def)
  then show ?thesis
    using Initialize_makes_ready [OF sim_setup_laws sim_device_sel(1-3) start I] I
    by (auto simp: sim_capability sim_configured_def)
qed

subsection \<open>Compress\<close>

text \<open>
  C2. \<open>Compress\<close> returns, and on success the buffers it returns hold, in order, the output of the
  codec for the segments of the input, and the device is ready for the next call; otherwise it
  returns an \<open>IOError\<close> or \<open>OutOfMemory\<close>, and either the device is not free of faults or there are
  not enough free memzones that hold the output of a segment.
\<close>

theorem Compress_refines_codec:
  assumes "compress_laws P c" "one_segment c" "prompt P patience" "compress_ready P c qp_id b input dm s"
  shows "\<exists>r t. Compress P qp_id (Some b) s = Some (r, t) \<and>
    (case r of
       Inr bufs \<Rightarrow> map (stored (mach (env t))) bufs = compressed_form P c input \<and>
         (\<exists>dm. compress_ready P c qp_id b input dm t)
     | Inl e \<Rightarrow> \<not> compress_smooth P c input dm \<and> (\<exists>code msg. e = Status code msg \<and> code \<in> {IOError, OutOfMemory}))"
proof -
  note C = Compress_ok [OF assms(1,2,4)]
  obtain r t where rt: "Compress P qp_id (Some b) s = Some (r, t)" using C(2) [OF assms(3)] by fast
  show ?thesis
  proof (cases r)
    case (Inl e)
    then show ?thesis using pwp_Inl [OF C(1)] rt by auto
  next
    case (Inr bufs)
    then show ?thesis
      using pwp_Inr [OF C(1)] rt by (auto simp: compressed_form_def stored_def [abs_def])
  qed
qed

theorem Compress_refines_codec_witness:
  "\<exists>s bufs t. Compress sim_dpdk 0 (Some (sim_area 3)) s = Some (Inr bufs, t) \<and>
     map (stored (mach (env t))) bufs = [[120, 1, 2, 3]]"
proof -
  obtain s dm where s: "compress_ready sim_dpdk sim_configured 0 (sim_area 3) [1, 2, 3] dm s"
    "compress_smooth sim_dpdk sim_configured [1, 2, 3] dm"
    by (rule sim_compress_ready [of 3, unfolded sim_bytes_3]) simp_all
  have form: "compressed_form sim_dpdk sim_configured [1, 2, 3] = [[120, 1, 2, 3]]"
    by (simp add: compressed_form_def segments_def ceil_div_def sim_dpdk_def compress_xform_def upt_rec)
  obtain bufs t where "Compress sim_dpdk 0 (Some (sim_area 3)) s = Some (Inr bufs, t)"
    "map (stored (mach (env t))) bufs = [[120, 1, 2, 3]] \<and>
     (\<exists>dm. compress_ready sim_dpdk sim_configured 0 (sim_area 3) [1, 2, 3] dm t)"
    by (rule returns_success [OF Compress_refines_codec [OF sim_compress_laws sim_one_segment sim_prompt s(1), unfolded form] s(2)])
  then show ?thesis by (intro exI [of _ s] exI [of _ bufs] exI [of _ t] conjI) simp_all
qed

text \<open>
  C10. The memory of the returned buffers is taken from the device memory and was not in use;
  the device memory keeps count of it, and no byte outside of it changes. When \<open>Compress\<close> fails,
  everything it took is back, the input is unchanged and the queue pair accepts the next call.
\<close>

theorem Compress_memory:
  assumes "compress_laws P c" "one_segment c" "compress_ready P c qp_id b input dm s"
    and "Compress P qp_id (Some b) s = Some (r, t)"
  shows "\<exists>dm'. device_mem (dev t) = Some dm' \<and>
    (case r of
       Inr bufs \<Rightarrow> \<exists>zs. list_all2 filled zs bufs \<and> distinct zs \<and> set zs \<inter> dm_held (dm, env s) = {} \<and>
         dm_held (dm', env t) = dm_held (dm, env s) \<union> set zs \<and>
         (\<forall>a. (\<forall>z \<in> set zs. a \<notin> zone_bytes z) \<longrightarrow> bytes (mach (env t)) a = bytes (mach (env s)) a)
     | Inl e \<Rightarrow> dm_held (dm', env t) = dm_held (dm, env s) \<and>
         mem_bytes (mach (env t)) (buf_data b) (length input) = input \<and> EntryGuard (dev t) qp_id = OK)"
proof (cases r)
  case (Inl e)
  then show ?thesis using pwp_Inl [OF Compress_ok(1) [OF assms(1-3)]] assms(4) by auto
next
  case (Inr bufs)
  obtain dm' zs where C: "compress_ready P c qp_id b input dm' t"
    "list_all2 filled zs bufs" "distinct zs" "set zs \<inter> dm_held (dm, env s) = {}"
    "dm_held (dm', env t) = dm_held (dm, env s) \<union> set zs" "only_new_zones P (mach (env s)) (set zs) (mach (env t))"
    using pwp_Inr [OF Compress_ok(1) [OF assms(1-3)]] assms(4) Inr by blast
  have "device_mem (dev t) = Some dm'" using C(1) by (simp add: compress_ready_def calls_ready_def)
  then show ?thesis
    using C(2-6) Inr by (auto simp: only_new_zones_def)
qed

theorem Compress_memory_witness:
  "\<exists>s bufs t dm. Compress sim_dpdk 0 (Some (sim_area 3)) s = Some (Inr bufs, t) \<and> device_mem (dev t) = Some dm \<and>
     buf_data ` set bufs = mz_addr ` dm_held (dm, env t)"
proof -
  obtain s d where s: "compress_ready sim_dpdk sim_configured 0 (sim_area 3) [1, 2, 3] d s" "dm_held (d, env s) = {}"
    "compress_smooth sim_dpdk sim_configured [1, 2, 3] d"
    by (rule sim_compress_ready [of 3, unfolded sim_bytes_3]) simp_all
  note C = Compress_ok [OF sim_compress_laws sim_one_segment s(1)]
  obtain r t where rt: "Compress sim_dpdk 0 (Some (sim_area 3)) s = Some (r, t)"
    using C(2) [OF sim_prompt] by fast
  obtain bufs where r: "r = Inr bufs" using pwp_Inl [OF C(1)] rt s(3) by (cases r) auto
  obtain dm zs where dm: "device_mem (dev t) = Some dm" "list_all2 filled zs bufs"
    "dm_held (dm, env t) = dm_held (d, env s) \<union> set zs"
    using Compress_memory [OF sim_compress_laws sim_one_segment s(1) rt] r by auto
  have "buf_data ` set bufs = mz_addr ` set zs"
    using dm(2) by (induction rule: list_all2_induct) (simp_all add: filled_def)
  moreover have "dm_held (dm, env t) = set zs" using dm(3) s(2) by simp
  ultimately show ?thesis using rt [unfolded r] dm(1) by metis
qed

subsection \<open>Decompress\<close>

lemma sim_decompress_ready:
  assumes "72 + n \<le> 4096"
  obtains s dm where "decompress_ready sim_dpdk sim_configured 0 [sim_area n]
      \<lparr>buf_data = 4096, buf_size = 0, buf_capacity = 2048\<rparr> dm s"
    "bytes (mach (env s)) = sim_input"
proof -
  obtain t dm where t: "device_ready sim_dpdk sim_configured dm t" "num_qps (dev t) = 1"
    by (rule sim_Initialized)
  let ?s = "with_bytes sim_input t"
  have "calls_ready sim_dpdk sim_configured 0 dm t" using t by (intro device_ready_calls) simp_all
  then have ready: "calls_ready sim_dpdk sim_configured 0 dm ?s" by (rule calls_ready_bytes)
  have "apart_output sim_configured [sim_area n] 4096"
    using assms
    by (auto simp: apart_output_def buffer_bytes_def buffer_area_def output_area_def unat_of_nat take_bit_nat_eq_self)
  then have "decompress_ready sim_dpdk sim_configured 0 [sim_area n]
      \<lparr>buf_data = 4096, buf_size = 0, buf_capacity = 2048\<rparr> dm ?s"
    using ready assms by (simp add: decompress_ready_def)
  moreover have "bytes (mach (env ?s)) = sim_input" by (simp add: with_bytes_def)
  ultimately show thesis by (rule that)
qed

text \<open>
  C3. \<open>Decompress\<close> returns, and on success the output buffer holds for every compressed buffer the
  output of the codec at the start of its own segment, the new size is the sum of the sizes,
  no other byte has changed and the device is ready for the next call.
\<close>

theorem Decompress_correct:
  assumes "compress_laws P c" "one_segment c" "prompt P patience" "decompress_ready P c qp_id bufs b dm s"
  shows "\<exists>r t. Decompress P qp_id bufs (Some b) s = Some (r, t) \<and>
    (\<forall>a. a \<notin> output_area c bufs (buf_data b) \<longrightarrow> bytes (mach (env t)) a = bytes (mach (env s)) a) \<and>
    (case r of
       Inr n \<Rightarrow> n = Some (decompressed_size P c (mach (env s)) bufs) \<and>
         decompressed_to P c (mach (env s)) bufs (buf_data b) (mach (env t)) \<and>
         decompress_ready P c qp_id bufs b dm t
     | Inl e \<Rightarrow> \<not> decompress_smooth P c (mach (env s)) bufs \<and>
         (\<exists>code msg. e = Status code msg \<and> code \<in> {IOError, OutOfMemory}))"
proof -
  note D = Decompress_ok [OF assms(1,2,4)]
  obtain r t where rt: "Decompress P qp_id bufs (Some b) s = Some (r, t)" using D(2) [OF assms(3)] by fast
  show ?thesis
  proof (cases r)
    case (Inl e)
    then show ?thesis using pwp_Inl [OF D(1)] rt by (intro exI [of _ r] exI [of _ t]) auto
  next
    case (Inr n)
    then show ?thesis using pwp_Inr [OF D(1)] rt by (intro exI [of _ r] exI [of _ t]) auto
  qed
qed

theorem Decompress_correct_witness:
  "\<exists>s t. Decompress sim_dpdk 0 [sim_area 3] (Some \<lparr>buf_data = 4096, buf_size = 0, buf_capacity = 2048\<rparr>) s =
     Some (Inr (Some 2), t) \<and> mem_bytes (mach (env t)) 4096 2 = [2, 3]"
proof -
  let ?bufs = "[sim_area 3]" and ?out = "\<lparr>buf_data = 4096, buf_size = 0, buf_capacity = 2048\<rparr>"
  obtain s dm where s: "decompress_ready sim_dpdk sim_configured 0 ?bufs ?out dm s" "bytes (mach (env s)) = sim_input"
    by (rule sim_decompress_ready [of 3]) simp
  have "stored (mach (env s)) (sim_area 3) = [1, 2, 3]"
    by (simp add: stored_def mem_bytes_def s(2) sim_input_def upt_rec)
  then have out: "codec sim_dpdk (decompress_xform sim_configured) (stored (mach (env s)) (?bufs ! 0)) = [2, 3]"
    by (simp add: sim_dpdk_def decompress_xform_def)
  then have smooth: "decompress_smooth sim_dpdk sim_configured (mach (env s)) ?bufs"
    by (simp add: decompress_smooth_def sim_faultless)
  have "decompressed_size sim_dpdk sim_configured (mach (env s)) ?bufs = 2"
    "decompressed_to sim_dpdk sim_configured (mach (env s)) ?bufs 4096 m \<Longrightarrow> mem_bytes m 4096 2 = [2, 3]" for m
    using out by (simp_all add: decompressed_size_def decompressed_to_def numeral_2_eq_2)
  note vals = this
  have "\<exists>r t. Decompress sim_dpdk 0 ?bufs (Some ?out) s = Some (r, t) \<and> (case r of
       Inr n \<Rightarrow> n = Some (decompressed_size sim_dpdk sim_configured (mach (env s)) ?bufs) \<and>
         decompressed_to sim_dpdk sim_configured (mach (env s)) ?bufs (buf_data ?out) (mach (env t)) \<and>
         decompress_ready sim_dpdk sim_configured 0 ?bufs ?out dm t
     | Inl e \<Rightarrow> \<not> decompress_smooth sim_dpdk sim_configured (mach (env s)) ?bufs \<and>
         (\<exists>code msg. e = Status code msg \<and> code \<in> {IOError, OutOfMemory}))"
    using Decompress_correct [OF sim_compress_laws sim_one_segment sim_prompt s(1)] by blast
  then obtain n t where "Decompress sim_dpdk 0 ?bufs (Some ?out) s = Some (Inr n, t)"
    "n = Some (decompressed_size sim_dpdk sim_configured (mach (env s)) ?bufs) \<and>
     decompressed_to sim_dpdk sim_configured (mach (env s)) ?bufs (buf_data ?out) (mach (env t)) \<and>
     decompress_ready sim_dpdk sim_configured 0 ?bufs ?out dm t"
    by (rule returns_success [OF _ smooth])
  then show ?thesis using vals by auto
qed



subsection \<open>Refused calls\<close>

text \<open>
  C35. A call of \<open>Compress\<close> or \<open>Decompress\<close> that the entry guard refuses returns the
  guard's status and changes nothing: neither the queue pair, nor the device memory, nor
  the process.
\<close>

theorem refused_call_changes_nothing:
  assumes "EntryGuard (dev s) qp_id = Inl e" "buf_size b \<noteq> 0"
    and "device_configuration (dev s) = Some c" "bufs \<noteq> []"
    and "(length bufs * unat (decompressed_seg_size c)) mod 2 ^ 64 \<le> buf_capacity b"
  shows "Compress P qp_id (Some b) s = Some (Inl e, s) \<and>
    Decompress P qp_id bufs (Some b) s = Some (Inl e, s)"
  using assms by (simp add: Compress_def Decompress_def pseq_def)

theorem refused_call_changes_nothing_witness:
  "\<exists>s. device_configuration (dev s) \<noteq> None \<and>
     Compress sim_dpdk 0 (Some \<lparr>buf_data = 72, buf_size = 3, buf_capacity = 65536\<rparr>) s =
       Some (Inl (Status Invalid ''Compress device ''), s) \<and>
     Decompress sim_dpdk 0 [sim_area 3] (Some \<lparr>buf_data = 72, buf_size = 3, buf_capacity = 65536\<rparr>) s =
       Some (Inl (Status Invalid ''Compress device ''), s)"
proof -
  let ?s = "sim_device\<lparr>dev := (dev sim_device)\<lparr>device_configuration := Some sim_configuration\<rparr>\<rparr>"
  let ?b = "\<lparr>buf_data = 72, buf_size = 3, buf_capacity = 65536\<rparr>"
  have refused: "EntryGuard (dev ?s) 0 = Inl (Status Invalid ''Compress device '')"
    using sim_device_sel(3) by (simp add: EntryGuard_def)
  have conf: "device_configuration (dev ?s) = Some sim_configuration" by simp
  have fits: "(length [sim_area 3] * unat (decompressed_seg_size sim_configuration)) mod 2 ^ 64 \<le> buf_capacity ?b"
    using unat_u16_less [of "decompressed_seg_size sim_configuration"] by simp
  have "buf_size ?b \<noteq> 0" "[sim_area 3] \<noteq> []" by simp_all
  note refused_call_changes_nothing [OF refused this(1) conf this(2) fits, of sim_dpdk]
  then show ?thesis using conf by blast
qed

subsection \<open>Compress and Decompress\<close>

lemma decompress_compressed_smooth:
  assumes "codec_laws P c" "faultless P" "map (stored m) bufs = compressed_form P c input"
  shows "decompress_smooth P c m bufs"
  unfolding decompress_smooth_def
proof (intro conjI ballI assms(2))
  fix b assume "b \<in> set bufs"
  then have "stored m b \<in> set (compressed_form P c input)" unfolding assms(3) [symmetric] by simp
  then obtain xs where xs: "xs \<in> set (segments (unat (decompressed_seg_size c)) input)" "stored m b = codec P (compress_xform c) xs"
    by (auto simp: compressed_form_def)
  have "length xs \<le> unat (decompressed_seg_size c)" using xs(1) by (auto simp: segments_def)
  then show "length (codec P (decompress_xform c) (stored m b)) \<le> unat (decompressed_seg_size c)"
    using assms(1) by (simp add: xs(2) codec_laws_def)
qed

lemma compressed_decompress_ready:
  assumes "compress_ready P c qp_id b input dm t" "map (stored (mach (env t))) bufs = compressed_form P c input"
    and "list_all2 filled zs bufs" "apart_output c bufs (buf_data out)" "0 < unat (decompressed_seg_size c)"
    and "length bufs * unat (decompressed_seg_size c) \<le> buf_capacity out"
  shows "decompress_ready P c qp_id bufs out dm t"
proof -
  have "length bufs = length (compressed_form P c input)" using arg_cong [OF assms(2), of length] by simp
  moreover have "input \<noteq> []" using assms(1) by (simp add: compress_ready_def)
  ultimately have "length bufs \<noteq> 0"
    using ceil_div_pos [of "unat (decompressed_seg_size c)" "length input"] assms(5)
    by (simp add: compressed_form_def segments_def)
  moreover have "\<forall>b \<in> set bufs. buf_size b < 65536"
    using assms(3) by (induction rule: list_all2_induct) (simp_all add: filled_def)
  ultimately show ?thesis using assms by (auto simp: decompress_ready_def compress_ready_def)
qed

text \<open>
  C1. What \<open>Compress\<close> has returned, \<open>Decompress\<close> turns back into the input: on a device without
  faults and with a free memzone for each segment both calls succeed, and the output buffer, which
  may be anywhere apart from the compressed buffers, holds the input.
\<close>

theorem compress_decompress_roundtrip:
  assumes "compress_laws P c" "one_segment c" "prompt P patience"
    and "compress_ready P c qp_id b input dm s" "compress_smooth P c input dm"
  shows "\<exists>bufs t. Compress P qp_id (Some b) s = Some (Inr bufs, t) \<and>
    (\<forall>out. apart_output c bufs (buf_data out) \<longrightarrow> length bufs * unat (decompressed_seg_size c) \<le> buf_capacity out \<longrightarrow>
       (\<exists>u. Decompress P qp_id bufs (Some out) t = Some (Inr (Some (int (length input))), u) \<and>
          mem_bytes (mach (env u)) (buf_data out) (length input) = input))"
proof -
  note C = Compress_ok [OF assms(1,2,4)]
  have laws: "codec_laws P c" "faultless P" using assms(1,5) by (simp_all add: compress_laws_def compress_smooth_def)
  have seg: "0 < unat (decompressed_seg_size c)" using assms(2) by (simp add: one_segment_def word_less_nat_alt)
  obtain r t where rt: "Compress P qp_id (Some b) s = Some (r, t)" using C(2) [OF assms(3)] by fast
  obtain bufs where r: "r = Inr bufs" using pwp_Inl [OF C(1)] rt assms(5) by (cases r) auto
  obtain dm' zs where t: "map (stored (mach (env t))) bufs = compressed_form P c input"
    "compress_ready P c qp_id b input dm' t" "list_all2 filled zs bufs"
    using pwp_Inr [OF C(1)] rt r by (auto simp: compressed_form_def stored_def [abs_def])
  have "\<exists>u. Decompress P qp_id bufs (Some out) t = Some (Inr (Some (int (length input))), u) \<and>
      mem_bytes (mach (env u)) (buf_data out) (length input) = input"
    if out: "apart_output c bufs (buf_data out)" "length bufs * unat (decompressed_seg_size c) \<le> buf_capacity out" for out
  proof -
    note D = Decompress_ok [OF assms(1,2) compressed_decompress_ready [OF t(2,1,3) out(1) seg out(2)]]
    obtain r u where u: "Decompress P qp_id bufs (Some out) t = Some (r, u)" using D(2) [OF assms(3)] by fast
    obtain n where n: "r = Inr n"
      using pwp_Inl [OF D(1)] u decompress_compressed_smooth [OF laws t(1)] by (cases r) auto
    then have "n = Some (decompressed_size P c (mach (env t)) bufs)"
      "decompressed_to P c (mach (env t)) bufs (buf_data out) (mach (env u))"
      using pwp_Inr [OF D(1)] u by blast+
    then show ?thesis using u n decompressed_back [OF laws(1) seg t(1)] by auto
  qed
  then show ?thesis using rt r by blast
qed

lemma sim_bytes_zeros: "sim_bytes (n + 3) = [1, 2, 3] @ replicate n 0"
proof (rule nth_equalityI)
  fix i assume "i < length (sim_bytes (n + 3))"
  then have "i < n + 3" by simp
  then show "sim_bytes (n + 3) ! i = ([1, 2, 3] @ replicate n 0) ! i"
    by (cases "i < 3") (auto simp: sim_input_def nth_append nth_Cons' numeral_3_eq_3 less_Suc_eq)
qed simp

text \<open>The bytes 1, 2, 3 and 2045 times 0 are compressed, and decompressed in place.\<close>

theorem compress_decompress_roundtrip_witness:
  "\<exists>s bufs t u. Compress sim_dpdk 0 (Some (sim_area 2048)) s = Some (Inr bufs, t) \<and>
     Decompress sim_dpdk 0 bufs (Some (sim_area 2048)) t = Some (Inr (Some 2048), u) \<and>
     mem_bytes (mach (env u)) 72 2048 = [1, 2, 3] @ replicate 2045 0"
proof -
  define n :: nat where "n = 2048"
  define xs where "xs = sim_bytes n"
  have len: "length xs = n" by (simp add: xs_def)
  have n: "n = 2045 + 3" and pos: "0 < n" "n \<le> 2048" by (simp_all add: n_def)
  have xs: "xs = [1, 2, 3] @ replicate 2045 0" unfolding xs_def n by (rule sim_bytes_zeros)
  obtain s d where s: "compress_ready sim_dpdk sim_configured 0 (sim_area n) xs d s"
    "compress_smooth sim_dpdk sim_configured xs d"
    by (rule sim_compress_ready [OF pos, folded xs_def])
  obtain bufs t where C: "Compress sim_dpdk 0 (Some (sim_area n)) s = Some (Inr bufs, t)"
    and again: "apart_output sim_configured bufs (buf_data out) \<Longrightarrow>
       length bufs * unat (decompressed_seg_size sim_configured) \<le> buf_capacity out \<Longrightarrow>
       (\<exists>u. Decompress sim_dpdk 0 bufs (Some out) t = Some (Inr (Some (int (length xs))), u) \<and>
          mem_bytes (mach (env u)) (buf_data out) (length xs) = xs)" for out
    using compress_decompress_roundtrip [OF sim_compress_laws sim_one_segment sim_prompt s] by blast
  obtain dm zs where t: "map (stored (mach (env t))) bufs = compressed_form sim_dpdk sim_configured xs"
    "compress_ready sim_dpdk sim_configured 0 (sim_area n) xs dm t" "list_all2 filled zs bufs"
    "set zs \<subseteq> dm_held (dm, env t)"
    using pwp_Inr [OF Compress_ok(1) [OF sim_compress_laws sim_one_segment s(1)] C]
    by (auto simp: compressed_form_def stored_def [abs_def])
  have one: "length bufs = 1"
    using arg_cong [OF t(1), of length] by (simp add: compressed_form_def segments_def ceil_div_def len n_def)
  let ?v = "qp_view (dev t) 0 dm (env t)"
  have far: "{72 ..< 72 + n} \<inter> zone_bytes z = {}" if "z \<in> set zs" for z
  proof (rule foreign_apart)
    show "dm_ok sim_dpdk sim_configured (dmem ?v, wld ?v)" "foreign {72 ..< 72 + n} ?v"
      using t(2) by (simp_all add: compress_ready_def calls_ready_def len) (simp add: qp_view_def)
    show "z \<in> dm_held (dmem ?v, wld ?v)" using t(4) that by (auto simp: qp_view_def)
  qed
  have "apart_output sim_configured bufs 72"
    unfolding apart_output_def
  proof
    fix b assume "b \<in> set bufs"
    with t(3) have "\<exists>z \<in> set zs. filled z b" by (induction rule: list_all2_induct) auto
    then obtain z where "z \<in> set zs" "filled z b" by blast
    then show "buffer_bytes b \<inter> output_area sim_configured bufs 72 = {}"
    proof -
      have bytes: "buffer_bytes b = {buf_data b ..< buf_data b + buf_size b}"
        using \<open>filled z b\<close> by (simp add: filled_def buffer_bytes_def buffer_area_def unat_of_nat take_bit_nat_eq_self)
      have "buffer_bytes b \<subseteq> zone_bytes z" unfolding bytes using \<open>filled z b\<close> unfolding filled_def by blast
      moreover have "output_area sim_configured bufs 72 = {72 ..< 72 + n}" using one by (simp add: output_area_def n_def)
      ultimately show ?thesis using far [OF \<open>z \<in> set zs\<close>] by blast
    qed
  qed
  moreover have "length bufs * unat (decompressed_seg_size sim_configured) \<le> buf_capacity (sim_area n)"
    using one by (simp add: n_def)
  ultimately obtain u where u: "Decompress sim_dpdk 0 bufs (Some (sim_area n)) t = Some (Inr (Some (int n)), u)"
    "mem_bytes (mach (env u)) 72 n = xs"
    using again [of "sim_area n"] unfolding len by auto
  have "int n = 2048" by (simp add: n_def)
  with C u show ?thesis unfolding n_def xs by metis
qed

end
