(* ===== verification/Bitar_Driver.thy ===== *)
theory Bitar_Driver
  imports Bitar_Device "HOL-Library.Char_ord"
begin

text \<open>
  \<open>src/include/driver.h\<close> and \<open>src/driver.cc\<close>: which devices are there, what their PCI
  numbers are, and how the worker lcores of the process are dealt out to the devices. The
  list of devices, their names, the files of \<open>/sys\<close> and the table of lcores belong to DPDK
  and to the operating system; they are the fields of a parameter.
\<close>

subsection \<open>The environment\<close>

record driver_env =
  drv_rc :: rte_config
  drv_lcores :: lcore_env
  drv_files :: files
  rte_compressdev_devices_get :: "string \<Rightarrow> nat \<Rightarrow> u8 list"
    \<comment> \<open>the ids written to the caller's array; their number is the return value\<close>
  rte_compressdev_name_get :: "u8 \<Rightarrow> string option"

subsection \<open>The devices that are there\<close>

datatype DriverClass = MLX5_PCI

definition driver_name :: "DriverClass \<Rightarrow> string" where
  "driver_name c = (case c of MLX5_PCI \<Rightarrow> ''MLX5_PCI'')"

definition tolower :: "char \<Rightarrow> char" where
  "tolower ch = (let n = of_char ch :: nat in if 65 \<le> n \<and> n \<le> 90 then char_of (n + 32) else ch)"

definition ListAvailableDeviceIds :: "driver_env \<Rightarrow> u8 list result" where
  "ListAvailableDeviceIds sys =
     (let name = map tolower (driver_name MLX5_PCI);
          avail = rte_compressdev_devices_get sys name (RTE_COMPRESS_MAX_DEVS (drv_rc sys))
      in if length avail = 0
         then Inl (Status Invalid ''No compress device is available with driver name: '')
         else Inr avail)"

definition HasDeviceIds :: "u8 list \<Rightarrow> u8 list \<Rightarrow> unit result" where
  "HasDeviceIds avail_dev_ids device_ids =
     (let not_avail_dev_ids = filter (\<lambda>i. i \<notin> set avail_dev_ids) device_ids in
      if not_avail_dev_ids \<noteq> [] then Inl (Status Invalid ''Not available device ids: '') else OK)"

subsection \<open>PCI numbers\<close>

text \<open>
  \<open>std::stoi\<close> with base 0: leading white space, a sign, a prefix that chooses the base, as
  many digits as there are. Without a digit it throws \<open>std::invalid_argument\<close>, beyond the
  range of \<open>int\<close> it throws \<open>std::out_of_range\<close>.
\<close>

definition isspace :: "char \<Rightarrow> bool" where
  "isspace ch \<longleftrightarrow> (let n = of_char ch :: nat in n = 32 \<or> 9 \<le> n \<and> n \<le> 13)"

definition digit_value :: "char \<Rightarrow> nat option" where
  "digit_value ch =
     (let n = of_char ch :: nat in
      if 48 \<le> n \<and> n \<le> 57 then Some (n - 48)
      else if 97 \<le> n \<and> n \<le> 122 then Some (n - 97 + 10)
      else if 65 \<le> n \<and> n \<le> 90 then Some (n - 65 + 10)
      else None)"

definition is_digit :: "nat \<Rightarrow> char \<Rightarrow> bool" where
  "is_digit base ch \<longleftrightarrow> (case digit_value ch of None \<Rightarrow> False | Some d \<Rightarrow> d < base)"

definition number_base :: "string \<Rightarrow> nat \<times> string" where
  "number_base s =
     (case s of [] \<Rightarrow> (10, s)
      | z # t \<Rightarrow>
          if z \<noteq> CHR ''0'' then (10, s)
          else (case t of
                  x # ch # u \<Rightarrow>
                    if (x = CHR ''x'' \<or> x = CHR ''X'') \<and> is_digit 16 ch then (16, ch # u) else (8, s)
                | _ \<Rightarrow> (8, s)))"

fun number_value :: "nat \<Rightarrow> nat \<Rightarrow> string \<Rightarrow> nat" where
  "number_value base acc [] = acc"
| "number_value base acc (ch # s) = number_value base (acc * base + the (digit_value ch)) s"

definition split_sign :: "string \<Rightarrow> int \<times> string" where
  "split_sign s =
     (case s of [] \<Rightarrow> (1, s)
      | ch # t \<Rightarrow> if ch = CHR ''-'' then (-1, t) else if ch = CHR ''+'' then (1, t) else (1, s))"

definition stoi :: "string \<Rightarrow> int result" where
  "stoi str =
     (case split_sign (dropWhile isspace str) of (sign, s) \<Rightarrow>
      case number_base s of (base, s) \<Rightarrow>
        let digits = takeWhile (is_digit base) s; i = sign * int (number_value base 0 digits) in
        if digits = [] then Inl (Fault (UncaughtException ''std::invalid_argument''))
        else if \<not> int32_ok i then Inl (Fault (UncaughtException ''std::out_of_range''))
        else Inr i)"

text \<open>
  \<open>magic_enum::enum_cast\<close> finds the enumerator of a value within the range that
  \<open>enum_range\<close> gives.
\<close>

definition enum_cast :: "nat \<Rightarrow> nat \<Rightarrow> ('e \<Rightarrow> u16) \<Rightarrow> 'e list \<Rightarrow> u16 \<Rightarrow> 'e option" where
  "enum_cast lo hi enum_integer enumerators v =
     (if lo \<le> unat v \<and> unat v \<le> hi then find (\<lambda>e. enum_integer e = v) enumerators else None)"

definition PCIVendorId_cast :: "u16 \<Rightarrow> PCIVendorId option" where
  "PCIVendorId_cast = enum_cast 0x15b3 0x177d PCIVendorId_integer [MELLANOX]"

definition PCIDeviceId_cast :: "u16 \<Rightarrow> PCIDeviceId option" where
  "PCIDeviceId_cast = enum_cast 0xa2d6 0xa300 PCIDeviceId_integer
     [MELLANOX_CONNECTX6DXBF, MELLANOX_CONNECTX7BF]"

text \<open>The template \<open>GetPCIId\<close>, with the cast and the name of its type parameter.\<close>

definition GetPCIId :: "driver_env \<Rightarrow> (u16 \<Rightarrow> 'e option) \<Rightarrow> string \<Rightarrow> string \<Rightarrow> 'e result" where
  "GetPCIId sys cast type_name device_name =
     (case ReadFileContent (drv_files sys)
             (''/sys/class/infiniband/'' @ device_name @ ''/device/'' @ type_name) of
        Inl e \<Rightarrow> Inl e
      | Inr pci_id_str \<Rightarrow>
          (case stoi pci_id_str of
             Inl e \<Rightarrow> Inl e
           | Inr i \<Rightarrow>
               (case cast (word_of_int i) of
                  None \<Rightarrow> Inl (Status NotImplemented ''Compress device with '')
                | Some v \<Rightarrow> Inr v)))"

subsection \<open>Dealing out the lcores\<close>

text \<open>
  The loop of \<open>CreateDevices\<close>: \<open>lcores\<close> are those from \<open>worker_lcores_iter\<close> on; running past
  the end of the vector is undefined.
\<close>

fun create_devices_loop ::
  "driver_env \<Rightarrow> nat \<Rightarrow> u8 list \<Rightarrow> u32 list \<Rightarrow> nat \<Rightarrow> compress_device list \<Rightarrow>
   compress_device list result" where
  "create_devices_loop sys min_num [] lcores remaining devices = Inr devices"
| "create_devices_loop sys min_num (dev_id # ids) lcores remaining devices =
     (let num_lcores = min_num + (if 0 < remaining then 1 else 0) in
      case rte_compressdev_name_get sys dev_id of
        None \<Rightarrow> Inl (Status UnknownError ''Unable to get the device name from device id: '')
      | Some device_name \<Rightarrow>
      (case GetPCIId sys PCIVendorId_cast ''vendor'' device_name of
        Inl e \<Rightarrow> Inl e
      | Inr vendor \<Rightarrow>
      (case GetPCIId sys PCIDeviceId_cast ''device'' device_name of
        Inl e \<Rightarrow> Inl e
      | Inr device \<Rightarrow>
        if length lcores < num_lcores then Inl (Fault OutOfBounds)
        else
      (case DeviceManager_Create vendor device dev_id (take num_lcores lcores) of
        Inl e \<Rightarrow> Inl e
      | Inr d \<Rightarrow>
          create_devices_loop sys min_num ids (drop num_lcores lcores)
            (if 0 < remaining then remaining - 1 else remaining) (devices @ [d])))))"

definition CreateDevices :: "driver_env \<Rightarrow> u8 list \<Rightarrow> u32 list \<Rightarrow> compress_device list result" where
  "CreateDevices sys device_ids workers =
     (if device_ids = [] then Inl (Fault DivisionByZero)
      else
        (let min_num_qps_per_dev = word_of_nat (length workers div length device_ids) :: u16;
             remaining = length workers mod length device_ids
         in create_devices_loop sys (unat min_num_qps_per_dev) device_ids workers remaining []))"

subsection \<open>GetDevices\<close>

text \<open>The loop that collects the worker lcores; \<open>None\<close> if it never ends.\<close>

partial_function (option) worker_lcores_loop ::
  "rte_config \<Rightarrow> lcore_env \<Rightarrow> u32 \<Rightarrow> u32 list \<Rightarrow> u32 list option" where
  "worker_lcores_loop rc sys lcore_id workers =
     (if unat lcore_id < RTE_MAX_LCORE rc then
        (case GetNextLcore rc sys (lcore_id + 1) 1 0 of
           None \<Rightarrow> None
         | Some next_id \<Rightarrow> worker_lcores_loop rc sys next_id (workers @ [lcore_id]))
      else Some workers)"

declare worker_lcores_loop.simps [code]

text \<open>The number of worker lcores is an unsigned 32-bit difference.\<close>

definition GetDevices :: "driver_env \<Rightarrow> u8 list \<Rightarrow> compress_device list result option" where
  "GetDevices sys device_ids =
     (case ListAvailableDeviceIds sys of
        Inl e \<Rightarrow> Some (Inl e)
      | Inr avail_dev_ids \<Rightarrow>
      (case HasDeviceIds avail_dev_ids device_ids of
        Inl e \<Rightarrow> Some (Inl e)
      | Inr _ \<Rightarrow>
        let num_worker_lcores = rte_lcore_count (drv_lcores sys) - 1 in
        if num_worker_lcores = 0
        then Some (Inl (Status Invalid ''Not enough worker lcores for setting up queue pairs for devices.''))
        else if unat num_worker_lcores < length device_ids
        then Some (Inl (Status Invalid ''The number of devices to set up (''))
        else
        (case GetNextLcore (drv_rc sys) (drv_lcores sys) 0 1 0 of
           None \<Rightarrow> None
         | Some first \<Rightarrow>
        (case worker_lcores_loop (drv_rc sys) (drv_lcores sys) first [] of
           None \<Rightarrow> None
         | Some workers \<Rightarrow>
             if unat num_worker_lcores \<noteq> length workers
             then Some (Inl (Fault CheckFailed))
             else Some (CreateDevices sys device_ids workers)))))"

subsection \<open>What is dealt out\<close>

text \<open>The lcores from a number on that are enabled and are not the main lcore.\<close>

definition workers_from :: "rte_config \<Rightarrow> lcore_env \<Rightarrow> nat \<Rightarrow> u32 list" where
  "workers_from rc lc j =
     filter (\<lambda>i. \<not> skipped_lcore lc 1 i) (map word_of_nat [j..<RTE_MAX_LCORE rc])"

lemma workers_from_end: "RTE_MAX_LCORE rc \<le> j \<Longrightarrow> workers_from rc lc j = []"
  by (simp add: workers_from_def)

lemma workers_from_step:
  "j < RTE_MAX_LCORE rc \<Longrightarrow> workers_from rc lc j =
     (if skipped_lcore lc 1 (word_of_nat j) then [] else [word_of_nat j]) @ workers_from rc lc (Suc j)"
  by (simp add: workers_from_def upt_conv_Cons)

lemma workers_from_next:
  assumes "RTE_MAX_LCORE rc < 2 ^ 32" "next_lcore_loop rc lc 1 0 i = Some r"
  shows "workers_from rc lc (unat i) =
    (if unat r < RTE_MAX_LCORE rc then r # workers_from rc lc (Suc (unat r)) else [])"
  using assms(2)
proof (induction "RTE_MAX_LCORE rc - unat i" arbitrary: i)
  case 0
  then show ?case by (auto simp: next_lcore_loop_end workers_from_end)
next
  case (Suc n)
  then have lt: "unat i < RTE_MAX_LCORE rc" by linarith
  then have up: "unat (i + 1) = Suc (unat i)" using assms(1) by (rule unat_Suc_u32)
  show ?case
  proof (cases "skipped_lcore lc 1 i")
    case True
    have "next_lcore_loop rc lc 1 0 (i + 1) = Some r"
      using Suc.prems True lt by (subst (asm) next_lcore_loop.simps) simp
    moreover have "n = RTE_MAX_LCORE rc - unat (i + 1)" using Suc.hyps(2) up by simp
    ultimately show ?thesis using Suc.hyps(1) [of "i + 1"] True lt up
      by (simp add: workers_from_step)
  next
    case False
    then have "r = i" using Suc.prems by (simp add: next_lcore_loop_here)
    then show ?thesis using False lt by (simp add: workers_from_step)
  qed
qed

lemma worker_lcores_loop_collects:
  assumes "RTE_MAX_LCORE rc < 2 ^ 32" "next_lcore_loop rc lc 1 0 i = Some r"
  shows "worker_lcores_loop rc lc r acc = Some (acc @ workers_from rc lc (unat i))"
  using assms(2)
proof (induction "RTE_MAX_LCORE rc - unat r" arbitrary: i r acc rule: less_induct)
  case less
  note from_i = workers_from_next [OF assms(1) less.prems]
  show ?case
  proof (cases "unat r < RTE_MAX_LCORE rc")
    case True
    then have up: "unat (r + 1) = Suc (unat r)" using assms(1) by (rule unat_Suc_u32)
    obtain q where q: "next_lcore_loop rc lc 1 0 (r + 1) = Some q" "r + 1 \<le> q"
      using next_lcore_loop_up [OF assms(1), of lc 1 "r + 1"] by blast
    then have "RTE_MAX_LCORE rc - unat q < RTE_MAX_LCORE rc - unat r"
      using True up by (simp add: word_le_nat_alt)
    from less.hyps [OF this q(1)] show ?thesis
      using True q(1) from_i up by (subst worker_lcores_loop.simps) (simp add: GetNextLcore_def)
  next
    case False
    then show ?thesis using from_i by (subst worker_lcores_loop.simps) simp
  qed
qed

text \<open>How many lcores each of \<open>n\<close> devices gets.\<close>

definition shares :: "nat \<Rightarrow> nat \<Rightarrow> nat \<Rightarrow> nat list" where
  "shares q remaining n = map (\<lambda>k. q + (if k < remaining then 1 else 0)) [0..<n]"

lemma shares_0 [simp]: "shares q remaining 0 = []"
  by (simp add: shares_def)

lemma shares_Suc [simp]:
  "shares q remaining (Suc n) =
     (q + (if 0 < remaining then 1 else 0)) # shares q (remaining - 1) n"
  unfolding shares_def upt_conv_Cons [OF zero_less_Suc] map_Suc_upt [symmetric]
  by (auto simp: less_diff_conv)

lemma sum_shares: "remaining \<le> n \<Longrightarrow> sum_list (shares q remaining n) = n * q + remaining"
proof (induction n arbitrary: remaining)
  case (Suc n)
  then show ?case using Suc.IH [of "remaining - 1"] by (cases "remaining = 0") auto
qed simp

lemma create_devices_loop_deals:
  "create_devices_loop sys q ids lcores remaining devices = Inr ds \<Longrightarrow>
   \<exists>new rest. ds = devices @ new \<and> map device_id new = ids \<and>
     lcores = concat (map worker_lcores new) @ rest \<and>
     map (\<lambda>d. length (worker_lcores d)) new = shares q remaining (length ids) \<and>
     (\<forall>d \<in> set new. d = new_CompressDevice (device_id d) (worker_lcores d))"
proof (induction ids arbitrary: lcores remaining devices)
  case (Cons i ids)
  let ?n = "q + (if 0 < remaining then 1 else 0)"
  let ?d = "new_CompressDevice i (take ?n lcores)"
  have "\<not> length lcores < ?n" and rest: "create_devices_loop sys q ids (drop ?n lcores)
      (if 0 < remaining then remaining - 1 else remaining) (devices @ [?d]) = Inr ds"
    using Cons.prems
    by (auto simp: Let_def split: option.splits sum.splits if_splits elim: DeviceManager_Create.elims)
  then have "worker_lcores ?d = take ?n lcores" "length (take ?n lcores) = ?n" "device_id ?d = i"
    by (simp_all add: new_CompressDevice_def)
  moreover have "(if 0 < remaining then remaining - 1 else remaining) = remaining - 1" by simp
  moreover obtain new rst where "ds = devices @ ?d # new" "map device_id new = ids"
      "drop ?n lcores = concat (map worker_lcores new) @ rst"
      "map (\<lambda>d. length (worker_lcores d)) new =
         shares q (if 0 < remaining then remaining - 1 else remaining) (length ids)"
      "\<forall>d \<in> set new. d = new_CompressDevice (device_id d) (worker_lcores d)"
    using Cons.IH [OF rest] by auto
  moreover have "lcores = take ?n lcores @ drop ?n lcores" by simp
  ultimately show ?case
    by (intro exI [of _ "?d # new"] exI [of _ rst]) (simp del: append_take_drop_id)
qed simp

text \<open>Of the faults only the exceptions of \<open>std::stoi\<close> can come from the files.\<close>

definition uncaught :: "error \<Rightarrow> bool" where
  "uncaught e \<longleftrightarrow> (\<forall>f. e = Fault f \<longrightarrow> (\<exists>x. f = UncaughtException x))"

lemma GetPCIId_uncaught: "GetPCIId sys c t dn = Inl e \<Longrightarrow> uncaught e"
  by (auto simp: GetPCIId_def ReadFileContent_def stoi_def Let_def uncaught_def
      split: option.splits sum.splits prod.splits if_splits)

lemma DeviceManager_Create_uncaught: "DeviceManager_Create v d dev_id ls = Inl e \<Longrightarrow> uncaught e"
  by (cases v; cases d) (auto simp: uncaught_def)

lemma create_devices_loop_uncaught:
  "sum_list (shares q remaining (length ids)) \<le> length lcores \<Longrightarrow>
   create_devices_loop sys q ids lcores remaining devices = Inl e \<Longrightarrow> uncaught e"
proof (induction ids arbitrary: lcores remaining devices)
  case (Cons i ids)
  define n where "n = q + (if 0 < remaining then 1 else 0)"
  define rem where "rem = (if 0 < remaining then remaining - 1 else remaining)"
  have "rem = remaining - 1" by (simp add: rem_def)
  then have "sum_list (shares q rem (length ids)) \<le> length (drop n lcores)" and n: "n \<le> length lcores"
    using Cons.prems by (auto simp: n_def)
  from Cons.IH [OF this(1)] have rest:
    "create_devices_loop sys q ids (drop n lcores) rem ds = Inl e \<Longrightarrow> uncaught e" for ds .
  show ?case
  proof (cases "rte_compressdev_name_get sys i")
    case None
    then show ?thesis using Cons.prems(2) by (auto simp: Let_def uncaught_def)
  next
    case (Some dn)
    show ?thesis
      using Cons.prems(2) GetPCIId_uncaught [of sys PCIVendorId_cast "''vendor''" dn]
        GetPCIId_uncaught [of sys PCIDeviceId_cast "''device''" dn]
        DeviceManager_Create_uncaught [of _ _ i "take n lcores"] rest n
      unfolding create_devices_loop.simps Let_def n_def [symmetric] rem_def [symmetric] Some
      by (auto simp: not_less split: sum.splits)
  qed
qed simp

lemma deals_out:
  assumes "ids \<noteq> []" "length ids \<le> length lcores" "length lcores div length ids < 2 ^ 16"
  shows "case CreateDevices sys ids lcores of
      Inr ds \<Rightarrow> map device_id ds = ids \<and> concat (map worker_lcores ds) = lcores \<and>
        (\<forall>k < length ds. length (worker_lcores (ds ! k)) =
           length lcores div length ids + (if k < length lcores mod length ids then 1 else 0)) \<and>
        (\<forall>d \<in> set ds. worker_lcores d \<noteq> [] \<and> device_state d = kUndefined)
    | Inl e \<Rightarrow> uncaught e"
proof -
  let ?n = "length ids" let ?q = "length lcores div ?n" and ?r = "length lcores mod ?n"
  have q: "unat (word_of_nat ?q :: u16) = ?q"
    using assms(3) unfolding unat_of_nat by (simp add: take_bit_nat_eq_self)
  have "sum_list (shares ?q ?r ?n) = length lcores"
    using assms(1) sum_shares [of ?r ?n ?q] mult_div_mod_eq [of ?n "length lcores"]
    by (simp add: less_imp_le)
  note total = this
  have eq: "CreateDevices sys ids lcores = create_devices_loop sys ?q ids lcores ?r []"
    using assms(1) q by (simp add: CreateDevices_def)
  show ?thesis
  proof (cases "CreateDevices sys ids lcores")
    case (Inl e)
    then show ?thesis
      using create_devices_loop_uncaught [of ?q ?r ids lcores sys "[]"] total eq by auto
  next
    case (Inr ds)
    obtain rst where ds: "map device_id ds = ids" "lcores = concat (map worker_lcores ds) @ rst"
      "map (\<lambda>d. length (worker_lcores d)) ds = shares ?q ?r ?n"
      "\<forall>d \<in> set ds. d = new_CompressDevice (device_id d) (worker_lcores d)"
      using create_devices_loop_deals [of sys ?q ids lcores ?r "[]" ds] Inr eq by auto
    then have "length (concat (map worker_lcores ds)) = length lcores"
      using total by (simp add: length_concat comp_def)
    then have all: "concat (map worker_lcores ds) = lcores" using ds(2) by simp
    have share: "length (worker_lcores (ds ! k)) = ?q + (if k < ?r then 1 else 0)"
      if "k < length ds" for k
    proof -
      have "length ds = ?n" using ds(1) by (metis length_map)
      then show ?thesis
        using that arg_cong [OF ds(3), of "\<lambda>xs. xs ! k"] by (simp add: shares_def)
    qed
    have "0 < ?q" using assms(1,2) by (simp add: div_greater_zero_iff)
    then have "worker_lcores d \<noteq> []" if "d \<in> set ds" for d
      using share that by (metis add_gr_0 in_set_conv_nth length_greater_0_conv)
    moreover have "device_state d = kUndefined" if "d \<in> set ds" for d
      using ds(4) that by (metis compress_device.select_convs(4) new_CompressDevice_def)
    ultimately show ?thesis using Inr ds(1) all share by simp
  qed
qed

text \<open>
  C32. \<open>CreateDevices\<close> deals out the worker lcores as evenly as possible: the devices come in
  the order of their ids, each is given the next lcores of the list, all lcores are given,
  the numbers differ by at most one with the larger ones first, and no device is without
  one; no device is configured yet. When it fails it has not run past the list: it gives
  an error status, or an exception of \<open>std::stoi\<close> leaves it.
\<close>

theorem CreateDevices_deals_out:
  assumes "ids \<noteq> []" "length ids \<le> length lcores" "length lcores div length ids < 2 ^ 16"
  shows "case CreateDevices sys ids lcores of
      Inr ds \<Rightarrow> map device_id ds = ids \<and> concat (map worker_lcores ds) = lcores \<and>
        (\<forall>k < length ds. length (worker_lcores (ds ! k)) =
           length lcores div length ids + (if k < length lcores mod length ids then 1 else 0)) \<and>
        (\<forall>d \<in> set ds. worker_lcores d \<noteq> [] \<and> device_state d = kUndefined)
    | Inl e \<Rightarrow> uncaught e"
  by (rule deals_out [OF assms])

text \<open>
  What the documentation of EAL says about its table of lcores: the main lcore is an enabled
  lcore of the table, and \<open>rte_lcore_count\<close> is the number of enabled lcores.
\<close>

definition eal_lcore_laws :: "rte_config \<Rightarrow> lcore_env \<Rightarrow> bool" where
  "eal_lcore_laws rc lc \<longleftrightarrow>
     RTE_MAX_LCORE rc < 2 ^ 32 \<and> unat (rte_get_main_lcore lc) < RTE_MAX_LCORE rc \<and>
     rte_lcore_is_enabled lc (rte_get_main_lcore lc) \<and>
     unat (rte_lcore_count lc) =
       length (filter (\<lambda>i. rte_lcore_is_enabled lc (word_of_nat i)) [0..<RTE_MAX_LCORE rc])"

lemma lcore_count_card:
  assumes "eal_lcore_laws rc lc"
  shows "unat (rte_lcore_count lc) =
    card {i. i < RTE_MAX_LCORE rc \<and> rte_lcore_is_enabled lc (word_of_nat i)}"
  using assms by (simp add: eal_lcore_laws_def distinct_length_filter Int_def conj_commute)

lemma lcore_count_pos:
  assumes "eal_lcore_laws rc lc"
  shows "1 \<le> rte_lcore_count lc"
proof -
  have "unat (rte_get_main_lcore lc) \<in>
      {i. i < RTE_MAX_LCORE rc \<and> rte_lcore_is_enabled lc (word_of_nat i)}"
    using assms by (simp add: eal_lcore_laws_def)
  then have "0 < card {i. i < RTE_MAX_LCORE rc \<and> rte_lcore_is_enabled lc (word_of_nat i)}"
    by (auto simp: card_gt_0_iff)
  then show ?thesis using lcore_count_card [OF assms] by (simp add: word_le_nat_alt)
qed

lemma length_workers:
  assumes "eal_lcore_laws rc lc"
  shows "length (workers_from rc lc 0) = unat (rte_lcore_count lc - 1)"
proof -
  let ?main = "rte_get_main_lcore lc" and ?M = "RTE_MAX_LCORE rc"
  let ?E = "{i. i < ?M \<and> rte_lcore_is_enabled lc (word_of_nat i)}"
  have main: "unat ?main \<in> ?E"
    using assms by (simp add: eal_lcore_laws_def)
  have same: "word_of_nat i = ?main \<longleftrightarrow> i = unat ?main" if "i < ?M" for i
    using that assms by (auto simp: eal_lcore_laws_def unat_of_nat take_bit_nat_eq_self word_unat_eq_iff)
  have count: "unat (rte_lcore_count lc) = card ?E"
    by (rule lcore_count_card [OF assms])
  have "length (workers_from rc lc 0) =
      length (filter (\<lambda>i. \<not> skipped_lcore lc 1 (word_of_nat i)) [0..<?M])"
    by (simp add: workers_from_def filter_map comp_def)
  also have "\<dots> = card ({i. \<not> skipped_lcore lc 1 (word_of_nat i)} \<inter> {0..<?M})"
    by (simp add: distinct_length_filter)
  also have "{i. \<not> skipped_lcore lc 1 (word_of_nat i)} \<inter> {0..<?M} = ?E - {unat ?main}"
    using same by (auto simp: skipped_lcore_def)
  also have "card (?E - {unat ?main}) = unat (rte_lcore_count lc) - 1"
    using main count by (simp add: card_Diff_singleton)
  also have "\<dots> = unat (rte_lcore_count lc - 1)"
    using lcore_count_pos [OF assms] by (simp add: unat_sub)
  finally show ?thesis .
qed

lemma GetDevices_creates:
  assumes "eal_lcore_laws (drv_rc sys) (drv_lcores sys)"
    and "ListAvailableDeviceIds sys = Inr avail" "HasDeviceIds avail ids = OK"
    and "rte_lcore_count (drv_lcores sys) - 1 \<noteq> 0"
    and "length ids \<le> unat (rte_lcore_count (drv_lcores sys) - 1)"
  shows "GetDevices sys ids =
    Some (CreateDevices sys ids (workers_from (drv_rc sys) (drv_lcores sys) 0))"
proof -
  have M: "RTE_MAX_LCORE (drv_rc sys) < 2 ^ 32" using assms(1) by (simp add: eal_lcore_laws_def)
  obtain first where first: "next_lcore_loop (drv_rc sys) (drv_lcores sys) 1 0 0 = Some first"
    using next_lcore_loop_up [OF M, of "drv_lcores sys" 1 0] by blast
  from worker_lcores_loop_collects [OF M this, of "[]"] show ?thesis
    using first assms(2-5) length_workers [OF assms(1)]
    by (simp add: GetDevices_def Let_def GetNextLcore_def)
qed

text \<open>
  C31. \<open>GetDevices\<close> always returns, and it never fails its internal check of the number of
  lcores: its errors are statuses and the exceptions of \<open>std::stoi\<close>. On success the devices are the ones asked for, every enabled lcore other than
  the main lcore works for exactly one of them, in ascending order, and each device has one
  at least.
\<close>

theorem GetDevices_uses_all_lcores:
  assumes "eal_lcore_laws (drv_rc sys) (drv_lcores sys)" "unat (rte_lcore_count (drv_lcores sys)) \<le> 2 ^ 16"
    and "ids \<noteq> []"
  shows "case GetDevices sys ids of
      None \<Rightarrow> False
    | Some (Inl e) \<Rightarrow> uncaught e
    | Some (Inr ds) \<Rightarrow>
        map device_id ds = ids \<and> (\<forall>d \<in> set ds. worker_lcores d \<noteq> []) \<and>
        concat (map worker_lcores ds) =
          filter (\<lambda>i. rte_lcore_is_enabled (drv_lcores sys) i \<and> i \<noteq> rte_get_main_lcore (drv_lcores sys))
            (map word_of_nat [0..<RTE_MAX_LCORE (drv_rc sys)])"
proof -
  let ?rc = "drv_rc sys" and ?lc = "drv_lcores sys"
  let ?ws = "workers_from ?rc ?lc 0" and ?n = "rte_lcore_count (drv_lcores sys) - 1"
  have M: "RTE_MAX_LCORE ?rc < 2 ^ 32" using assms(1) by (simp add: eal_lcore_laws_def)
  have ws: "?ws = filter (\<lambda>i. rte_lcore_is_enabled ?lc i \<and> i \<noteq> rte_get_main_lcore ?lc)
      (map word_of_nat [0..<RTE_MAX_LCORE ?rc])"
    by (simp add: workers_from_def skipped_lcore_def)
  have len: "length ?ws = unat ?n" by (rule length_workers [OF assms(1)])
  consider (err) e where "GetDevices sys ids = Some (Inl e)" "uncaught e"
    | (create) "GetDevices sys ids = Some (CreateDevices sys ids ?ws)" "length ids \<le> length ?ws"
  proof (cases "ListAvailableDeviceIds sys")
    case (Inl e)
    then have "uncaught e" by (auto simp: ListAvailableDeviceIds_def Let_def uncaught_def split: if_splits)
    then show ?thesis using Inl err by (simp add: GetDevices_def)
  next
    case avail: (Inr avail)
    show ?thesis
    proof (cases "HasDeviceIds avail ids")
      case (Inl e)
      then have "uncaught e" by (auto simp: HasDeviceIds_def Let_def uncaught_def split: if_splits)
      then show ?thesis using Inl avail err by (simp add: GetDevices_def)
    next
      case (Inr u)
      show ?thesis
      proof (cases "?n = 0 \<or> unat ?n < length ids")
        case True
        then obtain msg where "GetDevices sys ids = Some (Inl (Status Invalid msg))"
          using avail Inr by (cases "?n = 0") (auto simp: GetDevices_def Let_def)
        then show ?thesis using err by (simp add: uncaught_def)
      next
        case False
        then have "GetDevices sys ids = Some (CreateDevices sys ids ?ws)"
          using GetDevices_creates [OF assms(1) avail] Inr by simp
        then show ?thesis using create False len by simp
      qed
    qed
  qed
  then show ?thesis
  proof cases
    case err
    then show ?thesis by simp
  next
    case create
    have "length ?ws < 2 ^ 16"
    proof -
      have "unat ?n = unat (rte_lcore_count ?lc) - 1" "0 < unat (rte_lcore_count ?lc)"
        using lcore_count_pos [OF assms(1)] by (simp_all add: unat_sub word_le_nat_alt)
      then show ?thesis using assms(2) len by simp
    qed
    then have "length ?ws div length ids < 2 ^ 16"
      using div_le_dividend le_less_trans by blast
    from deals_out [OF assms(3) create(2) this, of sys] show ?thesis
      using create(1) ws by (auto split: sum.splits)
  qed
qed

subsection \<open>Reading the PCI numbers\<close>

text \<open>How the kernel prints a PCI number in \<open>/sys\<close>: \<open>0x\<close>, four digits and a line feed.\<close>

definition hex_char :: "nat \<Rightarrow> char" where
  "hex_char k = (if k < 10 then char_of (48 + k) else char_of (87 + k))"

definition sysfs_id :: "nat \<Rightarrow> string" where
  "sysfs_id v = ''0x'' @
     map hex_char [v div 4096, v div 256 mod 16, v div 16 mod 16, v mod 16] @ [CHR 0x0A]"

lemma digit_value_hex_char: "k < 16 \<Longrightarrow> digit_value (hex_char k) = Some k"
  by (simp add: digit_value_def hex_char_def of_char_of)

lemma is_digit_hex_char: "k < 16 \<Longrightarrow> is_digit 16 (hex_char k)"
  by (simp add: is_digit_def digit_value_hex_char)

lemma hex_digits_value:
  "(((v div 4096) * 16 + v div 256 mod 16) * 16 + v div 16 mod 16) * 16 + v mod 16 = (v :: nat)"
proof -
  have "v div 256 = v div 16 div 16" "v div 4096 = v div 16 div 16 div 16"
    by (simp_all add: div_mult2_eq [symmetric])
  moreover have "v div 16 * 16 + v mod 16 = v" "v div 16 div 16 * 16 + v div 16 mod 16 = v div 16"
    "v div 16 div 16 div 16 * 16 + v div 16 div 16 mod 16 = v div 16 div 16"
    by (simp_all only: div_mult_mod_eq)
  ultimately show ?thesis by simp
qed

lemma stoi_hex:
  assumes "a < 16" "b < 16" "c < 16" "d < 16"
  shows "stoi (''0x'' @ map hex_char [a, b, c, d] @ [CHR 0x0A]) =
    Inr (int (((a * 16 + b) * 16 + c) * 16 + d))"
proof -
  let ?s = "''0x'' @ map hex_char [a, b, c, d] @ [CHR 0x0A]"
  have nl: "\<not> is_digit 16 (CHR 0x0A)" by (simp add: is_digit_def digit_value_def)
  have start: "dropWhile isspace ?s = ?s" by (simp add: isspace_def)
  have sign: "split_sign ?s = (1, ?s)" by (simp add: split_sign_def)
  have base: "number_base ?s = (16, map hex_char [a, b, c, d] @ [CHR 0x0A])"
    using is_digit_hex_char [OF assms(1)] by (simp add: number_base_def)
  have digits: "takeWhile (is_digit 16) (map hex_char [a, b, c, d] @ [CHR 0x0A]) = map hex_char [a, b, c, d]"
    using assms is_digit_hex_char nl by simp
  have "number_value 16 0 (map hex_char [a, b, c, d]) = ((a * 16 + b) * 16 + c) * 16 + d"
    using assms by (simp add: digit_value_hex_char)
  moreover have "a * 16 + b < 256" using assms(1,2) by simp
  then have "(a * 16 + b) * 16 + c < 4096" using assms(3) by simp
  then have "((a * 16 + b) * 16 + c) * 16 + d < 65536" using assms(4) by simp
  ultimately show ?thesis
    unfolding stoi_def start sign base digits Let_def prod.case
    by (simp add: int32_ok_def del: list.map)
qed

lemma stoi_sysfs_id:
  assumes "v < 65536"
  shows "stoi (sysfs_id v) = Inr (int v)"
proof -
  have "v div 4096 < 16" using assms by (simp add: div_less_iff_less_mult)
  from stoi_hex [OF this, of "v div 256 mod 16" "v div 16 mod 16" "v mod 16"] show ?thesis
    unfolding sysfs_id_def hex_digits_value by simp
qed

lemma GetPCIId_sysfs:
  assumes "v < 65536"
    and "drv_files sys (''/sys/class/infiniband/'' @ name @ ''/device/device'') = Some (sysfs_id v)"
    and "drv_files sys (''/sys/class/infiniband/'' @ name @ ''/device/vendor'') = Some (sysfs_id n)"
    and "n < 65536"
  shows "GetPCIId sys PCIDeviceId_cast ''device'' name =
      (if v = unat (PCIDeviceId_integer MELLANOX_CONNECTX6DXBF) then Inr MELLANOX_CONNECTX6DXBF
       else if v = unat (PCIDeviceId_integer MELLANOX_CONNECTX7BF) then Inr MELLANOX_CONNECTX7BF
       else Inl (Status NotImplemented ''Compress device with '')) \<and>
    GetPCIId sys PCIVendorId_cast ''vendor'' name =
      (if n = unat (PCIVendorId_integer MELLANOX) then Inr MELLANOX
       else Inl (Status NotImplemented ''Compress device with ''))"
proof -
  have word: "unat (word_of_nat k :: u16) = k" if "k < 65536" for k
    using that by (simp add: unat_of_nat take_bit_nat_eq_self)
  have eq: "word_of_nat k = (w :: u16) \<longleftrightarrow> k = unat w" if "k < 65536" for k w
    using word [OF that] by auto
  have d: "PCIDeviceId_cast (word_of_nat v) =
      (if v = 0xa2d6 then Some MELLANOX_CONNECTX6DXBF
       else if v = 0xa2dc then Some MELLANOX_CONNECTX7BF else None)"
    using assms(1) by (auto simp: PCIDeviceId_cast_def enum_cast_def word eq)
  have n: "PCIVendorId_cast (word_of_nat n) = (if n = 0x15b3 then Some MELLANOX else None)"
    using assms(4) by (auto simp: PCIVendorId_cast_def enum_cast_def word eq)
  show ?thesis
    using assms(2,3) by (simp add: GetPCIId_def ReadFileContent_def stoi_sysfs_id assms(1,4) d n)
qed

text \<open>
  C33. From a file as the kernel writes it \<open>GetPCIId\<close> reads back the number: it returns the
  vendor and the two devices the library knows, and \<open>NotImplemented\<close> for every other
  16-bit number.
\<close>

theorem GetPCIId_reads_back:
  assumes "v < 65536"
    and "drv_files sys (''/sys/class/infiniband/'' @ name @ ''/device/device'') = Some (sysfs_id v)"
    and "drv_files sys (''/sys/class/infiniband/'' @ name @ ''/device/vendor'') = Some (sysfs_id n)"
    and "n < 65536"
  shows "GetPCIId sys PCIDeviceId_cast ''device'' name =
      (if v = unat (PCIDeviceId_integer MELLANOX_CONNECTX6DXBF) then Inr MELLANOX_CONNECTX6DXBF
       else if v = unat (PCIDeviceId_integer MELLANOX_CONNECTX7BF) then Inr MELLANOX_CONNECTX7BF
       else Inl (Status NotImplemented ''Compress device with '')) \<and>
    GetPCIId sys PCIVendorId_cast ''vendor'' name =
      (if n = unat (PCIVendorId_integer MELLANOX) then Inr MELLANOX
       else Inl (Status NotImplemented ''Compress device with ''))"
  by (rule GetPCIId_sysfs [OF assms])

subsection \<open>An environment for the witnesses\<close>

definition two_cards :: driver_env where
  "two_cards =
     \<lparr>drv_rc = dpdk_default_config,
      drv_lcores = \<lparr>rte_lcore_is_enabled = (\<lambda>i. i \<in> {0, 2, 3, 5}), rte_get_main_lcore = 0, rte_lcore_count = 4\<rparr>,
      drv_files = (\<lambda>path. if drop (length path - 6) path = ''vendor'' then Some (sysfs_id 0x15b3)
                          else Some (sysfs_id 0xa2d6)),
      rte_compressdev_devices_get = (\<lambda>_ _. [0, 1]),
      rte_compressdev_name_get = (\<lambda>i. if i = 0 then Some ''mlx5_0'' else Some ''mlx5_1'')\<rparr>"

theorem GetPCIId_reads_back_witness:
  "GetPCIId two_cards PCIDeviceId_cast ''device'' ''mlx5_0'' = Inr MELLANOX_CONNECTX6DXBF \<and>
   GetPCIId two_cards PCIVendorId_cast ''vendor'' ''mlx5_0'' = Inr MELLANOX"
  using GetPCIId_reads_back [of "0xa2d6" two_cards "''mlx5_0''" "0x15b3"]
  by (simp add: two_cards_def)

lemma two_cards_GetPCIId:
  "GetPCIId two_cards PCIDeviceId_cast ''device'' name = Inr MELLANOX_CONNECTX6DXBF \<and>
   GetPCIId two_cards PCIVendorId_cast ''vendor'' name = Inr MELLANOX"
  using GetPCIId_sysfs [of "0xa2d6" two_cards name "0x15b3"] by (simp add: two_cards_def)

lemma two_cards_create:
  "CreateDevices two_cards [0, 1] [2, 3, 5] =
     Inr [new_CompressDevice 0 [2, 3], new_CompressDevice 1 [5]]"
proof -
  have "length [2 :: u32, 3, 5] = 3" "length [0 :: u8, 1] = 2" by simp_all
  then have "length [2 :: u32, 3, 5] div length [0 :: u8, 1] = 1"
    "length [2 :: u32, 3, 5] mod length [0 :: u8, 1] = 1"
    by (simp_all only:) simp_all
  then have "CreateDevices two_cards [0, 1] [2, 3, 5] =
      create_devices_loop two_cards 1 [0, 1] [2, 3, 5] 1 []"
    unfolding CreateDevices_def Let_def by (simp only:) simp
  moreover have "\<exists>dn. rte_compressdev_name_get two_cards i = Some dn" for i
    by (simp add: two_cards_def)
  then obtain a b where "rte_compressdev_name_get two_cards 0 = Some a"
    "rte_compressdev_name_get two_cards 1 = Some b" by blast
  ultimately show ?thesis by (simp add: two_cards_GetPCIId Let_def)
qed

theorem CreateDevices_deals_out_witness:
  "CreateDevices two_cards [0, 1] [2, 3, 5] =
     Inr [new_CompressDevice 0 [2, 3], new_CompressDevice 1 [5]] \<and>
   concat (map worker_lcores [new_CompressDevice 0 [2, 3], new_CompressDevice 1 [5]]) = [2, 3, 5]"
proof -
  have "length [2 :: u32, 3, 5] = 3" "length [0 :: u8, 1] = 2" by simp_all
  then have "length [2 :: u32, 3, 5] div length [0 :: u8, 1] < 2 ^ 16" by (simp only:) simp
  moreover have "length [0 :: u8, 1] \<le> length [2 :: u32, 3, 5]" by simp
  ultimately show ?thesis
    using CreateDevices_deals_out [of "[0, 1]" "[2, 3, 5]" two_cards]
    by (simp add: two_cards_create del: length_Cons list.size)
qed

lemma two_cards_eal: "eal_lcore_laws (drv_rc two_cards) (drv_lcores two_cards)"
proof -
  have "filter (\<lambda>i. (word_of_nat i :: u32) \<in> {0, 2, 3, 5}) [0..<128] = [0, 2, 3, 5]"
    by (simp add: upt_rec)
  then show ?thesis by (simp add: eal_lcore_laws_def two_cards_def dpdk_default_config_def)
qed

lemma two_cards_workers:
  "filter (\<lambda>i. rte_lcore_is_enabled (drv_lcores two_cards) i \<and> i \<noteq> rte_get_main_lcore (drv_lcores two_cards))
     (map word_of_nat [0..<RTE_MAX_LCORE (drv_rc two_cards)]) = [2, 3, 5]"
  by (simp add: two_cards_def dpdk_default_config_def upt_rec)

theorem GetDevices_uses_all_lcores_witness:
  "\<exists>ds. GetDevices two_cards [0, 1] = Some (Inr ds) \<and> map device_id ds = [0, 1] \<and>
     concat (map worker_lcores ds) = [2, 3, 5]"
proof -
  have "workers_from (drv_rc two_cards) (drv_lcores two_cards) 0 = [2, 3, 5]"
    using two_cards_workers by (simp add: workers_from_def skipped_lcore_def)
  moreover have "ListAvailableDeviceIds two_cards = Inr [0, 1]"
    by (simp add: ListAvailableDeviceIds_def two_cards_def)
  moreover have "HasDeviceIds [0, 1] [0, 1] = OK" by (simp add: HasDeviceIds_def)
  moreover have "rte_lcore_count (drv_lcores two_cards) - 1 = 3" by (simp add: two_cards_def)
  ultimately have "GetDevices two_cards [0, 1] = Some (CreateDevices two_cards [0, 1] [2, 3, 5])"
    using GetDevices_creates [OF two_cards_eal, of "[0, 1]" "[0, 1]"] by simp
  moreover have "unat (rte_lcore_count (drv_lcores two_cards)) \<le> 2 ^ 16" by (simp add: two_cards_def)
  ultimately show ?thesis
    using GetDevices_uses_all_lcores [OF two_cards_eal, of "[0, 1]"]
    by (simp add: two_cards_create two_cards_workers)
qed

end
