(* ===== verification/Bitar_App.thy ===== *)
theory Bitar_App
  imports Bitar_Calls Bitar_Driver
begin

text \<open>
  \<open>apps/app_common.cc\<close> and \<open>apps/demo_app.cc\<close>: how the application sets up its devices, and
  its synchronous test, which compresses an input on one queue pair, decompresses the result
  and compares. Printing and time stamps are left out.
\<close>

subsection \<open>Constants\<close>

definition kNumTests :: nat where "kNumTests = 3"
definition kDecompressedSegSize :: nat where "kDecompressedSegSize = 59460"
definition kBurstSize :: u16 where "kBurstSize = 32 * 1"

text \<open>One of the lcores is the main lcore.\<close>

definition num_parallel_tests :: "lcore_env \<Rightarrow> u32" where
  "num_parallel_tests sys = rte_lcore_count sys - 1"

subsection \<open>The devices of the application\<close>

text \<open>
  The computation of the number of memzones is in unsigned 64-bit arithmetic, its result is
  cut to 16 bits.
\<close>

definition max_preallocate_memzones_of :: "u64 \<Rightarrow> u16 \<Rightarrow> u32 \<Rightarrow> u64 \<Rightarrow> u16" where
  "max_preallocate_memzones_of max_buffer_size seg_size num_parallel num_devices =
     (let total = (max_buffer_size + ucast seg_size - 1) div ucast seg_size + ucast num_parallel
      in ucast ((total + num_devices - 1) div num_devices))"

definition app_configuration :: "rte_config \<Rightarrow> u64 \<Rightarrow> u32 \<Rightarrow> u64 \<Rightarrow> configuration result option" where
  "app_configuration rc max_buffer_size num_parallel num_devices =
     (case Defaults rc of
        Some (Inr c) \<Rightarrow>
          (case set_decompressed_seg_size (word_of_nat kDecompressedSegSize) c of
             Some (Inr c) \<Rightarrow>
               (let c = set_burst_size kBurstSize c in
                Some (Inr (set_max_preallocate_memzones
                  (max_preallocate_memzones_of max_buffer_size (decompressed_seg_size c) num_parallel num_devices) c)))
           | r \<Rightarrow> r)
      | r \<Rightarrow> r)"

text \<open>
  The loop over the devices. Every device that can be made is a \<open>BlueFieldCompressDevice\<close>, so
  the cast never fails. The result is the state at the return; destroying the devices after
  an error is left to the destructor.
\<close>

fun initialize_devices ::
  "('w, 'p) dpdk_scheme \<Rightarrow> rte_config \<Rightarrow> configuration result option \<Rightarrow> compress_device list \<Rightarrow> 'w world \<Rightarrow>
   (unit result \<times> compress_device list \<times> 'w world) option" where
  "initialize_devices P rc cfg [] w = Some (OK, [], w)"
| "initialize_devices P rc cfg (d # ds) w =
     (case cfg of
        None \<Rightarrow> None
      | Some (Inl e) \<Rightarrow> Some (Inl e, d # ds, w)
      | Some (Inr c) \<Rightarrow>
          (case Initialize P rc (Some c) \<lparr>dev = d, env = w\<rparr> of
             None \<Rightarrow> None
           | Some (Inl e, s) \<Rightarrow> Some (Inl e, dev s # ds, env s)
           | Some (Inr _, s) \<Rightarrow>
               map_option (\<lambda>(r, ds, w). (r, dev s # ds, w)) (initialize_devices P rc cfg ds (env s))))"

definition GetBlueFieldCompressDevices ::
  "('w, 'p) dpdk_scheme \<Rightarrow> driver_env \<Rightarrow> u64 \<Rightarrow> 'w world \<Rightarrow>
   (unit result \<times> compress_device list \<times> 'w world) option" where
  "GetBlueFieldCompressDevices P sys max_buffer_size w =
     (case ListAvailableDeviceIds sys of
        Inl e \<Rightarrow> Some (Inl e, [], w)
      | Inr device_ids \<Rightarrow>
      (case GetDevices sys device_ids of
        None \<Rightarrow> None
      | Some (Inl e) \<Rightarrow> Some (Inl e, [], w)
      | Some (Inr devices) \<Rightarrow>
          initialize_devices P (drv_rc sys)
            (app_configuration (drv_rc sys) max_buffer_size (num_parallel_tests (drv_lcores sys))
               (word_of_nat (length devices))) devices w))"

subsection \<open>The synchronous test\<close>

text \<open>
  Arrow's allocation of a buffer from a pool and its release belong to Arrow; they are
  parameters.
\<close>

record 'w arrow =
  AllocateBuffer :: "int \<Rightarrow> memory_pool \<Rightarrow> 'w world \<Rightarrow> buffer result \<times> 'w world"
  AllocateResizableBuffer :: "int \<Rightarrow> memory_pool \<Rightarrow> 'w world \<Rightarrow> buffer result \<times> 'w world"
  release_buffer :: "buffer \<Rightarrow> memory_pool \<Rightarrow> 'w world \<Rightarrow> 'w world"

definition BenchmarkCompressSync ::
  "('w, 'p) dpdk_scheme \<Rightarrow> u16 \<Rightarrow> buffer \<Rightarrow> ('w dev_state, buffer list) pcode" where
  "BenchmarkCompressSync P qp_id input_buffer = Compress P qp_id (Some input_buffer)"

text \<open>\<open>Decompress\<close> sets the size of the output buffer, unless there is nothing to decompress.\<close>

definition resized :: "buffer \<Rightarrow> int option \<Rightarrow> buffer" where
  "resized b sz = (case sz of None \<Rightarrow> b | Some n \<Rightarrow> b\<lparr>buf_size := nat n\<rparr>)"

definition BenchmarkDecompressSync ::
  "('w, 'p) dpdk_scheme \<Rightarrow> u16 \<Rightarrow> buffer list \<Rightarrow> buffer \<Rightarrow> ('w dev_state, buffer) pcode" where
  "BenchmarkDecompressSync P qp_id bufs out =
     pseq (Decompress P qp_id bufs (Some out)) (\<lambda>sz. total (return (resized out sz)))"

text \<open>\<open>ARROW_CHECK_EQ(device->Recycle(...), ...)\<close>, and the macros that run code on an error status.\<close>

definition checked_Recycle :: "buffer list \<Rightarrow> ('w dev_state, unit) pcode" where
  "checked_Recycle bufs = total (seq (CompressDevice_Recycle bufs) (\<lambda>n. guard (n = length bufs) CheckFailed))"

definition not_ok_recycle :: "buffer list \<Rightarrow> ('w dev_state, 'a) pcode \<Rightarrow> ('w dev_state, 'a) pcode" where
  "not_ok_recycle bufs m = (\<lambda>s.
     case m s of
       Some (Inl (Status code msg), s) \<Rightarrow>
         pseq (total (CompressDevice_Recycle bufs)) (\<lambda>_. total (throw (Status code msg))) s
     | r \<Rightarrow> r)"

text \<open>The loops over the tests; the result of the last compression is kept.\<close>

fun compress_tests ::
  "('w, 'p) dpdk_scheme \<Rightarrow> u16 \<Rightarrow> buffer \<Rightarrow> nat \<Rightarrow> nat \<Rightarrow> buffer list \<Rightarrow> ('w dev_state, buffer list) pcode" where
  "compress_tests P qp_id input_buffer 0 idx bufs = total (return bufs)"
| "compress_tests P qp_id input_buffer (Suc left) idx bufs =
     pseq (BenchmarkCompressSync P qp_id input_buffer) (\<lambda>bufs.
     if idx < kNumTests - 1
     then pseq (checked_Recycle bufs) (\<lambda>_. compress_tests P qp_id input_buffer left (Suc idx) [])
     else compress_tests P qp_id input_buffer left (Suc idx) bufs)"

fun decompress_tests ::
  "('w, 'p) dpdk_scheme \<Rightarrow> u16 \<Rightarrow> buffer list \<Rightarrow> nat \<Rightarrow> buffer \<Rightarrow> ('w dev_state, buffer) pcode" where
  "decompress_tests P qp_id bufs 0 out = total (return out)"
| "decompress_tests P qp_id bufs (Suc left) out =
     pseq (not_ok_recycle bufs (BenchmarkDecompressSync P qp_id bufs out)) (\<lambda>out.
     decompress_tests P qp_id bufs left out)"

text \<open>The size of the output buffer, an \<open>std::size_t\<close> cast to \<open>std::int64_t\<close>.\<close>

definition output_size :: "nat \<Rightarrow> int" where
  "output_size n = sint (word_of_nat (n * kDecompressedSegSize) :: u64)"

definition allocate_output :: "'w arrow \<Rightarrow> nat \<Rightarrow> ('w dev_state, buffer) pcode" where
  "allocate_output A n = (\<lambda>s.
     case GetMemoryPool False False Rtememzone of
       Inl e \<Rightarrow> Some (Inl e, s)
     | Inr pool \<Rightarrow>
         (case AllocateResizableBuffer A (output_size n) pool (env s) of
            (r, w) \<Rightarrow> Some (r, s\<lparr>env := w\<rparr>)))"

text \<open>The output buffer is destroyed however the rest of the function returns.\<close>

definition with_output ::
  "'w arrow \<Rightarrow> buffer \<Rightarrow> ('w dev_state, 'a) pcode \<Rightarrow> ('w dev_state, 'a) pcode" where
  "with_output A out m = (\<lambda>s.
     map_option (\<lambda>(r, s). (r, s\<lparr>env := release_buffer A out rtememzone_pool (env s)\<rparr>)) (m s))"

definition compare_buffers :: "buffer \<Rightarrow> buffer \<Rightarrow> ('w dev_state, unit) pcode" where
  "compare_buffers out input_buffer = (\<lambda>s.
     if buf_size out \<noteq> buf_size input_buffer
     then total (throw (Status Invalid ''Decompressed buffer length is not equal to the input buffer length'')) s
     else if mem_bytes (mach (env s)) (buf_data out) (buf_size input_buffer) \<noteq>
             mem_bytes (mach (env s)) (buf_data input_buffer) (buf_size input_buffer)
     then total (throw (Status Invalid ''Decompressed buffer is not the same as the input buffer'')) s
     else total (return ()) s)"

definition EvaluateSync ::
  "('w, 'p) dpdk_scheme \<Rightarrow> 'w arrow \<Rightarrow> buffer \<Rightarrow> ('w dev_state, unit) pcode" where
  "EvaluateSync P A input_buffer =
     (let qp_id = 0 in
      pseq (compress_tests P qp_id input_buffer kNumTests 0 []) (\<lambda>bufs.
      pseq (not_ok_recycle bufs (allocate_output A (length bufs))) (\<lambda>out.
      with_output A out
        (pseq (decompress_tests P qp_id bufs kNumTests out) (\<lambda>out.
         pseq (checked_Recycle bufs) (\<lambda>_.
         compare_buffers out input_buffer))))))"

end
