(* ===== verification/Bitar_Sync.thy ===== *)
theory Bitar_Sync
  imports Bitar_App
begin

text \<open>
  The synchronous test of the application on a device that is ready: what its steps keep, and
  that it succeeds.
\<close>

subsection \<open>A buffer from the pool over memzones\<close>

definition allocates ::
  "('w, 'p) dpdk_scheme \<Rightarrow> (int \<Rightarrow> memory_pool \<Rightarrow> 'w world \<Rightarrow> buffer result \<times> 'w world) \<Rightarrow> bool" where
  "allocates P alloc \<longleftrightarrow> (\<forall>sz w. 0 \<le> sz \<longrightarrow> sz \<le> 2 ^ 62 \<longrightarrow> (\<exists>cap. sz \<le> cap \<and> cap < 2 ^ 63 \<and>
     alloc sz rtememzone_pool w =
       (case pool_Allocate (NDEBUG P) (RtememzoneMemoryPool P) cap kDefaultBufferAlignment nullptr w of
          (Inl e, _, w) \<Rightarrow> (Inl e, w)
        | (Inr _, a, w) \<Rightarrow> (Inr \<lparr>buf_data = a, buf_size = nat sz, buf_capacity = nat cap\<rparr>, w))))"

definition arrow_laws :: "('w, 'p) dpdk_scheme \<Rightarrow> 'w arrow \<Rightarrow> bool" where
  "arrow_laws P A \<longleftrightarrow> allocates P (AllocateResizableBuffer A) \<and> allocates P (AllocateBuffer A) \<and>
     (\<forall>b w. release_buffer A b rtememzone_pool w =
        snd (pool_Free (NDEBUG P) (RtememzoneMemoryPool P) (buf_data b) (int (buf_capacity b)) kDefaultBufferAlignment w))"

text \<open>While the memzones \<open>L\<close> are reserved, a further one can be had.\<close>

definition one_more :: "('w, 'p) dpdk_scheme \<Rightarrow> memzone set \<Rightarrow> bool" where
  "one_more P L \<longleftrightarrow> (\<forall>n al m. 0 < n \<longrightarrow> live_zones P (hidden m) = L \<longrightarrow>
     fst (rte_memzone_reserve_aligned P n al m) \<noteq> None)"

lemma pool_memzone:
  assumes "mz_ok P w" "zone_frame_laws P" "0 < n" "n < 2 ^ 63"
    and alloc: "pool_Allocate (NDEBUG P) (RtememzoneMemoryPool P) n al nullptr w = (r, a, w')"
  shows "case r of
      Inr _ \<Rightarrow> \<exists>z. a = mz_addr z \<and> allocated_memzones w a = None \<and>
        allocated_memzones w' = (allocated_memzones w)(a \<mapsto> z) \<and> nat n \<le> mz_len z \<and> mz_ok P w' \<and>
        mem_step P (zone_bytes z) w w'
    | Inl e \<Rightarrow> mz_ok P w' \<and> mem_step P {} w w' \<and> \<not> one_more P (live_zones P (hidden (mach w))) \<and> (\<exists>msg. e = Status OutOfMemory msg) \<and>
        allocated_memzones w' = allocated_memzones w"
proof -
  let ?al = "nat (al mod 2 ^ 32)"
  have n: "nat (n mod 2 ^ 64) = nat n" "0 < nat n" using assms(3,4) by simp_all
  obtain y m where r: "rte_memzone_reserve_aligned P (nat n) ?al (mach w) = (y, m)" by fastforce
  have q: "same_queues P (mach w) m" using assms(2) r unfolding zone_frame_laws_def by (metis snd_conv)
  show ?thesis
  proof (cases y)
    case None
    have "\<not> one_more P (live_zones P (hidden (mach w)))" using r n(2) None unfolding one_more_def by (metis fst_conv)
    moreover have "r = Inl (Status OutOfMemory ''Reserving memzone of '')" "w' = w\<lparr>mach := m\<rparr>"
      using alloc assms(3,4) r None unfolding pool_Allocate_def RtememzoneMemoryPool_sel memzone_AllocateAligned_def n(1)
      by simp_all
    ultimately show ?thesis
      using mz_reserve_fail [OF assms(1) r [unfolded None]] q
      by (auto simp: mem_step_def same_outside_def)
  next
    case (Some z)
    note Z = mz_reserve_ok [OF assms(1) n(2) r [unfolded Some]]
    let ?w1 = "tracker_Emplace (mz_addr z) z (w\<lparr>mach := m\<rparr>)"
    have w1: "?w1 = w\<lparr>mach := m, allocated_memzones := (allocated_memzones w)(mz_addr z \<mapsto> z)\<rparr>"
      using Z(1) by (simp add: tracker_Emplace_def)
    have "mz_addr z \<noteq> nullptr" using mz_ok_tracked(2) [OF Z(2), of "mz_addr z" z] Z(3) by simp
    then have eq: "r = OK" "a = mz_addr z" "w' = UpdateAllocatedBytes Rtememzone n False
        (if NDEBUG P then ?w1
         else write_byte (mz_addr z + nat (n - 1)) kAllocPoison (write_byte (mz_addr z) kAllocPoison ?w1))"
      using alloc assms(3,4) r Some unfolding pool_Allocate_def RtememzoneMemoryPool_sel memzone_AllocateAligned_def n(1)
      by (auto simp: Let_def)
    have "nat (n - 1) < mz_len z" "0 < mz_len z" using Z(4) n(2) by linarith+
    then have "mz_addr z \<in> zone_bytes z" "mz_addr z + nat (n - 1) \<in> zone_bytes z"
      by (auto simp: zone_bytes_def)
    then have "same_outside (zone_bytes z) (mach w) (mach w')"
      using Z(5) unfolding eq(3) w1 by (auto simp: same_outside_def UpdateAllocatedBytes_def write_byte_def)
    moreover have "same_queues P (mach w) (mach w')"
      using q unfolding eq(3) w1 by (simp add: same_queues_def UpdateAllocatedBytes_def write_byte_def)
    moreover have tr: "allocated_memzones w' = (allocated_memzones w)(mz_addr z \<mapsto> z)"
      unfolding eq(3) w1 by (simp add: UpdateAllocatedBytes_def)
    moreover have "mz_ok P w'" unfolding eq(3) using Z(2) by simp
    ultimately show ?thesis using Z(1,4) eq(1,2)
      by (auto simp: mem_step_def same_outside_def)
  qed
qed

lemma pool_memzone_free:
  fixes al :: int
  assumes "mz_ok P w" "zone_frame_laws P" "allocated_memzones w a = Some z" "0 < n" "nat n \<le> mz_len z"
  defines "w' \<equiv> snd (pool_Free (NDEBUG P) (RtememzoneMemoryPool P) a n al w)"
  shows "mz_ok P w'" "allocated_memzones w' = (allocated_memzones w)(a := None)"
    "same_queues P (mach w) (mach w')" "x \<notin> zone_bytes z \<Longrightarrow> bytes (mach w') x = bytes (mach w) x"
proof -
  note T = mz_ok_tracked [OF assms(1,3)]
  define w1 where "w1 = (if NDEBUG P then w
    else write_byte (a + nat (n - 1)) kDeallocPoison (write_byte a kDeallocPoison w))"
  have w1: "mz_ok P w1" "allocated_memzones w1 = allocated_memzones w" "hidden (mach w1) = hidden (mach w)"
    "mz_len z \<noteq> 0" using assms(1) T(3) by (simp_all add: w1_def)
  have ends: "a \<in> zone_bytes z" "a + nat (n - 1) \<in> zone_bytes z"
    using assms(4,5) T(1,3) by (auto simp: zone_bytes_def)
  have same: "bytes (mach w1) x = bytes (mach w) x" if "x \<notin> zone_bytes z" for x
    using ends that by (auto simp: w1_def write_byte_def)
  have "a \<noteq> zero_size_area P" using T(5) ends(1) by auto
  then have "w' = UpdateAllocatedBytes Rtememzone (- n) True (tracker_Release P a w1)"
    using T(2) assms(4) unfolding w'_def pool_Free_def RtememzoneMemoryPool_sel
    by (simp add: memzone_DeallocateAligned_def w1_def)
  then have w': "mach w' = rte_memzone_free P z (mach w1)" "allocated_memzones w' = (allocated_memzones w1)(a := None)"
    using w1(2) assms(3) by (simp_all add: tracker_Release_def)
  have "same_outside (zone_bytes z) (mach w1) (mach w')"
    using memzone_free_laws(2) [of P z "mach w1"] assms(1) w'(1) by (simp add: mz_ok_def)
  then show "x \<notin> zone_bytes z \<Longrightarrow> bytes (mach w') x = bytes (mach w) x" using same by (simp add: same_outside_def)
  show "allocated_memzones w' = (allocated_memzones w)(a := None)" using w'(2) w1(2) by simp
  have "same_queues P (mach w1) (mach w')" using assms(2) w'(1) by (simp add: zone_frame_laws_def)
  then show "same_queues P (mach w) (mach w')" using w1(3) by (simp add: same_queues_def)
  have "0 < nat n" using assms(4) by simp
  obtain w2 where w2: "pool_Free (NDEBUG P) (RtememzoneMemoryPool P) a n al w = (OK, w2)" "mz_ok P w2"
    using memzone.free_block [OF assms(1) _ assms(4), of a "mz_len z" "NDEBUG P" al] assms(3,5)
    by (auto simp: mz_blocks_def)
  then show "mz_ok P w'" by (simp add: w'_def)
qed

lemma mem_bytes_disjoint:
  "(\<And>x. x \<notin> B \<Longrightarrow> bytes m' x = bytes m x) \<Longrightarrow> {a ..< a + n} \<inter> B = {} \<Longrightarrow> mem_bytes m' a n = mem_bytes m a n"
  by (rule mem_bytes_cong) (metis atLeastLessThan_iff disjoint_iff)

subsection \<open>The device stays ready\<close>

lemma calls_ready_env:
  assumes ready: "calls_ready P c qp_id dm s" and "mz_ok P w" "same_queues P (mach (env s)) (mach w)"
    and zones: "\<And>z. Some z \<in> set (dm_all dm) \<Longrightarrow> allocated_memzones w (mz_addr z) = Some z"
  shows "calls_ready P c qp_id dm (s\<lparr>env := w\<rparr>)"
proof -
  have "own_zone c w p" if "p \<in> set (dm_all dm)" for p
  proof -
    have "own_zone c (env s) p" using calls_readyD(5) [OF ready] that by (simp add: dm_ok_def)
    then show ?thesis using zones that by (auto simp: own_zone_def tracker_Of_def)
  qed
  then have "dm_ok P c (dm, w)" using calls_readyD(5) [OF ready] assms(2) by (simp add: dm_ok_def)
  then show ?thesis
    using ready assms(3) by (simp add: calls_ready_def at_rest_def qp_view_def same_queues_def)
qed

lemma dm_tracked:
  assumes "dm_ok P c (dm, w)" "Some z \<in> set (dm_all dm)"
  shows "allocated_memzones w (mz_addr z) = Some z"
  using assms by (auto simp: dm_ok_def own_zone_def tracker_Of_def)

text \<open>The stock of a device memory: what is not in use is in the free list.\<close>

lemma dm_stock:
  assumes "dm_ok P c (dm, w)"
  shows "length (memzone_pool dm) + card (dm_held (dm, w)) = card (set (dm_all dm))"
proof -
  have d: "distinct (dm_all dm)" and own: "\<forall>p \<in> set (dm_all dm). own_zone c w p"
    using assms by (simp_all add: dm_ok_def)
  have "set (occupied_memzones dm) = Some ` dm_held (dm, w)"
  proof (intro set_eqI iffI)
    fix p assume p: "p \<in> set (occupied_memzones dm)"
    then obtain z where "p = Some z" using own by (auto simp: dm_all_def own_zone_def)
    then show "p \<in> Some ` dm_held (dm, w)" using p by (simp add: dm_held_def)
  qed (auto simp: dm_held_def)
  then have "card (dm_held (dm, w)) = card (set (occupied_memzones dm))" by (simp add: card_image)
  also have "\<dots> = length (occupied_memzones dm)" using d by (simp add: dm_all_def distinct_card)
  finally have "length (memzone_pool dm) + card (dm_held (dm, w)) = length (dm_all dm)" by (simp add: dm_all_def)
  then show ?thesis using distinct_card [OF d] by simp
qed

lemma Put_stock: "set (dm_all (fst (snd (Put a d w)))) = set (dm_all d)"
  by (auto simp: Put_def dm_all_def split: option.split)

lemma Recycle_stock: "set (dm_all (fst (snd (Recycle bufs (d, w))))) = set (dm_all d)"
proof -
  have "set (dm_all (fst (snd (put_all dm_put as s)))) = set (dm_all (fst s))" for as and s :: "device_memory \<times> 'a world"
  proof (induction as arbitrary: s)
    case (Cons a as)
    have "set (dm_all (fst (snd (dm_put a s)))) = set (dm_all (fst s))"
      using Put_stock [of a "fst s" "snd s"] by (cases s) (simp add: dm_put_def)
    then show ?case using Cons.IH [of "snd (dm_put a s)"] by (simp split: prod.splits) (metis fst_conv snd_conv)
  qed simp
  then show ?thesis by (simp add: Recycle_def)
qed

subsection \<open>One session\<close>

lemma filled_addrs: "list_all2 filled zs bufs \<Longrightarrow> buf_data ` set bufs = mz_addr ` set zs"
  by (induction rule: list_all2_induct) (simp_all add: filled_def)

lemma filled_in: "list_all2 filled zs bufs \<Longrightarrow> b \<in> set bufs \<Longrightarrow> \<exists>z \<in> set zs. filled z b"
  by (induction rule: list_all2_induct) auto

lemma output_size_small:
  assumes "k < 2 ^ 40"
  shows "output_size k = int (k * kDecompressedSegSize)" "int (k * kDecompressedSegSize) \<le> 2 ^ 62"
proof -
  have "k * kDecompressedSegSize \<le> 2 ^ 40 * 2 ^ 16"
    using assms by (intro mult_mono) (simp_all add: kDecompressedSegSize_def)
  then have "k * kDecompressedSegSize \<le> 2 ^ 62" by simp
  then show "int (k * kDecompressedSegSize) \<le> 2 ^ 62" by (metis of_nat_le_iff of_nat_numeral of_nat_power)
  moreover have "sint (word_of_nat n :: u64) = int n" if "int n \<le> 2 ^ 62" for n
    using that by (simp add: signed_of_nat signed_take_bit_int_eq_self)
  ultimately show "output_size k = int (k * kDecompressedSegSize)"
    unfolding output_size_def by blast
qed

text \<open>
  A session on one queue pair, with one input: \<open>H\<close> are the memzones in use before, \<open>Z\<close> those
  the device memory has, \<open>L\<close> those of all processes. Under the condition \<open>S\<close> nothing can fail.
\<close>

locale sync_session =
  fixes P :: "('w, 'p) dpdk_scheme" and A :: "'w arrow" and c :: configuration and patience :: "'w \<Rightarrow> nat"
    and qp_id :: u16 and b :: buffer and input :: "u8 list" and H L :: "memzone set" and Z :: "memzone_ptr set" and S :: bool
  assumes laws: "compress_laws P c" "one_segment c" and prompt: "prompt P patience" and arrow: "arrow_laws P A"
    and seg: "unat (decompressed_seg_size c) \<le> kDecompressedSegSize" and short: "length input < 2 ^ 40"
    and device: "S \<Longrightarrow> faultless P" "S \<Longrightarrow> compress_fits P c" "S \<Longrightarrow> one_more P L"
    and stock: "S \<Longrightarrow> Some z \<in> Z \<Longrightarrow> mz_len z < 65536"
      "S \<Longrightarrow> ceil_div (length input) (unat (decompressed_seg_size c)) + card H \<le> card Z"

definition session_idle ::
  "('w, 'p) dpdk_scheme \<Rightarrow> configuration \<Rightarrow> u16 \<Rightarrow> buffer \<Rightarrow> u8 list \<Rightarrow> memzone set \<Rightarrow> memzone_ptr set \<Rightarrow> bool \<Rightarrow>
   'w dev_state \<Rightarrow> bool" where
  "session_idle P c qp_id b input H Z S s \<longleftrightarrow> (\<exists>dm. compress_ready P c qp_id b input dm s \<and>
     dm_held (dm, env s) = H \<and> (S \<longrightarrow> set (dm_all dm) = Z))"

definition session_packed ::
  "('w, 'p) dpdk_scheme \<Rightarrow> configuration \<Rightarrow> u16 \<Rightarrow> buffer \<Rightarrow> u8 list \<Rightarrow> memzone set \<Rightarrow> memzone_ptr set \<Rightarrow> bool \<Rightarrow>
   device_memory \<Rightarrow> memzone list \<Rightarrow> buffer list \<Rightarrow> 'w dev_state \<Rightarrow> bool" where
  "session_packed P c qp_id b input H Z S dm zs bufs s \<longleftrightarrow> compress_ready P c qp_id b input dm s \<and>
     map (stored (mach (env s))) bufs = compressed_form P c input \<and> list_all2 filled zs bufs \<and> distinct zs \<and>
     set zs \<inter> H = {} \<and> dm_held (dm, env s) = H \<union> set zs \<and> (S \<longrightarrow> set (dm_all dm) = Z)"

text \<open>After a failure nothing of the session is in use.\<close>

definition session_lost ::
  "('w, 'p) dpdk_scheme \<Rightarrow> configuration \<Rightarrow> memzone set \<Rightarrow> bool \<Rightarrow> error \<Rightarrow> 'w dev_state \<Rightarrow> bool" where
  "session_lost P c H S e s \<longleftrightarrow> \<not> S \<and> (\<exists>code msg. e = Status code msg \<and> code \<in> {IOError, OutOfMemory}) \<and>
     (\<exists>dm. device_mem (dev s) = Some dm \<and> dm_ok P c (dm, env s) \<and> dm_held (dm, env s) = H)"

lemma device_Recycle_ok:
  assumes "device_mem (dev s) = Some dm" "dm_ok P c (dm, env s)" "list_all2 filled zs bufs" "distinct zs"
    and "set zs \<inter> H = {}" "dm_held (dm, env s) = H \<union> set zs"
  obtains dm' where "CompressDevice_Recycle bufs s = (Inr (length bufs), s\<lparr>dev := (dev s)\<lparr>device_mem := Some dm'\<rparr>\<rparr>)"
    "dm_ok P c (dm', env s)" "dm_held (dm', env s) = H" "set (dm_all dm') = set (dm_all dm)"
proof -
  obtain d' where d: "Recycle bufs (dm, env s) =
      (card {z \<in> dm_held (dm, env s). mz_addr z \<in> buf_data ` set bufs}, d', env s)"
    "dm_ok P c (d', env s)" "dm_held (d', env s) = {z \<in> dm_held (dm, env s). mz_addr z \<notin> buf_data ` set bufs}"
    by (rule Recycle_ok [OF assms(2)])
  have mine: "y \<in> set zs" if "y \<in> H \<union> set zs" "mz_addr y = mz_addr z" "z \<in> set zs" for y z
    using dm.held_addr [OF assms(2), of y z] that assms(6) by auto
  have given: "{z \<in> dm_held (dm, env s). mz_addr z \<in> buf_data ` set bufs} = set zs"
    "{z \<in> dm_held (dm, env s). mz_addr z \<notin> buf_data ` set bufs} = H"
    unfolding filled_addrs [OF assms(3)] assms(6) using mine assms(5) by (auto simp: image_iff)
  have n: "card (set zs) = length bufs" using distinct_card [OF assms(4)] list_all2_lengthD [OF assms(3)] by simp
  have stock: "set (dm_all d') = set (dm_all dm)" using Recycle_stock [of bufs dm "env s"] d(1) by simp
  show thesis
  proof (cases bufs)
    case Nil
    have "H = dm_held (dm, env s)" using given(2) Nil by simp
    then show thesis using assms(1,2) Nil by (intro that [of dm]) (simp_all add: CompressDevice_Recycle_def)
  next
    case (Cons x xs)
    have "CompressDevice_Recycle bufs s = (Inr (length bufs), s\<lparr>dev := (dev s)\<lparr>device_mem := Some d'\<rparr>, env := env s\<rparr>)"
      using d(1) given(1) n assms(1) Cons by (simp add: CompressDevice_Recycle_def)
    then show thesis using d(2,3) given(2) stock by (intro that [of d']) simp_all
  qed
qed

text \<open>The output buffer is over a memzone of its own.\<close>

definition output_held :: "buffer \<Rightarrow> u8 list \<Rightarrow> buffer \<Rightarrow> device_memory \<Rightarrow> 'w world \<Rightarrow> bool" where
  "output_held b input out dm w \<longleftrightarrow> (\<exists>z. allocated_memzones w (mz_addr z) = Some z \<and> buf_data out = mz_addr z \<and>
     0 < buf_capacity out \<and> buf_capacity out \<le> mz_len z \<and> Some z \<notin> set (dm_all dm) \<and>
     {buf_data b ..< buf_data b + length input} \<inter> zone_bytes z = {})"

lemma output_apart:
  assumes "dm_ok P c (dm, w)" "set zs \<subseteq> dm_held (dm, w)" "list_all2 filled zs bufs" "output_held b input out dm w"
    and "length bufs * unat (decompressed_seg_size c) \<le> buf_capacity out"
  shows "apart_output c bufs (buf_data out)"
    and "{buf_data b ..< buf_data b + length input} \<inter> output_area c bufs (buf_data out) = {}"
proof -
  obtain z where z: "allocated_memzones w (mz_addr z) = Some z" "buf_data out = mz_addr z"
    "buf_capacity out \<le> mz_len z" "Some z \<notin> set (dm_all dm)" "{buf_data b ..< buf_data b + length input} \<inter> zone_bytes z = {}"
    using assms(4) by (auto simp: output_held_def)
  have out: "output_area c bufs (buf_data out) \<subseteq> zone_bytes z"
    using z(2,3) assms(5) by (auto simp: output_area_def zone_bytes_def)
  then show "{buf_data b ..< buf_data b + length input} \<inter> output_area c bufs (buf_data out) = {}" using z(5) by blast
  show "apart_output c bufs (buf_data out)"
    unfolding apart_output_def
  proof
    fix x assume "x \<in> set bufs"
    then obtain y where y: "y \<in> set zs" "filled y x" using filled_in [OF assms(3)] by blast
    have all: "Some y \<in> set (dm_all dm)" using y(1) assms(2) by (auto simp: dm_held_def dm_all_def)
    have "allocated_memzones w (mz_addr y) = Some y" by (rule dm_tracked [OF assms(1) all])
    moreover have "mz_addr y \<noteq> mz_addr z" using all z(1,4) calculation by (metis option.inject)
    moreover have "mz_ok P w" using assms(1) by (simp add: dm_ok_def)
    ultimately have "zone_bytes y \<inter> zone_bytes z = {}" using mz_ok_disjoint z(1) by blast
    moreover have "buffer_bytes x \<subseteq> zone_bytes y"
      using y(2) unfolding filled_def buffer_bytes_def buffer_area_def
      by (elim conjE) (simp add: unat_of_nat take_bit_nat_eq_self del: ivl_subset)
    ultimately show "buffer_bytes x \<inter> output_area c bufs (buf_data out) = {}" using out by blast
  qed
qed

lemma compress_ready_memory:
  assumes "compress_ready P c qp_id b input dm s" "dm_ok P c (dm', env s)" "set (dm_all dm') = set (dm_all dm)"
  shows "compress_ready P c qp_id b input dm' (s\<lparr>dev := (dev s)\<lparr>device_mem := Some dm'\<rparr>\<rparr>)"
  using assms
  by (simp add: compress_ready_def calls_ready_def at_rest_def qp_view_def num_qps_def foreign_def)

context sync_session begin

abbreviation "idle \<equiv> session_idle P c qp_id b input H Z S"
abbreviation "packed \<equiv> session_packed P c qp_id b input H Z S"
abbreviation "lost \<equiv> session_lost P c H S"
abbreviation "settled s \<equiv> S \<longrightarrow> live_zones P (hidden (mach (env s))) = L"

lemma idle_smooth:
  assumes "compress_ready P c qp_id b input dm s" "dm_held (dm, env s) = H" "set (dm_all dm) = Z" S
  shows "compress_smooth P c input dm"
proof -
  have "dm_ok P c (dm, env s)" using assms(1) by (simp add: compress_ready_def calls_ready_def)
  from dm_stock [OF this] have "card Z = length (memzone_pool dm) + card H" using assms(2,3) by simp
  then show ?thesis
    using device stock assms(3,4) by (auto simp: compress_smooth_def narrow_def)
qed

lemma compress_step:
  assumes "idle s" "settled s"
  shows "twp (BenchmarkCompressSync P qp_id b) (\<lambda>bufs t. settled t \<and> (\<exists>dm zs. packed dm zs bufs t)) lost s"
proof -
  obtain dm where dm: "compress_ready P c qp_id b input dm s" "dm_held (dm, env s) = H" "S \<longrightarrow> set (dm_all dm) = Z"
    using assms(1) by (auto simp: session_idle_def)
  have smooth: "S \<Longrightarrow> compress_smooth P c input dm" using idle_smooth dm by blast
  note C = Compress_ok [OF laws dm(1)]
  have "twp (Compress P qp_id (Some b)) (\<lambda>bufs t. settled t \<and> (\<exists>dm zs. packed dm zs bufs t)) lost s"
    unfolding twp_def
  proof
    show "Compress P qp_id (Some b) s \<noteq> None" by (rule C(2) [OF prompt])
    show "pwp (Compress P qp_id (Some b)) (\<lambda>bufs t. settled t \<and> (\<exists>dm zs. packed dm zs bufs t)) lost s"
    proof (rule pwp_mono [OF C(1)], elim exE conjE)
      fix bufs t dm' zs
      assume "map (\<lambda>b. mem_bytes (mach (env t)) (buf_data b) (buf_size b)) bufs =
           map (codec P (compress_xform c)) (segments (unat (decompressed_seg_size c)) input)"
        "compress_ready P c qp_id b input dm' t" "list_all2 filled zs bufs" "distinct zs"
        "set zs \<inter> dm_held (dm, env s) = {}" "dm_held (dm', env t) = dm_held (dm, env s) \<union> set zs"
        "compress_smooth P c input dm \<longrightarrow> set (dm_all dm') = set (dm_all dm) \<and>
           live_zones P (hidden (mach (env t))) = live_zones P (hidden (mach (env s)))"
      then have "packed dm' zs bufs t" "settled t"
        unfolding session_packed_def using dm smooth assms(2) by (simp_all add: compressed_form_def stored_def [abs_def])
      then show "settled t \<and> (\<exists>dm zs. packed dm zs bufs t)" by blast
    qed (use dm(2) smooth in \<open>auto simp: session_lost_def\<close>)
  qed
  then show ?thesis by (simp only: BenchmarkCompressSync_def)
qed

lemma recycle_step:
  assumes "packed dm zs bufs s"
  shows "twp (checked_Recycle bufs) (\<lambda>_ t. idle t \<and> env t = env s \<and>
    (\<exists>dm'. device_mem (dev t) = Some dm' \<and> set (dm_all dm') = set (dm_all dm))) (\<lambda>_ _. False) s"
proof -
  have ok: "device_mem (dev s) = Some dm" "dm_ok P c (dm, env s)" "compress_ready P c qp_id b input dm s"
    using assms by (simp_all add: session_packed_def compress_ready_def calls_ready_def)
  obtain dm' where R: "CompressDevice_Recycle bufs s = (Inr (length bufs), s\<lparr>dev := (dev s)\<lparr>device_mem := Some dm'\<rparr>\<rparr>)"
    "dm_ok P c (dm', env s)" "dm_held (dm', env s) = H" "set (dm_all dm') = set (dm_all dm)"
    by (rule device_Recycle_ok [OF ok(1,2), of zs bufs H]) (use assms in \<open>auto simp: session_packed_def\<close>)
  have "idle (s\<lparr>dev := (dev s)\<lparr>device_mem := Some dm'\<rparr>\<rparr>)"
    using compress_ready_memory [OF ok(3) R(2,4)] R(3,4) assms
    by (auto simp: session_idle_def session_packed_def dm_held_def)
  then show ?thesis by (simp add: checked_Recycle_def wp_def seq_def R(1,4))
qed

lemma compress_tests_ok:
  assumes "idle s" "settled s" "idx + Suc left = kNumTests"
  shows "twp (compress_tests P qp_id b (Suc left) idx bufs) (\<lambda>bufs t. settled t \<and> (\<exists>dm zs. packed dm zs bufs t)) lost s"
  using assms
proof (induction left arbitrary: idx s bufs)
  case 0
  have idx: "\<not> idx < kNumTests - 1" using 0(3) by simp
  show ?case
    unfolding compress_tests.simps twp_simps if_not_P [OF idx]
    by (intro twp_mono [OF compress_step [OF 0(1,2)]]) simp_all
next
  case (Suc left)
  have idx: "idx < kNumTests - 1" "Suc idx + Suc left = kNumTests" using Suc.prems(3) by simp_all
  show ?case
    unfolding compress_tests.simps(2) [of _ _ _ "Suc left"] twp_simps if_P [OF idx(1)]
  proof (rule twp_mono [OF compress_step [OF Suc.prems(1,2)]], elim exE conjE)
    fix bufs t dm zs assume "packed dm zs bufs t" and t: "settled t"
    from recycle_step [OF this(1)]
    show "twp (checked_Recycle bufs) (\<lambda>x. twp (compress_tests P qp_id b (Suc left) (Suc idx) [])
        (\<lambda>bufs t. settled t \<and> (\<exists>dm zs. packed dm zs bufs t)) lost) lost t"
      by (rule twp_mono) (use Suc.IH [OF _ _ idx(2)] t in simp_all)
  qed
qed


lemma packed_decompress_ready:
  assumes "packed dm zs bufs s" "output_held b input out dm (env s)"
    and "length bufs * unat (decompressed_seg_size c) \<le> buf_capacity out"
  shows "decompress_ready P c qp_id bufs out dm s"
    and "{buf_data b ..< buf_data b + length input} \<inter> output_area c bufs (buf_data out) = {}"
    and "\<forall>x \<in> set bufs. {buf_data x ..< buf_data x + buf_size x} \<inter> output_area c bufs (buf_data out) = {}"
proof -
  have p: "compress_ready P c qp_id b input dm s" "map (stored (mach (env s))) bufs = compressed_form P c input"
    "list_all2 filled zs bufs" "set zs \<subseteq> dm_held (dm, env s)" "dm_ok P c (dm, env s)"
    using assms(1) by (auto simp: session_packed_def compress_ready_def calls_ready_def)
  note apart = output_apart [OF p(5,4,3) assms(2,3)]
  show "{buf_data b ..< buf_data b + length input} \<inter> output_area c bufs (buf_data out) = {}" by (rule apart(2))
  have "0 < unat (decompressed_seg_size c)" using laws(2) by (simp add: one_segment_def word_less_nat_alt)
  then show "decompress_ready P c qp_id bufs out dm s"
    using compressed_decompress_ready [OF p(1,2,3) apart(1) _ assms(3)] by blast
  have "buffer_bytes x = {buf_data x ..< buf_data x + buf_size x}" if x: "x \<in> set bufs" for x
    using filled_in [OF p(3) x]
    by (auto simp: filled_def buffer_bytes_def buffer_area_def unat_of_nat take_bit_nat_eq_self)
  then show "\<forall>x \<in> set bufs. {buf_data x ..< buf_data x + buf_size x} \<inter> output_area c bufs (buf_data out) = {}"
    using apart(1) by (auto simp: apart_output_def)
qed

text \<open>What is packed stays so when only the output changes.\<close>

lemma packed_kept:
  assumes "packed dm zs bufs s" "calls_ready P c qp_id dm t"
    and "allocated_memzones (env t) = allocated_memzones (env s)"
    and "\<forall>a. a \<notin> B \<longrightarrow> bytes (mach (env t)) a = bytes (mach (env s)) a"
    and "{buf_data b ..< buf_data b + length input} \<inter> B = {}"
    and "\<forall>x \<in> set bufs. {buf_data x ..< buf_data x + buf_size x} \<inter> B = {}"
  shows "packed dm zs bufs t"
proof -
  have same: "mem_bytes (mach (env t)) a n = mem_bytes (mach (env s)) a n" if "{a ..< a + n} \<inter> B = {}" for a n
    by (rule mem_bytes_disjoint [OF _ that]) (use assms(4) in blast)
  have "map (stored (mach (env t))) bufs = map (stored (mach (env s))) bufs"
    using same assms(6) by (simp add: stored_def)
  then have "map (stored (mach (env t))) bufs = compressed_form P c input"
    using assms(1) by (simp only: session_packed_def)
  moreover have "compress_ready P c qp_id b input dm t"
    using assms(1,2,3) same [OF assms(5)]
    by (simp add: session_packed_def compress_ready_def foreign_def qp_view_def)
  ultimately show ?thesis using assms(1) by (simp add: session_packed_def dm_held_def)
qed

lemma decompress_step:
  assumes s: "packed dm zs bufs s" "output_held b input out dm (env s)"
    and cap: "length bufs * unat (decompressed_seg_size c) \<le> buf_capacity out"
  shows "twp (not_ok_recycle bufs (BenchmarkDecompressSync P qp_id bufs out))
    (\<lambda>out' t. packed dm zs bufs t \<and> output_held b input out dm (env t) \<and> out' = out\<lparr>buf_size := length input\<rparr> \<and>
       mem_bytes (mach (env t)) (buf_data out) (length input) = input)
    (\<lambda>e t. lost e t \<and> (\<exists>dm. device_mem (dev t) = Some dm \<and> output_held b input out dm (env t))) s"
    (is "twp _ ?Q ?E s")
proof -
  note R = packed_decompress_ready [OF s cap]
  note D = Decompress_ok [OF laws R(1)]
  have form: "map (stored (mach (env s))) bufs = compressed_form P c input" using s(1) by (simp add: session_packed_def)
  have codec: "codec_laws P c" using laws(1) by (simp add: compress_laws_def)
  have seg0: "0 < unat (decompressed_seg_size c)" using laws(2) by (simp add: one_segment_def word_less_nat_alt)
  note whole = decompressed_back [OF codec seg0 form]
  have smooth: "S \<Longrightarrow> decompress_smooth P c (mach (env s)) bufs"
    using decompress_compressed_smooth [OF codec device(1) form] by blast
  obtain r t where rt: "Decompress P qp_id bufs (Some out) s = Some (r, t)" using D(2) [OF prompt] by fast
  show ?thesis
  proof (cases r)
    case (Inr n)
    from pwp_Inr [OF D(1) rt [unfolded Inr]]
    have t: "n = Some (int (length input))" "decompressed_to P c (mach (env s)) bufs (buf_data out) (mach (env t))"
      "\<forall>a. a \<notin> output_area c bufs (buf_data out) \<longrightarrow> bytes (mach (env t)) a = bytes (mach (env s)) a"
      "allocated_memzones (env t) = allocated_memzones (env s)" "decompress_ready P c qp_id bufs out dm t"
      using whole(1) by simp_all
    have "?Q (out\<lparr>buf_size := length input\<rparr>) t"
      using packed_kept [OF s(1) _ t(4,3) R(2,3)] t(5) whole(2) [OF t(2)] s(2) t(4)
      by (simp add: decompress_ready_def output_held_def)
    then show ?thesis
      using rt Inr t(1)
      by (simp add: not_ok_recycle_def BenchmarkDecompressSync_def pseq_def resized_def twp_def pwp_def return_def)
  next
    case (Inl e)
    from pwp_Inl [OF D(1) rt [unfolded Inl]] obtain code msg where e: "e = Status code msg" "code \<in> {IOError, OutOfMemory}"
      and t: "\<not> decompress_smooth P c (mach (env s)) bufs" "allocated_memzones (env t) = allocated_memzones (env s)"
        "device_mem (dev t) = Some dm" "dm_ok P c (dm, env t)" by auto
    have z: "list_all2 filled zs bufs" "distinct zs" "set zs \<inter> H = {}" "dm_held (dm, env t) = H \<union> set zs"
      using s(1) by (simp_all add: session_packed_def dm_held_def)
    obtain dm' where R: "CompressDevice_Recycle bufs t = (Inr (length bufs), t\<lparr>dev := (dev t)\<lparr>device_mem := Some dm'\<rparr>\<rparr>)"
      "dm_ok P c (dm', env t)" "dm_held (dm', env t) = H" "set (dm_all dm') = set (dm_all dm)"
      by (rule device_Recycle_ok [OF t(3,4) z])
    have "?E e (t\<lparr>dev := (dev t)\<lparr>device_mem := Some dm'\<rparr>\<rparr>)"
      using R(2-4) e t(1,2) s(2) smooth by (auto simp: session_lost_def output_held_def)
    then show ?thesis
      using rt Inl e(1) R(1)
      by (simp add: not_ok_recycle_def BenchmarkDecompressSync_def pseq_def twp_def pwp_def seq_def throw_def)
  qed
qed


lemma decompress_tests_ok:
  assumes "packed dm zs bufs s" "output_held b input out dm (env s)"
    and "length bufs * unat (decompressed_seg_size c) \<le> buf_capacity out"
  shows "twp (decompress_tests P qp_id bufs (Suc left) out)
    (\<lambda>out' t. packed dm zs bufs t \<and> output_held b input out dm (env t) \<and> out' = out\<lparr>buf_size := length input\<rparr> \<and>
       mem_bytes (mach (env t)) (buf_data out) (length input) = input)
    (\<lambda>e t. lost e t \<and> (\<exists>dm. device_mem (dev t) = Some dm \<and> output_held b input out dm (env t))) s"
  using assms
proof (induction left arbitrary: s out)
  case 0
  show ?case
    unfolding decompress_tests.simps twp_simps by (intro twp_mono [OF decompress_step [OF 0]]) simp_all
next
  case (Suc left)
  show ?case
    unfolding decompress_tests.simps(2) [of _ _ _ "Suc left"] twp_simps
  proof (rule twp_mono [OF decompress_step [OF Suc.prems]])
    fix out' t
    assume t: "packed dm zs bufs t \<and> output_held b input out dm (env t) \<and> out' = out\<lparr>buf_size := length input\<rparr> \<and>
       mem_bytes (mach (env t)) (buf_data out) (length input) = input"
    have same: "output_held b input out' d w = output_held b input out d w" for d w
      using t by (simp add: output_held_def)
    have "twp (decompress_tests P qp_id bufs (Suc left) out')
      (\<lambda>out'' t. packed dm zs bufs t \<and> output_held b input out' dm (env t) \<and> out'' = out'\<lparr>buf_size := length input\<rparr> \<and>
         mem_bytes (mach (env t)) (buf_data out') (length input) = input)
      (\<lambda>e t. lost e t \<and> (\<exists>dm. device_mem (dev t) = Some dm \<and> output_held b input out' dm (env t))) t"
      by (rule Suc.IH) (use t Suc.prems(3) in \<open>simp_all add: output_held_def\<close>)
    then show "twp (decompress_tests P qp_id bufs (Suc left) out')
      (\<lambda>out' t. packed dm zs bufs t \<and> output_held b input out dm (env t) \<and> out' = out\<lparr>buf_size := length input\<rparr> \<and>
         mem_bytes (mach (env t)) (buf_data out) (length input) = input)
      (\<lambda>e t. lost e t \<and> (\<exists>dm. device_mem (dev t) = Some dm \<and> output_held b input out dm (env t))) t"
      unfolding same by (rule twp_mono) (use t in simp_all)
  qed simp
qed

lemma library: "zone_frame_laws P" using laws(1) by (simp add: compress_laws_def)

lemma output_size_of:
  assumes "packed dm zs bufs s"
  shows "output_size (length bufs) = int (length bufs * kDecompressedSegSize)" "0 < length bufs"
    "int (length bufs * kDecompressedSegSize) \<le> 2 ^ 62"
proof -
  let ?seg = "unat (decompressed_seg_size c)"
  have "map (stored (mach (env s))) bufs = compressed_form P c input" and input: "input \<noteq> []"
    using assms by (simp_all add: session_packed_def compress_ready_def)
  from arg_cong [OF this(1), of length] have n: "length bufs = ceil_div (length input) ?seg"
    by (simp add: compressed_form_def segments_def)
  have pos: "0 < ?seg" using laws(2) by (simp add: one_segment_def word_less_nat_alt)
  then show "0 < length bufs" using input by (simp add: n ceil_div_pos)
  have "length bufs \<le> length input" unfolding n using pos by (simp add: ceil_div_le_iff)
  then have "length bufs < 2 ^ 40" using short by simp
  from output_size_small [OF this] show "output_size (length bufs) = int (length bufs * kDecompressedSegSize)"
    "int (length bufs * kDecompressedSegSize) \<le> 2 ^ 62" .
qed

lemma compress_ready_env:
  assumes ready: "compress_ready P c qp_id b input dm s" and w: "mz_ok P w" "same_queues P (mach (env s)) (mach w)"
    and tracked: "\<And>y. mz_addr y \<noteq> a \<Longrightarrow> allocated_memzones (env s) (mz_addr y) = Some y \<Longrightarrow> allocated_memzones w (mz_addr y) = Some y"
    and z: "mz_addr z = a" "\<And>y. Some y \<in> set (dm_all dm) \<Longrightarrow> mz_addr y \<noteq> a"
      "\<And>y. {buf_data b ..< buf_data b + length input} \<subseteq> zone_bytes y \<Longrightarrow>
         allocated_memzones (env s) (mz_addr y) = Some y \<Longrightarrow> mz_addr y \<noteq> a"
      "{buf_data b ..< buf_data b + length input} \<inter> zone_bytes z = {}"
    and bytes: "\<And>x. x \<notin> zone_bytes z \<Longrightarrow> bytes (mach w) x = bytes (mach (env s)) x"
  shows "compress_ready P c qp_id b input dm (s\<lparr>env := w\<rparr>)"
proof -
  have r: "calls_ready P c qp_id dm s" "foreign {buf_data b ..< buf_data b + length input} (qp_view (dev s) (unat qp_id) dm (env s))"
    using ready by (simp_all add: compress_ready_def)
  have "allocated_memzones w (mz_addr y) = Some y" if "Some y \<in> set (dm_all dm)" for y
    using tracked z(2) dm_tracked [OF calls_readyD(5) [OF r(1)]] that by blast
  then have "calls_ready P c qp_id dm (s\<lparr>env := w\<rparr>)" using calls_ready_env [OF r(1) w] by blast
  moreover obtain y where y: "allocated_memzones (env s) (mz_addr y) = Some y" "Some y \<notin> set (dm_all dm)"
    "{buf_data b ..< buf_data b + length input} \<subseteq> zone_bytes y" using r(2) by (auto simp: foreign_def qp_view_def)
  then have "foreign {buf_data b ..< buf_data b + length input} (qp_view (dev s) (unat qp_id) dm w)"
    using tracked z(3) unfolding foreign_def qp_view_def by (intro exI [of _ y]) simp
  moreover have "mem_bytes (mach w) (buf_data b) (length input) = mem_bytes (mach (env s)) (buf_data b) (length input)"
    by (rule mem_bytes_disjoint [OF bytes z(4)])
  ultimately show ?thesis using ready by (simp add: compress_ready_def)
qed

lemma allocate_step:
  assumes p: "packed dm zs bufs s" and settled: "settled s"
  shows "twp (not_ok_recycle bufs (allocate_output A (length bufs)))
    (\<lambda>out t. packed dm zs bufs t \<and> output_held b input out dm (env t) \<and>
       length bufs * unat (decompressed_seg_size c) \<le> buf_capacity out) lost s"
proof -
  let ?sz = "int (length bufs * kDecompressedSegSize)" and ?in = "{buf_data b ..< buf_data b + length input}"
  note sz = output_size_of [OF p]
  have ready: "compress_ready P c qp_id b input dm s" "dm_ok P c (dm, env s)" "mz_ok P (env s)" "device_mem (dev s) = Some dm"
    and held: "list_all2 filled zs bufs" "distinct zs" "set zs \<inter> H = {}" "dm_held (dm, env s) = H \<union> set zs"
    using p by (auto simp: session_packed_def compress_ready_def calls_ready_def dm_ok_def)
  obtain cap where cap: "?sz \<le> cap" "cap < 2 ^ 63" and alloc: "AllocateResizableBuffer A ?sz rtememzone_pool (env s) =
      (case pool_Allocate (NDEBUG P) (RtememzoneMemoryPool P) cap kDefaultBufferAlignment nullptr (env s) of
         (Inl e, _, w) \<Rightarrow> (Inl e, w)
       | (Inr _, a, w) \<Rightarrow> (Inr \<lparr>buf_data = a, buf_size = nat ?sz, buf_capacity = nat cap\<rparr>, w))"
    using arrow [unfolded arrow_laws_def, THEN conjunct1, unfolded allocates_def, rule_format, of ?sz "env s", OF of_nat_0_le_iff sz(3)] by blast
  have "0 < ?sz" using sz(2) by (simp add: kDecompressedSegSize_def)
  then have pos: "0 < cap" using cap(1) by linarith
  obtain r a w where raw: "pool_Allocate (NDEBUG P) (RtememzoneMemoryPool P) cap kDefaultBufferAlignment nullptr (env s) = (r, a, w)"
    by (metis prod_cases3)
  note M = pool_memzone [OF ready(3) library pos cap(2) raw]
  show ?thesis
  proof (cases r)
    case (Inl e)
    let ?s = "s\<lparr>env := w\<rparr>"
    have e: "\<not> one_more P (live_zones P (hidden (mach (env s))))" "mz_ok P w" "allocated_memzones w = allocated_memzones (env s)"
      and msg: "\<exists>msg. e = Status OutOfMemory msg" using M Inl by auto
    obtain msg where m: "e = Status OutOfMemory msg" using msg by blast
    have now: "device_mem (dev ?s) = Some dm" "dm_ok P c (dm, env ?s)" "dm_held (dm, env ?s) = H \<union> set zs"
      using ready(2,4) e(2) own_zone_cong [OF e(3)] held(4) by (simp_all add: dm_ok_def dm_held_def)
    obtain dm' where R: "CompressDevice_Recycle bufs ?s = (Inr (length bufs), ?s\<lparr>dev := (dev ?s)\<lparr>device_mem := Some dm'\<rparr>\<rparr>)"
      "dm_ok P c (dm', env ?s)" "dm_held (dm', env ?s) = H"
      by (rule device_Recycle_ok [OF now(1,2) held(1-3) now(3)])
    have "lost e (?s\<lparr>dev := (dev ?s)\<lparr>device_mem := Some dm'\<rparr>\<rparr>)"
      using R(2,3) m device(3) settled e(1) by (auto simp: session_lost_def)
    then show ?thesis
      using R(1) alloc raw Inl m sz(1)
      by (simp add: not_ok_recycle_def allocate_output_def GetMemoryPool_def twp_def pwp_def pseq_def throw_def)
  next
    case (Inr u)
    let ?s = "s\<lparr>env := w\<rparr>" and ?out = "\<lparr>buf_data = a, buf_size = nat ?sz, buf_capacity = nat cap\<rparr>"
    obtain z where z: "a = mz_addr z" "allocated_memzones (env s) a = None" "allocated_memzones w = (allocated_memzones (env s))(a \<mapsto> z)"
      "nat cap \<le> mz_len z" "mz_ok P w" "mem_step P (zone_bytes z) (env s) w"
      using M Inr by auto
    have new: "mz_addr y \<noteq> a \<and> allocated_memzones w (mz_addr y) = Some y \<and> zone_bytes y \<inter> zone_bytes z = {}"
      if "allocated_memzones (env s) (mz_addr y) = Some y" for y
    proof -
      have ne: "mz_addr y \<noteq> a" using that z(2) by auto
      then have "allocated_memzones w (mz_addr y) = Some y" using that z(3) by simp
      moreover have "allocated_memzones w a = Some z" using z(3) by simp
      ultimately show ?thesis using ne mz_ok_disjoint [OF z(5)] by blast
    qed
    have dm: "mz_addr y \<noteq> a" "Some y \<noteq> Some z" "zone_bytes y \<inter> zone_bytes z = {}" if "Some y \<in> set (dm_all dm)" for y
      using new [OF dm_tracked [OF ready(2) that]] z(1) by auto
    obtain y where y: "allocated_memzones (env s) (mz_addr y) = Some y" "?in \<subseteq> zone_bytes y"
      using ready(1) by (auto simp: compress_ready_def foreign_def qp_view_def)
    have far: "?in \<inter> zone_bytes z = {}" using new [OF y(1)] y(2) by blast
    have bytes: "x \<notin> zone_bytes z \<Longrightarrow> bytes (mach w) x = bytes (mach (env s)) x" for x
      using z(6) by (simp add: mem_step_def)
    have cr: "compress_ready P c qp_id b input dm ?s"
      by (rule compress_ready_env [OF ready(1) z(5), of a z])
        (use z(1,6) new dm far bytes in \<open>auto simp: mem_step_def\<close>)
    have "stored (mach w) x = stored (mach (env s)) x" if x: "x \<in> set bufs" for x
    proof -
      obtain y where y: "y \<in> set zs" "filled y x" using filled_in [OF held(1) x] by blast
      then have "Some y \<in> set (dm_all dm)" using held(4) by (auto simp: dm_held_def dm_all_def)
      then have "{buf_data x ..< buf_data x + buf_size x} \<inter> zone_bytes z = {}"
        using dm(3) y(2) unfolding filled_def by blast
      from mem_bytes_disjoint [OF bytes this] show ?thesis by (simp add: stored_def)
    qed
    then have "map (stored (mach w)) bufs = map (stored (mach (env s))) bufs" by simp
    then have "map (stored (mach (env ?s))) bufs = compressed_form P c input"
      using p by (simp add: session_packed_def del: list.map map_eq_conv)
    then have "packed dm zs bufs ?s"
      using p cr by (simp add: session_packed_def dm_held_def del: map_eq_conv)
    moreover have "output_held b input ?out dm w"
      unfolding output_held_def using z(1,3,4) pos far dm(2) by (intro exI [of _ z]) auto
    moreover have "length bufs * unat (decompressed_seg_size c) \<le> nat cap"
    proof -
      have "length bufs * unat (decompressed_seg_size c) \<le> length bufs * kDecompressedSegSize" using seg by simp
      then show ?thesis using cap(1) by linarith
    qed
    ultimately show ?thesis
      using alloc raw Inr sz(1)
      by (simp add: not_ok_recycle_def allocate_output_def GetMemoryPool_def twp_def pwp_def)
  qed
qed


lemma release_step:
  assumes out: "output_held b input out dm (env s)" and ok: "dm_ok P c (dm, env s)"
  defines "t \<equiv> s\<lparr>env := release_buffer A out rtememzone_pool (env s)\<rparr>"
  shows "dm_ok P c (dm, env t)"
    and "compress_ready P c qp_id b input dm s \<Longrightarrow> compress_ready P c qp_id b input dm t"
proof -
  let ?in = "{buf_data b ..< buf_data b + length input}" and ?w = "release_buffer A out rtememzone_pool (env s)"
  obtain z where z: "allocated_memzones (env s) (mz_addr z) = Some z" "buf_data out = mz_addr z" "0 < buf_capacity out"
    "buf_capacity out \<le> mz_len z" "Some z \<notin> set (dm_all dm)" "?in \<inter> zone_bytes z = {}"
    using out by (auto simp: output_held_def)
  have mz: "mz_ok P (env s)" using ok by (simp add: dm_ok_def)
  have w: "?w = snd (pool_Free (NDEBUG P) (RtememzoneMemoryPool P) (mz_addr z) (int (buf_capacity out)) kDefaultBufferAlignment (env s))"
    using arrow z(2) by (simp add: arrow_laws_def)
  have "0 < int (buf_capacity out)" "nat (int (buf_capacity out)) \<le> mz_len z" using z(3,4) by simp_all
  note F = pool_memzone_free [where al = kDefaultBufferAlignment, OF mz library z(1) this, folded w]
  have ne: "mz_addr y \<noteq> mz_addr z" if "Some y \<in> set (dm_all dm)" for y
    using dm_tracked [OF ok that] z(1,5) that by (metis option.inject)
  have "own_zone c ?w p" if p: "p \<in> set (dm_all dm)" for p
  proof -
    have "own_zone c (env s) p" using ok p by (simp add: dm_ok_def)
    then show ?thesis using F(2) ne p by (auto simp: own_zone_def tracker_Of_def)
  qed
  then show "dm_ok P c (dm, env t)" using ok F(1) by (simp add: dm_ok_def t_def)
  assume ready: "compress_ready P c qp_id b input dm s"
  then have "?in \<noteq> {}" by (simp add: compress_ready_def)
  show "compress_ready P c qp_id b input dm t"
    unfolding t_def
  proof (rule compress_ready_env [OF ready F(1,3), of "mz_addr z" z])
    fix y assume y: "?in \<subseteq> zone_bytes y" "allocated_memzones (env s) (mz_addr y) = Some y"
    have "y \<noteq> z" using y(1) z(6) \<open>?in \<noteq> {}\<close> by blast
    then show "mz_addr y \<noteq> mz_addr z" using y(2) z(1) by auto
  qed (use ne F(2,4) z(6) in simp_all)
qed

text \<open>The whole test.\<close>

lemma EvaluateSync_ok:
  assumes "idle s" "settled s" and "qp_id = 0"
  shows "twp (EvaluateSync P A b) (\<lambda>_ t. idle t) lost s"
proof -
  have three: "kNumTests = Suc 2" by (simp add: kNumTests_def)
  have whole: "twp (with_output A out (pseq (decompress_tests P qp_id bufs kNumTests out) (\<lambda>out'.
      pseq (checked_Recycle bufs) (\<lambda>_. compare_buffers out' b)))) (\<lambda>_ t. idle t) lost t"
    if p: "packed dm zs bufs t" "output_held b input out dm (env t)"
      "length bufs * unat (decompressed_seg_size c) \<le> buf_capacity out" for dm zs bufs out t
  proof -
    let ?open = "\<lambda>t. \<exists>dm. device_mem (dev t) = Some dm \<and> output_held b input out dm (env t)"
    have "twp (pseq (decompress_tests P qp_id bufs (Suc 2) out) (\<lambda>out'.
        pseq (checked_Recycle bufs) (\<lambda>_. compare_buffers out' b))) (\<lambda>_ t. idle t \<and> ?open t) (\<lambda>e t. lost e t \<and> ?open t) t"
      unfolding twp_simps
    proof (rule twp_mono [OF decompress_tests_ok [OF p]])
      fix out' u assume u: "packed dm zs bufs u \<and> output_held b input out dm (env u) \<and> out' = out\<lparr>buf_size := length input\<rparr> \<and>
        mem_bytes (mach (env u)) (buf_data out) (length input) = input"
      then have "packed dm zs bufs u" by blast
      from recycle_step [OF this]
      show "twp (checked_Recycle bufs) (\<lambda>_. twp (compare_buffers out' b) (\<lambda>_ t. idle t \<and> ?open t) (\<lambda>e t. lost e t \<and> ?open t))
        (\<lambda>e t. lost e t \<and> ?open t) u"
      proof (rule twp_mono)
        fix x v assume v: "idle v \<and> env v = env u \<and> (\<exists>dm'. device_mem (dev v) = Some dm' \<and> set (dm_all dm') = set (dm_all dm))"
        then have "buf_size b = length input" "mem_bytes (mach (env v)) (buf_data b) (length input) = input"
          by (auto simp: session_idle_def compress_ready_def)
        moreover have "?open v" using u v by (auto simp: output_held_def)
        ultimately show "twp (compare_buffers out' b) (\<lambda>_ t. idle t \<and> ?open t) (\<lambda>e t. lost e t \<and> ?open t) v"
          using u v by (simp add: compare_buffers_def twp_def pwp_def total_def return_def)
      qed simp
    qed
    then show ?thesis
      unfolding three [symmetric]
    proof (cases rule: twp_cases)
      case (ok x v)
      then obtain dm where d: "device_mem (dev v) = Some dm" "output_held b input out dm (env v)"
        "compress_ready P c qp_id b input dm v" "dm_held (dm, env v) = H" "S \<longrightarrow> set (dm_all dm) = Z"
        by (auto simp: session_idle_def compress_ready_def calls_ready_def)
      have "dm_ok P c (dm, env v)" using d(3) by (simp add: compress_ready_def calls_ready_def)
      from release_step(2) [OF d(2) this d(3)] have "idle (v\<lparr>env := release_buffer A out rtememzone_pool (env v)\<rparr>)"
        using d(4,5) by (auto simp: session_idle_def dm_held_def)
      then show ?thesis using ok(1) by (simp add: with_output_def twp_def pwp_def)
    next
      case (fail e v)
      then obtain dm where d: "device_mem (dev v) = Some dm" "output_held b input out dm (env v)"
        "dm_ok P c (dm, env v)" "dm_held (dm, env v) = H" by (auto simp: session_lost_def)
      have "lost e (v\<lparr>env := release_buffer A out rtememzone_pool (env v)\<rparr>)"
        using release_step(1) [OF d(2,3)] d(1,4) fail(2) by (auto simp: session_lost_def dm_held_def)
      then show ?thesis using fail(1) by (simp add: with_output_def twp_def pwp_def)
    qed
  qed
  have "twp (compress_tests P qp_id b (Suc 2) 0 []) (\<lambda>bufs t. settled t \<and> (\<exists>dm zs. packed dm zs bufs t)) lost s"
    by (rule compress_tests_ok [OF assms(1,2)]) (simp add: kNumTests_def)
  then show ?thesis
    unfolding three [symmetric] EvaluateSync_def Let_def twp_simps assms(3) [symmetric]
  proof (rule twp_mono, elim exE conjE)
    fix bufs t dm zs assume p: "packed dm zs bufs t" "settled t"
    show "twp (not_ok_recycle bufs (allocate_output A (length bufs))) (\<lambda>out. twp (with_output A out (pseq (decompress_tests P qp_id bufs kNumTests out) (\<lambda>out'.
      pseq (checked_Recycle bufs) (\<lambda>_. compare_buffers out' b)))) (\<lambda>_ t. idle t) lost) lost t"
      by (rule twp_mono [OF allocate_step [OF p]]) (use whole in blast)+
  qed
qed

end

subsection \<open>On the stand-in\<close>

text \<open>Arrow rounds the capacity up to a multiple of 64.\<close>

definition sim_allocate :: "int \<Rightarrow> memory_pool \<Rightarrow> dev_sim world \<Rightarrow> buffer result \<times> dev_sim world" where
  "sim_allocate sz pool w =
     (let cap = (sz + 63) div 64 * 64 in
      case pool_Allocate (NDEBUG sim_dpdk) (RtememzoneMemoryPool sim_dpdk) cap kDefaultBufferAlignment nullptr w of
        (Inl e, _, w) \<Rightarrow> (Inl e, w)
      | (Inr _, a, w) \<Rightarrow> (Inr \<lparr>buf_data = a, buf_size = nat sz, buf_capacity = nat cap\<rparr>, w))"

definition sim_arrow :: "dev_sim arrow" where
  "sim_arrow =
     \<lparr>AllocateBuffer = sim_allocate, AllocateResizableBuffer = sim_allocate,
      release_buffer = (\<lambda>b pool w. snd (pool_Free (NDEBUG sim_dpdk) (RtememzoneMemoryPool sim_dpdk) (buf_data b)
        (int (buf_capacity b)) kDefaultBufferAlignment w))\<rparr>"

lemma sim_arrow_laws: "arrow_laws sim_dpdk sim_arrow"
proof -
  have bounds: "sz \<le> (sz + 63) div 64 * 64 \<and> (sz + 63) div 64 * 64 < 2 ^ 63" if sz: "sz \<le> 2 ^ 62" for sz :: int
  proof -
    have "(sz + 63) div 64 * 64 = sz + 63 - (sz + 63) mod 64" by (rule minus_mod_eq_div_mult [symmetric])
    moreover have "0 \<le> (sz + 63) mod 64" "(sz + 63) mod 64 < 64" by simp_all
    moreover have "(2 :: int) ^ 62 + 63 < 2 ^ 63" by simp
    ultimately show ?thesis using sz by linarith
  qed
  then have "allocates sim_dpdk sim_allocate" unfolding allocates_def sim_allocate_def Let_def by blast
  then show ?thesis by (simp add: arrow_laws_def sim_arrow_def)
qed

lemma sim_one_more: "one_more sim_dpdk L"
  by (simp add: one_more_def sim_dpdk_def sim_reserve_def Let_def)

interpretation sim_session: sync_session sim_dpdk sim_arrow sim_configured "\<lambda>_. 0" 0 "sim_area 3" "[1, 2, 3]" "{}" L "{Some sim_zone}" True
  for L
  by unfold_locales (simp_all add: sim_compress_laws sim_one_segment sim_prompt sim_arrow_laws kDecompressedSegSize_def
      sim_faultless sim_compress_fits sim_one_more sim_zone_def ceil_div_def)

subsection \<open>The property\<close>



end
