(* ===== verification/Bitar_Async.thy ===== *)
theory Bitar_Async
  imports Bitar_App
begin

text \<open>
  The asynchronous side: \<open>CompressAsync\<close> and \<open>DecompressAsync\<close> of \<open>util.h\<close>, which run a call on
  the lcore of its queue pair, and the asynchronous test of \<open>apps/demo_app.cc\<close>, which compresses
  and decompresses the segments of an input on all lcores at once.
\<close>

subsection \<open>The state the lcores share\<close>

text \<open>
  The devices and the process, and the variables of the test the calls on the lcores refer to:
  the vectors of shared pointers to the inputs, of the compressed buffers per device and queue
  pair, and of pointers to the outputs.
\<close>

record 'w app =
  devices :: "compress_device list"
  app_world :: "'w world"
  input_vector :: "buffer option list"
  compressed_vectors :: "u8 \<rightharpoonup> buffer list list"
  output_vector :: "buffer option list"

text \<open>A call of a member function of one of the devices.\<close>

definition on_device :: "nat \<Rightarrow> ('w dev_state, 'a) pcode \<Rightarrow> ('w app, 'a) pcode" where
  "on_device i m = (\<lambda>s.
     if i < length (devices s) then
       (case m \<lparr>dev = devices s ! i, env = app_world s\<rparr> of
          None \<Rightarrow> None
        | Some (r, t) \<Rightarrow> Some (r, s\<lparr>devices := (devices s)[i := dev t], app_world := env t\<rparr>))
     else Some (Inl (Fault OutOfBounds), s))"

text \<open>An error status that is a value, not an early return.\<close>

definition attempt :: "('s, 'a) pcode \<Rightarrow> ('s, 'a result) pcode" where
  "attempt m = (\<lambda>s.
     case m s of
       None \<Rightarrow> None
     | Some (Inl (Fault f), t) \<Rightarrow> Some (Inl (Fault f), t)
     | Some (Inl (Status code msg), t) \<Rightarrow> Some (Inr (Inl (Status code msg)), t)
     | Some (Inr x, t) \<Rightarrow> Some (Inr (Inr x), t))"

subsection \<open>Calls on lcores\<close>

definition kAsyncReturnOK :: int where "kAsyncReturnOK = 2"
definition EXIT_FAILURE :: int where "EXIT_FAILURE = 1"

text \<open>
  \<open>rte_eal_remote_launch\<close> and \<open>rte_eal_wait_lcore\<close> of DPDK's EAL are parameters, with two
  observers the code does not read: what an lcore is running, and what it returned last. While
  the main lcore is in one of the two, lcores may finish what they are running.
\<close>

record ('l, 's) launcher =
  rte_eal_remote_launch :: "('s, int) pcode \<Rightarrow> u32 \<Rightarrow> 'l \<times> 's \<Rightarrow> int \<times> 'l \<times> 's"
  rte_eal_wait_lcore :: "u32 \<Rightarrow> 'l \<times> 's \<Rightarrow> (int result \<times> 'l \<times> 's) option"
  running :: "'l \<Rightarrow> u32 \<Rightarrow> ('s, int) pcode option"
  returned :: "'l \<Rightarrow> u32 \<Rightarrow> int"

text \<open>
  \<open>CompressParam\<close> and \<open>DecompressParam\<close>. The members are references: what they refer to is read
  when the function runs.
\<close>

record 'w compress_param =
  cp_device :: nat
  cp_queue_pair_id :: u16
  cp_decompressed_buffer :: "'w app \<Rightarrow> buffer option"
  cp_result_callback :: "u8 \<Rightarrow> u16 \<Rightarrow> buffer list result \<Rightarrow> ('w app, int) code"

record 'w decompress_param =
  dp_device :: nat
  dp_queue_pair_id :: u16
  dp_compressed_buffers :: "'w app \<Rightarrow> buffer list"
  dp_decompressed_buffer :: nat
  dp_result_callback :: "u8 \<Rightarrow> u16 \<Rightarrow> unit result \<Rightarrow> ('w app, int) code"

definition LcoreCompressFunc ::
  "('w, 'p) dpdk_scheme \<Rightarrow> 'w compress_param \<Rightarrow> ('w app, int) pcode" where
  "LcoreCompressFunc P param = (\<lambda>s.
     pseq (attempt (on_device (cp_device param)
             (Compress P (cp_queue_pair_id param) (cp_decompressed_buffer param s)))) (\<lambda>result.
     pseq (total (get (\<lambda>s. device_id (devices s ! cp_device param)))) (\<lambda>dev_id.
     total (cp_result_callback param dev_id (cp_queue_pair_id param) result))) s)"

text \<open>\<open>Decompress\<close> into an element of the vector of outputs, whose size it sets.\<close>

definition decompress_to_output ::
  "('w, 'p) dpdk_scheme \<Rightarrow> nat \<Rightarrow> u16 \<Rightarrow> buffer list \<Rightarrow> nat \<Rightarrow> ('w app, unit) pcode" where
  "decompress_to_output P i qp_id bufs j =
     pseq (total (seq (get output_vector) (\<lambda>v. array_at v j))) (\<lambda>out.
     pseq (on_device i (Decompress P qp_id bufs out)) (\<lambda>sz.
     total (modify (\<lambda>s. s\<lparr>output_vector := (output_vector s)[j := map_option (\<lambda>b. resized b sz) out]\<rparr>))))"

definition LcoreDecompressFunc ::
  "('w, 'p) dpdk_scheme \<Rightarrow> 'w decompress_param \<Rightarrow> ('w app, int) pcode" where
  "LcoreDecompressFunc P param = (\<lambda>s.
     pseq (attempt (decompress_to_output P (dp_device param) (dp_queue_pair_id param)
             (dp_compressed_buffers param s) (dp_decompressed_buffer param))) (\<lambda>status.
     pseq (total (get (\<lambda>s. device_id (devices s ! dp_device param)))) (\<lambda>dev_id.
     total (dp_result_callback param dev_id (dp_queue_pair_id param) status))) s)"

text \<open>Code of the main lcore alone, and a launch on the lcore of a queue pair.\<close>

definition on_main :: "('s, 'a) pcode \<Rightarrow> ('l \<times> 's, 'a) pcode" where
  "on_main m = (\<lambda>(l, s). map_option (\<lambda>(r, t). (r, l, t)) (m s))"

definition launch_on ::
  "('l, 'w app) launcher \<Rightarrow> ('w app, int) pcode \<Rightarrow> nat \<Rightarrow> u16 \<Rightarrow> ('l \<times> 'w app, int) pcode" where
  "launch_on E f i qp_id =
     pseq (on_main (total (seq (get devices) (\<lambda>ds. seq (array_at ds i) (\<lambda>d s. (LcoreOf d qp_id, s)))))) (\<lambda>lcore.
     total (\<lambda>ls. case rte_eal_remote_launch E f lcore ls of (r, ls) \<Rightarrow> (Inr r, ls)))"

definition CompressAsync ::
  "('w, 'p) dpdk_scheme \<Rightarrow> ('l, 'w app) launcher \<Rightarrow> 'w compress_param \<Rightarrow> ('l \<times> 'w app, int) pcode" where
  "CompressAsync P E param =
     launch_on E (LcoreCompressFunc P param) (cp_device param) (cp_queue_pair_id param)"

definition DecompressAsync ::
  "('w, 'p) dpdk_scheme \<Rightarrow> ('l, 'w app) launcher \<Rightarrow> 'w decompress_param \<Rightarrow> ('l \<times> 'w app, int) pcode" where
  "DecompressAsync P E param =
     launch_on E (LcoreDecompressFunc P param) (dp_device param) (dp_queue_pair_id param)"

subsection \<open>The loops over the queue pairs\<close>

definition Advance :: "u8 \<Rightarrow> u16 \<Rightarrow> u16 \<Rightarrow> u8 \<times> u16" where
  "Advance dev_id qp_id n =
     (let qp_id = qp_id + 1 in if qp_id = n then (dev_id + 1, 0) else (dev_id, qp_id))"

text \<open>
  The loops \<open>for (idx = 0; idx < num_parallel_tests(); ++idx)\<close> with \<open>const auto& device =
  devices[device_id]\<close> in front of their body and \<open>Advance\<close> behind it. The body says whether to
  go on.
\<close>

fun for_queue_pairs ::
  "compress_device list \<Rightarrow> (nat \<Rightarrow> u8 \<Rightarrow> u16 \<Rightarrow> 'a \<Rightarrow> ('s, bool \<times> 'a) pcode) \<Rightarrow>
   nat \<Rightarrow> nat \<Rightarrow> u8 \<Rightarrow> u16 \<Rightarrow> 'a \<Rightarrow> ('s, 'a) pcode" where
  "for_queue_pairs ds body 0 idx dev_id qp_id x = total (return x)"
| "for_queue_pairs ds body (Suc left) idx dev_id qp_id x =
     pseq (total (array_at ds (unat dev_id))) (\<lambda>d.
     pseq (body idx dev_id qp_id x) (\<lambda>(go, x).
     if go then
       (case Advance dev_id qp_id (num_qps d) of (dev_id, qp_id) \<Rightarrow>
          for_queue_pairs ds body left (Suc idx) dev_id qp_id x)
     else total (return x)))"

definition WaitForAsyncCompletion ::
  "('l, 'w app) launcher \<Rightarrow> nat \<Rightarrow> ('l \<times> 'w app, bool) pcode" where
  "WaitForAsyncCompletion E n =
     pseq (total (get (\<lambda>(l, s). devices s))) (\<lambda>ds.
     for_queue_pairs ds (\<lambda>idx dev_id qp_id async_success.
       pseq (total (\<lambda>ls. (LcoreOf (ds ! unat dev_id) qp_id, ls))) (\<lambda>lcore.
       pseq (rte_eal_wait_lcore E lcore) (\<lambda>ret.
       total (return (True, async_success \<and> ret = kAsyncReturnOK)))))
     n 0 0 0 True)"

text \<open>
  \<open>Recycle\<close> of all compressed buffers. The order in which a loop visits an \<open>unordered_map\<close> is
  the library's choice, \<open>V\<close>; the keys are taken for positions in the list of devices.
\<close>

fun for_each :: "('a \<Rightarrow> ('s, unit) pcode) \<Rightarrow> 'a list \<Rightarrow> ('s, unit) pcode" where
  "for_each body [] = total (return ())"
| "for_each body (x # xs) = pseq (body x) (\<lambda>_. for_each body xs)"

definition Recycle_vectors :: "(u8 set \<Rightarrow> u8 list) \<Rightarrow> ('w app, unit) pcode" where
  "Recycle_vectors V = (\<lambda>s. let m = compressed_vectors s in
     for_each (\<lambda>dev_id. for_each (\<lambda>bufs. on_device (unat dev_id) (checked_Recycle bufs)) (the (m dev_id)))
       (V (dom m)) s)"

subsection \<open>One round\<close>

text \<open>The callbacks; \<open>std::unordered_map::at\<close> throws when there is no such key.\<close>

definition compress_result_callback :: "u8 \<Rightarrow> u16 \<Rightarrow> buffer list result \<Rightarrow> ('w app, int) code" where
  "compress_result_callback dev_id qp_id result =
     (case result of
        Inl _ \<Rightarrow> return EXIT_FAILURE
      | Inr bufs \<Rightarrow> (\<lambda>s.
          case compressed_vectors s dev_id of
            None \<Rightarrow> throw (Fault (UncaughtException ''std::out_of_range'')) s
          | Some v \<Rightarrow>
              if unat qp_id < length v
              then (Inr kAsyncReturnOK,
                    s\<lparr>compressed_vectors := (compressed_vectors s)(dev_id \<mapsto> v[unat qp_id := bufs])\<rparr>)
              else throw (Fault OutOfBounds) s))"

definition decompress_result_callback :: "u8 \<Rightarrow> u16 \<Rightarrow> unit result \<Rightarrow> ('w app, int) code" where
  "decompress_result_callback dev_id qp_id status =
     (case status of Inl _ \<Rightarrow> return EXIT_FAILURE | Inr _ \<Rightarrow> return kAsyncReturnOK)"

definition BenchmarkCompressAsync ::
  "(u8 set \<Rightarrow> u8 list) \<Rightarrow> ('w, 'p) dpdk_scheme \<Rightarrow> ('l, 'w app) launcher \<Rightarrow> nat \<Rightarrow> ('l \<times> 'w app, unit) pcode" where
  "BenchmarkCompressAsync V P E n =
     pseq (total (get (\<lambda>(l, s). devices s))) (\<lambda>ds.
     pseq (for_queue_pairs ds (\<lambda>idx dev_id qp_id x.
             pseq (CompressAsync P E
                 \<lparr>cp_device = unat dev_id, cp_queue_pair_id = qp_id,
                  cp_decompressed_buffer = (\<lambda>s. input_vector s ! idx),
                  cp_result_callback = compress_result_callback\<rparr>) (\<lambda>ret.
             total (return (ret = 0, x)))) n 0 0 0 ()) (\<lambda>_.
     pseq (WaitForAsyncCompletion E n) (\<lambda>async_success.
     if async_success then total (return ())
     else pseq (on_main (Recycle_vectors V)) (\<lambda>_.
          total (throw (Status IOError ''Failed to complete async compression''))))))"

text \<open>The reference to an element of the compressed buffers is made at the launch.\<close>

definition compressed_at :: "u8 \<Rightarrow> u16 \<Rightarrow> 'w app \<Rightarrow> buffer list" where
  "compressed_at dev_id qp_id s = the (compressed_vectors s dev_id) ! unat qp_id"

definition compressed_reference :: "u8 \<Rightarrow> u16 \<Rightarrow> ('w app, unit) code" where
  "compressed_reference dev_id qp_id = (\<lambda>s.
     case compressed_vectors s dev_id of
       None \<Rightarrow> throw (Fault (UncaughtException ''std::out_of_range'')) s
     | Some v \<Rightarrow> guard (unat qp_id < length v) OutOfBounds s)"

definition BenchmarkDecompressAsync ::
  "('w, 'p) dpdk_scheme \<Rightarrow> ('l, 'w app) launcher \<Rightarrow> nat \<Rightarrow> ('l \<times> 'w app, unit) pcode" where
  "BenchmarkDecompressAsync P E n =
     pseq (total (get (\<lambda>(l, s). devices s))) (\<lambda>ds.
     pseq (for_queue_pairs ds (\<lambda>idx dev_id qp_id x.
             pseq (on_main (total (compressed_reference dev_id qp_id))) (\<lambda>_.
             pseq (DecompressAsync P E
                 \<lparr>dp_device = unat dev_id, dp_queue_pair_id = qp_id,
                  dp_compressed_buffers = compressed_at dev_id qp_id, dp_decompressed_buffer = idx,
                  dp_result_callback = decompress_result_callback\<rparr>) (\<lambda>ret.
             total (return (ret = 0, x))))) n 0 0 0 ()) (\<lambda>_.
     pseq (WaitForAsyncCompletion E n) (\<lambda>async_success.
     if async_success then total (return ())
     else total (throw (Status IOError ''Failed to complete async decompression'')))))"

subsection \<open>The asynchronous test\<close>

text \<open>The input is split into \<open>n\<close> segments as evenly as possible, each in a buffer of its own.\<close>

fun segment_inputs ::
  "('w, 'p) dpdk_scheme \<Rightarrow> 'w arrow \<Rightarrow> addr \<Rightarrow> nat \<Rightarrow> nat \<Rightarrow> nat \<Rightarrow> nat \<Rightarrow> nat \<Rightarrow> ('w app, unit) pcode" where
  "segment_inputs P A input_data min_segment_size extra_bytes 0 idx input_offset = total (return ())"
| "segment_inputs P A input_data min_segment_size extra_bytes (Suc left) idx input_offset =
     (let segment_size = min_segment_size + (if idx < extra_bytes then 1 else 0) in
      pseq (total (\<lambda>s. case GetMemoryPool False False Rtememzone of
          Inl e \<Rightarrow> (Inl e, s)
        | Inr pool \<Rightarrow>
            (case AllocateBuffer A (int segment_size) pool (app_world s) of
               (Inl e, w) \<Rightarrow> (Inl e, s\<lparr>app_world := w\<rparr>)
             | (Inr b, w) \<Rightarrow>
                 (OK, s\<lparr>app_world := w\<lparr>mach := rte_memcpy P (buf_data b) (input_data + input_offset) segment_size (mach w)\<rparr>,
                        input_vector := (input_vector s)[idx := Some b]\<rparr>)))) (\<lambda>_.
      segment_inputs P A input_data min_segment_size extra_bytes left (Suc idx) (input_offset + segment_size)))"

text \<open>The buffers of a vector are released in their order.\<close>

definition release_all :: "'w arrow \<Rightarrow> buffer option list \<Rightarrow> 'w world \<Rightarrow> 'w world" where
  "release_all A bufs w =
     fold (\<lambda>b w. case b of None \<Rightarrow> w | Some b \<Rightarrow> release_buffer A b rtememzone_pool w) bufs w"

definition clear_inputs :: "'w arrow \<Rightarrow> 'w app \<Rightarrow> 'w app" where
  "clear_inputs A s = s\<lparr>app_world := release_all A (input_vector s) (app_world s), input_vector := []\<rparr>"

definition clear_outputs :: "'w arrow \<Rightarrow> 'w app \<Rightarrow> 'w app" where
  "clear_outputs A s = s\<lparr>app_world := release_all A (output_vector s) (app_world s), output_vector := []\<rparr>"

text \<open>An element for every queue pair in use; \<open>operator[]\<close> makes a missing entry.\<close>

definition emplace_back :: "u8 \<Rightarrow> 'w app \<Rightarrow> 'w app" where
  "emplace_back dev_id s = s\<lparr>compressed_vectors := (compressed_vectors s)(dev_id \<mapsto>
     (case compressed_vectors s dev_id of None \<Rightarrow> [] | Some v \<Rightarrow> v) @ [[]])\<rparr>"

text \<open>The macros that recycle on an error status.\<close>

definition else_Recycle :: "(u8 set \<Rightarrow> u8 list) \<Rightarrow> ('l \<times> 'w app, 'a) pcode \<Rightarrow> ('l \<times> 'w app, 'a) pcode" where
  "else_Recycle V m = (\<lambda>s.
     case m s of
       Some (Inl (Status code msg), t) \<Rightarrow>
         pseq (on_main (Recycle_vectors V)) (\<lambda>_. total (throw (Status code msg))) t
     | r \<Rightarrow> r)"

definition allocate_outputs ::
  "(u8 set \<Rightarrow> u8 list) \<Rightarrow> 'w arrow \<Rightarrow> nat \<Rightarrow> ('l \<times> 'w app, unit) pcode" where
  "allocate_outputs V A n =
     pseq (total (get (\<lambda>(l, s). devices s))) (\<lambda>ds.
     for_queue_pairs ds (\<lambda>idx dev_id qp_id x.
       pseq (else_Recycle V (on_main (total (seq (compressed_reference dev_id qp_id) (\<lambda>_ s.
           case GetMemoryPool False False Rtememzone of
             Inl e \<Rightarrow> (Inl e, s)
           | Inr pool \<Rightarrow>
               (case AllocateResizableBuffer A (output_size (length (compressed_at dev_id qp_id s))) pool (app_world s) of
                  (Inl e, w) \<Rightarrow> (Inl e, s\<lparr>app_world := w\<rparr>)
                | (Inr b, w) \<Rightarrow>
                    (OK, s\<lparr>app_world := w, output_vector := (output_vector s)[idx := Some b]\<rparr>))))))) (\<lambda>_.
       total (return (True, x)))) n 0 0 0 ())"

fun compress_rounds ::
  "(u8 set \<Rightarrow> u8 list) \<Rightarrow> ('w, 'p) dpdk_scheme \<Rightarrow> ('l, 'w app) launcher \<Rightarrow> nat \<Rightarrow> nat \<Rightarrow> nat \<Rightarrow>
   ('l \<times> 'w app, unit) pcode" where
  "compress_rounds V P E n 0 idx = total (return ())"
| "compress_rounds V P E n (Suc left) idx =
     pseq (BenchmarkCompressAsync V P E n) (\<lambda>_.
     pseq (if idx < kNumTests - 1 then on_main (Recycle_vectors V) else total (return ())) (\<lambda>_.
     compress_rounds V P E n left (Suc idx)))"

fun decompress_rounds ::
  "(u8 set \<Rightarrow> u8 list) \<Rightarrow> ('w, 'p) dpdk_scheme \<Rightarrow> ('l, 'w app) launcher \<Rightarrow> nat \<Rightarrow> nat \<Rightarrow>
   ('l \<times> 'w app, unit) pcode" where
  "decompress_rounds V P E n 0 = total (return ())"
| "decompress_rounds V P E n (Suc left) =
     pseq (else_Recycle V (BenchmarkDecompressAsync P E n)) (\<lambda>_. decompress_rounds V P E n left)"

text \<open>The comparison of the outputs with the input; the outputs are not null here.\<close>

fun compare_segments :: "addr \<Rightarrow> nat \<Rightarrow> buffer option list \<Rightarrow> ('w app, unit) code" where
  "compare_segments input_data input_offset [] = return ()"
| "compare_segments input_data input_offset (out # outs) =
     seq (deref out) (\<lambda>b.
     seq (get (\<lambda>s. mem_bytes (mach (app_world s)) (buf_data b) (buf_size b) =
                   mem_bytes (mach (app_world s)) (input_data + input_offset) (buf_size b))) (\<lambda>same.
     if same then compare_segments input_data (input_offset + buf_size b) outs
     else throw (Status Invalid ''Decompressed segment '')))"

definition compare_outputs :: "buffer \<Rightarrow> ('w app, unit) code" where
  "compare_outputs input_buffer =
     seq (get output_vector) (\<lambda>outs.
     if None \<in> set outs then throw (Fault NullDereference)
     else if sum_list (map (buf_size \<circ> the) outs) \<noteq> buf_size input_buffer
     then throw (Status Invalid ''Decompressed buffer length is not equal to the input buffer length'')
     else compare_segments (buf_data input_buffer) 0 outs)"

text \<open>
  \<open>EvaluateAsync\<close>; \<open>n\<close> is \<open>num_parallel_tests()\<close>. However it returns, the vectors that are left
  are destroyed.
\<close>

definition total_num_qps :: "compress_device list \<Rightarrow> u32" where
  "total_num_qps ds = sum_list (map (\<lambda>d. ucast (num_qps d)) ds)"

definition at_return :: "('s \<Rightarrow> 's) \<Rightarrow> ('l \<times> 's, 'a) pcode \<Rightarrow> ('l \<times> 's, 'a) pcode" where
  "at_return f m = (\<lambda>s. map_option (\<lambda>(r, l, t). (r, l, f t)) (m s))"

definition EvaluateAsync ::
  "(u8 set \<Rightarrow> u8 list) \<Rightarrow> ('w, 'p) dpdk_scheme \<Rightarrow> 'w arrow \<Rightarrow> ('l, 'w app) launcher \<Rightarrow> u32 \<Rightarrow> buffer \<Rightarrow>
   ('l \<times> 'w app, unit) pcode" where
  "EvaluateAsync V P A E num input_buffer =
     (let n = unat num in
      pseq (total (get (\<lambda>(l, s). devices s))) (\<lambda>ds.
      if total_num_qps ds < num then total (throw (Status Cancelled ''Total # of allocated queue pairs (''))
      else
      pseq (total (guard (num \<noteq> 0) DivisionByZero)) (\<lambda>_.
      pseq (on_main (total (modify (\<lambda>s. s\<lparr>input_vector := replicate n None, compressed_vectors := Map.empty, output_vector := []\<rparr>)))) (\<lambda>_.
      at_return (clear_inputs A \<circ> clear_outputs A)
       (pseq (on_main (segment_inputs P A (buf_data input_buffer)
                (buf_size input_buffer div n) (buf_size input_buffer mod n) n 0 0)) (\<lambda>_.
        pseq (for_queue_pairs ds (\<lambda>idx dev_id qp_id x.
                pseq (on_main (total (modify (emplace_back dev_id)))) (\<lambda>_. total (return (True, x)))) n 0 0 0 ()) (\<lambda>_.
        pseq (compress_rounds V P E n kNumTests 0) (\<lambda>_.
        pseq (on_main (total (modify (\<lambda>s. (clear_inputs A s)\<lparr>output_vector := replicate n None\<rparr>)))) (\<lambda>_.
        pseq (allocate_outputs V A n) (\<lambda>_.
        pseq (decompress_rounds V P E n kNumTests) (\<lambda>_.
        pseq (on_main (Recycle_vectors V)) (\<lambda>_.
        on_main (total (compare_outputs input_buffer))))))))))))))"

subsection \<open>Both tests\<close>

text \<open>
  \<open>Evaluate\<close>: the devices, the synchronous test on the first of them, the asynchronous test on
  all. The devices are destroyed at the end, which is left to the destructor.
\<close>

definition Evaluate ::
  "(u8 set \<Rightarrow> u8 list) \<Rightarrow> ('w, 'p) dpdk_scheme \<Rightarrow> 'w arrow \<Rightarrow> ('l, 'w app) launcher \<Rightarrow> driver_env \<Rightarrow> buffer \<Rightarrow>
   'l \<times> 'w world \<Rightarrow> (unit result \<times> 'l \<times> 'w app) option" where
  "Evaluate V P A E sys input_buffer = (\<lambda>(l, w).
     let num = num_parallel_tests (drv_lcores sys);
         app = (\<lambda>ds w. \<lparr>devices = ds, app_world = w, input_vector = [], compressed_vectors = Map.empty, output_vector = []\<rparr>)
     in case GetBlueFieldCompressDevices P sys (word_of_nat (buf_size input_buffer)) w of
          None \<Rightarrow> None
        | Some (Inl e, ds, w) \<Rightarrow> Some (Inl e, l, app ds w)
        | Some (Inr _, ds, w) \<Rightarrow>
            (if unat num < length ds
             then Some (Inl (Status Invalid ''Require the # of lcores >= # of devices (''), l, app ds w)
             else pseq (on_main (on_device 0 (EvaluateSync P A input_buffer))) (\<lambda>_.
                  EvaluateAsync V P A E num input_buffer) (l, app ds w)))"

end
