(* ===== verification/Bitar_Elsewhere.thy ===== *)
theory Bitar_Elsewhere
  imports Bitar_Async
begin

text \<open>
  A call on one queue pair and the others: \<open>Compress\<close> and \<open>Decompress\<close>, however they end, leave
  what the other queue pairs hold, the transforms and the tracked memzones alone. The proof
  follows the code, operation by operation.
\<close>

subsection \<open>Relations that code keeps\<close>

definition keeps_to :: "('s \<Rightarrow> 's \<Rightarrow> bool) \<Rightarrow> ('s, 'a) code \<Rightarrow> bool" where
  "keeps_to R m \<longleftrightarrow> (\<forall>s. R s (snd (m s)))"

definition pkeeps_to :: "('s \<Rightarrow> 's \<Rightarrow> bool) \<Rightarrow> ('s, 'a) pcode \<Rightarrow> bool" where
  "pkeeps_to R m \<longleftrightarrow> (\<forall>s r t. m s = Some (r, t) \<longrightarrow> R s t)"

named_theorems keeping \<open>code that keeps a relation\<close>

locale kept_relation =
  fixes R :: "'s \<Rightarrow> 's \<Rightarrow> bool"
  assumes kept_refl [simp]: "R s s" and kept_trans: "R s t \<Longrightarrow> R t u \<Longrightarrow> R s u"
begin

lemma keeps_pure [keeping]:
  "keeps_to R (return x)" "keeps_to R (throw e)" "keeps_to R (get f)" "keeps_to R (guard b ft)"
  "keeps_to R (deref p)" "keeps_to R (array_at xs i)"
  by (simp_all add: keeps_to_def guard_def deref_def array_at_def return_def throw_def split: option.split)

lemma keeps_seq [keeping]: "keeps_to R m \<Longrightarrow> (\<And>x. keeps_to R (f x)) \<Longrightarrow> keeps_to R (seq m f)"
  unfolding keeps_to_def seq_def by (auto split: prod.split sum.split) (metis kept_trans snd_conv)+

lemma keeps_modify: "(\<And>s. R s (f s)) \<Longrightarrow> keeps_to R (modify f)"
  by (simp add: keeps_to_def)

lemma keeps_if [keeping]: "keeps_to R m \<Longrightarrow> keeps_to R m' \<Longrightarrow> keeps_to R (if b then m else m')"
  by simp

lemma keeps_option [keeping]:
  "keeps_to R m \<Longrightarrow> (\<And>x. keeps_to R (f x)) \<Longrightarrow> keeps_to R (case y of None \<Rightarrow> m | Some x \<Rightarrow> f x)"
  by (cases y) simp_all

lemma keeps_list [keeping]:
  "keeps_to R m \<Longrightarrow> (\<And>y ys. keeps_to R (f y ys)) \<Longrightarrow> keeps_to R (case xs of [] \<Rightarrow> m | y # ys \<Rightarrow> f y ys)"
  by (cases xs) simp_all

lemma pkeeps_iff: "pkeeps_to R m \<longleftrightarrow> (\<forall>s. pwp m (\<lambda>_. R s) (\<lambda>_. R s) s)"
  unfolding pkeeps_to_def pwp_def by (auto split: option.splits prod.splits sum.splits)

lemma pkeeps_state: "(\<And>s. pkeeps_to R (m s)) \<Longrightarrow> pkeeps_to R (\<lambda>s. m s s)"
  by (simp add: pkeeps_to_def)

lemma pkeeps_total [keeping]: "keeps_to R m \<Longrightarrow> pkeeps_to R (total m)"
  by (metis keeps_to_def option.inject pkeeps_to_def snd_conv total_simps)

lemma pkeeps_pseq [keeping]: "pkeeps_to R m \<Longrightarrow> (\<And>x. pkeeps_to R (f x)) \<Longrightarrow> pkeeps_to R (pseq m f)"
  unfolding pkeeps_to_def pseq_def by (auto split: option.splits prod.splits sum.splits) (meson kept_trans)

lemma pkeeps_option [keeping]:
  "pkeeps_to R m \<Longrightarrow> (\<And>x. pkeeps_to R (f x)) \<Longrightarrow> pkeeps_to R (case y of None \<Rightarrow> m | Some x \<Rightarrow> f x)"
  by (cases y) simp_all

lemma pkeeps_if [keeping]: "pkeeps_to R m \<Longrightarrow> pkeeps_to R m' \<Longrightarrow> pkeeps_to R (if b then m else m')"
  by simp

end

subsection \<open>What the library's functions leave alone\<close>

definition same_transfers :: "('w, 'p) dpdk_scheme \<Rightarrow> 'w machine \<Rightarrow> 'w machine \<Rightarrow> bool" where
  "same_transfers P m m' \<longleftrightarrow> inflight P (hidden m') = inflight P (hidden m) \<and> xforms P (hidden m') = xforms P (hidden m)"

text \<open>
  Whatever they are given, the functions on mbufs touch neither the queue pairs nor the
  transforms, and enqueueing touches one queue pair only.
\<close>

definition queue_frame_laws :: "('w, 'p) dpdk_scheme \<Rightarrow> bool" where
  "queue_frame_laws P \<longleftrightarrow>
     (\<forall>h t m. same_transfers P m (snd (rte_pktmbuf_chain P h t m))) \<and>
     (\<forall>b n m. same_transfers P m (snd (rte_pktmbuf_append P b n m))) \<and>
     (\<forall>p m. same_transfers P m (rte_pktmbuf_free P p m)) \<and>
     (\<forall>dev_id qp_id os m. let m' = snd (rte_compressdev_enqueue_burst P dev_id qp_id os m) in
        xforms P (hidden m') = xforms P (hidden m) \<and>
        (\<exists>js. inflight P (hidden m') = set_inflight js dev_id qp_id (inflight P (hidden m))))"

definition elsewhere :: "('w, 'p) dpdk_scheme \<Rightarrow> u8 \<Rightarrow> u16 \<Rightarrow> 'w world \<Rightarrow> 'w world \<Rightarrow> bool" where
  "elsewhere P dev_id qp_id w w' \<longleftrightarrow>
     xforms P (hidden (mach w')) = xforms P (hidden (mach w)) \<and>
     (\<forall>d q. (d, q) \<noteq> (dev_id, qp_id) \<longrightarrow> inflight P (hidden (mach w')) d q = inflight P (hidden (mach w)) d q) \<and>
     allocated_memzones w \<subseteq>\<^sub>m allocated_memzones w'"

lemma elsewhere_refl: "elsewhere P dev_id qp_id w w"
  by (simp add: elsewhere_def)

lemma elsewhere_trans:
  "elsewhere P dev_id qp_id w w' \<Longrightarrow> elsewhere P dev_id qp_id w' w'' \<Longrightarrow> elsewhere P dev_id qp_id w w''"
  by (auto simp: elsewhere_def intro: map_le_trans)

abbreviation elsewhere_of :: "('w, 'p) dpdk_scheme \<Rightarrow> u8 \<Rightarrow> u16 \<Rightarrow> 'w qp_state \<Rightarrow> 'w qp_state \<Rightarrow> bool" where
  "elsewhere_of P dev_id qp_id s t \<equiv> elsewhere P dev_id qp_id (wld s) (wld t)"

interpretation elsewhere: kept_relation "elsewhere_of P dev_id qp_id" for P dev_id qp_id
  by unfold_locales (auto intro: elsewhere_refl elsewhere_trans)

lemma elsewhere_mach:
  "elsewhere P dev_id qp_id w (w\<lparr>mach := m\<rparr>) \<longleftrightarrow>
     xforms P (hidden m) = xforms P (hidden (mach w)) \<and>
     (\<forall>d q. (d, q) \<noteq> (dev_id, qp_id) \<longrightarrow> inflight P (hidden m) d q = inflight P (hidden (mach w)) d q)"
  by (simp add: elsewhere_def)

lemma same_transfers_elsewhere: "same_transfers P (mach w) m \<Longrightarrow> elsewhere P dev_id qp_id w (w\<lparr>mach := m\<rparr>)"
  by (simp add: elsewhere_mach same_transfers_def)

lemma same_transfers_trans: "same_transfers P m m' \<Longrightarrow> same_transfers P m' m'' \<Longrightarrow> same_transfers P m m''"
  by (simp add: same_transfers_def)

lemma same_transfers_keep [simp]:
  "same_transfers P m (m\<lparr>ops := f\<rparr>)" "same_transfers P m (m\<lparr>mbufs := g\<rparr>)" "same_transfers P m m"
  by (simp_all add: same_transfers_def)

lemma Recycle_world: "snd (snd (Recycle bufs x)) = snd x"
proof -
  have "snd (snd (put_all dm_put as x)) = snd x" for as and x :: "device_memory \<times> 'w world"
  proof (induction as arbitrary: x)
    case (Cons a as)
    have "snd (snd (dm_put a x)) = snd x" by (simp add: dm_put_def Put_def split: prod.split option.split)
    then show ?case using Cons.IH [of "snd (dm_put a x)"] by (simp split: prod.split) (metis snd_conv)
  qed simp
  then show ?thesis by (simp add: Recycle_def)
qed

text \<open>The functions, one by one.\<close>

locale library_frame =
  fixes P :: "('w, 'p) dpdk_scheme"
  assumes laws: "alloc_laws P" "free_laws P" "mbuf_laws P" "zone_frame_laws P" "burst_laws P" "queue_frame_laws P"
begin

lemma same_transfers_alloc:
  "same_transfers P m (snd (rte_pktmbuf_alloc_bulk P pool n m))" (is ?A)
  "same_transfers P m (snd (rte_comp_op_bulk_alloc P pool n m))" (is ?B)
proof -
  note A = laws(1) [unfolded alloc_laws_def]
  obtain y m' where e: "rte_pktmbuf_alloc_bulk P pool n m = (y, m')" by fastforce
  show ?A
    using A [THEN conjunct2, THEN conjunct1, rule_format, of pool n m m'] A [THEN conjunct1, rule_format, of pool n m _ m'] e
    by (cases y) (auto simp: same_transfers_def same_objects_def same_memory_def)
  obtain y m' where e: "rte_comp_op_bulk_alloc P pool n m = (y, m')" by fastforce
  show ?B
    using A [THEN conjunct2, THEN conjunct2, THEN conjunct2, rule_format, of pool n m m']
      A [THEN conjunct2, THEN conjunct2, THEN conjunct1, rule_format, of pool n m _ m'] e
    by (cases y) (auto simp: same_transfers_def same_objects_def same_memory_def)
qed

lemma same_transfers_free:
  "same_transfers P m (rte_pktmbuf_free_seg P b m)" "same_transfers P m (rte_comp_op_free P j m)"
  "same_transfers P m (rte_pktmbuf_free P p m)"
  using laws(2,6) by (simp_all add: free_laws_def queue_frame_laws_def same_transfers_def same_memory_def Let_def)

lemma same_transfers_mbuf:
  "same_transfers P m (snd (rte_pktmbuf_chain P h t m))"
  "same_transfers P m (snd (rte_pktmbuf_append P b n m))"
  using laws(6) by (simp_all add: queue_frame_laws_def)

lemma same_transfers_attach:
  "same_transfers P m (rte_pktmbuf_attach_extbuf P b a iova len sh m)"
  "same_transfers P m (rte_mbuf_ext_refcnt_update P sh k m)"
  using laws(3) [unfolded mbuf_laws_def, THEN conjunct1, rule_format, of b a iova len sh m]
    laws(3) [unfolded mbuf_laws_def, THEN conjunct2, THEN conjunct1, rule_format, of sh k m]
  by (simp_all add: same_transfers_def same_objects_def same_memory_def Let_def)

lemma same_transfers_zone: "same_transfers P m (snd (rte_memzone_reserve_aligned P n al m))"
  using laws(4) by (simp add: zone_frame_laws_def same_queues_def same_transfers_def)

lemma same_transfers_append_data: "same_transfers P m (snd (AppendData P fld j b ad iova len sh m))"
proof -
  have attach: "same_transfers P m (snd (attach_and_append P b ad iova len sh m))" for m
    using same_transfers_trans [OF same_transfers_trans [OF same_transfers_attach(1) same_transfers_attach(2)]
        same_transfers_mbuf(2)]
    unfolding attach_and_append_def Let_def by (auto split: prod.split option.split) (metis snd_conv)+
  show ?thesis
  proof (cases "mbuf_of fld (ops m j)")
    case None
    then show ?thesis using same_transfers_trans [OF same_transfers_keep(1) attach] by (simp add: AppendData_def)
  next
    case (Some head)
    obtain r m' where e: "rte_pktmbuf_chain P head b m = (r, m')" by fastforce
    then have "same_transfers P m m'" using same_transfers_mbuf(1) [of m head b] by simp
    then show ?thesis
      using Some e same_transfers_trans [OF \<open>same_transfers P m m'\<close> same_transfers_trans [OF same_transfers_keep(2) attach]]
      by (simp add: AppendData_def)
  qed
qed

abbreviation "keeps_others dev_id qp_id \<equiv> keeps_to (elsewhere_of P dev_id qp_id)"
abbreviation "pkeeps_others dev_id qp_id \<equiv> pkeeps_to (elsewhere_of P dev_id qp_id)"

lemma keeps_on_mach: "(\<And>m. same_transfers P m (snd (f m))) \<Longrightarrow> keeps_others d q (on_mach f)"
  unfolding keeps_to_def on_mach_def
  by (auto split: prod.split) (metis same_transfers_elsewhere snd_conv)

lemma keeps_do_mach: "(\<And>m. same_transfers P m (f m)) \<Longrightarrow> keeps_others d q (do_mach f)"
  unfolding keeps_to_def do_mach_def by (simp add: same_transfers_elsewhere)

lemma keeps_locals [keeping]:
  "keeps_others d q (upd_qp f)" "keeps_others d q (modify (offset_update g))" "keeps_others d q (modify (index_update g))"
  "keeps_others d q (push_pending j)" "keeps_others d q (operation_at i)" "keeps_others d q (mbuf_at i)"
  "keeps_others d q (not_ok_returns code)" "keeps_others d q (operations_from ptr n)"
  unfolding push_pending_def operation_at_def mbuf_at_def not_ok_returns_def operations_from_def upd_qp_def
  by (intro keeping elsewhere.keeps_modify; simp add: elsewhere_refl)+

lemma keeps_BulkAllocate [keeping]: "keeps_others d q (BulkAllocate P n k)"
  unfolding BulkAllocate_def by (intro keeping keeps_on_mach same_transfers_alloc)

lemma keeps_append_to [keeping]: "keeps_others d q (append_to P fld j i ad iova len sh)"
  unfolding append_to_def by (intro keeping keeps_on_mach same_transfers_append_data)

lemma keeps_update_operation [keeping]: "keeps_others d q (update_operation j x)"
proof -
  have "keeps_others d q (\<lambda>s. case UpdateOperation j x (mach (wld s)) of (r, m) \<Rightarrow> (r, s\<lparr>wld := (wld s)\<lparr>mach := m\<rparr>\<rparr>))" for j
    unfolding keeps_to_def UpdateOperation_def by (auto simp: elsewhere_mach split: option.split)
  then show ?thesis unfolding update_operation_def by (intro keeping)
qed

lemma elsewhere_AllocateOne: "elsewhere P d q w (snd (AllocateOne P sz w))"
proof -
  have reserve: "elsewhere P d q w (snd (snd (memzone_AllocateAligned P n al out w)))" for n al out
  proof -
    obtain z m where r: "rte_memzone_reserve_aligned P (nat (n mod 2 ^ 64)) (nat (al mod 2 ^ 32)) (mach w) = (z, m)" by fastforce
    then have "same_transfers P (mach w) m" using same_transfers_zone by (metis snd_conv)
    then have m: "elsewhere P d q w (w\<lparr>mach := m\<rparr>)" by (rule same_transfers_elsewhere)
    have "elsewhere P d q w (tracker_Emplace a y (w\<lparr>mach := m\<rparr>))" for a y
      using m by (auto simp: elsewhere_def tracker_Emplace_def map_le_def split: option.split)
    then show ?thesis using r m by (simp add: memzone_AllocateAligned_def elsewhere_refl split: option.split)
  qed
  have more: "elsewhere P d q w (UpdateAllocatedBytes b n f (write_byte a v (write_byte a' v w')))"
    "elsewhere P d q w (UpdateAllocatedBytes b n f w')" "elsewhere P d q w (write_byte a v (write_byte a' v w'))" if "elsewhere P d q w w'" for b n f a a' v w'
    using that by (simp_all add: elsewhere_def)
  show ?thesis
    using reserve [of "uint sz" kDefaultBufferAlignment nullptr]
    unfolding AllocateOne_def pool_Allocate_def RtememzoneMemoryPool_sel
    by (auto simp: elsewhere_refl Let_def intro!: more split: prod.splits sum.splits)
qed

lemma keeps_take_memzone [keeping]: "keeps_others d q (take_memzone P c)"
proof -
  have "elsewhere P d q w (snd (snd (Take P c dm w)))" for dm w
    using elsewhere_AllocateOne [of d q w "compressed_seg_size c"]
    unfolding Take_def by (auto simp: elsewhere_refl split: list.split prod.split sum.split error.split)
  then show ?thesis unfolding keeps_to_def take_memzone_def by (auto split: prod.split) (metis snd_conv)
qed

lemma keeps_compress_src_loop [keeping]: "keeps_others d q (compress_src_loop P c data sz n left k j)"
proof (induction left arbitrary: k j)
  case 0
  show ?case unfolding compress_src_loop.simps by (intro keeping)
next
  case (Suc left)
  show ?case unfolding compress_src_loop.simps Let_def by (intro keeping Suc.IH)
qed

lemma keeps_compress_dst_loop [keeping]: "keeps_others d q (compress_dst_loop P c n left k j)"
proof (induction left arbitrary: k j)
  case 0
  show ?case unfolding compress_dst_loop.simps by (intro keeping)
next
  case (Suc left)
  show ?case unfolding compress_dst_loop.simps Let_def by (intro keeping Suc.IH)
qed

lemma keeps_decompress_src_loop [keeping]: "keeps_others d q (decompress_src_loop P c bufs n left k j)"
proof (induction left arbitrary: k j)
  case 0
  show ?case unfolding decompress_src_loop.simps by (intro keeping)
next
  case (Suc left)
  show ?case unfolding decompress_src_loop.simps Let_def by (intro keeping Suc.IH)
qed

lemma keeps_decompress_dst_loop [keeping]: "keeps_others d q (decompress_dst_loop P c data sz n left k j)"
proof (induction left arbitrary: k j)
  case 0
  show ?case unfolding decompress_dst_loop.simps by (intro keeping)
next
  case (Suc left)
  show ?case unfolding decompress_dst_loop.simps Let_def by (intro keeping Suc.IH)
qed

lemma keeps_negative_codes [keeping]: "keeps_others d q f \<Longrightarrow> keeps_others d q (negative_codes enc f)"
  unfolding keeps_to_def negative_codes_def
  by (auto split: prod.split sum.split error.split option.split) (metis snd_conv)+

lemma keeps_AccumulateUnused [keeping]: "keeps_others d q (AccumulateUnused n)"
  unfolding AccumulateUnused_def by (intro keeping)

lemma keeps_error_count [keeping]: "keeps_others d q (error_count P n dev_id)"
  unfolding keeps_to_def error_count_def GetErrorCount_def by (auto simp: elsewhere_def Let_def)

lemma keeps_EnqueueBurst [keeping]: "keeps_others d q (EnqueueBurst P d q ptr n)"
proof -
  have "keeps_others d q (on_mach (rte_compressdev_enqueue_burst P d q os))" for os
    unfolding keeps_to_def on_mach_def
  proof
    fix s :: "'w qp_state"
    obtain k m where e: "rte_compressdev_enqueue_burst P d q os (mach (wld s)) = (k, m)" by fastforce
    then have "xforms P (hidden m) = xforms P (hidden (mach (wld s))) \<and>
        (\<exists>js. inflight P (hidden m) = set_inflight js d q (inflight P (hidden (mach (wld s)))))"
      using laws(6) [unfolded queue_frame_laws_def, THEN conjunct2, THEN conjunct2, THEN conjunct2, rule_format, of d q os "mach (wld s)"]
      by simp
    then show "elsewhere_of P d q s (snd (case rte_compressdev_enqueue_burst P d q os (mach (wld s)) of
        (x, m) \<Rightarrow> (Inr x, s\<lparr>wld := (wld s)\<lparr>mach := m\<rparr>\<rparr>)))"
      using e by (auto simp: elsewhere_mach set_inflight_def)
  qed
  then show ?thesis unfolding EnqueueBurst_def by (intro keeping)
qed

lemma keeps_dequeue [keeping]: "keeps_others d q (on_mach (rte_compressdev_dequeue_burst P d q n))"
  unfolding keeps_to_def on_mach_def
proof
  fix s :: "'w qp_state"
  obtain js m where e: "rte_compressdev_dequeue_burst P d q n (mach (wld s)) = (js, m)" by fastforce
  from laws(5) [unfolded burst_laws_def, THEN conjunct2, rule_format, OF e]
  show "elsewhere_of P d q s (snd (case rte_compressdev_dequeue_burst P d q n (mach (wld s)) of
      (x, m) \<Rightarrow> (Inr x, s\<lparr>wld := (wld s)\<lparr>mach := m\<rparr>\<rparr>)))"
    using e by (auto simp: elsewhere_mach set_inflight_def burst_frame_def Let_def)
qed

lemma keeps_RecycleResources [keeping]: "keeps_others d q (RecycleResources P op)"
  unfolding RecycleResources_def by (intro keeping keeps_do_mach same_transfers_free)

lemma keeps_process_dequeued [keeping]:
  "(\<And>j. pkeeps_others d q (callback j)) \<Longrightarrow> pkeeps_others d q (process_dequeued P callback ps)"
proof (induction ps)
  case Nil
  show ?case unfolding process_dequeued.simps by (intro keeping)
next
  case (Cons p ps)
  show ?case unfolding process_dequeued.simps by (intro keeping Cons.IH Cons.prems)
qed

lemma keeps_DequeueBurst [keeping]:
  "(\<And>j. pkeeps_others d q (callback j)) \<Longrightarrow> pkeeps_others d q (DequeueBurst P c d q ptr callback)"
  unfolding DequeueBurst_def by (intro keeping)

lemma keeps_callbacks [keeping]:
  "pkeeps_others d q (compress_callback j)" "pkeeps_others d q (decompress_callback j)"
proof -
  show "pkeeps_others d q (compress_callback j)"
    unfolding pkeeps_to_def compress_callback_def by (auto simp: elsewhere_refl)
  show "pkeeps_others d q (decompress_callback j)"
    unfolding decompress_callback_def by (intro keeping elsewhere.keeps_modify) (simp add: elsewhere_refl)
qed

lemma keeps_assemblers [keeping]:
  "keeps_others d q (AssembleFrom_decompressed P c data sz)"
  "keeps_others d q (AssembleFrom_compressed P c bufs data sz)"
  unfolding AssembleFrom_decompressed_def AssembleFrom_compressed_def Let_def by (intro keeping)+

lemma elsewhere_mach_trans:
  "elsewhere P d q w w' \<Longrightarrow> same_transfers P (mach w') m \<Longrightarrow> elsewhere P d q w (w'\<lparr>mach := m\<rparr>)"
  using elsewhere_trans same_transfers_elsewhere by blast

lemma elsewhere_release_dst: "release_dst P sh dst dm w = Some (dm', w') \<Longrightarrow> elsewhere P d q w w'"
proof -
  have "P' = P \<longrightarrow> elsewhere P d q w (snd y)" if "release_dst P' sh dst dm w = Some y"
    for P' sh dst dm and w :: "'w world" and y
    using that
  proof (rule release_dst.raw_induct [where Pa = "\<lambda>x y. fst (fst (fst (fst x))) = P \<longrightarrow> elsewhere P d q (snd x) (snd y)",
        unfolded fst_conv snd_conv, rotated], intro impI)
    fix loop and P' :: "('w, 'p) dpdk_scheme" and sh dst dm and w :: "'w world" and y
    assume IH: "\<And>P' sh dst dm w y. loop P' sh dst dm w = Some y \<Longrightarrow> P' = P \<longrightarrow> elsewhere P d q w (snd y)"
      and body: "(case dst of None \<Rightarrow> Some (dm, w)
        | Some b \<Rightarrow>
          (let next = next_seg (mbufs (mach w) b);
               (dm, w) = (if shinfo (mbufs (mach w) b) = sh
                         then snd (Put (buf_addr (mbufs (mach w) b)) dm w) else (dm, w))
           in loop P' sh next dm (w\<lparr>mach := rte_pktmbuf_free_seg P' b (mach w)\<rparr>))) = Some y"
      and P': "P' = P"
    show "elsewhere P d q w (snd y)"
    proof (cases dst)
      case None
      then show ?thesis using body by (auto simp: elsewhere_refl)
    next
      case (Some b)
      have w: "snd (snd (Put a dm w)) = w" for a by (simp add: Put_def split: option.split)
      obtain sh' dst' dm' where "loop P' sh' dst' dm' (w\<lparr>mach := rte_pktmbuf_free_seg P' b (mach w)\<rparr>) = Some y"
        using body Some w [of "buf_addr (mbufs (mach w) b)"] by (auto simp: Let_def split: if_splits prod.splits)
      from IH [OF this] show ?thesis
        using P' elsewhere_trans [OF elsewhere_mach_trans [OF elsewhere_refl same_transfers_free(1)]] by blast
    qed
  qed
  then show "release_dst P sh dst dm w = Some (dm', w') \<Longrightarrow> elsewhere P d q w w'" by fastforce
qed

lemma elsewhere_release_ops: "release_ops P sh js dm w = Some (r, dm', w') \<Longrightarrow> elsewhere P d q w w'"
proof (induction js arbitrary: dm w)
  case (Cons j js)
  show ?case
  proof (cases j)
    case None
    then show ?thesis using Cons.prems by (simp add: elsewhere_refl)
  next
    case (Some j)
    let ?w = "w\<lparr>mach := rte_pktmbuf_free P (m_src (ops (mach w) j)) (mach w)\<rparr>"
    obtain dm1 w1 where dst: "release_dst P sh (m_dst (ops (mach ?w) j)) dm ?w = Some (dm1, w1)"
      and rest: "release_ops P sh js dm1 (w1\<lparr>mach := rte_comp_op_free P j (mach w1)\<rparr>) = Some (r, dm', w')"
      using Cons.prems Some by (auto simp: Let_def split: option.splits)
    have "elsewhere P d q w ?w" by (rule elsewhere_mach_trans [OF elsewhere_refl same_transfers_free(3)])
    then have "elsewhere P d q w w1" using elsewhere_trans elsewhere_release_dst [OF dst] by blast
    then have "elsewhere P d q w (w1\<lparr>mach := rte_comp_op_free P j (mach w1)\<rparr>)"
      by (rule elsewhere_mach_trans) (rule same_transfers_free(2))
    then show ?thesis using elsewhere_trans Cons.IH [OF rest] by blast
  qed
qed (simp add: elsewhere_refl)

lemma keeps_ReleaseAll: "pkeeps_others d q (ReleaseAll P bufs)"
proof -
  have w: "snd (snd (Recycle bufs x)) = snd x" for x :: "device_memory \<times> 'w world" by (rule Recycle_world)
  have "elsewhere P d q (wld s) (wld t)" if "ReleaseAll P bufs s = Some (r, t)" for s t r
    using that w [of "(dmem s, wld s)"] elsewhere_release_ops
    by (auto simp: ReleaseAll_def Release_def split: prod.splits option.splits)
  then show ?thesis by (simp add: pkeeps_to_def)
qed

subsection \<open>Whole calls\<close>

lemma keeps_else [keeping]:
  "pkeeps_others d q els \<Longrightarrow> pkeeps_others d q (not_ok_else msg els code)"
  "pkeeps_others d q els \<Longrightarrow> pkeeps_others d q (negative_else enc msg els n)"
  unfolding not_ok_else_def negative_else_def
  by (auto split: option.split sum.split intro!: keeping)

lemma keeps_burst_loop [keeping]:
  assumes "\<And>n. pkeeps_others d q (body n)"
  shows "pkeeps_others d q (burst_loop body n)"
  unfolding elsewhere.pkeeps_iff
proof
  fix s :: "'w qp_state"
  have "pwp (burst_loop body n) (\<lambda>_ t. \<exists>n \<le> 0 :: int. elsewhere_of P d q s t) (\<lambda>_. elsewhere_of P d q s) s"
  proof (rule burst_loop_pwp [where I = "\<lambda>_. elsewhere_of P d q s"])
    fix n t assume "elsewhere_of P d q s t"
    then show "pwp (body n) (\<lambda>n. elsewhere_of P d q s) (\<lambda>_. elsewhere_of P d q s) t"
      using elsewhere_trans
      by (intro pwp_mono [OF assms [of n, unfolded elsewhere.pkeeps_iff, rule_format]]) blast+
  qed (simp add: elsewhere_refl)
  then show "pwp (burst_loop body n) (\<lambda>_. elsewhere_of P d q s) (\<lambda>_. elsewhere_of P d q s) s"
    by (rule pwp_mono) simp_all
qed

lemma keeps_drain_loop [keeping]:
  assumes "pkeeps_others d q body"
  shows "pkeeps_others d q (drain_loop body)"
  unfolding elsewhere.pkeeps_iff
proof
  fix s :: "'w qp_state"
  have "pwp (drain_loop body) (\<lambda>_ t. elsewhere_of P d q s t \<and> \<not> has_pending_operations (qp t)) (\<lambda>_. elsewhere_of P d q s) s"
  proof (rule drain_loop_pwp)
    fix t assume "elsewhere_of P d q s t"
    then show "pwp body (\<lambda>_. elsewhere_of P d q s) (\<lambda>_. elsewhere_of P d q s) t"
      using elsewhere_trans
      by (intro pwp_mono [OF assms [unfolded elsewhere.pkeeps_iff, rule_format]]) blast+
  qed (simp add: elsewhere_refl)
  then show "pwp (drain_loop body) (\<lambda>_. elsewhere_of P d q s) (\<lambda>_. elsewhere_of P d q s) s"
    by (rule pwp_mono) simp_all
qed

lemma keeps_compress_run: "pkeeps_others d q (compress_run P c d q data sz)"
proof -
  have release: "pkeeps_others d q (\<lambda>s. ReleaseAll P (compressed_buffers s) s)"
    by (rule elsewhere.pkeeps_state [OF keeps_ReleaseAll])
  show ?thesis
    unfolding compress_run_def run_bursts_def Let_def
    by (intro keeping release elsewhere.pkeeps_state
        [where m = "\<lambda>s. pseq (DequeueBurst P c d q (dequeue_ops c (qp s)) compress_callback) (not_ok_else m r)" for m r]
      elsewhere.pkeeps_state [where m = "\<lambda>s. pseq (total (EnqueueBurst P d q (enqueue_ops (qp s)) k)) (not_ok_else m r)" for k m r])
qed

lemma keeps_decompress_run: "pkeeps_others d q (decompress_run P c d q bufs data sz)"
  unfolding decompress_run_def run_bursts_def Let_def
  by (intro keeping elsewhere.pkeeps_state
        [where m = "\<lambda>s. pseq (DequeueBurst P c d q (dequeue_ops c (qp s)) decompress_callback) (not_ok_else m r)" for m r]
      elsewhere.pkeeps_state [where m = "\<lambda>s. pseq (total (EnqueueBurst P d q (enqueue_ops (qp s)) k)) (not_ok_else m r)" for k m r])

end

text \<open>What a call on a queue pair keeps of the device.\<close>

definition one_call :: "('w, 'p) dpdk_scheme \<Rightarrow> u16 \<Rightarrow> 'w dev_state \<Rightarrow> 'w dev_state \<Rightarrow> bool" where
  "one_call P qp_id s t \<longleftrightarrow> elsewhere P (device_id (dev s)) qp_id (env s) (env t) \<and>
     device_id (dev t) = device_id (dev s) \<and> worker_lcores (dev t) = worker_lcores (dev s) \<and>
     device_configuration (dev t) = device_configuration (dev s) \<and> device_state (dev t) = device_state (dev s) \<and>
     length (qp_memory (dev t)) = length (qp_memory (dev s)) \<and>
     (\<forall>i. i \<noteq> unat qp_id \<longrightarrow> qp_memory (dev t) ! i = qp_memory (dev s) ! i)"

lemma one_call_refl: "one_call P qp_id s s"
  by (simp add: one_call_def elsewhere_refl)

lemma one_call_with_qp_memory:
  assumes "pkeeps_to (elsewhere_of P (device_id (dev s)) qp_id) f"
    and "with_qp_memory (unat qp_id) f s = Some (r, t)"
  shows "one_call P qp_id s t"
proof -
  have "elsewhere P (device_id (dev s)) qp_id (env s) (wld q)"
    if "f (qp_view (dev s) (unat qp_id) dm (env s)) = Some (x, q)" for x q dm
    using assms(1) [unfolded pkeeps_to_def, rule_format, OF that] by (simp add: qp_view_def)
  then show ?thesis
    using assms(2)
    by (auto simp: with_qp_memory_def one_call_def qp_store_def elsewhere_refl
        split: if_splits option.splits sum.splits prod.splits)
qed

lemma one_call_trans: "one_call P qp_id s t \<Longrightarrow> one_call P qp_id t u \<Longrightarrow> one_call P qp_id s u"
  by (auto simp: one_call_def intro: elsewhere_trans)

interpretation one_call: kept_relation "one_call P qp_id" for P qp_id
  by unfold_locales (auto intro: one_call_refl one_call_trans)

lemma pkeeps_run:
  assumes "\<And>d. pkeeps_to (elsewhere_of P d qp_id) (f d)"
  shows "pkeeps_to (one_call P qp_id) (pseq (total (get (\<lambda>s. device_id (dev s)))) (\<lambda>d.
    pseq (with_qp_memory (unat qp_id) (f d)) (\<lambda>(_, q). total (return (g q)))))"
  unfolding pkeeps_to_def
  using one_call_with_qp_memory [OF assms]
  by (auto simp: pseq_def split: option.splits prod.splits sum.splits)

lemma pkeeps_EntryGuard [keeping]: "pkeeps_to (one_call P qp_id) (\<lambda>s. Some (EntryGuard (dev s) i, s))"
  by (simp add: pkeeps_to_def one_call_refl)

context library_frame begin

lemma one_call_Compress: "pkeeps_to (one_call P qp_id) (Compress P qp_id b)"
  unfolding Compress_def by (intro pkeeps_run keeping keeps_compress_run)

lemma one_call_Decompress: "pkeeps_to (one_call P qp_id) (Decompress P qp_id bufs b)"
  unfolding Decompress_def Let_def by (intro pkeeps_run keeping keeps_decompress_run)

end

subsection \<open>The other queue pairs stay ready\<close>

lemma other_calls_ready:
  assumes call: "one_call P qp_id s t" and other: "q \<noteq> qp_id" and ready: "calls_ready P c q dm s"
    and dm: "device_mem (dev t) = Some dm'" "dm_ok P c (dm', env t)"
  shows "calls_ready P c q dm' t"
proof -
  have i: "unat q \<noteq> unat qp_id" using other by (simp add: word_unat_eq_iff)
  have c: "qp_memory (dev t) ! unat q = qp_memory (dev s) ! unat q" "device_id (dev t) = device_id (dev s)"
    "inflight P (hidden (mach (env t))) (device_id (dev s)) q = inflight P (hidden (mach (env s))) (device_id (dev s)) q"
    "xforms P (hidden (mach (env t))) = xforms P (hidden (mach (env s)))"
    using call i other by (auto simp: one_call_def elsewhere_def)
  have "at_rest P c md (device_id (dev s)) q (qp_view (dev t) (unat q) dm' (env t)) =
      at_rest P c md (device_id (dev s)) q (qp_view (dev s) (unat q) dm (env s))" for md
    using c by (simp add: at_rest_def qp_view_def)
  then show ?thesis
    using ready call dm c by (simp add: calls_ready_def one_call_def num_qps_def)
qed

end
