(* ===== verification/Bitar_Lcores.thy ===== *)
theory Bitar_Lcores
  imports Bitar_Elsewhere
begin

text \<open>
  Jobs on lcores: what the code relies on of DPDK's launcher, and the rule for a round of jobs,
  launched one after the other on lcores that wait and waited for, in whatever order they run.
  Then the order in which the loops of the application visit the queue pairs.
\<close>

subsection \<open>The launcher\<close>

text \<open>What lcores run, what they returned last, and the state they share. A job runs as one step.\<close>

type_synonym 's lcore_conf = "(u32 \<Rightarrow> ('s, int) pcode option) \<times> (u32 \<Rightarrow> int) \<times> 's"

inductive lcore_step :: "'s lcore_conf \<Rightarrow> 's lcore_conf \<Rightarrow> bool" where
  finish: "J i = Some f \<Longrightarrow> f s = Some (Inr r, t) \<Longrightarrow> lcore_step (J, R, s) (J(i := None), R(i := r), t)"

inductive_cases lcore_stepE: "lcore_step (J, R, s) C"

abbreviation lcore_steps :: "'s lcore_conf \<Rightarrow> 's lcore_conf \<Rightarrow> bool" where
  "lcore_steps \<equiv> lcore_step\<^sup>*\<^sup>*"

text \<open>No job that can run in some order throws or runs for ever.\<close>

definition all_return :: "'s lcore_conf \<Rightarrow> bool" where
  "all_return C \<longleftrightarrow> (\<forall>J R s i f. lcore_steps C (J, R, s) \<longrightarrow> J i = Some f \<longrightarrow> (\<exists>r t. f s = Some (Inr r, t)))"

text \<open>
  A launch on an lcore that waits succeeds. Waiting for an lcore gives, when its job is over,
  what it returned; this is the value of the last job it ran, whenever that was.
\<close>

definition launcher_laws :: "('l, 's) launcher \<Rightarrow> u32 set \<Rightarrow> bool" where
  "launcher_laws E W \<longleftrightarrow>
     (\<forall>f i l s r l' s'. i \<in> W \<longrightarrow> running E l i = None \<longrightarrow>
        rte_eal_remote_launch E f i (l, s) = (r, l', s') \<longrightarrow>
        all_return ((running E l)(i \<mapsto> f), returned E l, s) \<longrightarrow>
        r = 0 \<and> lcore_steps ((running E l)(i \<mapsto> f), returned E l, s) (running E l', returned E l', s')) \<and>
     (\<forall>i l s. i \<in> W \<longrightarrow> all_return (running E l, returned E l, s) \<longrightarrow>
        (\<exists>l' s'. rte_eal_wait_lcore E i (l, s) = Some (Inr (returned E l' i), l', s') \<and> running E l' i = None \<and>
           lcore_steps (running E l, returned E l, s) (running E l', returned E l', s')))"

subsection \<open>A round\<close>

text \<open>
  The jobs of a round and an invariant of the state they share, which also knows what the jobs
  that are over have returned: each job, run when the invariant holds, returns and keeps it.
\<close>

locale lcore_round =
  fixes E :: "('l, 's) launcher" and W :: "u32 set" and job :: "u32 \<Rightarrow> ('s, int) pcode option"
    and Q :: "(u32 \<Rightarrow> int option) \<Rightarrow> 's \<Rightarrow> bool"
  assumes launcher: "launcher_laws E W" and lcores: "dom job \<subseteq> W"
    and job_ok: "Q D s \<Longrightarrow> job i = Some f \<Longrightarrow> D i = None \<Longrightarrow> \<exists>r t. f s = Some (Inr r, t) \<and> Q (D(i \<mapsto> r)) t"
begin

text \<open>The jobs of \<open>L\<close> are launched, the results \<open>F\<close> have been waited for.\<close>

definition in_round :: "u32 set \<Rightarrow> (u32 \<Rightarrow> int option) \<Rightarrow> 's lcore_conf \<Rightarrow> bool" where
  "in_round L F = (\<lambda>(J, R, s). \<exists>D. F \<subseteq>\<^sub>m D \<and> dom D \<subseteq> L \<and> Q D s \<and>
     (\<forall>i. J i = (if i \<in> L - dom D then job i else None)) \<and> (\<forall>i r. D i = Some r \<longrightarrow> R i = r))"

lemma in_round_step:
  assumes "lcore_step C C'" "in_round L F C"
  shows "in_round L F C'"
proof -
  obtain J R s where C: "C = (J, R, s)" by (cases C)
  from assms(1) [unfolded C] obtain i f r t where
    step: "J i = Some f" "f s = Some (Inr r, t)" "C' = (J(i := None), R(i := r), t)"
    by (rule lcore_stepE) blast
  obtain D where D: "F \<subseteq>\<^sub>m D" "dom D \<subseteq> L" "Q D s" "\<forall>i. J i = (if i \<in> L - dom D then job i else None)"
    "\<forall>i r. D i = Some r \<longrightarrow> R i = r"
    using assms(2) C by (auto simp: in_round_def)
  have i: "i \<in> L" "D i = None" "job i = Some f" using D(4) step(1) by (auto split: if_splits)
  then have "Q (D(i \<mapsto> r)) t" using job_ok [OF D(3)] step(2) by fastforce
  moreover have "F \<subseteq>\<^sub>m D(i \<mapsto> r)" using D(1) i(2) by (fastforce simp: map_le_def dom_def)
  moreover have "dom (D(i \<mapsto> r)) \<subseteq> L" using D(2) i(1) by simp
  moreover have "\<forall>k. (J(i := None)) k = (if k \<in> L - dom (D(i \<mapsto> r)) then job k else None)" using D(4) i by auto
  moreover have "\<forall>k v. (D(i \<mapsto> r)) k = Some v \<longrightarrow> (R(i := r)) k = v" using D(5) by auto
  ultimately show ?thesis unfolding step(3) in_round_def prod.case by blast
qed

lemma in_round_steps: "lcore_steps C C' \<Longrightarrow> in_round L F C \<Longrightarrow> in_round L F C'"
  by (induction rule: rtranclp_induct) (auto intro: in_round_step)

lemma in_round_returns:
  assumes "in_round L F C"
  shows "all_return C"
  unfolding all_return_def
proof (intro allI impI)
  fix J R s i f assume steps: "lcore_steps C (J, R, s)" and f: "J i = Some f"
  obtain D where D: "Q D s" "\<forall>i. J i = (if i \<in> L - dom D then job i else None)"
    using in_round_steps [OF steps assms] by (auto simp: in_round_def)
  then have "job i = Some f" "D i = None" using f by (auto split: if_splits)
  from job_ok [OF D(1) this] show "\<exists>r t. f s = Some (Inr r, t)" by blast
qed

definition launched :: "u32 set \<Rightarrow> (u32 \<Rightarrow> int option) \<Rightarrow> 'l \<times> 's \<Rightarrow> bool" where
  "launched L F = (\<lambda>(l, s). in_round L F (running E l, returned E l, s))"

lemma round_start: "Q Map.empty s \<Longrightarrow> \<forall>i. running E l i = None \<Longrightarrow> launched {} Map.empty (l, s)"
  by (auto simp: launched_def in_round_def intro!: exI [of _ Map.empty])

lemma launch_job:
  assumes "launched L Map.empty (l, s)" "job i = Some f" "i \<notin> L" and e: "rte_eal_remote_launch E f i (l, s) = (r, l', s')"
  shows "r = 0" "launched (insert i L) Map.empty (l', s')"
proof -
  obtain D where D: "dom D \<subseteq> L" "Q D s" "\<forall>k. running E l k = (if k \<in> L - dom D then job k else None)"
    "\<forall>i r. D i = Some r \<longrightarrow> returned E l i = r"
    using assms(1) by (auto simp: launched_def in_round_def)
  let ?C = "((running E l)(i \<mapsto> f), returned E l, s)"
  have ir: "in_round (insert i L) Map.empty ?C"
    using D assms(2,3) by (auto simp: in_round_def intro!: exI [of _ D])
  have "i \<in> W" "running E l i = None" using assms(2,3) lcores D(3) by auto
  from launcher [unfolded launcher_laws_def, THEN conjunct1, rule_format, OF this e in_round_returns [OF ir]]
  show "r = 0" "launched (insert i L) Map.empty (l', s')"
    using in_round_steps [OF _ ir] by (simp_all add: launched_def)
qed

lemma wait_job:
  assumes "launched L F (l, s)" "i \<in> L" "L \<subseteq> dom job"
  obtains r l' s' where "rte_eal_wait_lcore E i (l, s) = Some (Inr r, l', s')" "launched L (F(i \<mapsto> r)) (l', s')"
proof -
  have ir: "in_round L F (running E l, returned E l, s)" using assms(1) by (simp add: launched_def)
  have "i \<in> W" using assms(2,3) lcores by blast
  from launcher [unfolded launcher_laws_def, THEN conjunct2, rule_format, OF this in_round_returns [OF ir]]
  obtain l' s' where w: "rte_eal_wait_lcore E i (l, s) = Some (Inr (returned E l' i), l', s')" "running E l' i = None"
    "lcore_steps (running E l, returned E l, s) (running E l', returned E l', s')" by blast
  obtain D where D: "F \<subseteq>\<^sub>m D" "dom D \<subseteq> L" "Q D s'" "\<forall>k. running E l' k = (if k \<in> L - dom D then job k else None)"
    "\<forall>i r. D i = Some r \<longrightarrow> returned E l' i = r"
    using in_round_steps [OF w(3) ir] by (auto simp: in_round_def)
  have "i \<in> dom D" using D(4) [rule_format, of i] w(2) assms(2,3) by (auto split: if_splits)
  then obtain r where r: "D i = Some r" by blast
  then have ret: "returned E l' i = r" using D(5) by blast
  have "F(i \<mapsto> r) \<subseteq>\<^sub>m D" using D(1) r by (auto simp: map_le_def)
  then have "launched L (F(i \<mapsto> r)) (l', s')" using D by (auto simp: launched_def in_round_def)
  then show thesis using that w(1) ret by blast
qed

lemma round_end:
  assumes "launched L F (l, s)" "L \<subseteq> dom F"
  shows "Q F s" "\<forall>i. running E l i = None"
proof -
  obtain D where D: "F \<subseteq>\<^sub>m D" "dom D \<subseteq> L" "Q D s" "\<forall>k. running E l k = (if k \<in> L - dom D then job k else None)"
    using assms(1) by (auto simp: launched_def in_round_def)
  have sub: "dom D \<subseteq> dom F" using D(2) assms(2) by blast
  have "D i = F i" for i
  proof (cases "F i")
    case None
    then show ?thesis using sub by (metis domIff subsetD)
  next
    case (Some r)
    then show ?thesis using D(1) by (fastforce simp: map_le_def dom_def)
  qed
  then have "D = F" by blast
  then show "Q F s" "\<forall>i. running E l i = None" using D assms(2) by auto
qed

text \<open>While jobs are on their way the state satisfies the invariant for some of them.\<close>

lemma launched_state: "launched L F (l, s) \<Longrightarrow> \<exists>D. Q D s"
  by (auto simp: launched_def in_round_def)

end

subsection \<open>The queue pairs in their order\<close>

text \<open>Device by device, the queue pairs from the first to the last.\<close>

definition queue_pairs :: "compress_device list \<Rightarrow> (nat \<times> nat) list" where
  "queue_pairs ds = concat (map (\<lambda>k. map (Pair k) [0..<length (worker_lcores (ds ! k))]) [0..<length ds])"

text \<open>The queue pairs of the devices from the \<open>k\<close>th on, those of the \<open>k\<close>th from the \<open>q\<close>th on.\<close>

definition queue_pairs_from :: "compress_device list \<Rightarrow> nat \<Rightarrow> nat \<Rightarrow> (nat \<times> nat) list" where
  "queue_pairs_from ds k q = map (Pair k) [q..<length (worker_lcores (ds ! k))] @
     concat (map (\<lambda>k. map (Pair k) [0..<length (worker_lcores (ds ! k))]) [Suc k..<length ds])"

lemma queue_pairs_from_start: "ds \<noteq> [] \<Longrightarrow> queue_pairs ds = queue_pairs_from ds 0 0"
  by (simp add: queue_pairs_def queue_pairs_from_def upt_conv_Cons)

lemma queue_pairs_from_step:
  assumes "k < length ds" "q < length (worker_lcores (ds ! k))"
  shows "queue_pairs_from ds k q = (k, q) #
    (if Suc q = length (worker_lcores (ds ! k))
     then (if Suc k < length ds then queue_pairs_from ds (Suc k) 0 else []) else queue_pairs_from ds k (Suc q))"
  using assms by (auto simp: queue_pairs_from_def upt_conv_Cons)

definition small_devices :: "compress_device list \<Rightarrow> bool" where
  "small_devices ds \<longleftrightarrow> length ds < 256 \<and>
     (\<forall>d \<in> set ds. 0 < length (worker_lcores d) \<and> length (worker_lcores d) < 65536)"

fun visit :: "(nat \<Rightarrow> u8 \<Rightarrow> u16 \<Rightarrow> 'a \<Rightarrow> ('s, bool \<times> 'a) pcode) \<Rightarrow> nat \<Rightarrow> (nat \<times> nat) list \<Rightarrow> 'a \<Rightarrow> ('s, 'a) pcode" where
  "visit body idx [] x = total (return x)"
| "visit body idx ((k, q) # ps) x =
     pseq (body idx (word_of_nat k) (word_of_nat q) x) (\<lambda>(go, x).
     if go then visit body (Suc idx) ps x else total (return x))"

lemma for_queue_pairs_from:
  assumes "small_devices ds" "k < length ds" "q < length (worker_lcores (ds ! k))"
    and "left \<le> length (queue_pairs_from ds k q)"
  shows "for_queue_pairs ds body left idx (word_of_nat k) (word_of_nat q) x =
    visit body idx (take left (queue_pairs_from ds k q)) x"
  using assms(2-)
proof (induction left arbitrary: idx k q x)
  case (Suc left)
  let ?n = "length (worker_lcores (ds ! k))"
  have n: "0 < ?n" "?n < 65536" "length ds < 256"
    using assms(1) Suc.prems(1) by (simp_all add: small_devices_def)
  have u: "unat (word_of_nat k :: u8) = k" "num_qps (ds ! k) = word_of_nat ?n"
    using Suc.prems(1) n by (simp_all add: unat_of_nat take_bit_nat_eq_self num_qps_def)
  have eq: "word_of_nat (Suc q) = (word_of_nat ?n :: u16) \<longleftrightarrow> Suc q = ?n"
    using Suc.prems(2) n(2) unfolding word_of_nat_eq_iff by (simp add: take_bit_nat_eq_self del: of_nat_Suc)
  have adv: "Advance (word_of_nat k) (word_of_nat q) (num_qps (ds ! k)) =
      (if Suc q = ?n then (word_of_nat (Suc k), word_of_nat 0) else (word_of_nat k, word_of_nat (Suc q)))"
    using eq by (simp add: Advance_def u(2) add.commute Let_def)
  note step = queue_pairs_from_step [OF Suc.prems(1,2)]
  have rest: "for_queue_pairs ds body left (Suc idx) dv qp y = visit body (Suc idx) (take left ps) y"
    if "(dv, qp) = Advance (word_of_nat k) (word_of_nat q) (num_qps (ds ! k))"
      "queue_pairs_from ds k q = (k, q) # ps" for dv qp y ps
  proof (cases "Suc q = ?n")
    case True
    show ?thesis
    proof (cases "Suc k < length ds")
      case more: True
      then have "0 < length (worker_lcores (ds ! Suc k))" using assms(1) by (simp add: small_devices_def)
      then show ?thesis
        using that True more step adv Suc.prems(3) Suc.IH [OF more, of 0 "Suc idx" y] by simp
    next
      case False
      then have "left = 0" using True step Suc.prems(3) by simp
      then show ?thesis by simp
    qed
  next
    case False
    then show ?thesis
      using that step adv Suc.prems Suc.IH [OF Suc.prems(1), of "Suc q" "Suc idx" y] by simp
  qed
  obtain ps where ps: "queue_pairs_from ds k q = (k, q) # ps" using step by blast
  obtain dv qp where a: "Advance (word_of_nat k) (word_of_nat q) (num_qps (ds ! k)) = (dv, qp)" by fastforce
  note R = rest [OF a [symmetric] ps]
  show ?case
    unfolding for_queue_pairs.simps ps take_Suc_Cons visit.simps u(1) array_at_in [OF Suc.prems(1)]
    by (simp add: pseq_eq(1) a R fun_eq_iff pseq_def case_prod_beta' split: option.split sum.split)
qed simp

lemma for_queue_pairs_visit:
  assumes "small_devices ds" "n \<le> length (queue_pairs ds)"
  shows "for_queue_pairs ds body n idx 0 0 x = visit body idx (take n (queue_pairs ds)) x"
proof (cases "ds = []")
  case True
  then show ?thesis using assms(2) by (simp add: queue_pairs_def)
next
  case False
  then have "0 < length (worker_lcores (ds ! 0))" using assms(1) by (simp add: small_devices_def)
  then show ?thesis
    using for_queue_pairs_from [OF assms(1), of 0 0 n body idx x] assms(2) False
    by (simp add: queue_pairs_from_start)
qed

lemma queue_pairs_nth:
  assumes "p \<in> set (queue_pairs ds)"
  shows "fst p < length ds" "snd p < length (worker_lcores (ds ! fst p))"
  using assms by (auto simp: queue_pairs_def)

lemma visit_twp:
  assumes body: "\<And>i k q x s. i < length ps \<Longrightarrow> ps ! i = (k, q) \<Longrightarrow> I (idx + i) x s \<Longrightarrow>
      twp (body (idx + i) (word_of_nat k) (word_of_nat q) x) (\<lambda>(go, y) t. go \<and> I (Suc (idx + i)) y t) Er s"
    and "I idx x s"
  shows "twp (visit body idx ps x) (I (idx + length ps)) Er s"
  using assms
proof (induction ps arbitrary: idx x s)
  case (Cons p ps)
  obtain k q where p: "p = (k, q)" by fastforce
  have first: "twp (body idx (word_of_nat k) (word_of_nat q) x) (\<lambda>(go, y) t. go \<and> I (Suc idx) y t) Er s"
    using Cons.prems(1) [of 0 k q x s] Cons.prems(2) p by simp
  have rest: "twp (visit body (Suc idx) ps y) (I (Suc idx + length ps)) Er t" if "I (Suc idx) y t" for y t
  proof (rule Cons.IH [OF _ that])
    fix i k q x s assume "i < length ps" "ps ! i = (k, q)" "I (Suc idx + i) x s"
    then show "twp (body (Suc idx + i) (word_of_nat k) (word_of_nat q) x)
        (\<lambda>(go, y) t. go \<and> I (Suc (Suc idx + i)) y t) Er s"
      using Cons.prems(1) [of "Suc i" k q x s] by simp
  qed
  show ?case
    unfolding p visit.simps twp_simps
    by (rule twp_mono [OF first]) (use rest in \<open>auto split: prod.splits\<close>)
qed (simp add: return_def)

subsection \<open>A round over the queue pairs\<close>

text \<open>The lcores of the first \<open>n\<close> queue pairs.\<close>

definition lcores_in_use :: "compress_device list \<Rightarrow> nat \<Rightarrow> u32 list" where
  "lcores_in_use ds n = map (\<lambda>(k, q). worker_lcores (ds ! k) ! q) (take n (queue_pairs ds))"

definition same_lcores :: "compress_device list \<Rightarrow> compress_device list \<Rightarrow> bool" where
  "same_lcores ds ds' \<longleftrightarrow> map worker_lcores ds' = map worker_lcores ds"

lemma LcoreOf_small: "q < length (worker_lcores d) \<Longrightarrow> length (worker_lcores d) < 65536 \<Longrightarrow>
  LcoreOf d (word_of_nat q) = Inr (worker_lcores d ! q)"
  by (simp add: LcoreOf_def unat_of_nat take_bit_nat_eq_self)

lemma same_lcoresD:
  assumes "same_lcores ds ds'" "k < length ds"
  shows "length ds' = length ds" "worker_lcores (ds' ! k) = worker_lcores (ds ! k)"
proof -
  show n: "length ds' = length ds" using assms(1) unfolding same_lcores_def by (metis length_map)
  show "worker_lcores (ds' ! k) = worker_lcores (ds ! k)"
    using arg_cong [OF assms(1) [unfolded same_lcores_def], of "\<lambda>xs. xs ! k"] assms(2) n by simp
qed

text \<open>
  The lcores are distinct and the devices stay what they are; \<open>js\<close> are the jobs of the queue
  pairs in their order.
\<close>

locale queue_pair_round =
  lcore_round E W "map_of (zip (lcores_in_use ds n) js)" Q
  for E :: "('l, 'w app) launcher" and W ds n js Q +
  assumes devices: "small_devices ds" "n \<le> length (queue_pairs ds)" "distinct (lcores_in_use ds n)" "length js = n"
    and same: "Q D s \<Longrightarrow> same_lcores ds (devices s)"
begin

abbreviation "ls \<equiv> lcores_in_use ds n"

lemma length_ls: "length ls = n" using devices(2) by (simp add: lcores_in_use_def)

lemma dom_jobs: "dom (map_of (zip ls js)) = set ls"
  using length_ls devices(4) by (simp add: dom_map_of_zip)

lemma nth_pair:
  assumes "i < n" "take n (queue_pairs ds) ! i = (k, q)"
  shows "k < length ds" "q < length (worker_lcores (ds ! k))" "length (worker_lcores (ds ! k)) < 65536"
    "ls ! i = worker_lcores (ds ! k) ! q" "k < 256"
proof -
  have "(k, q) \<in> set (queue_pairs ds)" using assms devices(2) by (metis length_take min.absorb2 nth_mem set_take_subset subsetD)
  from queue_pairs_nth [OF this] show k: "k < length ds" "q < length (worker_lcores (ds ! k))" by simp_all
  show "length (worker_lcores (ds ! k)) < 65536" "k < 256" using devices(1) k(1) by (auto simp: small_devices_def)
  show "ls ! i = worker_lcores (ds ! k) ! q" using assms devices(2) by (simp add: lcores_in_use_def)
qed

lemma launch_on_job:
  assumes "launched (set (take i ls)) Map.empty (l, s)" "i < n" "take n (queue_pairs ds) ! i = (k, q)"
  obtains l' s' where "launch_on E (js ! i) k (word_of_nat q) (l, s) = Some (Inr 0, l', s')"
    "launched (set (take (Suc i) ls)) Map.empty (l', s')"
proof -
  note p = nth_pair [OF assms(2,3)]
  obtain D where D: "Q D s" using launched_state [OF assms(1)] by blast
  note S = same_lcoresD [OF same [OF D] p(1)]
  have "LcoreOf (devices s ! k) (word_of_nat q) = Inr (ls ! i)"
    using p S(2) by (simp add: LcoreOf_small)
  moreover have job: "map_of (zip ls js) (ls ! i) = Some (js ! i)"
    using assms(2) devices(3,4) length_ls by (simp add: map_of_zip_nth)
  have "ls ! i \<notin> set (take i ls)"
    using devices(3) assms(2) length_ls by (simp add: in_set_conv_nth nth_eq_iff_index_eq)
  moreover obtain r l' s' where e: "rte_eal_remote_launch E (js ! i) (ls ! i) (l, s) = (r, l', s')" by (metis prod_cases3)
  ultimately have "launch_on E (js ! i) k (word_of_nat q) (l, s) = Some (Inr 0, l', s')"
    "launched (insert (ls ! i) (set (take i ls))) Map.empty (l', s')"
    using launch_job [OF assms(1) job _ e] p(1) S(1)
    by (simp_all add: launch_on_def on_main_def pseq_def seq_def array_at_def)
  then show thesis
    using that assms(2) length_ls by (simp add: take_Suc_conv_app_nth)
qed

lemma launch_all:
  assumes body: "\<And>i k q l s. i < n \<Longrightarrow> take n (queue_pairs ds) ! i = (k, q) \<Longrightarrow> \<exists>D. Q D s \<Longrightarrow>
      body i (word_of_nat k) (word_of_nat q) () (l, s) =
        pseq (launch_on E (js ! i) k (word_of_nat q)) (\<lambda>ret. total (return (ret = 0, ()))) (l, s)"
    and start: "Q Map.empty s" "\<forall>i. running E l i = None"
  shows "twp (for_queue_pairs ds body n 0 0 0 ()) (\<lambda>_. launched (set ls) Map.empty) (\<lambda>_ _. False) (l, s)"
proof -
  let ?I = "\<lambda>i _. launched (set (take i ls)) Map.empty"
  have "twp (visit body 0 (take n (queue_pairs ds)) ()) (?I (0 + length (take n (queue_pairs ds)))) (\<lambda>_ _. False) (l, s)"
  proof (rule visit_twp)
    fix i k q x and ls' :: "'l \<times> 'w app"
    assume i: "i < length (take n (queue_pairs ds))" "take n (queue_pairs ds) ! i = (k, q)"
      and at: "launched (set (take (0 + i) ls)) Map.empty ls'"
    obtain l s where ls': "ls' = (l, s)" by fastforce
    have n: "i < n" using i(1) devices(2) by simp
    obtain l' s' where R: "launch_on E (js ! i) k (word_of_nat q) (l, s) = Some (Inr 0, l', s')"
      "launched (set (take (Suc i) ls)) Map.empty (l', s')"
      by (rule launch_on_job [OF at [unfolded ls' add_0] n i(2)])
    have "\<exists>D. Q D s" using launched_state at ls' by auto
    from body [OF n i(2) this, of l]
    have "body i (word_of_nat k) (word_of_nat q) () (l, s) = Some (Inr (True, ()), l', s')"
      using R(1) by (simp add: pseq_def)
    then show "twp (body (0 + i) (word_of_nat k) (word_of_nat q) x)
        (\<lambda>(go, y) t. go \<and> launched (set (take (Suc (0 + i)) ls)) Map.empty t) (\<lambda>_ _. False) ls'"
      using R(2) ls' by (simp add: twp_eq)
  qed (use round_start [OF start] in simp)
  then show ?thesis
    using for_queue_pairs_visit [OF devices(1,2), of body 0 "()"] devices(2) length_ls by simp
qed

lemma wait_all:
  assumes "launched (set ls) Map.empty (l, s)"
  shows "twp (WaitForAsyncCompletion E n) (\<lambda>ok (l, s). \<exists>F. dom F = set ls \<and> Q F s \<and> (\<forall>i. running E l i = None) \<and>
      (ok \<longleftrightarrow> (\<forall>i r. F i = Some r \<longrightarrow> r = kAsyncReturnOK))) (\<lambda>_ _. False) (l, s)"
proof -
  let ?body = "\<lambda>(idx :: nat) (dev_id :: u8) qp_id async_success.
       pseq (total (\<lambda>ls. (LcoreOf (devices s ! unat dev_id) qp_id, ls))) (\<lambda>lcore.
       pseq (rte_eal_wait_lcore E lcore) (\<lambda>ret.
       total (return (True, async_success \<and> ret = kAsyncReturnOK))))"
  let ?I = "\<lambda>i ok ls'. \<exists>F. launched (set ls) F ls' \<and> dom F = set (take i ls) \<and>
    (ok \<longleftrightarrow> (\<forall>i r. F i = Some r \<longrightarrow> r = kAsyncReturnOK))"
  obtain D where D: "Q D s" using launched_state [OF assms] by blast
  note sm = same [OF D]
  have len: "length (devices s) = length ds" using sm unfolding same_lcores_def by (metis length_map)
  have small: "small_devices (devices s)"
    using devices(1) same_lcoresD [OF sm] len unfolding small_devices_def by (metis in_set_conv_nth)
  have qps: "queue_pairs (devices s) = queue_pairs ds"
    unfolding queue_pairs_def len by (rule arg_cong [where f = concat]) (use same_lcoresD [OF sm] in simp)
  have "twp (visit ?body 0 (take n (queue_pairs ds)) True) (?I (0 + length (take n (queue_pairs ds)))) (\<lambda>_ _. False) (l, s)"
  proof (rule visit_twp)
    fix i k q x and ls' :: "'l \<times> 'w app"
    assume i: "i < length (take n (queue_pairs ds))" "take n (queue_pairs ds) ! i = (k, q)"
      and at: "?I (0 + i) x ls'"
    obtain l s' where ls': "ls' = (l, s')" by fastforce
    have n: "i < n" using i(1) devices(2) by simp
    note p = nth_pair [OF n i(2)]
    obtain F where F: "launched (set ls) F (l, s')" "dom F = set (take i ls)"
      "x \<longleftrightarrow> (\<forall>i r. F i = Some r \<longrightarrow> r = kAsyncReturnOK)" using at ls' by auto
    have u: "unat (word_of_nat k :: u8) = k" using p(5) by (simp add: unat_of_nat take_bit_nat_eq_self)
    have "LcoreOf (devices s ! k) (word_of_nat q) = Inr (ls ! i)"
      using p same_lcoresD [OF sm p(1)] by (simp add: LcoreOf_small)
    moreover have "ls ! i \<in> set ls" using n length_ls by simp
    then obtain r l' s'' where w: "rte_eal_wait_lcore E (ls ! i) (l, s') = Some (Inr r, l', s'')"
      "launched (set ls) (F(ls ! i \<mapsto> r)) (l', s'')"
      using wait_job [OF F(1), of "ls ! i"] dom_jobs by blast
    have "ls ! i \<notin> set (take i ls)"
      using devices(3) n length_ls by (simp add: in_set_conv_nth nth_eq_iff_index_eq)
    then have new: "F (ls ! i) = None" using F(2) by blast
    have d: "dom (F(ls ! i \<mapsto> r)) = set (take (Suc i) ls)"
      using F(2) n length_ls by (simp add: take_Suc_conv_app_nth)
    have ok: "(x \<and> r = kAsyncReturnOK) \<longleftrightarrow> (\<forall>j v. (F(ls ! i \<mapsto> r)) j = Some v \<longrightarrow> v = kAsyncReturnOK)"
      using F(3) new by auto
    have "?I (Suc (0 + i)) (x \<and> r = kAsyncReturnOK) (l', s'')"
      using w(2) d ok by (intro exI [of _ "F(ls ! i \<mapsto> r)"] conjI) (simp_all del: fun_upd_apply)
    then show "twp (?body (0 + i) (word_of_nat k) (word_of_nat q) x)
        (\<lambda>(go, y) t. go \<and> ?I (Suc (0 + i)) y t) (\<lambda>_ _. False) ls'"
      unfolding ls' twp_def pwp_def using calculation w(1) u by (simp add: pseq_def)
  next
    show "?I 0 True (l, s)" using assms by auto
  qed
  then have "twp (for_queue_pairs (devices s) ?body n 0 0 0 True) (?I n) (\<lambda>_ _. False) (l, s)"
    using for_queue_pairs_visit [OF small, of n ?body 0 True] qps devices(2) by simp
  then have "twp (WaitForAsyncCompletion E n) (?I n) (\<lambda>_ _. False) (l, s)"
    by (simp add: WaitForAsyncCompletion_def twp_def pwp_def pseq_def)
  then show ?thesis
  proof (rule twp_mono)
    fix ok and ls' :: "'l \<times> 'w app" assume "?I n ok ls'"
    then obtain F where F: "launched (set ls) F ls'" "dom F = set ls" "ok \<longleftrightarrow> (\<forall>i r. F i = Some r \<longrightarrow> r = kAsyncReturnOK)"
      using length_ls by auto
    obtain l s where ls': "ls' = (l, s)" by fastforce
    show "case ls' of (l, s) \<Rightarrow> \<exists>F. dom F = set ls \<and> Q F s \<and> (\<forall>i. running E l i = None) \<and>
      (ok \<longleftrightarrow> (\<forall>i r. F i = Some r \<longrightarrow> r = kAsyncReturnOK))"
      using round_end [of "set ls" F l s] F ls' by auto
  qed simp
qed

end

end
