(* ===== verification/Bitar_Zones.thy ===== *)
theory Bitar_Zones
  imports Bitar_Sync Bitar_Lcores
begin

text \<open>
  The memzones of the process that are not of a device: what an operation keeps of them, and
  the buffers over them.
\<close>

subsection \<open>Zones an operation leaves alone\<close>

text \<open>Every tracked zone that is not in \<open>K\<close> stays tracked and keeps its bytes.\<close>

definition zone_frame :: "memzone set \<Rightarrow> 'w world \<Rightarrow> 'w world \<Rightarrow> bool" where
  "zone_frame K w w' \<longleftrightarrow> (\<forall>y. allocated_memzones w (mz_addr y) = Some y \<longrightarrow> y \<notin> K \<longrightarrow>
     allocated_memzones w' (mz_addr y) = Some y \<and> (\<forall>a \<in> zone_bytes y. bytes (mach w') a = bytes (mach w) a))"

lemma zone_frame_refl [simp]: "zone_frame K w w"
  by (simp add: zone_frame_def)

lemma zone_frame_trans: "zone_frame K w w' \<Longrightarrow> zone_frame K' w' w'' \<Longrightarrow> zone_frame (K \<union> K') w w''"
  unfolding zone_frame_def by (metis Un_iff)

lemma zone_frame_mono: "zone_frame K w w' \<Longrightarrow> K \<subseteq> K' \<Longrightarrow> zone_frame K' w w'"
  by (auto simp: zone_frame_def)

lemma zone_frameD:
  assumes "zone_frame K w w'" "allocated_memzones w (mz_addr y) = Some y" "y \<notin> K"
  shows "allocated_memzones w' (mz_addr y) = Some y"
    and "{a ..< a + n} \<subseteq> zone_bytes y \<Longrightarrow> mem_bytes (mach w') a n = mem_bytes (mach w) a n"
proof -
  have y: "allocated_memzones w' (mz_addr y) = Some y" "\<forall>a \<in> zone_bytes y. bytes (mach w') a = bytes (mach w) a"
    using assms by (auto simp: zone_frame_def)
  then show "allocated_memzones w' (mz_addr y) = Some y" by simp
  show "{a ..< a + n} \<subseteq> zone_bytes y \<Longrightarrow> mem_bytes (mach w') a n = mem_bytes (mach w) a n"
    by (rule mem_bytes_cong) (use y(2) in \<open>auto simp: subset_iff\<close>)
qed

text \<open>A change inside one area that other zones do not touch.\<close>

lemma zone_frame_area:
  assumes "\<forall>a. a \<notin> B \<longrightarrow> bytes (mach w') a = bytes (mach w) a" "allocated_memzones w' = allocated_memzones w"
    and "mz_ok P w" "allocated_memzones w (mz_addr z) = Some z" "B \<subseteq> zone_bytes z"
  shows "zone_frame {z} w w'"
  unfolding zone_frame_def
proof (intro allI impI conjI ballI)
  fix y a assume y: "allocated_memzones w (mz_addr y) = Some y" "y \<notin> {z}"
  show "allocated_memzones w' (mz_addr y) = Some y" using y(1) assms(2) by simp
  assume "a \<in> zone_bytes y"
  moreover have "mz_addr y \<noteq> mz_addr z" using y assms(4) by auto
  ultimately have "a \<notin> B" using mz_ok_disjoint [OF assms(3) y(1) assms(4)] assms(5) by blast
  then show "bytes (mach w') a = bytes (mach w) a" using assms(1) by blast
qed

subsection \<open>Allocating and releasing a buffer\<close>

text \<open>A buffer at the start of a zone of its own.\<close>

definition on_zone :: "'w world \<Rightarrow> memzone \<Rightarrow> buffer \<Rightarrow> bool" where
  "on_zone w z b \<longleftrightarrow> allocated_memzones w (mz_addr z) = Some z \<and> buf_data b = mz_addr z \<and>
     0 < buf_capacity b \<and> buf_size b \<le> buf_capacity b \<and> buf_capacity b \<le> mz_len z"

lemma on_zone_bytes: "on_zone w z b \<Longrightarrow> n \<le> buf_capacity b \<Longrightarrow> {buf_data b ..< buf_data b + n} \<subseteq> zone_bytes z"
  by (auto simp: on_zone_def zone_bytes_def)

lemma on_zone_frame: "on_zone w z b \<Longrightarrow> zone_frame K w w' \<Longrightarrow> z \<notin> K \<Longrightarrow> on_zone w' z b"
  by (auto simp: on_zone_def zone_frame_def)

lemma buffer_allocated:
  assumes "allocates P alloc" "mz_ok P w" "zone_frame_laws P" "\<And>L. one_more P L" "0 < sz" "sz \<le> 2 ^ 62"
  obtains b z w' where "alloc sz rtememzone_pool w = (Inr b, w')" "buf_size b = nat sz" "on_zone w' z b"
    "allocated_memzones w (mz_addr z) = None" "mz_ok P w'" "same_queues P (mach w) (mach w')" "zone_frame {} w w'"
proof -
  obtain cap where cap: "sz \<le> cap" "cap < 2 ^ 63" and alloc: "alloc sz rtememzone_pool w =
      (case pool_Allocate (NDEBUG P) (RtememzoneMemoryPool P) cap kDefaultBufferAlignment nullptr w of
         (Inl e, _, w) \<Rightarrow> (Inl e, w)
       | (Inr _, a, w) \<Rightarrow> (Inr \<lparr>buf_data = a, buf_size = nat sz, buf_capacity = nat cap\<rparr>, w))"
    using assms(1) [unfolded allocates_def, rule_format, of sz w] assms(5,6) by auto
  obtain r a w' where raw: "pool_Allocate (NDEBUG P) (RtememzoneMemoryPool P) cap kDefaultBufferAlignment nullptr w = (r, a, w')"
    by (metis prod_cases3)
  have "0 < cap" using assms(5) cap(1) by simp
  note M = pool_memzone [OF assms(2,3) this cap(2) raw]
  then obtain u where r: "r = Inr u" using assms(4) by (cases r) auto
  obtain z where z: "a = mz_addr z" "allocated_memzones w a = None" "allocated_memzones w' = (allocated_memzones w)(a \<mapsto> z)"
    "nat cap \<le> mz_len z" "mz_ok P w'" "mem_step P (zone_bytes z) w w'" using M r by auto
  let ?b = "\<lparr>buf_data = a, buf_size = nat sz, buf_capacity = nat cap\<rparr>"
  show thesis
  proof (rule that)
    show "alloc sz rtememzone_pool w = (Inr ?b, w')" using alloc raw r by simp
    show "on_zone w' z ?b" using z(1,3,4) cap(1) \<open>0 < cap\<close> by (simp add: on_zone_def)
    show "same_queues P (mach w) (mach w')" using z(6) by (simp add: mem_step_def)
    show "zone_frame {} w w'"
      unfolding zone_frame_def
    proof (intro allI impI conjI ballI)
      fix y x assume y: "allocated_memzones w (mz_addr y) = Some y"
      have ne: "mz_addr y \<noteq> a" using y z(2) by auto
      then show t: "allocated_memzones w' (mz_addr y) = Some y" using y z(3) by simp
      assume "x \<in> zone_bytes y"
      moreover have "allocated_memzones w' a = Some z" using z(3) by simp
      ultimately have "x \<notin> zone_bytes z" using mz_ok_disjoint [OF z(5) t] ne by blast
      then show "bytes (mach w') x = bytes (mach w) x" using z(6) by (simp add: mem_step_def)
    qed
  qed (use z in simp_all)
qed

lemma buffer_released:
  assumes "arrow_laws P A" "mz_ok P w" "zone_frame_laws P" "on_zone w z b"
  defines "w' \<equiv> release_buffer A b rtememzone_pool w"
  shows "mz_ok P w'" "same_queues P (mach w) (mach w')" "zone_frame {z} w w'"
    "allocated_memzones w' = (allocated_memzones w)(mz_addr z := None)"
proof -
  have b: "allocated_memzones w (mz_addr z) = Some z" "buf_data b = mz_addr z" "0 < int (buf_capacity b)"
    "nat (int (buf_capacity b)) \<le> mz_len z" using assms(4) by (simp_all add: on_zone_def)
  have w': "w' = snd (pool_Free (NDEBUG P) (RtememzoneMemoryPool P) (mz_addr z) (int (buf_capacity b)) kDefaultBufferAlignment w)"
    using assms(1) b(2) by (simp add: arrow_laws_def w'_def)
  note F = pool_memzone_free [where al = kDefaultBufferAlignment, OF assms(2,3) b(1,3,4), folded w']
  show "mz_ok P w'" "same_queues P (mach w) (mach w')"
    "allocated_memzones w' = (allocated_memzones w)(mz_addr z := None)" by (rule F)+
  show "zone_frame {z} w w'"
    unfolding zone_frame_def
  proof (intro allI impI conjI ballI)
    fix y a assume y: "allocated_memzones w (mz_addr y) = Some y" "y \<notin> {z}"
    have ne: "mz_addr y \<noteq> mz_addr z" using y b(1) by auto
    then show "allocated_memzones w' (mz_addr y) = Some y" using F(2) y(1) by simp
    assume "a \<in> zone_bytes y"
    then have "a \<notin> zone_bytes z" using mz_ok_disjoint [OF assms(2) y(1) b(1) ne] by blast
    then show "bytes (mach w') a = bytes (mach w) a" by (rule F(4))
  qed
qed

lemma same_queues_trans: "same_queues P m m' \<Longrightarrow> same_queues P m' m'' \<Longrightarrow> same_queues P m m''"
  by (simp add: same_queues_def)

lemma buffers_released:
  assumes "arrow_laws P A" "zone_frame_laws P"
    and "mz_ok P w" "list_all2 (on_zone w) zs bs" "distinct zs"
  defines "w' \<equiv> release_all A (map Some bs) w"
  shows "mz_ok P w' \<and> same_queues P (mach w) (mach w') \<and> zone_frame (set zs) w w'"
  unfolding w'_def using assms(3-5)
proof (induction zs bs arbitrary: w rule: list_induct2')
  case (4 z zs b bs)
  let ?w = "release_buffer A b rtememzone_pool w"
  have z: "on_zone w z b" using 4(3) by simp
  note R = buffer_released [OF assms(1) 4(2) assms(2) z]
  have "list_all2 (on_zone w) zs bs" "z \<notin> set zs" using 4(3,4) by simp_all
  from this(1) have "list_all2 (on_zone ?w) zs bs"
    by (rule list.rel_mono_strong) (use on_zone_frame [OF _ R(3)] \<open>z \<notin> set zs\<close> in blast)
  from 4(1) [OF R(1) this] 4(4)
  have IH: "mz_ok P (release_all A (map Some bs) ?w)" "same_queues P (mach ?w) (mach (release_all A (map Some bs) ?w))"
    "zone_frame (set zs) ?w (release_all A (map Some bs) ?w)" by simp_all
  have step: "release_all A (map Some (b # bs)) w = release_all A (map Some bs) ?w" by (simp add: release_all_def)
  show ?case
    unfolding step using IH(1) same_queues_trans [OF R(2) IH(2)] zone_frame_trans [OF R(3) IH(3)] by simp
qed (simp_all add: release_all_def same_queues_def)

subsection \<open>Copying into a buffer\<close>

lemma memcpy_into:
  assumes "mz_ok P w" "on_zone w z b" "n \<le> buf_capacity b"
    and "allocated_memzones w (mz_addr y) = Some y" "{a ..< a + n} \<subseteq> zone_bytes y" "y \<noteq> z"
  defines "w' \<equiv> w\<lparr>mach := rte_memcpy P (buf_data b) a n (mach w)\<rparr>"
  shows "mz_ok P w'" "same_queues P (mach w) (mach w')" "zone_frame {z} w w'"
    "mem_bytes (mach w') (buf_data b) n = mem_bytes (mach w) a n"
proof -
  have z: "allocated_memzones w (mz_addr z) = Some z" using assms(2) by (simp add: on_zone_def)
  have "mz_addr y \<noteq> mz_addr z" using z assms(4,6) by auto
  from mz_ok_disjoint [OF assms(1,4) z this] on_zone_bytes [OF assms(2,3)] assms(5)
  have "{buf_data b ..< buf_data b + n} \<inter> {a ..< a + n} = {}" by blast
  moreover have "memcpy_laws P" using assms(1) by (simp add: mz_ok_def)
  ultimately have m: "rte_memcpy P (buf_data b) a n (mach w) = (mach w)\<lparr>bytes :=
      (\<lambda>x. if buf_data b \<le> x \<and> x < buf_data b + n then bytes (mach w) (a + (x - buf_data b)) else bytes (mach w) x)\<rparr>"
    by (intro memcpy_disjoint)
  show "mz_ok P w'" "same_queues P (mach w) (mach w')"
    using assms(1) m by (simp_all add: w'_def mz_ok_def same_queues_def)
  show "zone_frame {z} w w'"
    by (rule zone_frame_area [OF _ _ assms(1) z on_zone_bytes [OF assms(2,3)]]) (simp_all add: w'_def m)
  show "mem_bytes (mach w') (buf_data b) n = mem_bytes (mach w) a n"
    by (simp add: w'_def m mem_bytes_def)
qed

end
