(* ===== verification/Bitar_Parallel.thy ===== *)
theory Bitar_Parallel
  imports Bitar_Zones
begin

text \<open>
  Calls on all queue pairs of one device: what each of them keeps of the others, of the buffers
  they work on and of the memzones of the device.
\<close>

subsection \<open>An even split\<close>

definition split_size :: "nat \<Rightarrow> nat \<Rightarrow> nat \<Rightarrow> nat" where
  "split_size len n i = len div n + (if i < len mod n then 1 else 0)"

definition split_offset :: "nat \<Rightarrow> nat \<Rightarrow> nat \<Rightarrow> nat" where
  "split_offset len n i = i * (len div n) + min i (len mod n)"

definition split_segment :: "'a list \<Rightarrow> nat \<Rightarrow> nat \<Rightarrow> 'a list" where
  "split_segment xs n i = take (split_size (length xs) n i) (drop (split_offset (length xs) n i) xs)"

lemma split_offset_0 [simp]: "split_offset len n 0 = 0"
  by (simp add: split_offset_def)

lemma split_offset_Suc: "split_offset len n (Suc i) = split_offset len n i + split_size len n i"
  by (auto simp: split_offset_def split_size_def min_def)

lemma sum_split_sizes: "sum_list (map (split_size len m) [0..<k]) = split_offset len m k"
  by (induction k) (simp_all add: split_offset_Suc)

lemma split_offset_all: "0 < n \<Longrightarrow> split_offset len n n = len"
  by (simp add: split_offset_def min.absorb2 less_imp_le)

lemma split_offset_mono: "i \<le> j \<Longrightarrow> split_offset len n i \<le> split_offset len n j"
  by (simp add: split_offset_def add_mono min.coboundedI1)

lemma split_within:
  assumes "i < n"
  shows "split_offset len n i + split_size len n i \<le> len"
  using split_offset_mono [of "Suc i" n len n] assms by (simp add: split_offset_Suc split_offset_all)

lemma length_split_segment [simp]: "i < n \<Longrightarrow> length (split_segment xs n i) = split_size (length xs) n i"
  using split_within [of i n "length xs"] by (simp add: split_segment_def)

lemma split_size_pos: "0 < n \<Longrightarrow> n \<le> len \<Longrightarrow> 0 < split_size len n i"
  by (simp add: split_size_def div_greater_zero_iff)

lemma split_size_le: "i < n \<Longrightarrow> split_size len n i \<le> len"
  using split_within [of i n len] by simp

lemma concat_split: "k \<le> n \<Longrightarrow> concat (map (split_segment xs n) [0..<k]) = take (split_offset (length xs) n k) xs"
proof (induction k)
  case (Suc k)
  then show ?case
    by (simp add: split_offset_Suc split_segment_def take_add)
qed simp

subsection \<open>Buffers with a part of the input, and compressed buffers\<close>

definition packed_segment ::
  "('w, 'p) dpdk_scheme \<Rightarrow> configuration \<Rightarrow> 'w machine \<Rightarrow> u8 list \<Rightarrow> memzone list \<Rightarrow> buffer list \<Rightarrow> bool" where
  "packed_segment P c m xs zs bufs \<longleftrightarrow> map (stored m) bufs = compressed_form P c xs \<and> list_all2 filled zs bufs"

lemma packed_segment_frame:
  assumes "packed_segment P c (mach w) xs zs bufs" "zone_frame K w w'" "set zs \<inter> K = {}"
    and "\<And>z. z \<in> set zs \<Longrightarrow> allocated_memzones w (mz_addr z) = Some z"
  shows "packed_segment P c (mach w') xs zs bufs"
proof -
  have "stored (mach w') x = stored (mach w) x" if x: "x \<in> set bufs" for x
  proof -
    have "list_all2 filled zs bufs" using assms(1) by (simp add: packed_segment_def)
    then obtain z where z: "z \<in> set zs" "filled z x" using filled_in x by blast
    have "z \<notin> K" using z(1) assms(3) by blast
    from zone_frameD(2) [OF assms(2) assms(4) [OF z(1)] this] show ?thesis
      using z(2) unfolding stored_def filled_def by blast
  qed
  then have "map (stored (mach w')) bufs = map (stored (mach w)) bufs" by simp
  then show ?thesis using assms(1) by (simp add: packed_segment_def del: map_eq_conv)
qed

text \<open>What the queue pairs hold of the memzones of the device, beside \<open>H\<close>.\<close>

definition stocked :: "nat \<Rightarrow> memzone set \<Rightarrow> (nat \<Rightarrow> memzone list) \<Rightarrow> device_memory \<Rightarrow> 'w world \<Rightarrow> bool" where
  "stocked n H zss dm w \<longleftrightarrow> dm_held (dm, w) = H \<union> (\<Union>i < n. set (zss i)) \<and>
     (\<forall>i < n. distinct (zss i) \<and> set (zss i) \<inter> H = {}) \<and>
     (\<forall>i < n. \<forall>j < n. i \<noteq> j \<longrightarrow> set (zss i) \<inter> set (zss j) = {})"

lemma stocked_add:
  assumes "stocked n H zss dm w" "i < n" "zss i = []" "distinct zs" "set zs \<inter> dm_held (dm, w) = {}"
    and "dm_held (dm', w') = dm_held (dm, w) \<union> set zs"
  shows "stocked n H (zss(i := zs)) dm' w'"
proof -
  have split: "(\<Union>j < n. set ((zss(i := zs)) j)) = (\<Union>j < n. set (zss j)) \<union> set zs"
  proof (intro set_eqI iffI)
    fix x assume "x \<in> (\<Union>j < n. set (zss j)) \<union> set zs"
    then consider j where "j < n" "x \<in> set (zss j)" "j \<noteq> i" | "x \<in> set zs" using assms(3) by fastforce
    then show "x \<in> (\<Union>j < n. set ((zss(i := zs)) j))"
    proof cases
      case (1 j)
      then show ?thesis by (intro UN_I [of j]) simp_all
    next
      case 2
      then show ?thesis using assms(2) by (intro UN_I [of i]) simp_all
    qed
  qed (auto split: if_splits)
  have apart: "set zs \<inter> H = {}" "\<And>j. j < n \<Longrightarrow> set zs \<inter> set (zss j) = {}"
    using assms(1,5) by (auto simp: stocked_def)
  show ?thesis
    unfolding stocked_def split using assms(1,4,6) apart by (auto simp: stocked_def)
qed

lemma card_held_le:
  assumes "stocked n H zss dm w" "i < n" "zss i = []" "\<And>j. j < n \<Longrightarrow> length (zss j) \<le> f j"
  shows "card (dm_held (dm, w)) + f i \<le> card H + (\<Sum>j < n. f j)"
proof -
  have "card (dm_held (dm, w)) \<le> card H + card (\<Union>j < n. set (zss j))"
    using assms(1) by (simp add: stocked_def card_Un_le)
  also have "card (\<Union>j < n. set (zss j)) \<le> (\<Sum>j < n. card (set (zss j)))" by (rule card_UN_le) simp
  also have "\<dots> = (\<Sum>j \<in> {..<n} - {i}. card (set (zss j)))"
    using assms(2,3) by (simp add: sum.remove [of "{..<n}" i])
  also have "\<dots> \<le> (\<Sum>j \<in> {..<n} - {i}. f j)"
    using assms(4) by (intro sum_mono) (meson DiffD1 card_length lessThan_iff order_trans)
  finally show ?thesis using assms(2) by (simp add: sum.remove [of "{..<n}" i])
qed

subsection \<open>The session\<close>

locale async_session =
  fixes P :: "('w, 'p) dpdk_scheme" and A :: "'w arrow" and E :: "('l, 'w app) launcher" and W :: "u32 set"
    and V :: "u8 set \<Rightarrow> u8 list" and c :: configuration and patience :: "'w \<Rightarrow> nat" and n :: nat and lc :: "u32 list"
    and b :: buffer and zb :: memzone and input :: "u8 list" and H :: "memzone set" and Z :: "memzone_ptr set"
  assumes laws: "compress_laws P c" "one_segment c" "queue_frame_laws P" and prompt: "prompt P patience"
    and arrow: "arrow_laws P A" and launcher: "launcher_laws E W" and visits: "V {0} = [0]"
    and seg: "unat (decompressed_seg_size c) \<le> kDecompressedSegSize" and short: "length input < 2 ^ 40"
    and device: "faultless P" "compress_fits P c" "one_more P L"
    and zones: "Some z \<in> Z \<Longrightarrow> mz_len z < 65536" "Some zb \<notin> Z"
      "{buf_data b ..< buf_data b + length input} \<subseteq> zone_bytes zb"
    and stock: "card H + (\<Sum>i < n. ceil_div (length (split_segment input n i)) (unat (decompressed_seg_size c))) \<le> card Z"
    and lcores: "0 < n" "n \<le> length lc" "length lc < 65536" "distinct (take n lc)" "set (take n lc) \<subseteq> W"
    and big: "n \<le> length input" "buf_size b = length input"
begin

abbreviation "seg_at i \<equiv> split_segment input n i"
abbreviation "sg \<equiv> unat (decompressed_seg_size c)"

definition all_ready :: "device_memory \<Rightarrow> 'w dev_state \<Rightarrow> bool" where
  "all_ready dm t \<longleftrightarrow> device_id (dev t) = 0 \<and> worker_lcores (dev t) = lc \<and>
     (\<forall>q < n. calls_ready P c (word_of_nat q) dm t) \<and> set (dm_all dm) = Z \<and>
     allocated_memzones (env t) (mz_addr zb) = Some zb \<and>
     mem_bytes (mach (env t)) (buf_data b) (length input) = input"

lemma library: "zone_frame_laws P" "library_frame P"
  using laws by (auto simp: compress_laws_def intro!: library_frame.intro)

lemma sg_pos: "0 < sg" using laws(2) by (simp add: one_segment_def word_less_nat_alt)

lemma all_ready_dm: "all_ready dm t \<Longrightarrow> dm_ok P c (dm, env t) \<and> mz_ok P (env t) \<and> device_mem (dev t) = Some dm"
  using lcores(1) by (auto simp: all_ready_def calls_ready_def dm_ok_def)

lemma qp_word: "i < n \<Longrightarrow> j < n \<Longrightarrow> i \<noteq> j \<Longrightarrow> (word_of_nat i :: u16) \<noteq> word_of_nat j"
  using lcores(2,3) by (simp add: word_of_nat_eq_iff take_bit_nat_eq_self)

text \<open>Zones of the device are tracked; those of the process outside of it are others.\<close>

lemma zone_of_device: "all_ready dm t \<Longrightarrow> Some z \<in> Z \<Longrightarrow> allocated_memzones (env t) (mz_addr z) = Some z"
  using dm_tracked [of P c dm "env t" z] all_ready_dm [of dm t] by (simp add: all_ready_def)

lemma held_in_Z: "all_ready dm t \<Longrightarrow> z \<in> dm_held (dm, env t) \<Longrightarrow> Some z \<in> Z"
  by (auto simp: all_ready_def dm_held_def dm_all_def)

text \<open>The process may change outside of the device and of the input.\<close>

lemma all_ready_world:
  assumes "all_ready dm t" "mz_ok P w" "same_queues P (mach (env t)) (mach w)" "zone_frame K (env t) w"
    and "zb \<notin> K" "\<And>z. z \<in> K \<Longrightarrow> Some z \<notin> Z"
  shows "all_ready dm (t\<lparr>env := w\<rparr>)"
proof -
  have zb: "allocated_memzones (env t) (mz_addr zb) = Some zb" using assms(1) by (simp add: all_ready_def)
  have "allocated_memzones w (mz_addr z) = Some z" if z: "Some z \<in> set (dm_all dm)" for z
  proof -
    have "Some z \<in> Z" using z assms(1) by (simp add: all_ready_def)
    then show ?thesis using zone_frameD(1) [OF assms(4) zone_of_device [OF assms(1)]] assms(6) by blast
  qed
  then have "calls_ready P c (word_of_nat q) dm (t\<lparr>env := w\<rparr>)" if "q < n" for q
    using assms(1) that by (intro calls_ready_env assms(2,3)) (simp_all add: all_ready_def)
  then show ?thesis
    using assms(1) zone_frameD(1) [OF assms(4) zb assms(5)] zone_frameD(2) [OF assms(4) zb assms(5) zones(3)]
    by (simp add: all_ready_def)
qed

lemma call_frame:
  assumes "one_call P q t u" "mz_ok P (env u)" "\<And>z. z \<in> K \<Longrightarrow> allocated_memzones (env u) (mz_addr z) = Some z"
    and "\<And>a. (\<And>z. z \<in> K \<Longrightarrow> a \<notin> zone_bytes z) \<Longrightarrow> bytes (mach (env u)) a = bytes (mach (env t)) a"
  shows "zone_frame K (env t) (env u)"
  unfolding zone_frame_def
proof (intro allI impI conjI ballI)
  fix y a assume y: "allocated_memzones (env t) (mz_addr y) = Some y" "y \<notin> K"
  show t: "allocated_memzones (env u) (mz_addr y) = Some y"
    using assms(1) y(1) unfolding one_call_def elsewhere_def map_le_def by (metis domI)
  assume a: "a \<in> zone_bytes y"
  have "a \<notin> zone_bytes z" if z: "z \<in> K" for z
  proof -
    have "mz_addr y \<noteq> mz_addr z" using assms(3) [OF z] t z y(2) by auto
    then show ?thesis using mz_ok_disjoint [OF assms(2) t assms(3) [OF z]] a by blast
  qed
  then show "bytes (mach (env u)) a = bytes (mach (env t)) a" by (rule assms(4))
qed

lemma all_ready_call:
  assumes ready: "all_ready dm t" and i: "i < n" and call: "one_call P (word_of_nat i) t u"
    and own: "calls_ready P c (word_of_nat i) dm' u" and stock: "set (dm_all dm') = Z"
    and frame: "zone_frame K (env t) (env u)" "zb \<notin> K"
  shows "all_ready dm' u"
proof -
  have dm: "device_mem (dev u) = Some dm'" "dm_ok P c (dm', env u)" using own by (simp_all add: calls_ready_def)
  have "calls_ready P c (word_of_nat q) dm' u" if q: "q < n" for q
  proof (cases "q = i")
    case False
    have "calls_ready P c (word_of_nat q) dm t" using ready q by (simp add: all_ready_def)
    then show ?thesis by (rule other_calls_ready [OF call qp_word [OF q i False] _ dm])
  qed (use own in simp)
  moreover have zb: "allocated_memzones (env t) (mz_addr zb) = Some zb" using ready by (simp add: all_ready_def)
  ultimately show ?thesis
    using ready call stock zone_frameD(1) [OF frame(1) zb frame(2)] zone_frameD(2) [OF frame(1) zb frame(2) zones(3)]
    by (simp add: all_ready_def one_call_def)
qed

lemma compress_call:
  assumes ready: "all_ready dm t" and i: "i < n" and held: "stocked n H zss dm (env t)" "zss i = []"
      "\<And>j. j < n \<Longrightarrow> length (zss j) \<le> ceil_div (length (seg_at j)) sg"
    and buf: "on_zone (env t) z bi" "Some z \<notin> Z" "buf_size bi = length (seg_at i)"
      "mem_bytes (mach (env t)) (buf_data bi) (length (seg_at i)) = seg_at i"
  obtains bufs u dm' zs where "Compress P (word_of_nat i) (Some bi) t = Some (Inr bufs, u)" "all_ready dm' u"
    "stocked n H (zss(i := zs)) dm' (env u)" "packed_segment P c (mach (env u)) (seg_at i) zs bufs"
    "zone_frame (set zs) (env t) (env u)" "\<And>z. z \<in> set zs \<Longrightarrow> Some z \<in> Z \<and> z \<notin> dm_held (dm, env t)"
    "length zs = ceil_div (length (seg_at i)) sg"
proof -
  note D = all_ready_dm [OF ready]
  have "0 < length (seg_at i)" using i split_size_pos [OF lcores(1) big(1)] by simp
  then have pos: "seg_at i \<noteq> []" by blast
  have Zs: "set (dm_all dm) = Z" using ready by (simp add: all_ready_def)
  have cr: "compress_ready P c (word_of_nat i) bi (seg_at i) dm t"
    using ready i pos buf on_zone_bytes [OF buf(1), of "length (seg_at i)"] Zs
    by (auto simp: compress_ready_def all_ready_def foreign_def qp_view_def on_zone_def intro!: exI [of _ z])
  have "card (dm_held (dm, env t)) + ceil_div (length (seg_at i)) sg \<le> card Z"
    using card_held_le [OF held(1) i held(2,3)] stock by linarith
  then have smooth: "compress_smooth P c (seg_at i) dm"
    using device zones(1) dm_stock [of P c dm "env t"] D Zs by (auto simp: compress_smooth_def narrow_def)
  note C = Compress_ok [OF laws(1,2) cr]
  obtain r u where ru: "Compress P (word_of_nat i) (Some bi) t = Some (r, u)" using C(2) [OF prompt] by fast
  then obtain bufs where r: "r = Inr bufs" using pwp_Inl [OF C(1)] smooth by (cases r) auto
  from pwp_Inr [OF C(1) ru [unfolded r]] smooth obtain dm' zs where
    out: "map (stored (mach (env u))) bufs = compressed_form P c (seg_at i)"
      "compress_ready P c (word_of_nat i) bi (seg_at i) dm' u" "list_all2 filled zs bufs" "distinct zs"
      "set zs \<inter> dm_held (dm, env t) = {}" "dm_held (dm', env u) = dm_held (dm, env t) \<union> set zs"
      "only_new_zones P (mach (env t)) (set zs) (mach (env u))" "set (dm_all dm') = Z"
    unfolding compressed_form_def stored_def [abs_def] Zs by blast
  have own: "calls_ready P c (word_of_nat i) dm' u" "dm_ok P c (dm', env u)" "mz_ok P (env u)"
    using out(2) by (simp_all add: compress_ready_def calls_ready_def dm_ok_def)
  have inZ: "Some z \<in> Z" if "z \<in> set zs" for z
    using that out(6,8) by (auto simp: dm_held_def dm_all_def)
  have call: "one_call P (word_of_nat i) t u"
    using library_frame.one_call_Compress [OF library(2)] ru unfolding pkeeps_to_def by blast
  have frame: "zone_frame (set zs) (env t) (env u)"
  proof (rule call_frame [OF call own(3)])
    show "allocated_memzones (env u) (mz_addr z) = Some z" if "z \<in> set zs" for z
      using dm_tracked [OF own(2)] inZ [OF that] out(8) by blast
  qed (use out(7) in \<open>auto simp: only_new_zones_def\<close>)
  show thesis
  proof (rule that)
    show "Compress P (word_of_nat i) (Some bi) t = Some (Inr bufs, u)" using ru r by simp
    show "all_ready dm' u"
      by (rule all_ready_call [OF ready i call own(1) out(8) frame]) (use inZ zones(2) in blast)
    show "stocked n H (zss(i := zs)) dm' (env u)" by (rule stocked_add [OF held(1) i held(2) out(4-6)])
    show "packed_segment P c (mach (env u)) (seg_at i) zs bufs" using out(1,3) by (simp add: packed_segment_def)
    show "length zs = ceil_div (length (seg_at i)) sg"
      using arg_cong [OF out(1), of length] list_all2_lengthD [OF out(3)] by (simp add: compressed_form_def segments_def)
  qed (use inZ out(5) frame in auto)
qed

lemma decompress_call:
  assumes ready: "all_ready dm t" and i: "i < n" and bufs: "packed_segment P c (mach (env t)) (seg_at i) zs bufs"
      "set zs \<subseteq> dm_held (dm, env t)"
    and out: "on_zone (env t) z b'" "Some z \<notin> Z" "z \<noteq> zb" "length bufs * sg \<le> buf_capacity b'"
  obtains u where "Decompress P (word_of_nat i) bufs (Some b') t = Some (Inr (Some (int (length (seg_at i)))), u)"
    "all_ready dm u" "dm_held (dm, env u) = dm_held (dm, env t)" "zone_frame {z} (env t) (env u)"
    "mem_bytes (mach (env u)) (buf_data b') (length (seg_at i)) = seg_at i"
    "allocated_memzones (env u) = allocated_memzones (env t)"
proof -
  note D = all_ready_dm [OF ready]
  have form: "map (stored (mach (env t))) bufs = compressed_form P c (seg_at i)" "list_all2 filled zs bufs"
    using bufs(1) by (simp_all add: packed_segment_def)
  have codec: "codec_laws P c" using laws(1) by (simp add: compress_laws_def)
  have zt: "allocated_memzones (env t) (mz_addr z) = Some z" using out(1) by (simp add: on_zone_def)
  have area: "output_area c bufs (buf_data b') \<subseteq> zone_bytes z"
    using on_zone_bytes [OF out(1,4)] by (simp add: output_area_def)
  have apart: "apart_output c bufs (buf_data b')"
    unfolding apart_output_def
  proof
    fix x assume "x \<in> set bufs"
    then obtain y where y: "y \<in> set zs" "filled y x" using filled_in [OF form(2)] by blast
    then have yZ: "Some y \<in> Z" using bufs(2) held_in_Z [OF ready] by blast
    have yt: "allocated_memzones (env t) (mz_addr y) = Some y" by (rule zone_of_device [OF ready yZ])
    moreover have "mz_addr y \<noteq> mz_addr z" using yt zt yZ out(2) by (metis option.inject)
    ultimately have "zone_bytes y \<inter> zone_bytes z = {}"
      using mz_ok_disjoint [of P "env t" "mz_addr y" y "mz_addr z" z] zt D by simp
    moreover have "buffer_bytes x \<subseteq> zone_bytes y"
      using y(2) unfolding filled_def buffer_bytes_def buffer_area_def
      by (elim conjE) (simp add: unat_of_nat take_bit_nat_eq_self del: ivl_subset)
    ultimately show "buffer_bytes x \<inter> output_area c bufs (buf_data b') = {}" using area by blast
  qed
  have "seg_at i \<noteq> []" using i split_size_pos [OF lcores(1) big(1), of i] length_split_segment [OF i, of input] by force
  then have "0 < length bufs"
    using arg_cong [OF form(1), of length] sg_pos by (simp add: compressed_form_def segments_def ceil_div_pos)
  moreover have "\<forall>x \<in> set bufs. buf_size x < 65536" using filled_in [OF form(2)] by (auto simp: filled_def)
  ultimately have dr: "decompress_ready P c (word_of_nat i) bufs b' dm t"
    using ready i apart out(4) by (simp add: decompress_ready_def all_ready_def)
  have smooth: "decompress_smooth P c (mach (env t)) bufs"
    by (rule decompress_compressed_smooth [OF codec device(1) form(1)])
  note X = Decompress_ok [OF laws(1,2) dr]
  obtain r u where ru: "Decompress P (word_of_nat i) bufs (Some b') t = Some (r, u)" using X(2) [OF prompt] by fast
  then obtain sz where r: "r = Inr sz" using pwp_Inl [OF X(1)] smooth by (cases r) auto
  note whole = decompressed_back [OF codec sg_pos form(1)]
  from pwp_Inr [OF X(1) ru [unfolded r]]
  have o: "sz = Some (int (length (seg_at i)))" "mem_bytes (mach (env u)) (buf_data b') (length (seg_at i)) = seg_at i"
    "\<forall>a. a \<notin> output_area c bufs (buf_data b') \<longrightarrow> bytes (mach (env u)) a = bytes (mach (env t)) a"
    "allocated_memzones (env u) = allocated_memzones (env t)" "calls_ready P c (word_of_nat i) dm u"
    unfolding whole(1) decompress_ready_def by (auto intro: whole(2))
  have call: "one_call P (word_of_nat i) t u"
    using library_frame.one_call_Decompress [OF library(2)] ru unfolding pkeeps_to_def by blast
  have frame: "zone_frame {z} (env t) (env u)" by (rule zone_frame_area [OF o(3,4) _ zt area]) (use D in blast)
  show thesis
  proof (rule that)
    show "Decompress P (word_of_nat i) bufs (Some b') t = Some (Inr (Some (int (length (seg_at i)))), u)" using ru r o(1) by simp
    show "all_ready dm u"
      by (rule all_ready_call [OF ready i call o(5) _ frame]) (use ready out(3) in \<open>auto simp: all_ready_def\<close>)
  qed (use o(2,4) frame in \<open>simp_all add: dm_held_def\<close>)
qed

end

end
