(* ===== verification/Bitar_Rounds.thy ===== *)
theory Bitar_Rounds
  imports Bitar_Parallel
begin

text \<open>
  The asynchronous test of the application on one device, up to its compressions: the invariant
  of a round, in which the calls on the lcores run in any order, what recycling the results gives
  back, and the copies of the segments of the input.
\<close>

subsection \<open>One device\<close>

lemma on_device_single:
  assumes "devices s = [dv]"
  shows "on_device 0 m s = map_option (\<lambda>(r, t). (r, s\<lparr>devices := [dev t], app_world := env t\<rparr>)) (m \<lparr>dev = dv, env = app_world s\<rparr>)"
  using assms by (auto simp: on_device_def split: option.split)

lemma dev_state_eta [simp]: "\<lparr>dev = dev u, env = env u\<rparr> = (u :: 'w dev_state)"
  by (cases u) simp

lemma with_devices: "pseq (total (get (\<lambda>(l, s). devices s))) f (l, s) = f (devices s) (l, s)"
  by (simp add: pseq_def)

lemma queue_pairs_single: "queue_pairs [dv] = map (Pair 0) [0..<length (worker_lcores dv)]"
  by (simp add: queue_pairs_def)

lemma lcores_in_use_single:
  assumes "n \<le> length (worker_lcores dv)"
  shows "lcores_in_use [dv] n = take n (worker_lcores dv)"
  by (rule nth_equalityI) (use assms in \<open>simp_all add: lcores_in_use_def queue_pairs_single\<close>)

text \<open>The jobs of the queue pairs of the one device.\<close>

definition compress_job :: "('w, 'p) dpdk_scheme \<Rightarrow> nat \<Rightarrow> ('w app, int) pcode" where
  "compress_job P i = LcoreCompressFunc P
     \<lparr>cp_device = 0, cp_queue_pair_id = word_of_nat i, cp_decompressed_buffer = (\<lambda>s. input_vector s ! i),
      cp_result_callback = compress_result_callback\<rparr>"

definition decompress_job :: "('w, 'p) dpdk_scheme \<Rightarrow> nat \<Rightarrow> ('w app, int) pcode" where
  "decompress_job P i = LcoreDecompressFunc P
     \<lparr>dp_device = 0, dp_queue_pair_id = word_of_nat i, dp_compressed_buffers = compressed_at 0 (word_of_nat i),
      dp_decompressed_buffer = i, dp_result_callback = decompress_result_callback\<rparr>"

context async_session begin

abbreviation "device_of s \<equiv> \<lparr>dev = hd (devices s), env = app_world s\<rparr>"
abbreviation "need i \<equiv> ceil_div (length (seg_at i)) sg"

definition one_device :: "device_memory \<Rightarrow> 'w app \<Rightarrow> bool" where
  "one_device dm s \<longleftrightarrow> length (devices s) = 1 \<and> all_ready dm (device_of s)"

lemma one_deviceD:
  assumes "one_device dm s"
  obtains dv where "devices s = [dv]" "worker_lcores dv = lc" "device_id dv = 0" "all_ready dm \<lparr>dev = dv, env = app_world s\<rparr>"
  using assms by (auto simp: one_device_def all_ready_def length_Suc_conv)

lemma unat_qp: "i < n \<Longrightarrow> unat (word_of_nat i :: u16) = i"
  using lcores(2,3) by (simp add: unat_of_nat take_bit_nat_eq_self)

subsection \<open>A round of compressions\<close>

text \<open>Buffers over zones outside of the device.\<close>

definition held_buffers :: "'w world \<Rightarrow> memzone list \<Rightarrow> buffer list \<Rightarrow> bool" where
  "held_buffers w zs bs \<longleftrightarrow> list_all2 (on_zone w) zs bs \<and> distinct zs \<and> zb \<notin> set zs \<and> (\<forall>z \<in> set zs. Some z \<notin> Z)"

definition input_segments :: "'w world \<Rightarrow> buffer list \<Rightarrow> bool" where
  "input_segments w bs \<longleftrightarrow> (\<forall>i < length bs. buf_size (bs ! i) = length (seg_at i) \<and>
     mem_bytes (mach w) (buf_data (bs ! i)) (length (seg_at i)) = seg_at i)"

lemma held_nth:
  assumes "held_buffers w zs bs" "i < length bs"
  shows "on_zone w (zs ! i) (bs ! i)" "zs ! i \<in> set zs" "Some (zs ! i) \<notin> Z" "zs ! i \<noteq> zb"
proof -
  have l: "length zs = length bs" using assms(1) by (auto simp: held_buffers_def dest: list_all2_lengthD)
  then show "zs ! i \<in> set zs" using assms(2) by simp
  then show "Some (zs ! i) \<notin> Z" "zs ! i \<noteq> zb" using assms(1) by (auto simp: held_buffers_def)
  show "on_zone w (zs ! i) (bs ! i)" using assms l by (simp add: held_buffers_def list_all2_nthD2)
qed

lemma held_buffers_frame:
  assumes "held_buffers w zs bs" "zone_frame K w w'" "set zs \<inter> K = {}"
  shows "held_buffers w' zs bs"
proof -
  have "list_all2 (on_zone w') zs bs"
    using assms(1) unfolding held_buffers_def
    by (elim conjE, elim list.rel_mono_strong) (use on_zone_frame [OF _ assms(2)] assms(3) in blast)
  then show ?thesis using assms(1) by (simp add: held_buffers_def)
qed

lemma held_bytes_frame:
  assumes "held_buffers w zs bs" "zone_frame K w w'" "i < length bs" "zs ! i \<notin> K" "k \<le> buf_capacity (bs ! i)"
  shows "mem_bytes (mach w') (buf_data (bs ! i)) k = mem_bytes (mach w) (buf_data (bs ! i)) k"
proof -
  note z = held_nth(1) [OF assms(1,3)]
  then have "allocated_memzones w (mz_addr (zs ! i)) = Some (zs ! i)" by (simp add: on_zone_def)
  from zone_frameD(2) [OF assms(2) this assms(4) on_zone_bytes [OF z assms(5)]] show ?thesis .
qed

lemma input_segments_frame:
  assumes "input_segments w bs" "held_buffers w zs bs" "zone_frame K w w'" "set zs \<inter> K = {}"
  shows "input_segments w' bs"
  unfolding input_segments_def
proof (intro conjI allI impI)
  fix i assume i: "i < length bs"
  then show s: "buf_size (bs ! i) = length (seg_at i)" using assms(1) by (simp add: input_segments_def)
  have z: "on_zone w (zs ! i) (bs ! i)" "zs ! i \<notin> K" using held_nth [OF assms(2) i] assms(4) by auto
  then have "length (seg_at i) \<le> buf_capacity (bs ! i)" using s by (simp add: on_zone_def)
  then have "mem_bytes (mach w') (buf_data (bs ! i)) (length (seg_at i)) = mem_bytes (mach w) (buf_data (bs ! i)) (length (seg_at i))"
    using i z(2) by (intro held_bytes_frame [OF assms(2,3)]) simp_all
  then show "mem_bytes (mach w') (buf_data (bs ! i)) (length (seg_at i)) = seg_at i"
    using assms(1) i by (simp add: input_segments_def)
qed

definition compressing :: "memzone list \<Rightarrow> buffer list \<Rightarrow> (u32 \<Rightarrow> int option) \<Rightarrow> 'w app \<Rightarrow> bool" where
  "compressing zi bi D s \<longleftrightarrow> (\<exists>dm zss v. one_device dm s \<and>
     held_buffers (app_world s) zi bi \<and> input_segments (app_world s) bi \<and> length bi = n \<and>
     input_vector s = map Some bi \<and> output_vector s = [] \<and> compressed_vectors s = [0 \<mapsto> v] \<and> length v = n \<and>
     stocked n H zss dm (app_world s) \<and>
     (\<forall>i < n. if D (lc ! i) = None then zss i = []
        else packed_segment P c (mach (app_world s)) (seg_at i) (zss i) (v ! i) \<and> length (zss i) = need i) \<and>
     (\<forall>i r. D i = Some r \<longrightarrow> r = kAsyncReturnOK))"

lemma lc_nth: "i < n \<Longrightarrow> j < n \<Longrightarrow> lc ! i = lc ! j \<longleftrightarrow> i = j"
  using lcores(2,4) nth_eq_iff_index_eq [of "take n lc" i j] by simp

lemma compress_job_ok:
  assumes s: "compressing zi bi D s" and i: "i < n" "D (lc ! i) = None"
  shows "\<exists>t. compress_job P i s = Some (Inr kAsyncReturnOK, t) \<and> compressing zi bi (D(lc ! i \<mapsto> kAsyncReturnOK)) t"
proof -
  let ?w = "app_world s"
  obtain dm zss v where inv: "one_device dm s" "held_buffers ?w zi bi" "input_segments ?w bi"
    "input_vector s = map Some bi" "output_vector s = []" "compressed_vectors s = [0 \<mapsto> v]" "length v = n"
    "stocked n H zss dm ?w" "\<forall>i r. D i = Some r \<longrightarrow> r = kAsyncReturnOK" "length bi = n"
    and each: "\<And>j. j < n \<Longrightarrow> if D (lc ! j) = None then zss j = []
        else packed_segment P c (mach ?w) (seg_at j) (zss j) (v ! j) \<and> length (zss j) = need j"
    using s unfolding compressing_def by blast
  obtain dv where dv: "devices s = [dv]" "device_id dv = 0" "all_ready dm \<lparr>dev = dv, env = ?w\<rparr>"
    using inv(1) by (rule one_deviceD)
  have bi: "length bi = n" "buf_size (bi ! i) = length (seg_at i)"
    "mem_bytes (mach ?w) (buf_data (bi ! i)) (length (seg_at i)) = seg_at i"
    using inv(3,10) i(1) by (simp_all add: input_segments_def)
  note z = held_nth [OF inv(2), of i, unfolded bi(1), OF i(1)]
  have zssi: "zss i = []" using each [OF i(1)] i(2) by simp
  have le: "length (zss j) \<le> need j" if "j < n" for j using each [OF that] by (auto split: if_splits)
  obtain bufs u dm' zs where C: "Compress P (word_of_nat i) (Some (bi ! i)) \<lparr>dev = dv, env = ?w\<rparr> = Some (Inr bufs, u)"
    "all_ready dm' u" "stocked n H (zss(i := zs)) dm' (env u)" "packed_segment P c (mach (env u)) (seg_at i) zs bufs"
    "zone_frame (set zs) ?w (env u)" "\<And>z. z \<in> set zs \<Longrightarrow> Some z \<in> Z \<and> z \<notin> dm_held (dm, ?w)" "length zs = need i"
    by (rule compress_call [OF dv(3) i(1), of zss "zi ! i" "bi ! i"]) (use inv(8) zssi le z bi in auto)
  let ?s = "s\<lparr>devices := [dev u], app_world := env u\<rparr>"
  let ?t = "?s\<lparr>compressed_vectors := [0 \<mapsto> v[i := bufs]]\<rparr>"
  have id: "device_id (dev u) = 0" using C(2) by (simp add: all_ready_def)
  have run: "compress_job P i s = Some (Inr kAsyncReturnOK, ?t)"
    using C(1) i(1) inv(4,6,7) bi(1) id unat_qp [OF i(1)]
    by (simp add: compress_job_def LcoreCompressFunc_def attempt_def on_device_single [OF dv(1)] pseq_def
        compress_result_callback_def)
  have apart: "set zi \<inter> set zs = {}" using inv(2) C(6) by (auto simp: held_buffers_def)
  have "compressing zi bi (D(lc ! i \<mapsto> kAsyncReturnOK)) ?t"
    unfolding compressing_def
  proof (intro exI [of _ dm'] exI [of _ "zss(i := zs)"] exI [of _ "v[i := bufs]"] conjI allI impI)
    show "one_device dm' ?t" using C(2) by (simp add: one_device_def)
    show "held_buffers (app_world ?t) zi bi" using held_buffers_frame [OF inv(2) C(5) apart] by simp
    show "input_segments (app_world ?t) bi" using input_segments_frame [OF inv(3,2) C(5) apart] by simp
    show "stocked n H (zss(i := zs)) dm' (app_world ?t)" using C(3) by simp
    fix j assume j: "j < n"
    show "if (D(lc ! i \<mapsto> kAsyncReturnOK)) (lc ! j) = None then (zss(i := zs)) j = []
        else packed_segment P c (mach (app_world ?t)) (seg_at j) ((zss(i := zs)) j) (v[i := bufs] ! j) \<and>
          length ((zss(i := zs)) j) = need j"
    proof (cases "j = i")
      case True
      then show ?thesis using C(4,7) i(1) inv(7) by simp
    next
      case False
      have held: "set (zss j) \<subseteq> dm_held (dm, ?w)" using inv(8) j by (auto simp: stocked_def)
      have "packed_segment P c (mach (env u)) (seg_at j) (zss j) (v ! j)"
        if "packed_segment P c (mach ?w) (seg_at j) (zss j) (v ! j)"
      proof (rule packed_segment_frame [OF that C(5)])
        show "set (zss j) \<inter> set zs = {}" using held C(6) by blast
        fix z assume "z \<in> set (zss j)"
        then have "Some z \<in> Z" using held held_in_Z [OF dv(3)] by auto
        from zone_of_device [OF dv(3) this] show "allocated_memzones ?w (mz_addr z) = Some z" by simp
      qed
      then show ?thesis using each [OF j] False lc_nth [OF j i(1)] by (auto split: if_splits)
    qed
  qed (use inv in \<open>auto split: if_splits\<close>)
  then show ?thesis using run by blast
qed

text \<open>All jobs, in the order of the queue pairs.\<close>

lemma nth_job:
  assumes "map_of (zip (take n lc) (map f [0..<n])) i = Some j"
  obtains k where "k < n" "i = lc ! k" "j = f k"
proof -
  have "(i, j) \<in> set (zip (take n lc) (map f [0..<n]))" by (rule map_of_SomeD [OF assms])
  then obtain k where "k < n" "i = lc ! k" "j = f k" using lcores(2) by (auto simp: set_zip)
  then show thesis by (rule that)
qed

lemma single_round:
  assumes ds: "ds = [dv]" "worker_lcores dv = lc"
    and jobs: "\<And>D i s. Q D s \<Longrightarrow> i < n \<Longrightarrow> D (lc ! i) = None \<Longrightarrow> \<exists>r t. f i s = Some (Inr r, t) \<and> Q (D(lc ! i \<mapsto> r)) t"
    and same: "\<And>D s. Q D s \<Longrightarrow> \<exists>dm. one_device dm s"
  shows "queue_pair_round E W ds n (map f [0..<n]) Q"
proof -
  have use: "lcores_in_use ds n = take n lc" using lcores_in_use_single [of n dv] lcores(2) ds by simp
  show ?thesis
  proof (unfold_locales, unfold use)
    show "launcher_laws E W" by (rule launcher)
    show "dom (map_of (zip (take n lc) (map f [0..<n]))) \<subseteq> W"
      using lcores(5) by (auto dest!: map_of_SomeD set_zip_leftD)
    show "\<exists>r t. j s = Some (Inr r, t) \<and> Q (D(i \<mapsto> r)) t"
      if "Q D s" "map_of (zip (take n lc) (map f [0..<n])) i = Some j" "D i = None" for D s i j
      using that(2) by (rule nth_job) (use jobs [OF that(1)] that(3) in blast)
    show "small_devices ds" using ds lcores(1-3) by (auto simp: small_devices_def)
    show "n \<le> length (queue_pairs ds)" using ds lcores(2) by (simp add: queue_pairs_single)
    show "same_lcores ds (devices s)" if Q: "Q D s" for D s
    proof -
      obtain dm where "one_device dm s" using same [OF Q] by blast
      then obtain dv' where "devices s = [dv']" "worker_lcores dv' = lc" by (rule one_deviceD)
      then show ?thesis using ds by (simp add: same_lcores_def)
    qed
  qed (use lcores(4) in simp_all)
qed

text \<open>A round of the test: the jobs are launched and waited for, and none has failed.\<close>

lemma round_ok:
  assumes dv: "worker_lcores dv = lc" and start: "Q Map.empty s" "\<forall>i. running E l i = None"
    and jobs: "\<And>D i s. Q D s \<Longrightarrow> i < n \<Longrightarrow> D (lc ! i) = None \<Longrightarrow> \<exists>r t. f i s = Some (Inr r, t) \<and> Q (D(lc ! i \<mapsto> r)) t"
    and Q: "\<And>D s. Q D s \<Longrightarrow> (\<exists>dm. one_device dm s) \<and> (\<forall>i r. D i = Some r \<longrightarrow> r = kAsyncReturnOK)"
    and body: "\<And>i l s. i < n \<Longrightarrow> \<exists>D. Q D s \<Longrightarrow> body i 0 (word_of_nat i) () (l, s) =
        pseq (launch_on E (f i) 0 (word_of_nat i)) (\<lambda>ret. total (return (ret = 0, ()))) (l, s)"
  shows "twp (pseq (for_queue_pairs [dv] body n 0 0 0 ()) (\<lambda>_. pseq (WaitForAsyncCompletion E n)
      (\<lambda>ok. if ok then total (return ()) else failed)))
    (\<lambda>_ (l, s). (\<forall>i. running E l i = None) \<and> (\<exists>D. dom D = set (take n lc) \<and> Q D s)) (\<lambda>_ _. False) (l, s)"
    (is "twp _ ?Q _ _")
proof -
  have used: "lcores_in_use [dv] n = take n lc" using lcores_in_use_single [of n dv] lcores(2) dv by simp
  have qpr: "queue_pair_round E W [dv] n (map f [0..<n]) Q"
    by (rule single_round [OF refl dv]) (use jobs Q in blast)+
  let ?at = "lcore_round.launched E (map_of (zip (take n lc) (map f [0..<n]))) Q (set (take n lc)) Map.empty"
  have launch: "twp (for_queue_pairs [dv] body n 0 0 0 ()) (\<lambda>_. ?at) (\<lambda>_ _. False) (l, s)"
  proof (rule queue_pair_round.launch_all [OF qpr _ start, unfolded used])
    fix i k q l s assume i: "i < n" "take n (queue_pairs [dv]) ! i = (k, q)" and s: "\<exists>D. Q D s"
    then have "k = 0" "q = i" using lcores(2) dv by (simp_all add: queue_pairs_single)
    then show "body i (word_of_nat k) (word_of_nat q) () (l, s) =
        pseq (launch_on E (map f [0..<n] ! i) k (word_of_nat q)) (\<lambda>ret. total (return (ret = 0, ()))) (l, s)"
      using body [OF i(1) s] i(1) by simp
  qed
  show ?thesis
    unfolding twp_simps
  proof (rule twp_mono [OF launch])
    fix x :: unit and ls' :: "'l \<times> 'w app"
    assume at: "?at ls'"
    obtain l s where ls': "ls' = (l, s)" by fastforce
    note W = queue_pair_round.wait_all [OF qpr, unfolded used, OF at [unfolded ls']]
    show "twp (WaitForAsyncCompletion E n) (\<lambda>ok. twp (if ok then total (return ()) else failed) ?Q (\<lambda>_ _. False))
      (\<lambda>_ _. False) ls'"
      unfolding ls'
    proof (rule twp_mono [OF W])
      fix ok and ls' :: "'l \<times> 'w app"
      assume "case ls' of (l, s) \<Rightarrow> \<exists>F. dom F = set (take n lc) \<and> Q F s \<and>
        (\<forall>i. running E l i = None) \<and> ok = (\<forall>i r. F i = Some r \<longrightarrow> r = kAsyncReturnOK)"
      then obtain l s F where F: "ls' = (l, s)" "dom F = set (take n lc)" "Q F s" "\<forall>i. running E l i = None"
        "ok = (\<forall>i r. F i = Some r \<longrightarrow> r = kAsyncReturnOK)" by (auto split: prod.splits)
      have ok using F(5) Q [OF F(3)] by blast
      then show "twp (if ok then total (return ()) else failed) ?Q (\<lambda>_ _. False) ls'"
        using F by auto
    qed simp
  qed simp
qed

definition compressed :: "memzone list \<Rightarrow> buffer list \<Rightarrow> 'w app \<Rightarrow> bool" where
  "compressed zi bi s \<longleftrightarrow> (\<exists>D. dom D = set (take n lc) \<and> compressing zi bi D s)"

lemma BenchmarkCompressAsync_ok:
  assumes s: "compressing zi bi Map.empty s" and l: "\<forall>i. running E l i = None"
  shows "twp (BenchmarkCompressAsync V P E n) (\<lambda>_ (l, s). (\<forall>i. running E l i = None) \<and> compressed zi bi s) (\<lambda>_ _. False) (l, s)"
proof -
  obtain dm where "one_device dm s" using s by (auto simp: compressing_def)
  then obtain dv where dv: "devices s = [dv]" "worker_lcores dv = lc" by (rule one_deviceD)
  have jobs: "\<exists>r t. compress_job P i s = Some (Inr r, t) \<and> compressing zi bi (D(lc ! i \<mapsto> r)) t"
    if "compressing zi bi D s" "i < n" "D (lc ! i) = None" for D i s
    using compress_job_ok [OF that] by blast
  have inv: "(\<exists>dm. one_device dm s) \<and> (\<forall>i r. D i = Some r \<longrightarrow> r = kAsyncReturnOK)" if "compressing zi bi D s" for D s
    using that by (auto simp: compressing_def)
  let ?body = "\<lambda>idx (dev_id :: u8) qp_id x.
             pseq (CompressAsync P E
                 \<lparr>cp_device = unat dev_id, cp_queue_pair_id = qp_id,
                  cp_decompressed_buffer = (\<lambda>s. input_vector s ! idx),
                  cp_result_callback = compress_result_callback\<rparr>) (\<lambda>ret.
             total (return (ret = 0, x)))"
  have body: "?body i 0 (word_of_nat i) () (l, s) =
        pseq (launch_on E (compress_job P i) 0 (word_of_nat i)) (\<lambda>ret. total (return (ret = 0, ()))) (l, s)" for i l s
    by (simp add: CompressAsync_def compress_job_def)
  note R = round_ok [where Q = "compressing zi bi" and f = "compress_job P" and body = ?body, OF dv(2) s l jobs inv body]
  have eq: "BenchmarkCompressAsync V P E n (l, s) = pseq (for_queue_pairs [dv] ?body n 0 0 0 ())
    (\<lambda>_. pseq (WaitForAsyncCompletion E n) (\<lambda>async_success.
     if async_success then total (return ())
     else pseq (on_main (Recycle_vectors V)) (\<lambda>_.
          total (throw (Status IOError ''Failed to complete async compression''))))) (l, s)"
    unfolding BenchmarkCompressAsync_def with_devices dv(1) by (rule refl)
  show ?thesis
    using R unfolding twp_def pwp_def eq compressed_def .
qed

subsection \<open>Recycling\<close>

lemma one_device_memory:
  assumes "one_device dm s" "dm_ok P c (dm', app_world s)" "set (dm_all dm') = Z"
  shows "one_device dm' (s\<lparr>devices := [(hd (devices s))\<lparr>device_mem := Some dm'\<rparr>]\<rparr>)"
proof -
  have "calls_ready P c (word_of_nat q) dm' (device_of s\<lparr>dev := (hd (devices s))\<lparr>device_mem := Some dm'\<rparr>\<rparr>)"
    if "calls_ready P c (word_of_nat q) dm (device_of s)" for q
    using that assms(2) by (simp add: calls_ready_def at_rest_def qp_view_def num_qps_def)
  then show ?thesis using assms(1,3) by (simp add: one_device_def all_ready_def)
qed

lemma Recycle_one:
  assumes s: "one_device dm s" and zs: "list_all2 filled zs bufs" "distinct zs" "set zs \<inter> G = {}"
    and held: "dm_held (dm, app_world s) = G \<union> set zs"
  obtains dv dm' where "on_device 0 (checked_Recycle bufs) s = Some (OK, s\<lparr>devices := [dv]\<rparr>)"
    "one_device dm' (s\<lparr>devices := [dv]\<rparr>)" "dm_held (dm', app_world s) = G"
proof -
  obtain dv where dv: "devices s = [dv]" "all_ready dm \<lparr>dev = dv, env = app_world s\<rparr>" using s by (rule one_deviceD)
  let ?t = "\<lparr>dev = dv, env = app_world s\<rparr>"
  have d: "device_mem (dev ?t) = Some dm" "dm_ok P c (dm, env ?t)" "dm_held (dm, env ?t) = G \<union> set zs"
    "set (dm_all dm) = Z"
    using all_ready_dm [OF dv(2)] held dv(2) by (simp_all add: all_ready_def)
  obtain dm' where R: "CompressDevice_Recycle bufs ?t = (Inr (length bufs), ?t\<lparr>dev := (dev ?t)\<lparr>device_mem := Some dm'\<rparr>\<rparr>)"
    "dm_ok P c (dm', env ?t)" "dm_held (dm', env ?t) = G" "set (dm_all dm') = set (dm_all dm)"
    by (rule device_Recycle_ok [OF d(1,2) zs d(3)])
  show thesis
  proof (rule that)
    show "on_device 0 (checked_Recycle bufs) s = Some (OK, s\<lparr>devices := [dv\<lparr>device_mem := Some dm'\<rparr>]\<rparr>)"
      using R(1) by (simp add: on_device_single [OF dv(1)] checked_Recycle_def seq_def)
    show "one_device dm' (s\<lparr>devices := [dv\<lparr>device_mem := Some dm'\<rparr>]\<rparr>)"
      using one_device_memory [OF s, of dm'] R(2,4) d(4) dv(1) by simp
    show "dm_held (dm', app_world s) = G" using R(3) by simp
  qed
qed

lemma Recycle_all:
  assumes s: "one_device dm s" "stocked n H zss dm (app_world s)" "compressed_vectors s = [0 \<mapsto> v]" "length v = n"
    and filled: "\<And>i. i < n \<Longrightarrow> list_all2 filled (zss i) (v ! i)"
  obtains dv dm' where "Recycle_vectors V s = Some (OK, s\<lparr>devices := [dv]\<rparr>)"
    "one_device dm' (s\<lparr>devices := [dv]\<rparr>)" "dm_held (dm', app_world s) = H"
proof -
  have each: "\<exists>dv dm'. for_each (\<lambda>bufs. on_device 0 (checked_Recycle bufs)) (drop k v) (s\<lparr>devices := ds\<rparr>) =
        Some (OK, s\<lparr>devices := [dv]\<rparr>) \<and> one_device dm' (s\<lparr>devices := [dv]\<rparr>) \<and> dm_held (dm', app_world s) = H"
    if "one_device dm (s\<lparr>devices := ds\<rparr>)" "dm_held (dm, app_world s) = H \<union> (\<Union>i \<in> {k..<n}. set (zss i))" "k \<le> n" for k dm ds
    using that
  proof (induction "n - k" arbitrary: k dm ds)
    case 0
    then have "k = n" by simp
    moreover obtain dv where "devices (s\<lparr>devices := ds\<rparr>) = [dv]" using 0(2) by (rule one_deviceD)
    ultimately show ?case using 0(2,3) s(4) by (auto simp: return_def)
  next
    case (Suc x)
    then have k: "k < n" by simp
    let ?G = "H \<union> (\<Union>i \<in> {Suc k..<n}. set (zss i))"
    have st: "\<forall>i < n. distinct (zss i) \<and> set (zss i) \<inter> H = {}"
      "\<forall>i < n. \<forall>j < n. i \<noteq> j \<longrightarrow> set (zss i) \<inter> set (zss j) = {}" using s(2) by (simp_all add: stocked_def)
    have "set (zss k) \<inter> set (zss i) = {}" if "i \<in> {Suc k..<n}" for i using st(2) k that by simp
    then have G: "set (zss k) \<inter> ?G = {}" "distinct (zss k)" using st(1) k by blast+
    have "{k..<n} = insert k {Suc k..<n}" using k by auto
    then have held: "dm_held (dm, app_world (s\<lparr>devices := ds\<rparr>)) = ?G \<union> set (zss k)" using Suc.prems(2) by auto
    obtain dv dm' where R: "on_device 0 (checked_Recycle (v ! k)) (s\<lparr>devices := ds\<rparr>) = Some (OK, s\<lparr>devices := ds\<rparr>\<lparr>devices := [dv]\<rparr>)"
      "one_device dm' (s\<lparr>devices := ds\<rparr>\<lparr>devices := [dv]\<rparr>)" "dm_held (dm', app_world (s\<lparr>devices := ds\<rparr>)) = ?G"
      by (rule Recycle_one [OF Suc.prems(1) filled [OF k] G(2,1) held])
    have "drop k v = v ! k # drop (Suc k) v" using k s(4) by (simp add: Cons_nth_drop_Suc)
    then show ?case
      using Suc.hyps(1) [of "Suc k" dm' "[dv]"] Suc.hyps(2) R k by (simp add: pseq_def)
  qed
  obtain dv where dv: "devices s = [dv]" using s(1) by (rule one_deviceD)
  have "dm_held (dm, app_world s) = H \<union> (\<Union>i \<in> {0..<n}. set (zss i))"
    using s(2) by (simp add: stocked_def lessThan_atLeast0)
  then obtain dv' dm' where R: "for_each (\<lambda>bufs. on_device 0 (checked_Recycle bufs)) v s = Some (OK, s\<lparr>devices := [dv']\<rparr>)"
    "one_device dm' (s\<lparr>devices := [dv']\<rparr>)" "dm_held (dm', app_world s) = H"
    using each [of dm "devices s" 0] s(1) by auto
  then have "Recycle_vectors V s = Some (OK, s\<lparr>devices := [dv']\<rparr>)"
    using s(3) visits by (simp add: Recycle_vectors_def pseq_def return_def)
  then show thesis using that R(2,3) by blast
qed

lemma stocked_none: "dm_held (dm, w) = H \<Longrightarrow> stocked n H (\<lambda>_. []) dm w"
  by (simp add: stocked_def)

lemma Recycle_compressed:
  assumes "compressed zi bi s"
  obtains t where "Recycle_vectors V s = Some (OK, t)" "compressing zi bi Map.empty t"
proof -
  obtain D where D: "dom D = set (take n lc)" "compressing zi bi D s" using assms by (auto simp: compressed_def)
  obtain dm zss v where inv: "one_device dm s" "held_buffers (app_world s) zi bi" "input_segments (app_world s) bi"
    "input_vector s = map Some bi" "output_vector s = []" "compressed_vectors s = [0 \<mapsto> v]" "length v = n"
    "stocked n H zss dm (app_world s)" "length bi = n"
    and each: "\<And>j. j < n \<Longrightarrow> if D (lc ! j) = None then zss j = []
        else packed_segment P c (mach (app_world s)) (seg_at j) (zss j) (v ! j) \<and> length (zss j) = need j"
    using D(2) unfolding compressing_def by blast
  have over: "D (lc ! j) \<noteq> None" if "j < n" for j
    using D(1) that lcores(2) by (metis domIff length_take min.absorb2 nth_mem nth_take)
  obtain dv dm' where R: "Recycle_vectors V s = Some (OK, s\<lparr>devices := [dv]\<rparr>)"
    "one_device dm' (s\<lparr>devices := [dv]\<rparr>)" "dm_held (dm', app_world s) = H"
    by (rule Recycle_all [OF inv(1,8,6,7)]) (use each over in \<open>auto simp: packed_segment_def split: if_splits\<close>)
  have "compressing zi bi Map.empty (s\<lparr>devices := [dv]\<rparr>)"
    unfolding compressing_def
    using inv R(2) stocked_none [OF R(3)]
    by (intro exI [of _ dm'] exI [of _ "\<lambda>_. []"] exI [of _ v]) simp
  then show thesis using that R(1) by blast
qed

lemma compress_rounds_ok:
  assumes "compressing zi bi Map.empty s" "\<forall>i. running E l i = None" "idx + Suc left = kNumTests"
  shows "twp (compress_rounds V P E n (Suc left) idx)
    (\<lambda>_ (l, s). (\<forall>i. running E l i = None) \<and> compressed zi bi s) (\<lambda>_ _. False) (l, s)"
  using assms
proof (induction left arbitrary: idx l s)
  case 0
  have idx: "\<not> idx < kNumTests - 1" using 0(3) by simp
  show ?case
    unfolding compress_rounds.simps twp_simps if_not_P [OF idx]
    by (rule twp_mono [OF BenchmarkCompressAsync_ok [OF 0(1,2)]]) simp_all
next
  case (Suc left)
  have idx: "idx < kNumTests - 1" "Suc idx + Suc left = kNumTests" using Suc.prems(3) by simp_all
  show ?case
    unfolding compress_rounds.simps(2) [of _ _ _ _ "Suc left"] twp_simps if_P [OF idx(1)]
  proof (rule twp_mono [OF BenchmarkCompressAsync_ok [OF Suc.prems(1,2)]])
    fix x :: unit and ls' :: "'l \<times> 'w app"
    assume "case ls' of (l, s) \<Rightarrow> (\<forall>i. running E l i = None) \<and> compressed zi bi s"
    then obtain l s where ls': "ls' = (l, s)" "\<forall>i. running E l i = None" "compressed zi bi s" by (cases ls') simp
    obtain t where t: "Recycle_vectors V s = Some (OK, t)" "compressing zi bi Map.empty t"
      by (rule Recycle_compressed [OF ls'(3)])
    show "twp (on_main (Recycle_vectors V)) (\<lambda>_. twp (compress_rounds V P E n (Suc left) (Suc idx))
        (\<lambda>_ (l, s). (\<forall>i. running E l i = None) \<and> compressed zi bi s) (\<lambda>_ _. False)) (\<lambda>_ _. False) ls'"
      using Suc.IH [OF t(2) ls'(2) idx(2)] t(1) ls'(1) by (simp add: on_main_def twp_def pwp_def)
  qed simp
qed

subsection \<open>The inputs\<close>

lemma one_device_world:
  assumes "one_device dm s" "mz_ok P w" "same_queues P (mach (app_world s)) (mach w)" "zone_frame K (app_world s) w"
    and "zb \<notin> K" "\<And>z. z \<in> K \<Longrightarrow> Some z \<notin> Z"
  shows "one_device dm (s\<lparr>app_world := w\<rparr>)"
  using all_ready_world [of dm "device_of s" w K] assms by (simp add: one_device_def)

lemma one_device_ok:
  assumes "one_device dm s"
  shows "mz_ok P (app_world s)" "allocated_memzones (app_world s) (mz_addr zb) = Some zb"
    "mem_bytes (mach (app_world s)) (buf_data b) (length input) = input"
    "\<And>z. Some z \<in> Z \<Longrightarrow> allocated_memzones (app_world s) (mz_addr z) = Some z"
  using assms all_ready_dm [of dm "device_of s"] zone_of_device [of dm "device_of s"]
  by (simp_all add: one_device_def all_ready_def)

lemma held_tracked: "held_buffers w zs bs \<Longrightarrow> z \<in> set zs \<Longrightarrow> allocated_memzones w (mz_addr z) = Some z"
  unfolding held_buffers_def list_all2_conv_all_nth in_set_conv_nth on_zone_def by metis

text \<open>A new buffer is on a zone that is none of those there were.\<close>

lemma new_buffer:
  assumes s: "one_device dm s" and bs: "held_buffers (app_world s) zs bs"
    and alloc: "allocates P alloc" "0 < sz" "sz \<le> 2 ^ 62"
  obtains b' z w where "alloc sz rtememzone_pool (app_world s) = (Inr b', w)" "buf_size b' = nat sz"
    "one_device dm (s\<lparr>app_world := w\<rparr>)" "held_buffers w (zs @ [z]) (bs @ [b'])" "zone_frame {} (app_world s) w"
    "z \<notin> set zs" "z \<noteq> zb" "Some z \<notin> Z" "on_zone w z b'" "allocated_memzones (app_world s) (mz_addr z) = None"
proof -
  note ok = one_device_ok [OF s]
  obtain b' z w where A: "alloc sz rtememzone_pool (app_world s) = (Inr b', w)" "buf_size b' = nat sz" "on_zone w z b'"
    "allocated_memzones (app_world s) (mz_addr z) = None" "mz_ok P w" "same_queues P (mach (app_world s)) (mach w)"
    "zone_frame {} (app_world s) w"
    by (rule buffer_allocated [OF alloc(1) ok(1) library(1) device(3) alloc(2,3)])
  have new: "z \<notin> set zs" "z \<noteq> zb" "Some z \<notin> Z" using A(4) held_tracked [OF bs] ok(2,4) by auto
  have "held_buffers w zs bs" by (rule held_buffers_frame [OF bs A(7)]) simp
  then have "held_buffers w (zs @ [z]) (bs @ [b'])"
    using new A(3) by (auto simp: held_buffers_def list_all2_appendI)
  moreover have "one_device dm (s\<lparr>app_world := w\<rparr>)" by (rule one_device_world [OF s A(5-7)]) simp_all
  ultimately show thesis using that A new by blast
qed

lemma segment_inputs_ok:
  assumes "one_device dm s" "held_buffers (app_world s) zi bi" "input_segments (app_world s) bi"
    and "input_vector s = map Some bi @ replicate left None" "length bi + left = n" "dm_held (dm, app_world s) = H"
  obtains zi' bi' w where
    "segment_inputs P A (buf_data b) (length input div n) (length input mod n) left (length bi)
       (split_offset (length input) n (length bi)) s = Some (OK, s\<lparr>app_world := w, input_vector := map Some bi'\<rparr>)"
    "one_device dm (s\<lparr>app_world := w, input_vector := map Some bi'\<rparr>)" "held_buffers w zi' bi'" "input_segments w bi'" "length bi' = n"
  using assms
proof (induction left arbitrary: s zi bi thesis)
  case 0
  show ?case
  proof (rule 0(1) [where zi' = zi and bi' = bi and w = "app_world s"])
    have "s\<lparr>app_world := app_world s, input_vector := map Some bi\<rparr> = s" using 0(5) by (cases s) simp
    then show "segment_inputs P A (buf_data b) (length input div n) (length input mod n) 0 (length bi)
        (split_offset (length input) n (length bi)) s = Some (OK, s\<lparr>app_world := app_world s, input_vector := map Some bi\<rparr>)"
      by (simp only: segment_inputs.simps) (simp add: return_def)
  qed (use 0(2-4,6) in \<open>simp_all add: one_device_def\<close>)
next
  case (Suc left)
  let ?i = "length bi" and ?len = "length input"
  have i: "?i < n" using Suc.prems(6) by simp
  have size: "split_size ?len n ?i = length input div n + (if ?i < length input mod n then 1 else 0)"
    by (simp add: split_size_def)
  let ?sz = "int (split_size ?len n ?i)"
  have sz: "0 < ?sz" "?sz \<le> 2 ^ 62"
    using split_size_pos [OF lcores(1) big(1)] split_size_le [OF i, of ?len] short by simp_all
  have AB: "allocates P (AllocateBuffer A)" using arrow by (simp add: arrow_laws_def)
  obtain b' z w where N: "AllocateBuffer A ?sz rtememzone_pool (app_world s) = (Inr b', w)" "buf_size b' = nat ?sz"
    "one_device dm (s\<lparr>app_world := w\<rparr>)" "held_buffers w (zi @ [z]) (bi @ [b'])" "zone_frame {} (app_world s) w"
    "z \<notin> set zi" "z \<noteq> zb" "Some z \<notin> Z" "on_zone w z b'"
    using new_buffer [OF Suc.prems(2,3) AB sz] by blast
  note ok = one_device_ok [OF N(3), simplified]
  let ?src = "buf_data b + split_offset ?len n ?i" and ?n = "split_size ?len n ?i"
  have within: "split_offset ?len n ?i + ?n \<le> ?len" by (rule split_within [OF i])
  then have "{?src ..< ?src + ?n} \<subseteq> zone_bytes zb" using zones(3) by auto
  then have cp: "mz_ok P (w\<lparr>mach := rte_memcpy P (buf_data b') ?src ?n (mach w)\<rparr>)"
    "same_queues P (mach w) (rte_memcpy P (buf_data b') ?src ?n (mach w))"
    "zone_frame {z} w (w\<lparr>mach := rte_memcpy P (buf_data b') ?src ?n (mach w)\<rparr>)"
    "mem_bytes (rte_memcpy P (buf_data b') ?src ?n (mach w)) (buf_data b') ?n = mem_bytes (mach w) ?src ?n"
    using memcpy_into [OF ok(1) N(9) _ ok(2) _ N(7) [symmetric], of ?n ?src] N(2,9) by (simp_all add: on_zone_def)
  let ?w = "w\<lparr>mach := rte_memcpy P (buf_data b') ?src ?n (mach w)\<rparr>"
  let ?s = "s\<lparr>app_world := ?w, input_vector := map Some (bi @ [b']) @ replicate left None\<rparr>"
  have dev: "one_device dm (s\<lparr>app_world := ?w\<rparr>)"
    using one_device_world [OF N(3), of ?w "{z}"] cp N(7,8) by simp
  have frame: "zone_frame {z} (app_world s) ?w" using zone_frame_trans [OF N(5) cp(3)] by simp
  have src: "mem_bytes (mach w) ?src ?n = seg_at ?i"
    using ok(3) mem_bytes_slice [of "split_offset ?len n ?i" ?n ?len "mach w" "buf_data b"] within
    unfolding split_segment_def by simp
  have segs: "input_segments ?w (bi @ [b'])"
  proof -
    have "input_segments ?w bi" by (rule input_segments_frame [OF Suc.prems(4,3) frame]) (use N(6) in simp)
    then show ?thesis
      using cp(4) src N(2) i by (auto simp: input_segments_def nth_append less_Suc_eq)
  qed
  have held: "held_buffers ?w (zi @ [z]) (bi @ [b'])"
  proof -
    have "held_buffers ?w zi bi" by (rule held_buffers_frame [OF Suc.prems(3) frame]) (use N(6) in simp)
    moreover have "on_zone ?w z b'" using N(9) by (simp add: on_zone_def)
    ultimately show ?thesis using N(6-8) by (auto simp: held_buffers_def list_all2_appendI)
  qed
  have upd: "(input_vector s)[?i := Some b'] = map Some (bi @ [b']) @ replicate left None"
    using Suc.prems(5) by (simp add: list_update_append)
  have run: "segment_inputs P A (buf_data b) (?len div n) (?len mod n) (Suc left) ?i (split_offset ?len n ?i) s =
      segment_inputs P A (buf_data b) (?len div n) (?len mod n) left (length (bi @ [b'])) (split_offset ?len n (length (bi @ [b']))) ?s"
    using N(1) upd unfolding segment_inputs.simps size [symmetric] Let_def
    by (simp add: GetMemoryPool_def pseq_def split_offset_Suc)
  have dev': "one_device dm ?s" using dev by (simp add: one_device_def)
  show ?case
  proof (rule Suc.IH [where zi = "zi @ [z]" and bi = "bi @ [b']", OF _ dev'])
    fix w' bi' zi'
    assume R: "segment_inputs P A (buf_data b) (?len div n) (?len mod n) left (length (bi @ [b']))
        (split_offset ?len n (length (bi @ [b']))) ?s = Some (OK, ?s\<lparr>app_world := w', input_vector := map Some bi'\<rparr>)"
      "one_device dm (?s\<lparr>app_world := w', input_vector := map Some bi'\<rparr>)" "held_buffers w' zi' bi'"
      "input_segments w' bi'" "length bi' = n"
    show thesis
      by (rule Suc.prems(1) [OF _ _ R(3-5)]) (use run R(1,2) in simp_all)
  qed (use held segs Suc.prems(6,7) in \<open>simp_all add: dm_held_def\<close>)
qed

end

end
