(* ===== verification/Bitar_Async_Test.thy ===== *)
theory Bitar_Async_Test
  imports Bitar_Rounds
begin

text \<open>
  The second half of the asynchronous test on one device: the outputs, the rounds of
  decompressions into them and their comparison with the input, and that the test passes.
\<close>

context async_session begin

text \<open>A loop over the queue pairs of the one device.\<close>

lemma single_visit:
  assumes "worker_lcores dv = lc" "I 0 x s"
    and "\<And>i x s. i < n \<Longrightarrow> I i x s \<Longrightarrow> twp (body i 0 (word_of_nat i) x) (\<lambda>(go, y) t. go \<and> I (Suc i) y t) Er s"
  shows "twp (for_queue_pairs [dv] body n 0 0 0 x) (I n) Er s"
proof -
  have qps: "queue_pairs [dv] = map (Pair 0) [0..<length lc]" using assms(1) by (simp add: queue_pairs_single)
  have "small_devices [dv]" using assms(1) lcores(1-3) by (auto simp: small_devices_def)
  from for_queue_pairs_visit [OF this, of n body 0 x]
  have eq: "for_queue_pairs [dv] body n 0 0 0 x = visit body 0 (map (Pair 0) [0..<n]) x"
    using lcores(2) by (simp add: qps take_map)
  have "twp (visit body 0 (map (Pair 0) [0..<n]) x) (I (0 + length (map (Pair (0 :: nat)) [0..<n]))) Er s"
    by (rule visit_twp) (use assms(2,3) in auto)
  then show ?thesis unfolding eq by simp
qed

subsection \<open>All segments compressed\<close>

definition packed_all :: "(nat \<Rightarrow> memzone list) \<Rightarrow> buffer list list \<Rightarrow> device_memory \<Rightarrow> 'w app \<Rightarrow> bool" where
  "packed_all zss v dm s \<longleftrightarrow> one_device dm s \<and> compressed_vectors s = [0 \<mapsto> v] \<and> length v = n \<and> input_vector s = [] \<and>
     stocked n H zss dm (app_world s) \<and>
     (\<forall>i < n. packed_segment P c (mach (app_world s)) (seg_at i) (zss i) (v ! i) \<and> length (zss i) = need i)"

lemma packed_allD:
  assumes "packed_all zss v dm s" "i < n"
  shows "length (v ! i) = need i" "0 < length (v ! i)" "length (v ! i) < 2 ^ 40" "length (seg_at i) \<le> length (v ! i) * sg"
    "set (zss i) \<subseteq> dm_held (dm, app_world s)"
proof -
  have "list_all2 filled (zss i) (v ! i)" "length (zss i) = need i"
    using assms by (simp_all add: packed_all_def packed_segment_def)
  then show n: "length (v ! i) = need i" using list_all2_lengthD by fastforce
  show "0 < length (v ! i)"
    unfolding n using sg_pos split_size_pos [OF lcores(1) big(1), of i] assms(2) by (simp add: ceil_div_pos)
  have "need i \<le> length (seg_at i)" using sg_pos by (simp add: ceil_div_le_iff)
  also have "\<dots> < 2 ^ 40" using split_size_le [OF assms(2), of "length input"] short assms(2) by simp
  finally show "length (v ! i) < 2 ^ 40" by (simp only: n)
  show "length (seg_at i) \<le> length (v ! i) * sg" unfolding n by (rule ceil_div_mult_ge [OF sg_pos])
  show "set (zss i) \<subseteq> dm_held (dm, app_world s)" using assms by (auto simp: packed_all_def stocked_def)
qed

text \<open>It stays so when the process changes outside of the device and the input.\<close>

lemma packed_all_world:
  assumes s: "packed_all zss v dm s" and "one_device dm t" "compressed_vectors t = compressed_vectors s"
    "input_vector t = []" and frame: "zone_frame K (app_world s) (app_world t)" "\<And>z. z \<in> K \<Longrightarrow> Some z \<notin> Z"
    and held: "dm_held (dm, app_world t) = dm_held (dm, app_world s)"
  shows "packed_all zss v dm t"
proof -
  have ready: "all_ready dm (device_of s)" using s by (simp add: packed_all_def one_device_def)
  have "packed_segment P c (mach (app_world t)) (seg_at i) (zss i) (v ! i)" if i: "i < n" for i
  proof (rule packed_segment_frame [OF _ frame(1)])
    show "packed_segment P c (mach (app_world s)) (seg_at i) (zss i) (v ! i)" using s i by (simp add: packed_all_def)
    have Z: "Some z \<in> Z" if "z \<in> set (zss i)" for z
      using packed_allD(5) [OF s i] that held_in_Z [OF ready] by auto
    then show "set (zss i) \<inter> K = {}" using frame(2) by blast
    show "allocated_memzones (app_world s) (mz_addr z) = Some z" if "z \<in> set (zss i)" for z
      using zone_of_device [OF ready Z [OF that]] by simp
  qed
  then show ?thesis using s assms(2-4) held by (simp add: packed_all_def stocked_def)
qed

subsection \<open>The outputs\<close>

definition decompressing ::
  "(nat \<Rightarrow> memzone list) \<Rightarrow> buffer list list \<Rightarrow> device_memory \<Rightarrow> memzone list \<Rightarrow> (u32 \<Rightarrow> int option) \<Rightarrow> 'w app \<Rightarrow> bool" where
  "decompressing zss v dm zo D s \<longleftrightarrow> packed_all zss v dm s \<and> (\<exists>bo. output_vector s = map Some bo \<and> length bo = n \<and>
     held_buffers (app_world s) zo bo \<and>
     (\<forall>i < n. length (v ! i) * sg \<le> buf_capacity (bo ! i)) \<and>
     (\<forall>i < n. D (lc ! i) \<noteq> None \<longrightarrow> buf_size (bo ! i) = length (seg_at i) \<and>
        mem_bytes (mach (app_world s)) (buf_data (bo ! i)) (length (seg_at i)) = seg_at i) \<and>
     (\<forall>i r. D i = Some r \<longrightarrow> r = kAsyncReturnOK))"

lemma twp_else_Recycle: "twp m Q (\<lambda>_ _. False) s \<Longrightarrow> twp (else_Recycle V m) Q (\<lambda>_ _. False) s"
  by (auto simp: twp_def pwp_def else_Recycle_def split: option.splits prod.splits sum.splits)

lemma allocate_outputs_ok:
  assumes s: "packed_all zss v dm s" "output_vector s = replicate n None"
  shows "twp (allocate_outputs V A n) (\<lambda>_ (l', t). l' = l \<and> (\<exists>zo. decompressing zss v dm zo Map.empty t)) (\<lambda>_ _. False) (l :: 'l, s)"
proof -
  have "one_device dm s" using s(1) by (simp add: packed_all_def)
  then obtain dv where dv: "devices s = [dv]" "worker_lcores dv = lc" by (rule one_deviceD)
  let ?I = "\<lambda>i (_ :: unit) (l', t). l' = l \<and> packed_all zss v dm t \<and> (\<exists>zo bo. held_buffers (app_world t) zo bo \<and> length bo = i \<and>
      output_vector t = map Some bo @ replicate (n - i) None \<and> (\<forall>j < i. length (v ! j) * sg \<le> buf_capacity (bo ! j)))"
  let ?alloc = "\<lambda>idx dev_id qp_id. seq (compressed_reference dev_id qp_id) (\<lambda>_ s.
           case GetMemoryPool False False Rtememzone of
             Inl e \<Rightarrow> (Inl e, s)
           | Inr pool \<Rightarrow>
               (case AllocateResizableBuffer A (output_size (length (compressed_at dev_id qp_id s))) pool (app_world s) of
                  (Inl e, w) \<Rightarrow> (Inl e, s\<lparr>app_world := w\<rparr>)
                | (Inr b, w) \<Rightarrow>
                    (OK, s\<lparr>app_world := w, output_vector := (output_vector s)[idx := Some b]\<rparr>)))"
  let ?body = "\<lambda>idx dev_id qp_id x. pseq (else_Recycle V (on_main (total (?alloc idx dev_id qp_id))))
      (\<lambda>_. total (return (True, x)))"
  have alloc: "allocates P (AllocateResizableBuffer A)" using arrow by (simp add: arrow_laws_def)
  have step: "\<exists>t'. ?alloc i 0 (word_of_nat i) t = (OK, t') \<and> ?I (Suc i) () (l, t')"
    if i: "i < n" and t: "?I i () (l, t)" for i t
  proof -
    obtain zo bo where o: "packed_all zss v dm t" "held_buffers (app_world t) zo bo" "length bo = i"
      "output_vector t = map Some bo @ replicate (n - i) None" "\<forall>j < i. length (v ! j) * sg \<le> buf_capacity (bo ! j)"
      using t by auto
    note d = packed_allD [OF o(1) i]
    note sz = output_size_small [OF d(3)]
    have one: "one_device dm t" "compressed_vectors t = [0 \<mapsto> v]" "length v = n" "input_vector t = []"
      using o(1) by (simp_all add: packed_all_def)
    have pos: "0 < int (length (v ! i) * kDecompressedSegSize)"
      using d(2) by (simp add: kDecompressedSegSize_def)
    obtain b' z w where N: "AllocateResizableBuffer A (int (length (v ! i) * kDecompressedSegSize)) rtememzone_pool (app_world t) = (Inr b', w)"
      "buf_size b' = nat (int (length (v ! i) * kDecompressedSegSize))" "one_device dm (t\<lparr>app_world := w\<rparr>)"
      "held_buffers w (zo @ [z]) (bo @ [b'])" "zone_frame {} (app_world t) w" "on_zone w z b'"
      using new_buffer [OF one(1) o(2) alloc pos sz(2)] by blast
    let ?t = "t\<lparr>app_world := w, output_vector := (output_vector t)[i := Some b']\<rparr>"
    have "length (v ! i) * sg \<le> length (v ! i) * kDecompressedSegSize" using seg by simp
    also have "\<dots> \<le> buf_capacity b'" using N(2,6) unfolding on_zone_def nat_int by simp
    finally have cap: "\<forall>j < Suc i. length (v ! j) * sg \<le> buf_capacity ((bo @ [b']) ! j)"
      using o(3,5) by (simp add: nth_append less_Suc_eq)
    have "replicate (n - i) None = None # replicate (n - Suc i) (None :: buffer option)"
      using i by (metis Suc_diff_Suc replicate_Suc)
    then have ov: "output_vector ?t = map Some (bo @ [b']) @ replicate (n - Suc i) None"
      using o(3,4) by (simp add: list_update_append)
    have "packed_all zss v dm ?t"
      by (rule packed_all_world [OF o(1) _ _ _ _, where K = "{}"])
        (use N(3,5) one(2,4) in \<open>simp_all add: one_device_def dm_held_def\<close>)
    moreover have "?alloc i 0 (word_of_nat i) t = (OK, ?t)"
      using N(1) i one(2,3) unat_qp [OF i] sz(1)
      by (simp add: seq_def compressed_reference_def guard_def return_def compressed_at_def GetMemoryPool_def)
    ultimately show ?thesis using N(4) cap ov o(3)
      by (intro exI [of _ ?t]) (auto intro!: exI [of _ "zo @ [z]"] exI [of _ "bo @ [b']"] simp del: map_append)
  qed
  have "twp (for_queue_pairs [dv] ?body n 0 0 0 ()) (?I n) (\<lambda>_ _. False) (l, s)"
  proof (rule single_visit [where I = ?I, OF dv(2)])
    show "?I 0 () (l, s)" using s by (auto simp: held_buffers_def)
    fix i x and ls' :: "'l \<times> 'w app"
    assume i: "i < n" and at: "?I i x ls'"
    obtain t where t: "ls' = (l, t)" "?I i () (l, t)" using at by (cases ls') auto
    obtain t' where t': "?alloc i 0 (word_of_nat i) t = (OK, t')" "?I (Suc i) () (l, t')" using step [OF i t(2)] by blast
    have "twp (else_Recycle V (on_main (total (?alloc i 0 (word_of_nat i)))))
       (\<lambda>_ ls'. ?I (Suc i) x ls') (\<lambda>_ _. False) ls'"
      by (rule twp_else_Recycle) (use t' in \<open>simp add: t(1) twp_def pwp_def on_main_def total_def\<close>)
    then show "twp (?body i 0 (word_of_nat i) x) (\<lambda>(go, y) t. go \<and> ?I (Suc i) y t) (\<lambda>_ _. False) ls'"
      unfolding twp_simps by (rule twp_mono) (auto simp: return_def)
  qed
  then have "twp (allocate_outputs V A n) (?I n) (\<lambda>_ _. False) (l, s)"
    unfolding twp_def pwp_def allocate_outputs_def with_devices dv(1) .
  then show ?thesis
    by (rule twp_mono) (auto simp: decompressing_def)
qed

subsection \<open>A round of decompressions\<close>

lemma decompress_job_ok:
  assumes s: "decompressing zss v dm zo D s" and i: "i < n" "D (lc ! i) = None"
  shows "\<exists>t. decompress_job P i s = Some (Inr kAsyncReturnOK, t) \<and>
    decompressing zss v dm zo (D(lc ! i \<mapsto> kAsyncReturnOK)) t"
proof -
  let ?w = "app_world s"
  obtain bo where inv: "packed_all zss v dm s" "output_vector s = map Some bo" "length bo = n" "held_buffers ?w zo bo"
    "\<forall>i < n. length (v ! i) * sg \<le> buf_capacity (bo ! i)" "\<forall>i r. D i = Some r \<longrightarrow> r = kAsyncReturnOK"
    and each: "\<And>j. j < n \<Longrightarrow> D (lc ! j) \<noteq> None \<Longrightarrow> buf_size (bo ! j) = length (seg_at j) \<and>
        mem_bytes (mach ?w) (buf_data (bo ! j)) (length (seg_at j)) = seg_at j"
    using s unfolding decompressing_def by blast
  have pa: "one_device dm s" "compressed_vectors s = [0 \<mapsto> v]" "length v = n" "input_vector s = []"
    "packed_segment P c (mach ?w) (seg_at i) (zss i) (v ! i)"
    using inv(1) i(1) by (simp_all add: packed_all_def)
  obtain dv where dv: "devices s = [dv]" "all_ready dm \<lparr>dev = dv, env = ?w\<rparr>" using pa(1) by (rule one_deviceD)
  note z = held_nth [OF inv(4), of i, unfolded inv(3), OF i(1)]
  obtain u where D: "Decompress P (word_of_nat i) (v ! i) (Some (bo ! i)) \<lparr>dev = dv, env = ?w\<rparr> =
      Some (Inr (Some (int (length (seg_at i)))), u)"
    "all_ready dm u" "dm_held (dm, env u) = dm_held (dm, ?w)" "zone_frame {zo ! i} ?w (env u)"
    "mem_bytes (mach (env u)) (buf_data (bo ! i)) (length (seg_at i)) = seg_at i"
    "allocated_memzones (env u) = allocated_memzones ?w"
    by (rule decompress_call [OF dv(2) i(1), of "zss i" "v ! i" "zo ! i" "bo ! i"])
      (use pa(5) packed_allD(5) [OF inv(1) i(1)] z inv(5) i(1) in auto)
  let ?b = "resized (bo ! i) (Some (int (length (seg_at i))))"
  let ?bo = "bo[i := ?b]"
  let ?t = "s\<lparr>devices := [dev u], app_world := env u, output_vector := map Some ?bo\<rparr>"
  have id: "device_id (dev u) = 0" using D(2) by (simp add: all_ready_def)
  have run: "decompress_job P i s = Some (Inr kAsyncReturnOK, ?t)"
    using D(1) i(1) inv(2,3) pa(2) id unat_qp [OF i(1)]
    by (simp add: decompress_job_def LcoreDecompressFunc_def decompress_to_output_def compressed_at_def attempt_def
        on_device_single [OF dv(1)] pseq_def seq_def array_at_def decompress_result_callback_def map_update)
  have size: "buf_size ?b = length (seg_at i)" "buf_data ?b = buf_data (bo ! i)" "buf_capacity ?b = buf_capacity (bo ! i)"
    by (simp_all add: resized_def)
  have fits: "length (seg_at i) \<le> buf_capacity (bo ! i)"
    using packed_allD(4) [OF inv(1) i(1)] inv(5) i(1) by (meson order_trans)
  have lz: "length zo = n" using inv(3,4) by (auto simp: held_buffers_def dest: list_all2_lengthD)
  have dz: "distinct zo" using inv(4) by (simp add: held_buffers_def)
  have held: "held_buffers (env u) zo ?bo"
  proof -
    have "on_zone (env u) (zo ! j) (?bo ! j)" if j: "j < n" for j
    proof (cases "j = i")
      case True
      have "allocated_memzones (env u) (mz_addr (zo ! i)) = Some (zo ! i)"
        using D(6) z(1) by (simp add: on_zone_def)
      then show ?thesis using True z(1) size fits inv(3) j by (simp add: on_zone_def)
    next
      case False
      then have "zo ! j \<noteq> zo ! i" using dz lz j i(1) by (simp add: nth_eq_iff_index_eq)
      then show ?thesis
        using on_zone_frame [OF held_nth(1) [OF inv(4)] D(4)] j inv(3) False by simp
    qed
    then show ?thesis using inv(3,4) lz by (simp add: held_buffers_def list_all2_conv_all_nth)
  qed
  have "decompressing zss v dm zo (D(lc ! i \<mapsto> kAsyncReturnOK)) ?t"
    unfolding decompressing_def
  proof (intro conjI exI [of _ ?bo] allI impI)
    have "one_device dm ?t" using D(2) by (simp add: one_device_def)
    then show "packed_all zss v dm ?t"
      by (rule packed_all_world [OF inv(1), where K = "{zo ! i}"]) (use D(3,4) pa z(3) in simp_all)
    show "held_buffers (app_world ?t) zo ?bo" using held by simp
    show "length (v ! j) * sg \<le> buf_capacity (?bo ! j)" if "j < n" for j
      using that inv(3,5) size by (cases "j = i") simp_all
    fix j assume j: "j < n" "(D(lc ! i \<mapsto> kAsyncReturnOK)) (lc ! j) \<noteq> None"
    show "buf_size (?bo ! j) = length (seg_at j)"
      using each [OF j(1)] j inv(3) size lc_nth [OF j(1) i(1)] by (cases "j = i") auto
    show "mem_bytes (mach (app_world ?t)) (buf_data (?bo ! j)) (length (seg_at j)) = seg_at j"
    proof (cases "j = i")
      case True
      then show ?thesis using D(5) inv(3) j(1) size by simp
    next
      case False
      then have e: "buf_size (bo ! j) = length (seg_at j)"
        "mem_bytes (mach ?w) (buf_data (bo ! j)) (length (seg_at j)) = seg_at j"
        using each [OF j(1)] j(2) lc_nth [OF j(1) i(1)] by auto
      have "zo ! j \<noteq> zo ! i" using False dz lz j i(1) by (simp add: nth_eq_iff_index_eq)
      moreover have "length (seg_at j) \<le> buf_capacity (bo ! j)"
        using held_nth(1) [OF inv(4)] inv(3) j(1) e(1) by (metis on_zone_def)
      ultimately show ?thesis
        using held_bytes_frame [OF inv(4) D(4)] inv(3) j(1) e(2) False by simp
    qed
  qed (use inv in \<open>auto split: if_splits\<close>)
  then show ?thesis using run by blast
qed

lemma BenchmarkDecompressAsync_ok:
  assumes s: "decompressing zss v dm zo Map.empty s" and l: "\<forall>i. running E l i = None"
  shows "twp (BenchmarkDecompressAsync P E n) (\<lambda>_ (l, s). (\<forall>i. running E l i = None) \<and>
    (\<exists>D. dom D = set (take n lc) \<and> decompressing zss v dm zo D s)) (\<lambda>_ _. False) (l, s)"
proof -
  have one: "\<exists>dm. one_device dm s" if "decompressing zss v dm zo D s" for D s
    using that by (auto simp: decompressing_def packed_all_def)
  obtain dv where dv: "devices s = [dv]" "worker_lcores dv = lc" using one [OF s] by (auto elim: one_deviceD)
  have jobs: "\<exists>r t. decompress_job P i s = Some (Inr r, t) \<and> decompressing zss v dm zo (D(lc ! i \<mapsto> r)) t"
    if "decompressing zss v dm zo D s" "i < n" "D (lc ! i) = None" for D i s
    using decompress_job_ok [OF that] by blast
  have inv: "(\<exists>dm. one_device dm s) \<and> (\<forall>i r. D i = Some r \<longrightarrow> r = kAsyncReturnOK)"
    if "decompressing zss v dm zo D s" for D s
    using one [OF that] that unfolding decompressing_def by blast
  let ?body = "\<lambda>idx dev_id qp_id x.
             pseq (on_main (total (compressed_reference dev_id qp_id))) (\<lambda>_.
             pseq (DecompressAsync P E
                 \<lparr>dp_device = unat dev_id, dp_queue_pair_id = qp_id,
                  dp_compressed_buffers = compressed_at dev_id qp_id, dp_decompressed_buffer = idx,
                  dp_result_callback = decompress_result_callback\<rparr>) (\<lambda>ret.
             total (return (ret = 0, x))))"
  have body: "?body i 0 (word_of_nat i) () (l, s) =
        pseq (launch_on E (decompress_job P i) 0 (word_of_nat i)) (\<lambda>ret. total (return (ret = 0, ()))) (l, s)"
    if i: "i < n" and Q: "\<exists>D. decompressing zss v dm zo D s" for i l s
  proof -
    have "compressed_vectors s = [0 \<mapsto> v]" "length v = n" using Q by (auto simp: decompressing_def packed_all_def)
    then have "pseq (on_main (total (compressed_reference 0 (word_of_nat i)))) f (l, s) = f () (l, s)"
      for f :: "unit \<Rightarrow> ('l \<times> 'w app, bool \<times> unit) pcode"
      using i unat_qp [OF i] by (simp add: pseq_def on_main_def compressed_reference_def guard_def return_def)
    then show ?thesis by (simp add: DecompressAsync_def decompress_job_def)
  qed
  note R = round_ok [where Q = "decompressing zss v dm zo" and f = "decompress_job P" and body = ?body,
      OF dv(2) s l jobs inv body]
  have eq: "BenchmarkDecompressAsync P E n (l, s) = pseq (for_queue_pairs [dv] ?body n 0 0 0 ())
    (\<lambda>_. pseq (WaitForAsyncCompletion E n) (\<lambda>async_success.
     if async_success then total (return ())
     else total (throw (Status IOError ''Failed to complete async decompression'')))) (l, s)"
    unfolding BenchmarkDecompressAsync_def with_devices dv(1) by (rule refl)
  show ?thesis using R unfolding twp_def pwp_def eq .
qed

lemma decompressing_again: "decompressing zss v dm zo D s \<Longrightarrow> decompressing zss v dm zo Map.empty s"
  by (auto simp: decompressing_def)

lemma decompress_rounds_ok:
  assumes "decompressing zss v dm zo Map.empty s" "\<forall>i. running E l i = None"
  shows "twp (decompress_rounds V P E n (Suc left)) (\<lambda>_ (l, s). (\<forall>i. running E l i = None) \<and>
    (\<exists>D. dom D = set (take n lc) \<and> decompressing zss v dm zo D s)) (\<lambda>_ _. False) (l, s)"
  using assms
proof (induction left arbitrary: l s)
  case 0
  show ?case
    unfolding decompress_rounds.simps twp_simps
    by (rule twp_else_Recycle, rule twp_mono [OF BenchmarkDecompressAsync_ok [OF 0]]) simp_all
next
  case (Suc left)
  show ?case
    unfolding decompress_rounds.simps(2) [of _ _ _ _ "Suc left"] twp_simps
  proof (rule twp_else_Recycle, rule twp_mono [OF BenchmarkDecompressAsync_ok [OF Suc.prems]])
    fix x :: unit and ls' :: "'l \<times> 'w app"
    assume at: "case ls' of (l, s) \<Rightarrow> (\<forall>i. running E l i = None) \<and>
      (\<exists>D. dom D = set (take n lc) \<and> decompressing zss v dm zo D s)"
    obtain l s where ls': "ls' = (l, s)" by fastforce
    then obtain D where "decompressing zss v dm zo D s" "\<forall>i. running E l i = None" using at by auto
    from Suc.IH [OF decompressing_again [OF this(1)] this(2)]
    show "twp (decompress_rounds V P E n (Suc left)) (\<lambda>_ (l, s). (\<forall>i. running E l i = None) \<and>
      (\<exists>D. dom D = set (take n lc) \<and> decompressing zss v dm zo D s)) (\<lambda>_ _. False) ls'"
      unfolding ls' .
  qed simp
qed

subsection \<open>The comparison\<close>

lemma compare_segments_ok:
  assumes "length bo = n" "mem_bytes (mach (app_world s)) (buf_data b) (length input) = input" "k \<le> n"
    and "\<And>i. i < n \<Longrightarrow> buf_size (bo ! i) = length (seg_at i) \<and>
      mem_bytes (mach (app_world s)) (buf_data (bo ! i)) (length (seg_at i)) = seg_at i"
  shows "compare_segments (buf_data b) (split_offset (length input) n k) (map Some (drop k bo)) s = (OK, s)"
  using assms(3)
proof (induction "n - k" arbitrary: k)
  case 0
  then show ?case using assms(1) by (simp add: return_def)
next
  case (Suc x)
  then have k: "k < n" by simp
  let ?off = "split_offset (length input) n k" and ?sz = "split_size (length input) n k"
  have "mem_bytes (mach (app_world s)) (buf_data b + ?off) ?sz = seg_at k"
    using assms(2) mem_bytes_slice [of ?off ?sz "length input" "mach (app_world s)" "buf_data b"] split_within [OF k, of "length input"]
    unfolding split_segment_def by simp
  moreover have "drop k bo = bo ! k # drop (Suc k) bo" using k assms(1) by (simp add: Cons_nth_drop_Suc)
  moreover have "compare_segments (buf_data b) (split_offset (length input) n (Suc k)) (map Some (drop (Suc k) bo)) s = (OK, s)"
    using Suc.hyps(1) [of "Suc k"] Suc.hyps(2) k by simp
  ultimately show ?case
    using assms(4) [OF k] k by (simp add: seq_def deref_def return_def split_offset_Suc)
qed

lemma compare_outputs_ok:
  assumes s: "decompressing zss v dm zo D s" "dom D = set (take n lc)" and "buf_size b = length input"
  shows "compare_outputs b (s\<lparr>devices := ds\<rparr>) = (OK, s\<lparr>devices := ds\<rparr>)"
proof -
  obtain bo where o: "packed_all zss v dm s" "output_vector s = map Some bo" "length bo = n"
    and each: "\<forall>i < n. D (lc ! i) \<noteq> None \<longrightarrow> buf_size (bo ! i) = length (seg_at i) \<and>
        mem_bytes (mach (app_world s)) (buf_data (bo ! i)) (length (seg_at i)) = seg_at i"
    using s(1) unfolding decompressing_def by blast
  have "D (lc ! i) \<noteq> None" if "i < n" for i
    using s(2) that lcores(2) by (metis domIff length_take min.absorb2 nth_mem nth_take)
  then have all: "buf_size (bo ! i) = length (seg_at i) \<and>
      mem_bytes (mach (app_world s)) (buf_data (bo ! i)) (length (seg_at i)) = seg_at i" if "i < n" for i
    using each that by blast
  have "map buf_size bo = map (split_size (length input) n) [0..<n]"
    by (rule nth_equalityI) (use all o(3) in simp_all)
  then have sum: "sum_list (map (buf_size \<circ> the) (map Some bo)) = length input"
    using sum_split_sizes [of "length input" n n] split_offset_all [OF lcores(1)] by (simp add: comp_def)
  have "one_device dm s" using o(1) by (simp add: packed_all_def)
  then have "mem_bytes (mach (app_world s)) (buf_data b) (length input) = input" by (rule one_device_ok)
  from compare_segments_ok [of bo "s\<lparr>devices := ds\<rparr>" 0] this o(3) all
  have "compare_segments (buf_data b) 0 (map Some bo) (s\<lparr>devices := ds\<rparr>) = (OK, s\<lparr>devices := ds\<rparr>)" by simp
  then show ?thesis using sum o(2) assms(3) by (simp add: compare_outputs_def seq_def)
qed

subsection \<open>The whole test\<close>

lemma twp_at_return: "twp (at_return f m) Q Er s = twp m (\<lambda>x (l, t). Q x (l, f t)) (\<lambda>e (l, t). Er e (l, f t)) s"
  by (auto simp: at_return_def twp_def pwp_def split: option.splits prod.splits sum.splits)

lemma twp_on_main: "m s = Some (Inr x, t) \<Longrightarrow> Q x (l, t) \<Longrightarrow> twp (on_main m) Q Er (l, s)"
  by (simp add: on_main_def twp_def pwp_def)

lemma emplace_ok:
  fixes s :: "'w app"
  assumes "devices s = [dv]" "worker_lcores dv = lc" "compressed_vectors s = Map.empty"
  shows "twp (for_queue_pairs (devices s) (\<lambda>idx dev_id qp_id x.
      pseq (on_main (total (modify (emplace_back dev_id)))) (\<lambda>_. total (return (True, x)))) n 0 0 0 ())
    (\<lambda>_ (l', t). l' = l \<and> t = s\<lparr>compressed_vectors := [0 \<mapsto> replicate n []]\<rparr>) (\<lambda>_ _. False) (l :: 'l, s)"
proof -
  let ?I = "\<lambda>i (_ :: unit) (l', t). l' = l \<and>
    t = s\<lparr>compressed_vectors := (if i = 0 then Map.empty else [0 \<mapsto> replicate i []])\<rparr>"
  let ?body = "\<lambda>idx dev_id qp_id x. pseq (on_main (total (modify (emplace_back dev_id)))) (\<lambda>_. total (return (True, x)))"
  have "twp (for_queue_pairs [dv] ?body n 0 0 0 ()) (?I n) (\<lambda>_ _. False) (l, s)"
  proof (rule single_visit [where I = ?I, OF assms(2)])
    show "?I 0 () (l, s)" using assms(3) by (cases s) simp
    fix i x and ls' :: "'l \<times> 'w app"
    assume at: "?I i x ls'"
    have snoc: "replicate i [] @ [[]] = replicate (Suc i) ([] :: buffer list)" by (simp flip: replicate_append_same)
    then show "twp (?body i 0 (word_of_nat i) x) (\<lambda>(go, y) t. go \<and> ?I (Suc i) y t) (\<lambda>_ _. False) ls'"
      using at by (cases ls') (auto simp: twp_def pwp_def pseq_def on_main_def modify_def emplace_back_def return_def)
  qed
  then show ?thesis using lcores(1) assms(1) by simp
qed

lemma compressed_cleared:
  assumes "compressed zi bi s"
  obtains zss v dm where "packed_all zss v dm ((clear_inputs A s)\<lparr>output_vector := replicate n None\<rparr>)"
proof -
  obtain D where D: "dom D = set (take n lc)" "compressing zi bi D s" using assms by (auto simp: compressed_def)
  obtain dm zss v where inv: "one_device dm s" "held_buffers (app_world s) zi bi" "input_vector s = map Some bi"
    "compressed_vectors s = [0 \<mapsto> v]" "length v = n" "stocked n H zss dm (app_world s)"
    and each: "\<And>j. j < n \<Longrightarrow> if D (lc ! j) = None then zss j = []
        else packed_segment P c (mach (app_world s)) (seg_at j) (zss j) (v ! j) \<and> length (zss j) = need j"
    using D(2) unfolding compressing_def by blast
  have over: "D (lc ! j) \<noteq> None" if "j < n" for j
    using D(1) that lcores(2) by (metis domIff length_take min.absorb2 nth_mem nth_take)
  let ?s = "s\<lparr>input_vector := []\<rparr>" and ?w = "release_all A (map Some bi) (app_world s)"
  have p: "packed_all zss v dm ?s"
    using inv each over by (simp add: packed_all_def one_device_def split: if_splits)
  note ok = one_device_ok [OF inv(1)]
  have hb: "list_all2 (on_zone (app_world s)) zi bi" "distinct zi" "zb \<notin> set zi" "\<And>z. z \<in> set zi \<Longrightarrow> Some z \<notin> Z"
    using inv(2) by (simp_all add: held_buffers_def)
  have R: "mz_ok P ?w" "same_queues P (mach (app_world s)) (mach ?w)" "zone_frame (set zi) (app_world s) ?w"
    using buffers_released [OF arrow library(1) ok(1) hb(1,2)] by simp_all
  have t: "(clear_inputs A s)\<lparr>output_vector := replicate n None\<rparr> =
      s\<lparr>input_vector := [], output_vector := replicate n None, app_world := ?w\<rparr>" using inv(3) by (simp add: clear_inputs_def)
  have "packed_all zss v dm ((clear_inputs A s)\<lparr>output_vector := replicate n None\<rparr>)"
    unfolding t
    by (rule packed_all_world [OF p, where K = "set zi"])
      (use one_device_world [OF inv(1) R hb(3,4)] inv(4) R(3) hb(4) in \<open>simp_all add: one_device_def dm_held_def\<close>)
  then show thesis by (rule that)
qed

lemma outputs_released:
  assumes "decompressing zss v dm zo D s"
  defines "w \<equiv> release_all A (output_vector s) (app_world s)"
  shows "mz_ok P w" "same_queues P (mach (app_world s)) (mach w)" "zone_frame (set zo) (app_world s) w" "zb \<notin> set zo"
    "\<And>z. z \<in> set zo \<Longrightarrow> Some z \<notin> Z"
proof -
  obtain bo where o: "output_vector s = map Some bo" "held_buffers (app_world s) zo bo" "one_device dm s"
    using assms(1) by (auto simp: decompressing_def packed_all_def)
  note ok = one_device_ok [OF o(3)]
  show "zb \<notin> set zo" "\<And>z. z \<in> set zo \<Longrightarrow> Some z \<notin> Z" using o(2) by (simp_all add: held_buffers_def)
  have "list_all2 (on_zone (app_world s)) zo bo" "distinct zo" using o(2) by (simp_all add: held_buffers_def)
  from buffers_released [OF arrow library(1) ok(1) this]
  show "mz_ok P w" "same_queues P (mach (app_world s)) (mach w)" "zone_frame (set zo) (app_world s) w"
    unfolding w_def o(1) by simp_all
qed

text \<open>What is left at the end: the device is ready again and holds what it held before.\<close>

definition back_again :: "'l \<times> 'w app \<Rightarrow> bool" where
  "back_again = (\<lambda>(l, t). (\<forall>i. running E l i = None) \<and> input_vector t = [] \<and> output_vector t = [] \<and>
     (\<exists>dm. one_device dm t \<and> dm_held (dm, app_world t) = H))"

lemma final_ok:
  assumes d: "decompressing zss v dm zo D s" "dom D = set (take n lc)" and size: "buf_size b = length input"
    and l: "\<forall>i. running E l i = None"
  shows "twp (pseq (on_main (Recycle_vectors V)) (\<lambda>_. on_main (total (compare_outputs b))))
    (\<lambda>_ (l, t). back_again (l, (clear_inputs A \<circ> clear_outputs A) t)) (\<lambda>_ _. False) (l, s)"
proof -
  have p: "one_device dm s" "compressed_vectors s = [0 \<mapsto> v]" "length v = n" "input_vector s = []"
    "stocked n H zss dm (app_world s)" "\<And>i. i < n \<Longrightarrow> list_all2 filled (zss i) (v ! i)"
    using d(1) by (simp_all add: decompressing_def packed_all_def packed_segment_def)
  obtain dv dm' where R: "Recycle_vectors V s = Some (OK, s\<lparr>devices := [dv]\<rparr>)"
    "one_device dm' (s\<lparr>devices := [dv]\<rparr>)" "dm_held (dm', app_world s) = H"
    by (rule Recycle_all [OF p(1,5,2,3,6)])
  let ?s = "s\<lparr>devices := [dv]\<rparr>" and ?w = "release_all A (output_vector s) (app_world s)"
  note F = outputs_released [OF d(1)]
  have t: "(clear_inputs A \<circ> clear_outputs A) ?s = ?s\<lparr>app_world := ?w, input_vector := [], output_vector := []\<rparr>"
    using p(4) by (simp add: clear_inputs_def clear_outputs_def release_all_def)
  have "one_device dm' (?s\<lparr>app_world := ?w\<rparr>)"
    by (rule one_device_world [OF R(2) F(1) _ _ F(4,5)]) (use F(2,3) in simp_all)
  then have "back_again (l, (clear_inputs A \<circ> clear_outputs A) ?s)"
    unfolding t back_again_def using l R(3)
    by (auto simp: one_device_def dm_held_def intro!: exI [of _ dm'])
  moreover have "total (compare_outputs b) ?s = Some (OK, ?s)" using compare_outputs_ok [OF d size, of "[dv]"] by simp
  ultimately show ?thesis
    unfolding twp_simps by (intro twp_on_main [where m = "Recycle_vectors V", OF R(1)] twp_on_main) (assumption | simp)+
qed

text \<open>The decompressions, when all segments are compressed, and before them the compressions.\<close>

abbreviation (input) "at_end \<equiv> \<lambda>(_ :: unit) (l, t). back_again (l, (clear_inputs A \<circ> clear_outputs A) t)"

lemma decompressions_ok:
  assumes s: "packed_all zss v dm s" "output_vector s = replicate n None" and size: "buf_size b = length input"
    and l: "\<forall>i. running E l i = None"
  shows "twp (pseq (allocate_outputs V A n) (\<lambda>_. pseq (decompress_rounds V P E n kNumTests) (\<lambda>_.
      pseq (on_main (Recycle_vectors V)) (\<lambda>_. on_main (total (compare_outputs b)))))) at_end (\<lambda>_ _. False) (l, s)"
proof -
  let ?last = "pseq (on_main (Recycle_vectors V)) (\<lambda>_. on_main (total (compare_outputs b)))"
  obtain left where left: "kNumTests = Suc left" by (cases kNumTests) (simp_all add: kNumTests_def)
  have rounds: "twp (pseq (decompress_rounds V P E n kNumTests) (\<lambda>_. ?last)) at_end (\<lambda>_ _. False) (l, t)"
    if t: "decompressing zss v dm zo Map.empty t" for t zo
    unfolding twp_simps(1) [of "decompress_rounds V P E n kNumTests"]
  proof (rule twp_mono [OF decompress_rounds_ok [OF t l, of left, folded left]])
    fix x :: unit and ls' :: "'l \<times> 'w app"
    assume at: "case ls' of (l, s) \<Rightarrow> (\<forall>i. running E l i = None) \<and>
      (\<exists>D. dom D = set (take n lc) \<and> decompressing zss v dm zo D s)"
    obtain l s where ls': "ls' = (l, s)" by fastforce
    obtain D where D: "\<forall>i. running E l i = None" "dom D = set (take n lc)" "decompressing zss v dm zo D s"
      using at ls' by auto
    from final_ok [OF D(3,2) size D(1)] show "twp ?last at_end (\<lambda>_ _. False) ls'" unfolding ls' .
  qed simp
  show ?thesis
    unfolding twp_simps(1) [of "allocate_outputs V A n"]
    by (rule twp_mono [OF allocate_outputs_ok [OF s]]) (use rounds in auto)
qed

lemma compressions_ok:
  assumes s: "compressing zi bi Map.empty s" and size: "buf_size b = length input" and l: "\<forall>i. running E l i = None"
  shows "twp (pseq (compress_rounds V P E n kNumTests 0) (\<lambda>_.
      pseq (on_main (total (modify (\<lambda>s. (clear_inputs A s)\<lparr>output_vector := replicate n None\<rparr>)))) (\<lambda>_.
      pseq (allocate_outputs V A n) (\<lambda>_. pseq (decompress_rounds V P E n kNumTests) (\<lambda>_.
      pseq (on_main (Recycle_vectors V)) (\<lambda>_. on_main (total (compare_outputs b)))))))) at_end (\<lambda>_ _. False) (l, s)"
proof -
  let ?second = "pseq (allocate_outputs V A n) (\<lambda>_. pseq (decompress_rounds V P E n kNumTests) (\<lambda>_.
      pseq (on_main (Recycle_vectors V)) (\<lambda>_. on_main (total (compare_outputs b)))))"
  let ?clear = "\<lambda>s. (clear_inputs A s)\<lparr>output_vector := replicate n None\<rparr>"
  obtain left where left: "kNumTests = Suc left" "0 + Suc left = kNumTests" by (cases kNumTests) (simp_all add: kNumTests_def)
  show ?thesis
    unfolding twp_simps(1) [of "compress_rounds V P E n kNumTests 0"]
  proof (rule twp_mono [OF compress_rounds_ok [OF s l left(2), folded left(1)]])
    fix x :: unit and ls' :: "'l \<times> 'w app"
    assume at: "case ls' of (l, s) \<Rightarrow> (\<forall>i. running E l i = None) \<and> compressed zi bi s"
    obtain l s where ls': "ls' = (l, s)" by fastforce
    have c: "\<forall>i. running E l i = None" "compressed zi bi s" using at ls' by simp_all
    obtain zss v dm where p: "packed_all zss v dm (?clear s)" by (rule compressed_cleared [OF c(2)])
    have "twp ?second at_end (\<lambda>_ _. False) (l, ?clear s)" by (rule decompressions_ok [OF p _ size c(1)]) simp
    then show "twp (pseq (on_main (total (modify ?clear))) (\<lambda>_. ?second)) at_end (\<lambda>_ _. False) ls'"
      unfolding ls' twp_simps(1) [of "on_main _"] by (intro twp_on_main) (simp_all add: modify_def)
  qed simp
qed

lemma EvaluateAsync_ok:
  assumes s: "one_device dm s" "dm_held (dm, app_world s) = H" and l: "\<forall>i. running E l i = None"
    and num: "unat num = n" and size: "buf_size b = length input"
  shows "twp (EvaluateAsync V P A E num b) (\<lambda>_. back_again) (\<lambda>_ _. False) (l, s)"
proof -
  obtain dv where dv: "devices s = [dv]" "worker_lcores dv = lc" using s(1) by (rule one_deviceD)
  have "unat (total_num_qps [dv]) = length lc"
    using lcores(3) dv(2) by (simp add: total_num_qps_def num_qps_def unsigned_ucast_eq unat_of_nat take_bit_nat_eq_self)
  then have enough: "\<not> total_num_qps [dv] < num" using num lcores(2) by (simp add: word_less_nat_alt)
  have nz: "pseq (total (guard (num \<noteq> 0) DivisionByZero)) f ls = f () ls"
    for ls :: "'l \<times> 'w app" and f :: "unit \<Rightarrow> ('l \<times> 'w app, unit) pcode"
    using num lcores(1) by (auto simp: guard_def return_def pseq_def)
  let ?s1 = "s\<lparr>input_vector := replicate n None, compressed_vectors := Map.empty, output_vector := []\<rparr>"
  have s1: "one_device dm ?s1" "dm_held (dm, app_world ?s1) = H" using s by (simp_all add: one_device_def)
  have none: "held_buffers (app_world ?s1) [] []" "input_segments (app_world ?s1) []"
    by (simp_all add: held_buffers_def input_segments_def)
  obtain zi bi w where seg: "segment_inputs P A (buf_data b) (length input div n) (length input mod n) n 0 0 ?s1 =
      Some (OK, ?s1\<lparr>app_world := w, input_vector := map Some bi\<rparr>)"
    "one_device dm (?s1\<lparr>app_world := w, input_vector := map Some bi\<rparr>)" "held_buffers w zi bi" "input_segments w bi" "length bi = n"
  proof (rule segment_inputs_ok [OF s1(1) none])
    show "input_vector ?s1 = map Some [] @ replicate n None" "length [] + n = n" by simp_all
    show "dm_held (dm, app_world ?s1) = H" by (rule s1(2))
    fix zi bi w assume "segment_inputs P A (buf_data b) (length input div n) (length input mod n) n (length ([] :: buffer list))
        (split_offset (length input) n (length ([] :: buffer list))) ?s1 = Some (OK, ?s1\<lparr>app_world := w, input_vector := map Some bi\<rparr>)"
      "one_device dm (?s1\<lparr>app_world := w, input_vector := map Some bi\<rparr>)" "held_buffers w zi bi" "input_segments w bi" "length bi = n"
    then show thesis by (intro that) simp_all
  qed
  let ?s2 = "?s1\<lparr>app_world := w, input_vector := map Some bi\<rparr>"
  let ?s3 = "?s2\<lparr>compressed_vectors := [0 \<mapsto> replicate n []]\<rparr>"
  have s3: "compressing zi bi Map.empty ?s3"
    unfolding compressing_def
    by (intro exI [of _ dm] exI [of _ "\<lambda>_. []"] exI [of _ "replicate n []"])
      (use seg(2-5) s(2) in \<open>simp add: one_device_def stocked_def dm_held_def\<close>)
  let ?start = "on_main (total (modify (\<lambda>s. s\<lparr>input_vector := replicate n None, compressed_vectors := Map.empty, output_vector := []\<rparr>)))"
  let ?test = "pseq (on_main (segment_inputs P A (buf_data b) (buf_size b div n) (buf_size b mod n) n 0 0)) (\<lambda>_.
        pseq (for_queue_pairs [dv] (\<lambda>idx dev_id qp_id x.
                pseq (on_main (total (modify (emplace_back dev_id)))) (\<lambda>_. total (return (True, x)))) n 0 0 0 ()) (\<lambda>_.
        pseq (compress_rounds V P E n kNumTests 0) (\<lambda>_.
        pseq (on_main (total (modify (\<lambda>s. (clear_inputs A s)\<lparr>output_vector := replicate n None\<rparr>)))) (\<lambda>_.
        pseq (allocate_outputs V A n) (\<lambda>_.
        pseq (decompress_rounds V P E n kNumTests) (\<lambda>_.
        pseq (on_main (Recycle_vectors V)) (\<lambda>_.
        on_main (total (compare_outputs b)))))))))"
  have eq: "EvaluateAsync V P A E num b (l, s) =
      pseq ?start (\<lambda>_. at_return (clear_inputs A \<circ> clear_outputs A) ?test) (l, s)"
    unfolding EvaluateAsync_def Let_def num with_devices dv(1) if_not_P [OF enough] nz by (rule refl)
  let ?rest = "pseq (compress_rounds V P E n kNumTests 0) (\<lambda>_.
        pseq (on_main (total (modify (\<lambda>s. (clear_inputs A s)\<lparr>output_vector := replicate n None\<rparr>)))) (\<lambda>_.
        pseq (allocate_outputs V A n) (\<lambda>_.
        pseq (decompress_rounds V P E n kNumTests) (\<lambda>_.
        pseq (on_main (Recycle_vectors V)) (\<lambda>_.
        on_main (total (compare_outputs b)))))))"
  have rest: "twp ?rest at_end (\<lambda>_ _. False) (l, ?s3)" by (rule compressions_ok [OF s3 size l])
  have ds: "devices ?s2 = [dv]" "compressed_vectors ?s2 = Map.empty" using dv(1) by simp_all
  have "twp ?test at_end (\<lambda>_ _. False) (l, ?s1)"
    unfolding twp_simps(1) [of "on_main (segment_inputs P A (buf_data b) (buf_size b div n) (buf_size b mod n) n 0 0)"]
    unfolding size
  proof (rule twp_on_main [where m = "segment_inputs P A (buf_data b) (length input div n) (length input mod n) n 0 0", OF seg(1)],
      unfold twp_simps(1) [of "for_queue_pairs _ _ _ _ _ _ _"])
    show "twp (for_queue_pairs [dv] (\<lambda>idx dev_id qp_id x.
                pseq (on_main (total (modify (emplace_back dev_id)))) (\<lambda>_. total (return (True, x)))) n 0 0 0 ())
        (\<lambda>_. twp ?rest at_end (\<lambda>_ _. False)) (\<lambda>_ _. False) (l, ?s2)"
      by (rule twp_mono [OF emplace_ok [OF ds(1) dv(2) ds(2), of l, unfolded ds(1)]]) (use rest in auto)
  qed
  then have "twp (at_return (clear_inputs A \<circ> clear_outputs A) ?test) (\<lambda>_. back_again) (\<lambda>_ _. False) (l, ?s1)"
    unfolding twp_at_return by (rule twp_mono) auto
  then have "twp (pseq ?start (\<lambda>_. at_return (clear_inputs A \<circ> clear_outputs A) ?test)) (\<lambda>_. back_again) (\<lambda>_ _. False) (l, s)"
    unfolding twp_simps(1) [of ?start] by (intro twp_on_main) (simp_all add: modify_def)
  then show ?thesis unfolding twp_def pwp_def eq .
qed

text \<open>The rounds as rounds over the queue pairs.\<close>

lemma compressing_round:
  assumes "worker_lcores dv = lc"
  shows "queue_pair_round E W [dv] n (map (compress_job P) [0..<n]) (compressing zi bi)"
proof (rule single_round [OF refl assms])
  show "\<exists>r t. compress_job P i s = Some (Inr r, t) \<and> compressing zi bi (D(lc ! i \<mapsto> r)) t"
    if "compressing zi bi D s" "i < n" "D (lc ! i) = None" for D i s
    using compress_job_ok [OF that] by blast
  show "\<exists>dm. one_device dm s" if "compressing zi bi D s" for D s using that unfolding compressing_def by blast
qed

lemma decompressing_round:
  assumes "worker_lcores dv = lc"
  shows "queue_pair_round E W [dv] n (map (decompress_job P) [0..<n]) (decompressing zss v dm zo)"
proof (rule single_round [OF refl assms])
  show "\<exists>r t. decompress_job P i s = Some (Inr r, t) \<and> decompressing zss v dm zo (D(lc ! i \<mapsto> r)) t"
    if "decompressing zss v dm zo D s" "i < n" "D (lc ! i) = None" for D i s
    using decompress_job_ok [OF that] by blast
  show "\<exists>dm. one_device dm s" if "decompressing zss v dm zo D s" for D s
    using that unfolding decompressing_def packed_all_def by blast
qed

end

end
