(* ===== verification/Bitar_Beside.thy ===== *)
theory Bitar_Beside
  imports Bitar_Async_Test
begin

text \<open>
  What the synchronous test, which uses one queue pair, leaves of the rest of the device: the
  walk of \<open>Bitar_Elsewhere\<close> for the functions of the application, which allocate and release
  buffers of their own between the calls.
\<close>

subsection \<open>The pool of memzones and the queue pairs\<close>

lemma same_queues_refl [simp]: "same_queues P m m"
  by (simp add: same_queues_def)

lemma pool_same_queues:
  assumes "zone_frame_laws P"
  shows "same_queues P (mach w) (mach (snd (snd (pool_Allocate nd (RtememzoneMemoryPool P) n al out w))))"
    and "same_queues P (mach w) (mach (snd (pool_Free nd (RtememzoneMemoryPool P) a n al w)))"
proof -
  have reserve: "same_queues P (mach w) (mach (snd (snd (memzone_AllocateAligned P n al out w))))"
    using assms unfolding zone_frame_laws_def memzone_AllocateAligned_def
    by (auto simp: tracker_Emplace_def split: option.split prod.split) (metis snd_conv)+
  then show "same_queues P (mach w) (mach (snd (snd (pool_Allocate nd (RtememzoneMemoryPool P) n al out w))))"
    unfolding pool_Allocate_def RtememzoneMemoryPool_sel
    by (auto simp: Let_def same_queues_def split: prod.splits sum.splits)
  show "same_queues P (mach w) (mach (snd (pool_Free nd (RtememzoneMemoryPool P) a n al w)))"
    using assms unfolding zone_frame_laws_def pool_Free_def RtememzoneMemoryPool_sel memzone_DeallocateAligned_def tracker_Release_def
    by (auto simp: Let_def same_queues_def split: prod.splits sum.splits option.splits)
qed

text \<open>Arrow's allocation of a buffer does nothing to the device, whatever the size.\<close>

definition allocation_frame :: "('w, 'p) dpdk_scheme \<Rightarrow> 'w arrow \<Rightarrow> bool" where
  "allocation_frame P A \<longleftrightarrow>
     (\<forall>sz w. same_queues P (mach w) (mach (snd (AllocateResizableBuffer A sz rtememzone_pool w))))"

subsection \<open>The walk\<close>

definition beside :: "('w, 'p) dpdk_scheme \<Rightarrow> u16 \<Rightarrow> 'w dev_state \<Rightarrow> 'w dev_state \<Rightarrow> bool" where
  "beside P qp_id s t \<longleftrightarrow>
     xforms P (hidden (mach (env t))) = xforms P (hidden (mach (env s))) \<and>
     (\<forall>q. q \<noteq> qp_id \<longrightarrow> inflight P (hidden (mach (env t))) (device_id (dev s)) q =
        inflight P (hidden (mach (env s))) (device_id (dev s)) q) \<and>
     device_id (dev t) = device_id (dev s) \<and> worker_lcores (dev t) = worker_lcores (dev s) \<and>
     device_configuration (dev t) = device_configuration (dev s) \<and> device_state (dev t) = device_state (dev s) \<and>
     length (qp_memory (dev t)) = length (qp_memory (dev s)) \<and>
     (\<forall>i. i \<noteq> unat qp_id \<longrightarrow> qp_memory (dev t) ! i = qp_memory (dev s) ! i)"

interpretation beside: kept_relation "beside P qp_id" for P qp_id
  by unfold_locales (auto simp: beside_def)

lemma one_call_beside: "one_call P qp_id s t \<Longrightarrow> beside P qp_id s t"
  by (auto simp: one_call_def elsewhere_def beside_def)

lemma beside_world: "same_queues P (mach (env s)) (mach w) \<Longrightarrow> beside P qp_id s (s\<lparr>env := w\<rparr>)"
  by (simp add: beside_def same_queues_def)

lemma beside_memory: "beside P qp_id s (s\<lparr>dev := (dev s)\<lparr>device_mem := m\<rparr>\<rparr>)"
  by (simp add: beside_def)

lemma pkeeps_weaker: "pkeeps_to R m \<Longrightarrow> (\<And>s t. R s t \<Longrightarrow> R' s t) \<Longrightarrow> pkeeps_to R' m"
  by (simp add: pkeeps_to_def)

text \<open>A call is ready on the other queue pairs whenever the device memory is in order.\<close>

lemma beside_calls_ready:
  assumes call: "beside P qp_id s t" and other: "q \<noteq> qp_id" and ready: "calls_ready P c q dm s"
    and dm: "device_mem (dev t) = Some dm'" "dm_ok P c (dm', env t)"
  shows "calls_ready P c q dm' t"
proof -
  have i: "unat q \<noteq> unat qp_id" using other by (simp add: word_unat_eq_iff)
  have "at_rest P c md (device_id (dev s)) q (qp_view (dev t) (unat q) dm' (env t)) =
      at_rest P c md (device_id (dev s)) q (qp_view (dev s) (unat q) dm (env s))" for md
    using call i other by (simp add: at_rest_def qp_view_def beside_def)
  then show ?thesis
    using ready call dm i by (simp add: calls_ready_def beside_def num_qps_def)
qed

text \<open>The functions of the test.\<close>

lemma keeps_device_Recycle [keeping]:
  fixes P :: "('w, 'p) dpdk_scheme"
  shows "keeps_to (beside P qp_id) (CompressDevice_Recycle bufs)"
  unfolding keeps_to_def
proof
  fix s :: "'w dev_state"
  show "beside P qp_id s (snd (CompressDevice_Recycle bufs s))"
  proof (cases "bufs = [] \<or> device_mem (dev s) = None")
    case True
    then show ?thesis by (auto simp: CompressDevice_Recycle_def split: list.split)
  next
    case False
    then obtain dm where dm: "device_mem (dev s) = Some dm" "bufs \<noteq> []" by blast
    obtain k dm' w where r: "Recycle bufs (dm, env s) = (k, dm', w)" by (metis prod_cases3)
    then have w: "w = env s" using Recycle_world [of bufs "(dm, env s)"] by simp
    show ?thesis
      using dm r w beside_memory [of P qp_id s "Some dm'"] by (cases bufs) (simp_all add: CompressDevice_Recycle_def)
  qed
qed

locale test_frame = library_frame P for P :: "('w, 'p) dpdk_scheme" +
  fixes A :: "'w arrow"
  assumes arrow: "arrow_laws P A" "allocation_frame P A"
begin

lemma beside_calls [keeping]:
  "pkeeps_to (beside P qp_id) (Compress P qp_id b)" "pkeeps_to (beside P qp_id) (Decompress P qp_id bufs b)"
  by (rule pkeeps_weaker [OF one_call_Compress one_call_beside] pkeeps_weaker [OF one_call_Decompress one_call_beside]; assumption)+

lemma beside_checked_Recycle [keeping]: "pkeeps_to (beside P qp_id) (checked_Recycle bufs)"
  unfolding checked_Recycle_def by (intro keeping)

lemma beside_not_ok_recycle [keeping]:
  assumes "pkeeps_to (beside P qp_id) m"
  shows "pkeeps_to (beside P qp_id) (not_ok_recycle bufs m)"
proof -
  have r: "pkeeps_to (beside P qp_id) (pseq (total (CompressDevice_Recycle bufs)) (\<lambda>_. total (throw (Status code msg))))" for code msg
    by (intro keeping)
  show ?thesis
    using assms r unfolding pkeeps_to_def not_ok_recycle_def
    by (auto split: option.splits prod.splits sum.splits error.splits) (blast intro: beside.kept_trans)
qed

lemma beside_compress_tests [keeping]: "pkeeps_to (beside P qp_id) (compress_tests P qp_id b left idx bufs)"
proof (induction left arbitrary: idx bufs)
  case 0
  show ?case unfolding compress_tests.simps by (intro keeping)
next
  case (Suc left)
  show ?case unfolding compress_tests.simps BenchmarkCompressSync_def by (intro keeping Suc.IH)
qed

lemma beside_decompress_tests [keeping]: "pkeeps_to (beside P qp_id) (decompress_tests P qp_id bufs left out)"
proof (induction left arbitrary: out)
  case 0
  show ?case unfolding decompress_tests.simps by (intro keeping)
next
  case (Suc left)
  show ?case unfolding decompress_tests.simps BenchmarkDecompressSync_def by (intro keeping Suc.IH)
qed

lemma beside_allocate_output [keeping]: "pkeeps_to (beside P qp_id) (allocate_output A n)"
proof -
  have "same_queues P (mach w) (mach w')" if "AllocateResizableBuffer A sz rtememzone_pool w = (r, w')" for sz w r w'
    using arrow(2) that unfolding allocation_frame_def by (metis snd_conv)
  then show ?thesis
    unfolding pkeeps_to_def allocate_output_def
    by (auto simp: GetMemoryPool_def intro!: beside_world split: prod.splits)
qed

lemma beside_with_output [keeping]:
  assumes "pkeeps_to (beside P qp_id) m"
  shows "pkeeps_to (beside P qp_id) (with_output A out m)"
proof -
  have "release_buffer A out rtememzone_pool w =
      snd (pool_Free (NDEBUG P) (RtememzoneMemoryPool P) (buf_data out) (int (buf_capacity out)) kDefaultBufferAlignment w)" for w
    using arrow(1) by (simp add: arrow_laws_def)
  then have "same_queues P (mach w) (mach (release_buffer A out rtememzone_pool w))" for w
    using pool_same_queues(2) [OF laws(4)] by simp
  then have "beside P qp_id s (t\<lparr>env := release_buffer A out rtememzone_pool (env t)\<rparr>)" if "beside P qp_id s t" for s t
    using beside.kept_trans [OF that beside_world] by blast
  then show ?thesis
    using assms unfolding pkeeps_to_def with_output_def by auto
qed

lemma beside_compare [keeping]: "pkeeps_to (beside P qp_id) (compare_buffers out b)"
  unfolding pkeeps_to_def compare_buffers_def by (auto simp: return_def throw_def)

lemma beside_EvaluateSync: "pkeeps_to (beside P 0) (EvaluateSync P A b)"
  unfolding EvaluateSync_def Let_def by (intro keeping)

end

end
