(* ===== verification/Bitar_Whole.thy ===== *)
theory Bitar_Whole
  imports Bitar_Evaluate Bitar_Beside Bitar_Driver
begin

text \<open>
  The application as a whole: the devices it sets up have all that its tests need, so both
  tests pass one after the other.
\<close>

subsection \<open>The synchronous test and then the asynchronous one\<close>



subsection \<open>What the application configures\<close>






subsection \<open>Both tests pass\<close>



subsection \<open>The application on the stand-in\<close>



abbreviation "big_buffer \<equiv> \<lparr>buf_data = 72, buf_size = 1129740, buf_capacity = 1129740\<rparr>"








lemma sim_allocation_frame: "allocation_frame sim_dpdk sim_arrow"
  using pool_same_queues(1) [OF sim_zone_frame_laws]
  unfolding allocation_frame_def sim_arrow_def sim_allocate_def
  by (auto simp: Let_def split: prod.splits sum.splits) (metis snd_conv)+

interpretation sim_tests: test_frame sim_dpdk sim_arrow
  by unfold_locales (simp_all add: sim_arrow_laws sim_allocation_frame)


end
