(* ===== verification/Spec2Isabelle.thy ===== *)
theory Spec2Isabelle
  imports Bitar_Device_Control Bitar_Calls Bitar_Whole
begin

text \<open>
  A verification development for bitar, a library that compresses and decompresses buffers on the
  compression engine of a SmartNIC through DPDK, and for its demo application. Paths of the
  library are relative to \<open>src/\<close> and those of the application to \<open>apps/\<close>.

  \<^bold>\<open>The program.\<close> A driver (\<open>driver.cc\<close>) lists the devices and deals the worker lcores out to them.
  A \<open>CompressDevice\<close> (\<open>device.cc\<close>) is validated and started with a \<open>Configuration\<close> (\<open>config.cc\<close>).
  It owns a \<open>DeviceMemory\<close>, a stock of memzones all its queue pairs share, and a \<open>QueuePairMemory\<close>
  for each queue pair (\<open>memory.cc\<close>). \<open>Compress\<close> cuts a buffer into segments, assembles one operation
  for each over a memzone of the stock, enqueues and dequeues them in bursts, and returns the
  memzones with the results as buffers; \<open>Decompress\<close> puts each compressed buffer back at its place
  in one output. Memzones come from the memory pools (\<open>memory_pool.cc\<close>), which also serve Arrow.
  \<open>util.cc\<close> and \<open>util.h\<close> find lcores, carry status codes as integers and launch calls on lcores.
  The application (\<open>app_common.cc\<close>, \<open>demo_app.cc\<close>) sets up devices and runs a synchronous test on
  one queue pair and an asynchronous test on all of them.

  \<^bold>\<open>The theories of the model.\<close> Each has the records, datatypes and operations of one part, under the
  names of the code; integers have the width they have in C++.
  \<^item> \<open>Bitar_Prelude\<close>: integer types, \<open>Status\<close> and \<open>Fault\<close>, the ways to sequence steps, generic lemmas.
  \<^item> \<open>Bitar_Config\<close>: \<open>config.h\<close>, \<open>config.cc\<close>. \<open>Bitar_Util\<close>: \<open>util.cc\<close> and the macros of \<open>util.h\<close>.
  \<^item> \<open>Bitar_Dpdk\<close>, \<open>Bitar_Compressdev\<close>: the boundary with DPDK, as fields of a parameter \<open>P\<close>.
  \<^item> \<open>Bitar_Memory_Pool\<close>: \<open>memory_pool.cc\<close>. \<open>Bitar_Device_Memory\<close> and \<open>Bitar_QP_Memory\<close>: the two
    classes of \<open>memory.cc\<close>. \<open>Bitar_Device\<close>: \<open>device.cc\<close>. \<open>Bitar_Driver\<close>: \<open>driver.cc\<close>.
  \<^item> \<open>Bitar_App\<close>: \<open>app_common.cc\<close> and the synchronous test of \<open>demo_app.cc\<close>. \<open>Bitar_Async\<close>: the
    launchers of \<open>util.h\<close> and the asynchronous test.

  \<^bold>\<open>State and effects.\<close> A \<open>world\<close> is the machine (the bytes of memory, mbufs, operations and what
  DPDK hides), the tracker of reserved memzones, the statistics of the pools and the counter of
  suspicious bursts. The state of a queue pair, a device or the application is a record with the
  members of its class and the world. A step returns \<open>Inr\<close> of its value, or \<open>Inl\<close> of a \<open>Status\<close> the
  code returns or of a \<open>Fault\<close>, which stands for undefined behaviour, a failed check or an
  exception nobody catches. Where a loop of the code may run for ever the step is a
  \<open>partial_function (option)\<close>, and \<open>None\<close> means that it does not return; that it returns is always
  stated and proved as such. No definition has fuel. The numbers of repetitions of the tests are
  those of the code.

  \<^bold>\<open>What is assumed of code outside of the repository.\<close> The functions of DPDK, Arrow and the
  operating system are the fields of \<open>P\<close>, of \<open>'w arrow\<close>, of \<open>launcher\<close> and of \<open>driver_env\<close>. The
  theorems state what they rely on as named laws over these fields, such as \<open>memzone_laws\<close>,
  \<open>malloc_laws\<close>, \<open>alloc_laws\<close>, \<open>free_laws\<close>, \<open>mbuf_laws\<close>, \<open>burst_laws\<close>, \<open>codec_laws\<close> (most of them together
  in \<open>compress_laws\<close>), \<open>setup_laws\<close>, \<open>queue_frame_laws\<close>, \<open>arrow_laws\<close> and \<open>launcher_laws\<close>. Two
  assumptions are about one device: \<open>prompt\<close>, that it does not refuse or sit on operations for
  ever, for termination; and \<open>faultless\<close>, that it reports no errors, where a theorem says that a
  call succeeds. \<open>Bitar_Sim\<close>, \<open>Bitar_Sim_Device\<close>, \<open>Bitar_Sim_Calls\<close> and the second half of
  \<open>Bitar_Evaluate\<close> give stand-ins that keep all of them: the witnesses of the properties evaluate
  the definitions on these, and every locale is interpreted on the model's definitions over them or
  over any \<open>P\<close> with the laws.

  \<^bold>\<open>The theories of the proofs.\<close>
  \<^item> \<open>Bitar_Memory_Pool\<close>: the locale \<open>byte_allocator\<close> of what a pool asks of an allocator, and the
    books of any sequence of requests; interpreted on both allocators.
  \<^item> \<open>Bitar_Device_Memory\<close>: the locale \<open>memzone_source\<close> of \<open>Take\<close> and \<open>Put\<close>; no memzone has two holders.
  \<^item> \<open>Bitar_Assembly\<close>, \<open>Bitar_Batch\<close>, \<open>Bitar_Compress_Batch\<close>: what the assemblers build and what they
    leave behind when they fail. \<open>Bitar_Pipeline\<close>: the operations on their way through a queue pair.
    \<open>Bitar_Release\<close>: the clean-up after an error.
  \<^item> \<open>Bitar_Bursts\<close>: the locale \<open>burst_client\<close> of an assembler and a callback, and the loops of bursts
    proved once for any such client. \<open>Bitar_Compress\<close>, \<open>Bitar_Compress_Call\<close> and \<open>Bitar_Decompress\<close>,
    \<open>Bitar_Decompress_Call\<close>: the two clients and the calls as a whole.
  \<^item> \<open>Bitar_Setup\<close>: \<open>Initialize\<close>. \<open>Bitar_Device_Control\<close>: validation, the entry guard, error counts and
    the destructor. \<open>Bitar_Calls\<close>: the properties of the calls, against the abstract specification
    \<open>compressed_form\<close>, the output of the codec for each segment of the input.
  \<^item> \<open>Bitar_Sync\<close>: the synchronous test, on the lemmas of the calls.
  \<^item> \<open>Bitar_Elsewhere\<close>: a call on one queue pair leaves the others as they are, by a walk over its
    code. \<open>Bitar_Lcores\<close>: rounds of jobs on lcores in any order (\<open>lcore_step\<close>, the locale
    \<open>lcore_round\<close>) and the order of the loops over queue pairs (\<open>queue_pair_round\<close>). \<open>Bitar_Zones\<close>,
    \<open>Bitar_Parallel\<close>, \<open>Bitar_Rounds\<close>, \<open>Bitar_Async_Test\<close>: buffers outside of the device, the split of
    the input, the invariants of the rounds and the asynchronous test as a whole (the locale
    \<open>async_session\<close>). \<open>Bitar_Evaluate\<close>: its properties.
  \<^item> \<open>Bitar_Beside\<close>: the synchronous test leaves the other queue pairs as they are. \<open>Bitar_Whole\<close>: the
    application from the listing of the devices to the end of both tests.

  \<^bold>\<open>Bounds.\<close> The theorems on the contents of \<open>Compress\<close> and \<open>Decompress\<close> are for one mbuf per operation
  and a batch that does not overflow an \<open>int\<close> (\<open>one_segment\<close>), which is what the application
  configures and what the devices take; the definitions are for any number. The tests are for
  inputs below \<open>2 ^ 40\<close> bytes. That the asynchronous test and the application as a whole pass is
  proved for one device, whose id is its position in the list, and any number of worker lcores; the
  order of the loops over the queue pairs is proved for any number of devices.

  \<^bold>\<open>Not modelled.\<close> \<open>CleanupAndExit\<close> (formats a message and ends the process) and \<open>ToString\<close>
  (formatting); the type aliases and pointer casts; printing, timing and log messages; in the
  application the reading of the input with Arrow's readers and the options of \<open>main\<close> and the
  signal handler, which only hand parameters to other libraries. Mutexes are modelled by their
  effect: an operation under one is one step. A call that runs on an lcore is one step of the
  application too: the model has all orders of these calls, but not their interleaving inside,
  which the code keeps apart by the queue pair's own memory, the mutex of the device memory and
  the one of the tracker. The counter of suspicious bursts is the exception: the code shares it
  between lcores without synchronisation, and the model has no such race.
\<close>


subsection \<open>From a new device to compressed data\<close>



end
